(* ===== verification/Prelude.thy ===== *)
theory Prelude
  imports Main "HOL-Library.Word"
begin

text \<open>
  Shared vocabulary of the development: the names of the machine integers, byte strings and
  times, little-endian coding of \<open>u16\<close> and \<open>u32\<close> (Rust's \<open>to_le_bytes\<close> and
  \<open>from_le_bytes\<close>), the bit facts the button sets and the CRC need, list facts, and the
  collections of rewrite rules the component theories extend.
\<close>

unbundle bit_operations_syntax

section \<open>Types and collections\<close>

type_synonym u8 = "8 word"
type_synonym u16 = "16 word"
type_synonym u32 = "32 word"
type_synonym bytes = "u8 list"

text \<open>A \<open>std::time::Duration\<close> or \<open>Instant\<close>, in nanoseconds since an arbitrary origin.\<close>

type_synonym nanos = nat

abbreviation millis :: "nat \<Rightarrow> nanos" where
  "millis n \<equiv> n * 1000000"

named_theorems wire_simps \<open>coding of integers into bytes and back\<close>
named_theorems set_simps \<open>membership in the bit sets of buttons\<close>
named_theorems queue_simps \<open>field updates of the input queues\<close>

section \<open>Little-endian integers\<close>

definition u16_to_le :: "u16 \<Rightarrow> bytes" where
  "u16_to_le x = [ucast x, ucast (drop_bit 8 x)]"

definition u16_from_le :: "u8 \<Rightarrow> u8 \<Rightarrow> u16" where
  "u16_from_le a b = ucast a OR push_bit 8 (ucast b)"

definition u32_to_le :: "u32 \<Rightarrow> bytes" where
  "u32_to_le x = [ucast x, ucast (drop_bit 8 x), ucast (drop_bit 16 x), ucast (drop_bit 24 x)]"

definition u32_from_le :: "u8 \<Rightarrow> u8 \<Rightarrow> u8 \<Rightarrow> u8 \<Rightarrow> u32" where
  "u32_from_le a b c d =
     ucast a OR push_bit 8 (ucast b) OR push_bit 16 (ucast c) OR push_bit 24 (ucast d)"

text \<open>\<open>bytes.get(..4).map(u32::from_le_bytes)\<close>: the first four bytes, if there are four.\<close>

fun get_u32 :: "bytes \<Rightarrow> u32 option" where
  "get_u32 (a # b # c # d # _) = Some (u32_from_le a b c d)"
| "get_u32 _ = None"

lemma length_u16_to_le [simp]: "length (u16_to_le x) = 2"
  by (simp add: u16_to_le_def)

lemma length_u32_to_le [simp]: "length (u32_to_le x) = 4"
  by (simp add: u32_to_le_def)

lemma u16_le_roundtrip [simp, wire_simps]:
  "u16_from_le (ucast x) (ucast (drop_bit 8 x)) = x"
  by (rule bit_word_eqI) (auto simp: u16_from_le_def bit_simps)

lemma not_bit_u8_high [simp]: "\<not> bit (a :: u8) (8 + n)"
  using bit_imp_le_length [of a "8 + n"] by auto

lemma u16_le_bytes [wire_simps]:
  "u16_to_le (u16_from_le a b) = [a, b]"
  by (auto intro!: bit_word_eqI simp: u16_to_le_def u16_from_le_def bit_simps)

lemma u32_le_roundtrip [simp, wire_simps]:
  "u32_from_le (ucast x) (ucast (drop_bit 8 x)) (ucast (drop_bit 16 x)) (ucast (drop_bit 24 x)) = x"
proof (rule bit_word_eqI)
  fix n
  assume "n < LENGTH(32)"
  then consider "n < 8" | "8 \<le> n" "n < 16" | "16 \<le> n" "n < 24" | "24 \<le> n" "n < 32"
    by fastforce
  then show "bit (u32_from_le (ucast x) (ucast (drop_bit 8 x)) (ucast (drop_bit 16 x))
      (ucast (drop_bit 24 x))) n = bit x n"
    by cases (auto simp: u32_from_le_def bit_simps)
qed

lemma get_u32_to_le [simp, wire_simps]: "get_u32 (u32_to_le x @ rest) = Some x"
  by (simp add: u32_to_le_def)

lemma get_u32_to_le_exact [simp, wire_simps]: "get_u32 (u32_to_le x) = Some x"
  using get_u32_to_le [of x "[]"] by simp

lemma u32_to_le_inject [simp]: "u32_to_le x = u32_to_le y \<longleftrightarrow> x = y"
proof
  assume "u32_to_le x = u32_to_le y"
  then have "get_u32 (u32_to_le x) = get_u32 (u32_to_le y)" by simp
  then show "x = y" by simp
qed simp

lemma get_u32_None_iff: "get_u32 bs = None \<longleftrightarrow> length bs < 4"
proof (cases bs rule: get_u32.cases)
  case (1 a b c d rest)
  then show ?thesis by simp
qed simp_all

section \<open>Single bits\<close>

lemma and_push_bit_1_iff:
  "x AND push_bit n 1 \<noteq> (0 :: 'a::len word) \<longleftrightarrow> bit x n"
proof
  assume "x AND push_bit n 1 \<noteq> 0"
  then obtain m where "bit (x AND push_bit n 1) m"
    by (metis bit_0_eq bit_eq_iff bot_apply bot_bool_def)
  then show "bit x n"
    by (auto simp: bit_simps)
next
  assume b: "bit x n"
  then have "n < LENGTH('a)"
    by (rule bit_imp_le_length)
  with b have "bit (x AND push_bit n 1) n"
    by (simp add: bit_simps)
  then show "x AND push_bit n 1 \<noteq> 0"
    by auto
qed

lemma bit_or_push_bit_1:
  "m < LENGTH('a) \<Longrightarrow>
    bit (x OR push_bit m 1 :: 'a::len word) n \<longleftrightarrow> bit x n \<or> n = m"
  by (auto simp: bit_simps)

text \<open>A mask collected by a loop \<open>for i in is { if p(i) { mask |= 1 << i } }\<close>.\<close>

definition mask_where :: "(nat \<Rightarrow> bool) \<Rightarrow> 'a::len word \<Rightarrow> nat list \<Rightarrow> 'a word" where
  "mask_where p m is = foldl (\<lambda>m i. if p i then m OR push_bit i 1 else m) m is"

lemma bit_mask_where:
  assumes "n < LENGTH('a)"
  shows "bit (mask_where p m is :: 'a::len word) n \<longleftrightarrow> bit m n \<or> n \<in> set is \<and> p n"
  using assms by (induction "is" arbitrary: m) (auto simp: mask_where_def bit_simps)

lemma u32_neq_0_bit: "(m :: u32) \<noteq> 0 \<longleftrightarrow> (\<exists>i<32. bit m i)"
  by (auto simp: bit_eq_iff dest: bit_imp_le_length)

section \<open>Lists\<close>

lemma dropWhile_eq_Nil_iff: "dropWhile P xs = [] \<longleftrightarrow> (\<forall>x\<in>set xs. P x)"
  by (induction xs) auto

lemma dropWhile_ConsD: "dropWhile P xs = y # ys \<Longrightarrow> \<not> P y"
  by (induction xs) (auto split: if_splits)

lemma length_dropWhile_less: "length (dropWhile P xs) \<le> length xs"
  by (induction xs) auto

lemma foldl_append_step: "foldl f (foldl f s xs) ys = foldl f s (xs @ ys)"
  by simp

lemma nth_append_take: "i < length xs \<Longrightarrow> (xs @ ys) ! i = xs ! i"
  by (simp add: nth_append)

end
