(* ===== verification/Bit_Sets.thy ===== *)
theory Bit_Sets
  imports Prelude
begin

text \<open>
  The interface of the two sets of held buttons (\<open>ButtonSet(u16)\<close> of
  crates/core/src/controller.rs and \<open>SwitchButtons(u32)\<close> of crates/core/src/switch.rs): an
  element has a bit index, \<open>contains\<close> tests it and \<open>with\<close> sets it. What both types derive
  from these two operations (collecting from an iterator, listing in the order of \<open>ALL\<close>,
  rebuilding from the list) is proved once here.
\<close>

locale bit_set =
  fixes idx :: "'b \<Rightarrow> nat"
    and contains :: "'w::len word \<Rightarrow> 'b \<Rightarrow> bool"
    and add :: "'w word \<Rightarrow> 'b \<Rightarrow> 'w word"
  assumes idx_inj: "idx a = idx b \<Longrightarrow> a = b"
    and idx_bound: "idx b < LENGTH('w)"
    and contains_bit: "contains s b \<longleftrightarrow> bit s (idx b)"
    and add_bit: "bit (add s b) n \<longleftrightarrow> bit s n \<or> n = idx b"
begin

lemma contains_empty: "\<not> contains 0 b"
  by (simp add: contains_bit)

lemma contains_add: "contains (add s a) b \<longleftrightarrow> contains s b \<or> b = a"
  by (auto simp: contains_bit add_bit dest: idx_inj)

lemma bit_collect: "bit (foldl add s bs) n \<longleftrightarrow> bit s n \<or> n \<in> idx ` set bs"
  by (induction bs arbitrary: s) (auto simp: add_bit)

lemma contains_collect: "contains (foldl add s bs) b \<longleftrightarrow> contains s b \<or> b \<in> set bs"
  by (auto simp: contains_bit bit_collect dest: idx_inj)

lemma collect_cong: "set xs = set ys \<Longrightarrow> foldl add s xs = foldl add s ys"
  by (rule bit_word_eqI) (simp add: bit_collect)

lemma collect_duplicate: "b \<in> set bs \<Longrightarrow> add (foldl add s bs) b = foldl add s bs"
  by (rule bit_word_eqI) (auto simp: add_bit bit_collect)

text \<open>Listing a set in the order of \<open>all\<close> and collecting the list again keeps exactly the
  bits of \<open>all\<close>.\<close>

lemma bit_collect_filter:
  "bit (foldl add 0 (filter (contains s) all)) n \<longleftrightarrow> bit s n \<and> n \<in> idx ` set all"
  by (auto simp: bit_collect contains_bit)

lemma filter_collect:
  assumes "set bs \<subseteq> set all"
  shows "set (filter (contains (foldl add 0 bs)) all) = set bs"
  using assms by (auto simp: contains_collect contains_empty)

lemma empty_iff_none: "set all = UNIV \<Longrightarrow> (\<And>n. bit s n \<Longrightarrow> n \<in> range idx) \<Longrightarrow>
    s = 0 \<longleftrightarrow> filter (contains s) all = []"
  by (auto simp: contains_bit filter_empty_conv intro!: bit_word_eqI)

end

end
