(* ===== verification/Controller.thy ===== *)
theory Controller
  imports Bit_Sets
begin

text \<open>
  crates/core/src/controller.rs: the GBA buttons, the set of simultaneously held buttons (a
  \<open>u16\<close>), their textual form, and the expansion of a \<open>ControllerCommand\<close> into the timeline
  every adapter reproduces. \<open>Error\<close> is crates/core/src/error.rs, with the payloads reduced to
  the text that was rejected.
\<close>

section \<open>Errors\<close>

datatype error =
    Io string
  | InvalidImage string
  | EndOfStream
  | Disconnected string
  | Device string
  | Unsupported string
  | InvalidData string

section \<open>Buttons\<close>

datatype button =
    Button_A | Button_B | Button_L | Button_R | Button_Start | Button_Select
  | Button_Up | Button_Down | Button_Left | Button_Right | Button_Home

definition all_buttons :: "button list" where
  "all_buttons =
     [Button_A, Button_B, Button_L, Button_R, Button_Start, Button_Select,
      Button_Up, Button_Down, Button_Left, Button_Right]"

text \<open>The discriminant (\<open>self as u16\<close>).\<close>

fun button_index :: "button \<Rightarrow> nat" where
  "button_index Button_A = 0"
| "button_index Button_B = 1"
| "button_index Button_L = 2"
| "button_index Button_R = 3"
| "button_index Button_Start = 4"
| "button_index Button_Select = 5"
| "button_index Button_Up = 6"
| "button_index Button_Down = 7"
| "button_index Button_Left = 8"
| "button_index Button_Right = 9"
| "button_index Button_Home = 10"

definition button_bit :: "button \<Rightarrow> u16" where
  "button_bit b = push_bit (button_index b) 1"

text \<open>The derived \<open>Debug\<close>, which \<open>Display\<close> forwards to.\<close>

fun button_name :: "button \<Rightarrow> string" where
  "button_name Button_A = ''A''"
| "button_name Button_B = ''B''"
| "button_name Button_L = ''L''"
| "button_name Button_R = ''R''"
| "button_name Button_Start = ''Start''"
| "button_name Button_Select = ''Select''"
| "button_name Button_Up = ''Up''"
| "button_name Button_Down = ''Down''"
| "button_name Button_Left = ''Left''"
| "button_name Button_Right = ''Right''"
| "button_name Button_Home = ''Home''"

text \<open>\<open>str::eq_ignore_ascii_case\<close>.\<close>

definition ascii_lower :: "char \<Rightarrow> char" where
  "ascii_lower c =
     (let n = of_char c :: nat in if 65 \<le> n \<and> n \<le> 90 then char_of (n + 32) else c)"

definition eq_ignore_case :: "string \<Rightarrow> string \<Rightarrow> bool" where
  "eq_ignore_case s t \<longleftrightarrow> map ascii_lower s = map ascii_lower t"

definition parse_button :: "string \<Rightarrow> error + button" where
  "parse_button s =
     (case find (\<lambda>b. eq_ignore_case (button_name b) s) (all_buttons @ [Button_Home]) of
        Some b \<Rightarrow> Inr b
      | None \<Rightarrow> Inl (InvalidData s))"

section \<open>Sets of held buttons\<close>

type_synonym button_set = u16

definition bs_none :: button_set where
  "bs_none = 0"

definition bs_contains :: "button_set \<Rightarrow> button \<Rightarrow> bool" where
  "bs_contains s b \<longleftrightarrow> s AND button_bit b \<noteq> 0"

definition bs_with :: "button_set \<Rightarrow> button \<Rightarrow> button_set" where
  "bs_with s b = s OR button_bit b"

definition bs_is_empty :: "button_set \<Rightarrow> bool" where
  "bs_is_empty s \<longleftrightarrow> s = 0"

definition bs_iter :: "button_set \<Rightarrow> button list" where
  "bs_iter s = filter (bs_contains s) all_buttons"

definition bs_single :: "button \<Rightarrow> button_set" where
  "bs_single b = button_bit b"

definition bs_collect :: "button list \<Rightarrow> button_set" where
  "bs_collect bs = foldl bs_with bs_none bs"

text \<open>The serde form: \<open>From<ButtonSet> for Vec<Button>\<close> and back.\<close>

definition bs_to_vec :: "button_set \<Rightarrow> button list" where
  "bs_to_vec s = bs_iter s"

definition bs_from_vec :: "button list \<Rightarrow> button_set" where
  "bs_from_vec bs = bs_collect bs"

subsection \<open>Text form\<close>

text \<open>\<open>[String]::join("+")\<close> and \<open>str::split('+')\<close>; splitting the empty string gives one
  empty piece.\<close>

fun join_with :: "char \<Rightarrow> string list \<Rightarrow> string" where
  "join_with c [] = []"
| "join_with c [s] = s"
| "join_with c (s # t # ss) = s @ c # join_with c (t # ss)"

fun split_on :: "char \<Rightarrow> string \<Rightarrow> string list" where
  "split_on c [] = [[]]"
| "split_on c (x # xs) =
     (if x = c then [] # split_on c xs
      else case split_on c xs of [] \<Rightarrow> [[x]] | p # ps \<Rightarrow> (x # p) # ps)"

definition display_bs :: "button_set \<Rightarrow> string" where
  "display_bs s =
     (if bs_is_empty s then ''none'' else join_with CHR ''+'' (map button_name (bs_iter s)))"

text \<open>\<open>Iterator::collect\<close> into a \<open>Result\<close>: the first error ends the collection.\<close>

fun collect_results :: "(error + 'a) list \<Rightarrow> error + 'a list" where
  "collect_results [] = Inr []"
| "collect_results (Inl e # _) = Inl e"
| "collect_results (Inr x # rs) =
     (case collect_results rs of Inl e \<Rightarrow> Inl e | Inr xs \<Rightarrow> Inr (x # xs))"

definition parse_bs :: "string \<Rightarrow> error + button_set" where
  "parse_bs s =
     (if eq_ignore_case s ''none'' then Inr bs_none
      else case collect_results (map parse_button (split_on CHR ''+'' s)) of
             Inl e \<Rightarrow> Inl e
           | Inr bs \<Rightarrow> Inr (bs_collect bs))"

section \<open>Commands and their timeline\<close>

record timed_input =
  ti_buttons :: button_set
  ti_duration :: nanos

record press_profile =
  press :: nanos
  release :: nanos

definition default_profile :: press_profile where
  "default_profile = \<lparr>press = millis 80, release = millis 80\<rparr>"

datatype controller_command =
    Press button
  | Chord button_set
  | Hold button_set nanos
  | Sequence "timed_input list"
  | Neutral

definition tap :: "press_profile \<Rightarrow> button_set \<Rightarrow> timed_input list" where
  "tap p s =
     [\<lparr>ti_buttons = s, ti_duration = press p\<rparr>,
      \<lparr>ti_buttons = bs_none, ti_duration = release p\<rparr>]"

fun timeline :: "controller_command \<Rightarrow> press_profile \<Rightarrow> timed_input list" where
  "timeline (Press b) p = tap p (bs_single b)"
| "timeline (Chord s) p = tap p s"
| "timeline (Hold s d) p = [\<lparr>ti_buttons = s, ti_duration = d\<rparr>]"
| "timeline (Sequence ts) p = ts"
| "timeline Neutral p = []"

text \<open>\<open>ConsoleLink\<close>: the controller's view of the console.\<close>

datatype console_link = Attached | Suspended | Detached | Unknown

section \<open>The bit sets\<close>

lemma button_index_inj: "button_index a = button_index b \<Longrightarrow> a = b"
  by (cases a; cases b) simp_all

lemma button_index_bound: "button_index b < 11"
  by (cases b) simp_all

interpretation gba: bit_set button_index bs_contains bs_with
proof unfold_locales
  show "button_index a = button_index b \<Longrightarrow> a = b" for a b
    by (rule button_index_inj)
  show idx: "button_index b < LENGTH(16)" for b
    using button_index_bound [of b] by simp
  show "bs_contains s b \<longleftrightarrow> bit s (button_index b)" for s b
    unfolding bs_contains_def button_bit_def by (rule and_push_bit_1_iff)
  show "bit (bs_with s b) n \<longleftrightarrow> bit s n \<or> n = button_index b" for s b n
    unfolding bs_with_def button_bit_def using idx by (rule bit_or_push_bit_1)
qed

lemmas bs_set_simps [set_simps] =
  gba.contains_empty [folded bs_none_def] gba.contains_add gba.contains_collect

lemma bs_collect_contains [set_simps]: "bs_contains (bs_collect bs) b \<longleftrightarrow> b \<in> set bs"
  by (simp add: bs_collect_def set_simps)

lemma bs_single_contains [set_simps]: "bs_contains (bs_single a) b \<longleftrightarrow> b = a"
  using gba.contains_add [of 0 a b] by (simp add: bs_single_def bs_with_def gba.contains_empty)

text \<open>The mask of the ten GBA buttons (\<open>Button::ALL\<close>).\<close>

definition gba_mask :: button_set where
  "gba_mask = mask 10"

lemma gba_indices: "button_index ` set all_buttons = {..<10}"
  by (auto simp: all_buttons_def lessThan_nat_numeral)

lemma bs_collect_iter: "bs_collect (bs_iter s) = s AND gba_mask"
  by (rule bit_word_eqI)
    (simp add: bs_collect_def bs_none_def bs_iter_def gba.bit_collect_filter gba_indices
      gba_mask_def bit_simps)

lemma set_bs_iter: "set (bs_iter s) = {b. bs_contains s b \<and> b \<noteq> Button_Home}"
proof -
  have "b \<in> set all_buttons \<longleftrightarrow> b \<noteq> Button_Home" for b
    by (cases b) (simp_all add: all_buttons_def)
  then show ?thesis by (auto simp: bs_iter_def)
qed

lemma button_set_eqI:
  assumes "\<And>b. bs_contains s b \<longleftrightarrow> bs_contains t b"
    and "\<And>n. 11 \<le> n \<Longrightarrow> \<not> bit s n" and "\<And>n. 11 \<le> n \<Longrightarrow> \<not> bit t n"
  shows "s = t"
proof (rule bit_word_eqI)
  fix n
  have idx: "\<exists>b. n = button_index b" if "n < 11"
  proof -
    have "n \<in> button_index ` set (all_buttons @ [Button_Home])"
      using that by (auto simp: all_buttons_def less_Suc_eq numeral_eq_Suc)
    then show ?thesis by blast
  qed
  show "bit s n \<longleftrightarrow> bit t n"
  proof (cases "n < 11")
    case True
    then obtain b where "n = button_index b" using idx by blast
    with assms(1) [of b] show ?thesis by (simp add: gba.contains_bit)
  next
    case False
    with assms(2,3) show ?thesis by simp
  qed
qed

lemma bs_collect_high:
  assumes "11 \<le> n"
  shows "\<not> bit (bs_collect bs) n"
proof -
  have "n \<noteq> button_index b" for b
    using assms button_index_bound [of b] by simp
  then show ?thesis by (auto simp: bs_collect_def bs_none_def gba.bit_collect)
qed

section \<open>Printing and parsing sets\<close>

lemma split_on_append: "c \<notin> set s \<Longrightarrow> split_on c (s @ c # t) = s # split_on c t"
  by (induction s) auto

lemma split_on_word: "c \<notin> set s \<Longrightarrow> split_on c s = [s]"
  by (induction s) auto

lemma split_join:
  "ss \<noteq> [] \<Longrightarrow> \<forall>s\<in>set ss. c \<notin> set s \<Longrightarrow> split_on c (join_with c ss) = ss"
  by (induction c ss rule: join_with.induct) (auto simp: split_on_append split_on_word)

lemma button_name_no_plus: "CHR ''+'' \<notin> set (button_name b)"
  by (cases b) simp_all

lemma parse_button_name: "parse_button (button_name b) = Inr b"
  by (cases b)
    (simp_all add: parse_button_def all_buttons_def eq_ignore_case_def ascii_lower_def Let_def)

lemma collect_results_Inr: "collect_results (map Inr xs) = Inr xs"
  by (induction xs) simp_all

lemma not_none_by_head:
  "s \<noteq> [] \<Longrightarrow> ascii_lower (hd s) \<noteq> CHR ''n'' \<Longrightarrow> \<not> eq_ignore_case s ''none''"
proof -
  have "ascii_lower CHR ''n'' = CHR ''n''" by (simp add: ascii_lower_def)
  then show "s \<noteq> [] \<Longrightarrow> ascii_lower (hd s) \<noteq> CHR ''n'' \<Longrightarrow> \<not> eq_ignore_case s ''none''"
    by (cases s) (simp_all add: eq_ignore_case_def)
qed

lemma button_name_nonempty: "button_name b \<noteq> []"
  by (cases b) simp_all

lemma button_name_head: "ascii_lower (hd (button_name b)) \<noteq> CHR ''n''"
  by (cases b) (simp_all add: ascii_lower_def Let_def char_of_def bit_iff_odd)

lemma join_head: "s \<noteq> [] \<Longrightarrow> join_with c (s # ss) \<noteq> [] \<and> hd (join_with c (s # ss)) = hd s"
  by (cases ss) simp_all

lemma display_not_none:
  assumes "bs \<noteq> []"
  shows "\<not> eq_ignore_case (join_with CHR ''+'' (map button_name bs)) ''none''"
proof -
  obtain b rest where "bs = b # rest" using assms by (cases bs) auto
  then show ?thesis
    using join_head [OF button_name_nonempty, of "CHR ''+''" b "map button_name rest"]
    by (intro not_none_by_head) (simp_all add: button_name_head)
qed

lemma parse_display_iter:
  assumes "bs_iter s \<noteq> []"
  shows "parse_bs (display_bs s) = Inr (s AND gba_mask)"
proof -
  have ne: "s \<noteq> 0"
    using assms gba.contains_empty by (auto simp: bs_iter_def filter_empty_conv)
  have split: "split_on CHR ''+'' (join_with CHR ''+'' (map button_name (bs_iter s)))
      = map button_name (bs_iter s)"
    using assms by (intro split_join) (auto simp: button_name_no_plus)
  have "parse_button \<circ> button_name = Inr"
    by (rule ext) (simp add: parse_button_name)
  with ne split display_not_none [OF assms] show ?thesis
    by (simp add: parse_bs_def display_bs_def bs_is_empty_def collect_results_Inr
        bs_collect_iter)
qed

lemma iter_empty_iff: "bs_iter s = [] \<longleftrightarrow> s AND gba_mask = 0"
proof
  assume "bs_iter s = []"
  then show "s AND gba_mask = 0"
    using bs_collect_iter [of s] by (simp add: bs_collect_def bs_none_def)
next
  assume "s AND gba_mask = 0"
  then have "bs_collect (bs_iter s) = 0" by (simp add: bs_collect_iter)
  then show "bs_iter s = []"
    using bs_collect_contains [of "bs_iter s"] gba.contains_empty
    by (metis last_in_set)
qed

text \<open>The text form of a button set reads back as the set of its GBA buttons: printing
  drops \<open>Home\<close> (\<open>iter\<close> walks \<open>Button::ALL\<close>), and a set of nothing but \<open>Home\<close> prints as the
  empty string, which the parser rejects.\<close>

lemma button_set_text_roundtrip:
  "parse_bs (display_bs s) =
     (if s \<noteq> 0 \<and> s AND gba_mask = 0 then Inl (InvalidData []) else Inr (s AND gba_mask))"
proof (cases "s AND gba_mask = 0")
  case True
  then have iter: "bs_iter s = []" by (simp add: iter_empty_iff)
  have "parse_button [] = Inl (InvalidData [])"
    by (simp add: parse_button_def all_buttons_def eq_ignore_case_def)
  with True iter show ?thesis
    by (simp add: parse_bs_def display_bs_def bs_is_empty_def bs_none_def eq_ignore_case_def)
next
  case False
  then show ?thesis by (simp add: iter_empty_iff [symmetric] parse_display_iter)
qed

end
