(* ===== verification/Switch_Layout.thy ===== *)
theory Switch_Layout
  imports Controller
begin

text \<open>
  crates/core/src/switch.rs: the full Nintendo Switch controller (\<open>SwitchButton\<close>,
  \<open>SwitchButtons\<close>, \<open>Stick\<close>, \<open>SwitchState\<close>, \<open>SwitchCommand\<close>) and the adapter that plays
  the bot's GBA commands on it (\<open>gba_to_switch\<close>, the \<open>From\<close> conversions, \<open>gba_buttons\<close>).
\<close>

section \<open>Buttons\<close>

datatype switch_button =
    Switch_Y | Switch_B | Switch_A | Switch_X | Switch_L | Switch_R | Switch_ZL | Switch_ZR
  | Switch_Minus | Switch_Plus | Switch_LStick | Switch_RStick | Switch_Home | Switch_Capture
  | Switch_Up | Switch_Down | Switch_Left | Switch_Right

definition all_switch_buttons :: "switch_button list" where
  "all_switch_buttons =
     [Switch_Y, Switch_B, Switch_A, Switch_X, Switch_L, Switch_R, Switch_ZL, Switch_ZR,
      Switch_Minus, Switch_Plus, Switch_LStick, Switch_RStick, Switch_Home, Switch_Capture,
      Switch_Up, Switch_Down, Switch_Left, Switch_Right]"

fun switch_index :: "switch_button \<Rightarrow> nat" where
  "switch_index Switch_Y = 0"
| "switch_index Switch_B = 1"
| "switch_index Switch_A = 2"
| "switch_index Switch_X = 3"
| "switch_index Switch_L = 4"
| "switch_index Switch_R = 5"
| "switch_index Switch_ZL = 6"
| "switch_index Switch_ZR = 7"
| "switch_index Switch_Minus = 8"
| "switch_index Switch_Plus = 9"
| "switch_index Switch_LStick = 10"
| "switch_index Switch_RStick = 11"
| "switch_index Switch_Home = 12"
| "switch_index Switch_Capture = 13"
| "switch_index Switch_Up = 14"
| "switch_index Switch_Down = 15"
| "switch_index Switch_Left = 16"
| "switch_index Switch_Right = 17"

definition switch_bit :: "switch_button \<Rightarrow> u32" where
  "switch_bit b = push_bit (switch_index b) 1"

fun switch_name :: "switch_button \<Rightarrow> string" where
  "switch_name Switch_Y = ''Y''"
| "switch_name Switch_B = ''B''"
| "switch_name Switch_A = ''A''"
| "switch_name Switch_X = ''X''"
| "switch_name Switch_L = ''L''"
| "switch_name Switch_R = ''R''"
| "switch_name Switch_ZL = ''ZL''"
| "switch_name Switch_ZR = ''ZR''"
| "switch_name Switch_Minus = ''Minus''"
| "switch_name Switch_Plus = ''Plus''"
| "switch_name Switch_LStick = ''LStick''"
| "switch_name Switch_RStick = ''RStick''"
| "switch_name Switch_Home = ''Home''"
| "switch_name Switch_Capture = ''Capture''"
| "switch_name Switch_Up = ''Up''"
| "switch_name Switch_Down = ''Down''"
| "switch_name Switch_Left = ''Left''"
| "switch_name Switch_Right = ''Right''"

definition parse_switch_button :: "string \<Rightarrow> error + switch_button" where
  "parse_switch_button s =
     (case find (\<lambda>b. eq_ignore_case (switch_name b) s) all_switch_buttons of
        Some b \<Rightarrow> Inr b
      | None \<Rightarrow> Inl (InvalidData s))"

section \<open>Sets of held Switch buttons\<close>

type_synonym switch_buttons = u32

definition sb_none :: switch_buttons where
  "sb_none = 0"

definition sb_contains :: "switch_buttons \<Rightarrow> switch_button \<Rightarrow> bool" where
  "sb_contains s b \<longleftrightarrow> s AND switch_bit b \<noteq> 0"

definition sb_with :: "switch_buttons \<Rightarrow> switch_button \<Rightarrow> switch_buttons" where
  "sb_with s b = s OR switch_bit b"

definition sb_is_empty :: "switch_buttons \<Rightarrow> bool" where
  "sb_is_empty s \<longleftrightarrow> s = 0"

definition sb_iter :: "switch_buttons \<Rightarrow> switch_button list" where
  "sb_iter s = filter (sb_contains s) all_switch_buttons"

definition sb_single :: "switch_button \<Rightarrow> switch_buttons" where
  "sb_single b = switch_bit b"

definition sb_collect :: "switch_button list \<Rightarrow> switch_buttons" where
  "sb_collect bs = foldl sb_with sb_none bs"

definition display_sb :: "switch_buttons \<Rightarrow> string" where
  "display_sb s =
     (if sb_is_empty s then ''none'' else join_with CHR ''+'' (map switch_name (sb_iter s)))"

definition parse_sb :: "string \<Rightarrow> error + switch_buttons" where
  "parse_sb s =
     (if eq_ignore_case s ''none'' then Inr sb_none
      else case collect_results (map parse_switch_button (split_on CHR ''+'' s)) of
             Inl e \<Rightarrow> Inl e
           | Inr bs \<Rightarrow> Inr (sb_collect bs))"

section \<open>Sticks and states\<close>

record stick =
  stick_x :: u8
  stick_y :: u8

definition stick_center :: stick where
  "stick_center = \<lparr>stick_x = 128, stick_y = 128\<rparr>"

definition stick_up :: stick where
  "stick_up = \<lparr>stick_x = 128, stick_y = 0\<rparr>"

definition stick_down :: stick where
  "stick_down = \<lparr>stick_x = 128, stick_y = 255\<rparr>"

definition stick_left :: stick where
  "stick_left = \<lparr>stick_x = 0, stick_y = 128\<rparr>"

definition stick_right :: stick where
  "stick_right = \<lparr>stick_x = 255, stick_y = 128\<rparr>"

record switch_state =
  sw_buttons :: switch_buttons
  left_stick :: stick
  right_stick :: stick

definition state_neutral :: switch_state where
  "state_neutral =
     \<lparr>sw_buttons = sb_none, left_stick = stick_center, right_stick = stick_center\<rparr>"

definition is_neutral :: "switch_state \<Rightarrow> bool" where
  "is_neutral st \<longleftrightarrow> st = state_neutral"

definition state_of_buttons :: "switch_buttons \<Rightarrow> switch_state" where
  "state_of_buttons bs = state_neutral\<lparr>sw_buttons := bs\<rparr>"

definition state_of_button :: "switch_button \<Rightarrow> switch_state" where
  "state_of_button b = state_of_buttons (sb_single b)"

section \<open>Commands and their timeline\<close>

record timed_switch_input =
  tsi_state :: switch_state
  tsi_duration :: nanos

datatype switch_command =
    SPress switch_button
  | SChord switch_buttons
  | SHold switch_state nanos
  | SSequence "timed_switch_input list"
  | SNeutral

definition switch_tap :: "press_profile \<Rightarrow> switch_state \<Rightarrow> timed_switch_input list" where
  "switch_tap p st =
     [\<lparr>tsi_state = st, tsi_duration = press p\<rparr>,
      \<lparr>tsi_state = state_neutral, tsi_duration = release p\<rparr>]"

fun switch_timeline :: "switch_command \<Rightarrow> press_profile \<Rightarrow> timed_switch_input list" where
  "switch_timeline (SPress b) p = switch_tap p (state_of_button b)"
| "switch_timeline (SChord bs) p = switch_tap p (state_of_buttons bs)"
| "switch_timeline (SHold st d) p = [\<lparr>tsi_state = st, tsi_duration = d\<rparr>]"
| "switch_timeline (SSequence ts) p = ts"
| "switch_timeline SNeutral p = []"

section \<open>The GBA layout\<close>

fun gba_to_switch :: "button \<Rightarrow> switch_button" where
  "gba_to_switch Button_A = Switch_A"
| "gba_to_switch Button_B = Switch_B"
| "gba_to_switch Button_L = Switch_L"
| "gba_to_switch Button_R = Switch_R"
| "gba_to_switch Button_Start = Switch_Plus"
| "gba_to_switch Button_Select = Switch_Minus"
| "gba_to_switch Button_Home = Switch_Home"
| "gba_to_switch Button_Up = Switch_Up"
| "gba_to_switch Button_Down = Switch_Down"
| "gba_to_switch Button_Left = Switch_Left"
| "gba_to_switch Button_Right = Switch_Right"

definition sb_of_bs :: "button_set \<Rightarrow> switch_buttons" where
  "sb_of_bs s = sb_collect (map gba_to_switch (bs_iter s))"

definition state_of_bs :: "button_set \<Rightarrow> switch_state" where
  "state_of_bs s = state_of_buttons (sb_of_bs s)"

definition gba_buttons :: "switch_state \<Rightarrow> button_set" where
  "gba_buttons st =
     bs_collect (filter (\<lambda>b. sb_contains (sw_buttons st) (gba_to_switch b)) all_buttons)"

fun switch_command_of :: "controller_command \<Rightarrow> switch_command" where
  "switch_command_of (Press b) = SPress (gba_to_switch b)"
| "switch_command_of (Chord s) = SChord (sb_of_bs s)"
| "switch_command_of (Hold s d) = SHold (state_of_bs s) d"
| "switch_command_of (Sequence ts) =
     SSequence (map (\<lambda>t. \<lparr>tsi_state = state_of_bs (ti_buttons t),
                          tsi_duration = ti_duration t\<rparr>) ts)"
| "switch_command_of Neutral = SNeutral"

text \<open>\<open>GbaOnSwitch::execute\<close>, over the wrapped device's \<open>execute\<close>.\<close>

definition gba_on_switch_execute ::
  "('d \<Rightarrow> switch_command \<Rightarrow> 'r \<times> 'd) \<Rightarrow> 'd \<Rightarrow> controller_command \<Rightarrow> 'r \<times> 'd" where
  "gba_on_switch_execute execute d c = execute d (switch_command_of c)"

section \<open>The bit sets\<close>

lemma switch_index_inj: "switch_index a = switch_index b \<Longrightarrow> a = b"
  by (cases a; cases b) simp_all

lemma switch_index_bound: "switch_index b < 18"
  by (cases b) simp_all

interpretation pad: bit_set switch_index sb_contains sb_with
proof unfold_locales
  show "switch_index a = switch_index b \<Longrightarrow> a = b" for a b
    by (rule switch_index_inj)
  show idx: "switch_index b < LENGTH(32)" for b
    using switch_index_bound [of b] by simp
  show "sb_contains s b \<longleftrightarrow> bit s (switch_index b)" for s b
    unfolding sb_contains_def switch_bit_def by (rule and_push_bit_1_iff)
  show "bit (sb_with s b) n \<longleftrightarrow> bit s n \<or> n = switch_index b" for s b n
    unfolding sb_with_def switch_bit_def using idx by (rule bit_or_push_bit_1)
qed

lemma all_switch_buttons_UNIV: "set all_switch_buttons = UNIV"
proof -
  have "b \<in> set all_switch_buttons" for b
    by (cases b) (simp_all add: all_switch_buttons_def)
  then show ?thesis by auto
qed

lemmas sb_set_simps [set_simps] =
  pad.contains_empty [folded sb_none_def] pad.contains_add pad.contains_collect

lemma sb_collect_contains [set_simps]: "sb_contains (sb_collect bs) b \<longleftrightarrow> b \<in> set bs"
  by (simp add: sb_collect_def set_simps)

lemma sb_single_contains [set_simps]: "sb_contains (sb_single a) b \<longleftrightarrow> b = a"
  using pad.contains_add [of 0 a b] by (simp add: sb_single_def sb_with_def pad.contains_empty)

lemma gba_to_switch_inject [simp]: "gba_to_switch a = gba_to_switch b \<longleftrightarrow> a = b"
  by (cases a; cases b) simp_all

lemma gba_to_switch_Home_iff [simp]: "Switch_Home = gba_to_switch b \<longleftrightarrow> b = Button_Home"
  by (cases b) simp_all

lemma sb_of_bs_contains [set_simps]:
  "sb_contains (sb_of_bs s) (gba_to_switch b) \<longleftrightarrow> bs_contains s b \<and> b \<noteq> Button_Home"
  by (auto simp: sb_of_bs_def set_simps set_bs_iter)

lemma gba_buttons_state_of_bs: "gba_buttons (state_of_bs s) = s AND gba_mask"
proof -
  have "filter (\<lambda>b. sb_contains (sb_of_bs s) (gba_to_switch b)) all_buttons = bs_iter s"
    unfolding bs_iter_def
    by (rule filter_cong [OF refl]) (auto simp: set_simps all_buttons_def)
  then show ?thesis
    by (simp add: gba_buttons_def state_of_bs_def state_of_buttons_def bs_collect_iter)
qed

lemma gba_buttons_of_button:
  "gba_buttons (state_of_button (gba_to_switch b)) = bs_single b AND gba_mask"
proof (rule button_set_eqI)
  show "bs_contains (gba_buttons (state_of_button (gba_to_switch b))) c
      \<longleftrightarrow> bs_contains (bs_single b AND gba_mask) c" for c
    by (cases c; simp add: gba_buttons_def state_of_button_def state_of_buttons_def set_simps
        bs_collect_iter [symmetric] set_bs_iter all_buttons_def)
  show "11 \<le> n \<Longrightarrow> \<not> bit (gba_buttons (state_of_button (gba_to_switch b))) n" for n
    by (simp add: gba_buttons_def bs_collect_high)
  show "11 \<le> n \<Longrightarrow> \<not> bit (bs_single b AND gba_mask) n" for n
    by (simp add: gba_mask_def bit_simps)
qed

lemma gba_buttons_neutral: "gba_buttons state_neutral = 0"
  using gba_buttons_state_of_bs [of 0]
  by (simp add: state_of_bs_def state_of_buttons_def sb_of_bs_def bs_iter_def
      gba.contains_empty sb_collect_def state_neutral_def)

text \<open>C39: played on a Switch controller, a GBA command holds the same GBA buttons for the same
  time at every point of its timeline: what the GBA app reads back from the Switch states
  (\<open>gba_buttons\<close>) is the commanded set on the ten GBA buttons, segment by segment.\<close>

theorem gba_timeline_preserved:
  "map (\<lambda>t. (gba_buttons (tsi_state t), tsi_duration t)) (switch_timeline (switch_command_of c) p) =
   map (\<lambda>t. (ti_buttons t AND gba_mask, ti_duration t)) (timeline c p)"
proof (cases c)
  case (Chord s)
  then show ?thesis
    using gba_buttons_state_of_bs [of s]
    by (simp add: switch_tap_def tap_def state_of_bs_def gba_buttons_neutral bs_none_def)
qed (simp_all add: switch_tap_def tap_def gba_buttons_of_button gba_buttons_neutral
    gba_buttons_state_of_bs bs_none_def)

end
