(* ===== verification/Hid_Report.thy ===== *)
theory Hid_Report
  imports Switch_Layout
begin

text \<open>
  crates/remote/src/hid.rs: the 8-byte USB HID input report of the HORI Pokken wired controller
  the firmware presents to the Switch: 14 buttons in 16 bits, the D-pad as a hat switch, and
  both sticks; \<open>from_state\<close>/\<open>to_state\<close> and \<open>to_bytes\<close>/\<open>from_bytes\<close>.
\<close>

definition report_descriptor :: bytes where
  "report_descriptor =
     [0x05, 0x01, 0x09, 0x05, 0xA1, 0x01, 0x15, 0x00, 0x25, 0x01, 0x35, 0x00, 0x45, 0x01,
      0x75, 0x01, 0x95, 0x10, 0x05, 0x09, 0x19, 0x01, 0x29, 0x10, 0x81, 0x02, 0x05, 0x01,
      0x25, 0x07, 0x46, 0x3B, 0x01, 0x75, 0x04, 0x95, 0x01, 0x65, 0x14, 0x09, 0x39, 0x81,
      0x42, 0x65, 0x00, 0x95, 0x01, 0x81, 0x01, 0x26, 0xFF, 0x00, 0x46, 0xFF, 0x00, 0x09,
      0x30, 0x09, 0x31, 0x09, 0x32, 0x09, 0x35, 0x75, 0x08, 0x95, 0x04, 0x81, 0x02, 0x06,
      0x00, 0xFF, 0x09, 0x20, 0x95, 0x01, 0x81, 0x02, 0x0A, 0x21, 0x26, 0x95, 0x08, 0x91,
      0x02, 0xC0]"

text \<open>Bit of each button in the 16-bit button field; the D-pad is the hat switch instead.\<close>

fun hid_bit_index :: "switch_button \<Rightarrow> nat option" where
  "hid_bit_index Switch_Y = Some 0"
| "hid_bit_index Switch_B = Some 1"
| "hid_bit_index Switch_A = Some 2"
| "hid_bit_index Switch_X = Some 3"
| "hid_bit_index Switch_L = Some 4"
| "hid_bit_index Switch_R = Some 5"
| "hid_bit_index Switch_ZL = Some 6"
| "hid_bit_index Switch_ZR = Some 7"
| "hid_bit_index Switch_Minus = Some 8"
| "hid_bit_index Switch_Plus = Some 9"
| "hid_bit_index Switch_LStick = Some 10"
| "hid_bit_index Switch_RStick = Some 11"
| "hid_bit_index Switch_Home = Some 12"
| "hid_bit_index Switch_Capture = Some 13"
| "hid_bit_index Switch_Up = None"
| "hid_bit_index Switch_Down = None"
| "hid_bit_index Switch_Left = None"
| "hid_bit_index Switch_Right = None"

definition hid_button_bit :: "switch_button \<Rightarrow> u16 option" where
  "hid_button_bit b = map_option (\<lambda>n. push_bit n 1) (hid_bit_index b)"

definition hat_neutral :: u8 where
  "hat_neutral = 8"

text \<open>Opposite directions cancel. The differences of the casts are \<open>i8\<close> values in -1..1.\<close>

definition hat :: "bool \<Rightarrow> bool \<Rightarrow> bool \<Rightarrow> bool \<Rightarrow> u8" where
  "hat up down left right =
     (let vertical = of_bool up - of_bool down :: int;
          horizontal = of_bool right - of_bool left :: int
      in if vertical = 1 \<and> horizontal = 0 then 0
         else if vertical = 1 \<and> horizontal = 1 then 1
         else if vertical = 0 \<and> horizontal = 1 then 2
         else if vertical = -1 \<and> horizontal = 1 then 3
         else if vertical = -1 \<and> horizontal = 0 then 4
         else if vertical = -1 \<and> horizontal = -1 then 5
         else if vertical = 0 \<and> horizontal = -1 then 6
         else if vertical = 1 \<and> horizontal = -1 then 7
         else hat_neutral)"

record switch_report =
  rp_buttons :: u16
  rp_hat :: u8
  rp_lx :: u8
  rp_ly :: u8
  rp_rx :: u8
  rp_ry :: u8

definition report_neutral :: switch_report where
  "report_neutral =
     \<lparr>rp_buttons = 0, rp_hat = hat_neutral,
      rp_lx = stick_x stick_center, rp_ly = stick_y stick_center,
      rp_rx = stick_x stick_center, rp_ry = stick_y stick_center\<rparr>"

definition report_from_state :: "switch_state \<Rightarrow> switch_report" where
  "report_from_state st =
     (let pressed = sb_contains (sw_buttons st)
      in \<lparr>rp_buttons = foldl (OR) 0 (List.map_filter hid_button_bit (sb_iter (sw_buttons st))),
          rp_hat = hat (pressed Switch_Up) (pressed Switch_Down)
                     (pressed Switch_Left) (pressed Switch_Right),
          rp_lx = stick_x (left_stick st), rp_ly = stick_y (left_stick st),
          rp_rx = stick_x (right_stick st), rp_ry = stick_y (right_stick st)\<rparr>)"

text \<open>The directions of a hat value: (up, right, down, left).\<close>

definition hat_directions :: "u8 \<Rightarrow> bool \<times> bool \<times> bool \<times> bool" where
  "hat_directions h =
     (if h = 0 then (True, False, False, False)
      else if h = 1 then (True, True, False, False)
      else if h = 2 then (False, True, False, False)
      else if h = 3 then (False, True, True, False)
      else if h = 4 then (False, False, True, False)
      else if h = 5 then (False, False, True, True)
      else if h = 6 then (False, False, False, True)
      else if h = 7 then (True, False, False, True)
      else (False, False, False, False))"

definition report_to_state :: "switch_report \<Rightarrow> switch_state" where
  "report_to_state r =
     (let buttons = sb_collect (filter (\<lambda>b. case hid_button_bit b of
                       Some m \<Rightarrow> rp_buttons r AND m \<noteq> 0 | None \<Rightarrow> False) all_switch_buttons);
          (up, right, down, left) = hat_directions (rp_hat r);
          buttons = foldl (\<lambda>bs (on, b). if on then sb_with bs b else bs) buttons
                      [(up, Switch_Up), (right, Switch_Right), (down, Switch_Down),
                       (left, Switch_Left)]
      in \<lparr>sw_buttons = buttons,
          left_stick = \<lparr>stick_x = rp_lx r, stick_y = rp_ly r\<rparr>,
          right_stick = \<lparr>stick_x = rp_rx r, stick_y = rp_ry r\<rparr>\<rparr>)"

definition report_to_bytes :: "switch_report \<Rightarrow> bytes" where
  "report_to_bytes r =
     u16_to_le (rp_buttons r) @ [rp_hat r, rp_lx r, rp_ly r, rp_rx r, rp_ry r, 0]"

text \<open>\<open>from_bytes\<close> takes a \<open>[u8; 8]\<close>; a list of another length is no value of that type.\<close>

fun report_from_bytes :: "bytes \<Rightarrow> switch_report option" where
  "report_from_bytes [b0, b1, b2, b3, b4, b5, b6, b7] =
     Some \<lparr>rp_buttons = u16_from_le b0 b1, rp_hat = b2 AND 0x0f,
           rp_lx = b3, rp_ly = b4, rp_rx = b5, rp_ry = b6\<rparr>"
| "report_from_bytes _ = None"

section \<open>Facts\<close>

lemma hat_below_16: "hat up down left right AND 0x0f = hat up down left right"
  by (cases up; cases down; cases left; cases right)
    (simp_all add: hat_def hat_neutral_def)

text \<open>Reading a hat value back gives the pressed directions, opposite ones cancelled.\<close>

lemma hat_directions_hat:
  "hat_directions (hat up down left right) =
     (up \<and> \<not> down, right \<and> \<not> left, down \<and> \<not> up, left \<and> \<not> right)"
  by (cases up; cases down; cases left; cases right)
    (simp_all add: hat_def hat_neutral_def hat_directions_def)

lemma hid_bit_index_inj:
  "hid_bit_index a = Some n \<Longrightarrow> hid_bit_index b = Some n \<Longrightarrow> a = b"
  by (cases a; cases b) simp_all

lemma hid_bit_index_bound: "hid_bit_index b = Some n \<Longrightarrow> n < 14"
  by (cases b) auto

lemma bit_foldl_or: "bit (foldl (OR) x xs) n \<longleftrightarrow> bit x n \<or> (\<exists>y\<in>set xs. bit y n)"
  for x :: "'a::len word"
  by (induction xs arbitrary: x) (auto simp: bit_simps)

text \<open>The D-pad with opposite directions cancelled, the other buttons as they are.\<close>

definition cancel_opposites :: "switch_buttons \<Rightarrow> switch_button \<Rightarrow> bool" where
  "cancel_opposites s b =
     (sb_contains s b \<and>
      (case b of Switch_Up \<Rightarrow> \<not> sb_contains s Switch_Down
       | Switch_Down \<Rightarrow> \<not> sb_contains s Switch_Up
       | Switch_Left \<Rightarrow> \<not> sb_contains s Switch_Right
       | Switch_Right \<Rightarrow> \<not> sb_contains s Switch_Left
       | _ \<Rightarrow> True))"

lemma report_buttons_bit:
  "bit (rp_buttons (report_from_state st)) n \<longleftrightarrow>
     (\<exists>b. hid_bit_index b = Some n \<and> sb_contains (sw_buttons st) b)"
proof -
  have "n < 16" if "hid_bit_index b = Some n" for b
    using hid_bit_index_bound [OF that] by simp
  then show ?thesis
    by (force simp: report_from_state_def Let_def bit_foldl_or map_filter_def hid_button_bit_def
        sb_iter_def all_switch_buttons_UNIV bit_simps)
qed

lemma report_button_test:
  "(case hid_button_bit b of Some m \<Rightarrow> rp_buttons (report_from_state st) AND m \<noteq> 0 | None \<Rightarrow> False)
     \<longleftrightarrow> hid_bit_index b \<noteq> None \<and> sb_contains (sw_buttons st) b"
proof (cases "hid_bit_index b")
  case None
  then show ?thesis by (simp add: hid_button_bit_def)
next
  case (Some n)
  then have "rp_buttons (report_from_state st) AND push_bit n 1 \<noteq> 0 \<longleftrightarrow>
      sb_contains (sw_buttons st) b"
    unfolding and_push_bit_1_iff report_buttons_bit by (metis hid_bit_index_inj)
  with Some show ?thesis unfolding hid_button_bit_def by simp
qed

lemma conditional_collect:
  "foldl (\<lambda>bs (on, b). if on then sb_with bs b else bs) (sb_collect xs) ps =
     sb_collect (xs @ map snd (filter fst ps))"
proof (induction ps arbitrary: xs)
  case (Cons q ps)
  have "sb_with (sb_collect xs) b = sb_collect (xs @ [b])" for b
    by (simp add: sb_collect_def)
  then show ?case
    using Cons.IH [of xs] Cons.IH [of "xs @ [snd q]"] by (cases q) simp
qed simp

lemma sb_collect_cong: "set xs = set ys \<Longrightarrow> sb_collect xs = sb_collect ys"
  unfolding sb_collect_def by (rule pad.collect_cong)

definition plain_pressed :: "switch_report \<Rightarrow> switch_button list" where
  "plain_pressed r = filter (\<lambda>b. case hid_button_bit b of
     Some m \<Rightarrow> rp_buttons r AND m \<noteq> 0 | None \<Rightarrow> False) all_switch_buttons"

definition hat_pressed :: "u8 \<Rightarrow> (bool \<times> switch_button) list" where
  "hat_pressed h =
     (case hat_directions h of (up, right, down, left) \<Rightarrow>
        [(up, Switch_Up), (right, Switch_Right), (down, Switch_Down), (left, Switch_Left)])"

lemma report_to_state_buttons:
  "sw_buttons (report_to_state r) =
     sb_collect (plain_pressed r @ map snd (filter fst (hat_pressed (rp_hat r))))"
  unfolding conditional_collect [symmetric] report_to_state_def plain_pressed_def hat_pressed_def
  by (simp only: Let_def split: prod.split) simp

lemma plain_pressed_from_state:
  "b \<in> set (plain_pressed (report_from_state st)) \<longleftrightarrow>
     hid_bit_index b \<noteq> None \<and> sb_contains (sw_buttons st) b"
  unfolding plain_pressed_def
  by (simp only: set_filter all_switch_buttons_UNIV report_button_test) simp

lemma hat_pressed_from_state:
  "hat_pressed (rp_hat (report_from_state st)) =
     (let pressed = sb_contains (sw_buttons st) in
      [(pressed Switch_Up \<and> \<not> pressed Switch_Down, Switch_Up),
       (pressed Switch_Right \<and> \<not> pressed Switch_Left, Switch_Right),
       (pressed Switch_Down \<and> \<not> pressed Switch_Up, Switch_Down),
       (pressed Switch_Left \<and> \<not> pressed Switch_Right, Switch_Left)])"
  by (simp add: hat_pressed_def report_from_state_def Let_def hat_directions_hat)

lemma report_roundtrip_buttons:
  "sw_buttons (report_to_state (report_from_state st)) =
     sb_collect (filter (cancel_opposites (sw_buttons st)) all_switch_buttons)"
  unfolding report_to_state_buttons
proof (rule sb_collect_cong, rule set_eqI)
  fix b
  show "b \<in> set (plain_pressed (report_from_state st) @
      map snd (filter fst (hat_pressed (rp_hat (report_from_state st))))) \<longleftrightarrow>
    b \<in> set (filter (cancel_opposites (sw_buttons st)) all_switch_buttons)"
    unfolding set_append Un_iff plain_pressed_from_state hat_pressed_from_state
    by (cases b) (auto simp: cancel_opposites_def all_switch_buttons_UNIV Let_def)
qed

text \<open>C38: the state the host decodes from the eight report bytes is the state the firmware was
  asked to present, with both sticks unchanged and opposite D-pad directions cancelled.\<close>

theorem hid_report_roundtrip:
  "map_option report_to_state (report_from_bytes (report_to_bytes (report_from_state st))) =
     Some (st\<lparr>sw_buttons :=
       sb_collect (filter (cancel_opposites (sw_buttons st)) all_switch_buttons)\<rparr>)"
proof -
  have "report_from_bytes (report_to_bytes (report_from_state st)) = Some (report_from_state st)"
    by (simp add: report_to_bytes_def u16_to_le_def report_from_state_def Let_def hat_below_16)
  then show ?thesis
    using report_roundtrip_buttons [of st]
    by (simp add: report_to_state_def report_from_state_def Let_def split: prod.splits)
qed

end
