(* ===== verification/Command_Queue.thy ===== *)
theory Command_Queue
  imports Prelude
begin

text \<open>
  The contract the input queues share (the device's \<open>InputQueue\<close> and the frame-clocked
  \<open>InputSchedule\<close>): commands get increasing ids when they are accepted, and leave, finished or
  cancelled, in the order they were accepted, each exactly once. A provider gives its steps,
  labelled with the ids a step accepts and the ids it lets go, and the ids still owed.
\<close>

inductive command_run ::
  "('q \<Rightarrow> nat list \<Rightarrow> nat list \<Rightarrow> 'q \<Rightarrow> bool) \<Rightarrow> 'q \<Rightarrow> nat list \<Rightarrow> nat list \<Rightarrow> 'q \<Rightarrow> bool"
  for step where
  run_start: "command_run step q [] [] q"
| run_step: "command_run step q acc left q' \<Longrightarrow> step q' a l q'' \<Longrightarrow>
    command_run step q (acc @ a) (left @ l) q''"

locale command_queue =
  fixes step :: "'q \<Rightarrow> nat list \<Rightarrow> nat list \<Rightarrow> 'q \<Rightarrow> bool"
    and owed :: "'q \<Rightarrow> nat list"
    and next_id :: "'q \<Rightarrow> nat"
    and inv :: "'q \<Rightarrow> bool"
  assumes step_inv: "inv q \<Longrightarrow> step q a l q' \<Longrightarrow> inv q'"
    and step_owed: "inv q \<Longrightarrow> step q a l q' \<Longrightarrow> owed q @ a = l @ owed q'"
    and step_next: "inv q \<Longrightarrow> step q a l q' \<Longrightarrow>
      a = [] \<and> next_id q \<le> next_id q' \<or>
      (\<exists>i. a = [i] \<and> next_id q \<le> i \<and> i < next_id q')"
    and owed_next: "inv q \<Longrightarrow> sorted_wrt (<) (owed q) \<and> (\<forall>i\<in>set (owed q). i < next_id q)"
begin

lemma run_inv: "command_run step q acc left q' \<Longrightarrow> inv q \<Longrightarrow> inv q'"
  by (induction rule: command_run.induct) (auto intro: step_inv)

lemma run_owed: "command_run step q acc left q' \<Longrightarrow> inv q \<Longrightarrow> owed q @ acc = left @ owed q'"
proof (induction rule: command_run.induct)
  case (run_step q acc left q' a l q'')
  have "owed q @ acc @ a = (owed q @ acc) @ a" by (rule append.assoc [symmetric])
  also have "\<dots> = (left @ owed q') @ a" by (simp only: run_step.IH [OF run_step.prems])
  also have "\<dots> = left @ owed q' @ a" by (rule append.assoc)
  also have "owed q' @ a = l @ owed q''"
    by (rule step_owed [OF run_inv [OF run_step.hyps(1) run_step.prems] run_step.hyps(2)])
  finally show ?case by (simp only: append.assoc)
qed simp

lemma run_sorted:
  "command_run step q acc left q' \<Longrightarrow> inv q \<Longrightarrow>
     sorted_wrt (<) (owed q @ acc) \<and> (\<forall>i\<in>set (owed q @ acc). i < next_id q')"
proof (induction rule: command_run.induct)
  case (run_start q)
  then show ?case using owed_next by simp
next
  case (run_step q acc left q' a l q'')
  have IH: "sorted_wrt (<) (owed q @ acc)" "\<forall>i\<in>set (owed q @ acc). i < next_id q'"
    using run_step.IH [OF run_step.prems] by blast+
  consider "a = []" "next_id q' \<le> next_id q''"
    | i where "a = [i]" "next_id q' \<le> i" "i < next_id q''"
    using step_next [OF run_inv [OF run_step.hyps(1) run_step.prems] run_step.hyps(2)] by blast
  then show ?case
  proof cases
    case 1
    have "\<forall>i\<in>set (owed q @ acc). i < next_id q''"
      using IH(2) 1(2) less_le_trans by blast
    with IH(1) 1(1) show ?thesis by simp
  next
    case 2
    have "\<forall>j\<in>set (owed q @ acc). j < i"
      using IH(2) 2(2) less_le_trans by blast
    then have "sorted_wrt (<) ((owed q @ acc) @ [i])" "\<forall>j\<in>set ((owed q @ acc) @ [i]). j < next_id q''"
      using IH(1) 2(3) by (auto simp: sorted_wrt_append intro: less_trans)
    then show ?thesis unfolding 2(1) by simp
  qed
qed

text \<open>From a queue that owes nothing: what has left, followed by what is still owed, is exactly
  what was accepted, in order and without repetition.\<close>

lemma run_exactly_once:
  assumes "command_run step q acc left q'" "inv q" "owed q = []"
  shows "acc = left @ owed q' \<and> sorted_wrt (<) acc"
  using run_owed [OF assms(1,2)] run_sorted [OF assms(1,2)] assms(3) by simp

end

end
