(* ===== verification/Input_Queue.thy ===== *)
theory Input_Queue
  imports Switch_Layout Command_Queue
begin

text \<open>
  crates/remote/src/queue.rs: the device-side input queue. Commands are expanded into timed
  controller states and played back to back; \<open>tick\<close> advances to the current time and gives the
  state to present. Times are nanoseconds; \<open>next_id\<close> is a \<open>u64\<close> counter that this model never
  wraps, \<open>keepalives\<close> a \<open>u32\<close> that does (\<open>wrapping_add\<close>).
\<close>

section \<open>Data\<close>

definition capacity :: nat where
  "capacity = 256"

record keepalive =
  ka_after :: nanos
  ka_routine :: switch_command

definition default_after :: nanos where
  "default_after = 240 * 1000000000"

definition nudge_input :: "stick \<Rightarrow> nat \<Rightarrow> timed_switch_input" where
  "nudge_input s ms =
     \<lparr>tsi_state = state_neutral\<lparr>right_stick := s\<rparr>, tsi_duration = millis ms\<rparr>"

definition right_stick_nudge :: switch_command where
  "right_stick_nudge =
     SSequence [nudge_input stick_up 100, nudge_input stick_center 100,
                nudge_input stick_down 100, nudge_input stick_center 100]"

definition default_keepalive :: keepalive where
  "default_keepalive = \<lparr>ka_after = default_after, ka_routine = right_stick_nudge\<rparr>"

record qstep =
  qs_command :: nat
  qs_state :: switch_state
  qs_duration :: nanos
  qs_last :: bool
  qs_internal :: bool

record active =
  ac_step :: qstep
  ac_ends_at :: nanos

record finished =
  fin_id :: nat
  fin_cancelled :: bool

record accepted =
  acc_id :: nat
  acc_input :: nanos

datatype rejected = QueueFull

record input_queue =
  iq_steps :: "qstep list"
  iq_active :: "active option"
  iq_next_id :: nat
  iq_finished :: "finished list"
  iq_keepalive :: "keepalive option"
  iq_idle_since :: "nanos option"
  iq_keepalives :: u32

definition new_queue :: input_queue where
  "new_queue =
     \<lparr>iq_steps = [], iq_active = None, iq_next_id = 0, iq_finished = [], iq_keepalive = None,
      iq_idle_since = None, iq_keepalives = 0\<rparr>"

section \<open>Operations\<close>

definition set_keepalive :: "keepalive option \<Rightarrow> input_queue \<Rightarrow> input_queue" where
  "set_keepalive k q = q\<lparr>iq_keepalive := k, iq_idle_since := None\<rparr>"

definition timeline_steps :: "nat \<Rightarrow> timed_switch_input list \<Rightarrow> bool \<Rightarrow> qstep list" where
  "timeline_steps cid ts internal =
     map (\<lambda>(i, t). \<lparr>qs_command = cid, qs_state = tsi_state t, qs_duration = tsi_duration t,
                    qs_last = (i + 1 = length ts), qs_internal = internal\<rparr>)
       (enumerate 0 ts)"

definition queue_timeline ::
  "nat \<Rightarrow> timed_switch_input list \<Rightarrow> bool \<Rightarrow> input_queue \<Rightarrow> input_queue" where
  "queue_timeline cid ts internal q =
     q\<lparr>iq_steps := iq_steps q @ timeline_steps cid ts internal\<rparr>"

text \<open>Removes keepalive input, active or queued, without reporting it.\<close>

definition drop_internal :: "input_queue \<Rightarrow> input_queue" where
  "drop_internal q =
     q\<lparr>iq_active := (case iq_active q of
          Some a \<Rightarrow> if qs_internal (ac_step a) then None else Some a | None \<Rightarrow> None),
       iq_steps := filter (\<lambda>s. \<not> qs_internal s) (iq_steps q)\<rparr>"

text \<open>\<open>Vec::dedup\<close> is the library's \<open>remdups_adj\<close>.\<close>

definition cancel :: "input_queue \<Rightarrow> input_queue" where
  "cancel q =
     (let act = (case iq_active q of
            Some a \<Rightarrow> if qs_internal (ac_step a) then [] else [qs_command (ac_step a)]
          | None \<Rightarrow> []);
          dropped = remdups_adj
            (act @ map qs_command (filter (\<lambda>s. \<not> qs_internal s) (iq_steps q)))
      in q\<lparr>iq_active := None, iq_steps := [],
           iq_finished := iq_finished q @
             map (\<lambda>i. \<lparr>fin_id = i, fin_cancelled = True\<rparr>) dropped\<rparr>)"

definition push ::
  "input_queue \<Rightarrow> switch_command \<Rightarrow> press_profile \<Rightarrow> (rejected + accepted) \<times> input_queue" where
  "push q0 command profile =
     (let q = drop_internal q0; ts = switch_timeline command profile in
      if length (iq_steps q) + length ts > capacity then (Inl QueueFull, q)
      else
        let cid = iq_next_id q;
            q = q\<lparr>iq_next_id := cid + 1\<rparr>;
            q = (if command = SNeutral then cancel q else q);
            input = sum_list (map tsi_duration ts);
            q = (if length ts = 0 then
                   q\<lparr>iq_steps := iq_steps q @
                     [\<lparr>qs_command = cid, qs_state = state_neutral, qs_duration = 0,
                       qs_last = True, qs_internal = False\<rparr>]\<rparr>
                 else q)
        in (Inr \<lparr>acc_id = cid, acc_input = input\<rparr>, queue_timeline cid ts False q))"

text \<open>Queues the keepalive routine once the queue has idled long enough.\<close>

definition keep_alive :: "nanos \<Rightarrow> input_queue \<Rightarrow> bool \<times> input_queue" where
  "keep_alive now q =
     (case iq_keepalive q of
        None \<Rightarrow> (False, q)
      | Some k \<Rightarrow>
          let since = (case iq_idle_since q of Some t \<Rightarrow> t | None \<Rightarrow> now);
              q = q\<lparr>iq_idle_since := Some since\<rparr>
          in if now - since < ka_after k then (False, q)
             else
               let ts = switch_timeline (ka_routine k) default_profile;
                   cid = iq_next_id q
               in (True, queue_timeline cid ts True
                     (q\<lparr>iq_next_id := cid + 1, iq_keepalives := iq_keepalives q + 1,
                        iq_idle_since := None\<rparr>)))"

definition start_next :: "nanos \<Rightarrow> input_queue \<Rightarrow> bool \<times> input_queue" where
  "start_next start q =
     (case iq_steps q of
        s # ss \<Rightarrow> (True, q\<lparr>iq_steps := ss, iq_idle_since := None,
                    iq_active := Some \<lparr>ac_step = s, ac_ends_at = start + qs_duration s\<rparr>\<rparr>)
      | [] \<Rightarrow> (False, q))"

text \<open>The end of the active step inside \<open>tick\<close>'s loop: report it if it was the last of a client's
  command and chain the next step from the scheduled end, or from \<open>now\<close> when 2 ms or more behind.\<close>

definition finish_active :: "nanos \<Rightarrow> active \<Rightarrow> input_queue \<Rightarrow> input_queue" where
  "finish_active now a q =
     (let q = q\<lparr>iq_active := None\<rparr>;
          q = (if qs_last (ac_step a) \<and> \<not> qs_internal (ac_step a)
               then q\<lparr>iq_finished := iq_finished q @
                        [\<lparr>fin_id = qs_command (ac_step a), fin_cancelled = False\<rparr>]\<rparr>
               else q);
          start = (if now - ac_ends_at a < millis 2 then ac_ends_at a else now)
      in snd (start_next start q))"

partial_function (option) tick :: "nanos \<Rightarrow> input_queue \<Rightarrow> (switch_state \<times> input_queue) option"
  where
  "tick now q =
     (case iq_active q of
        Some a \<Rightarrow>
          if now < ac_ends_at a then Some (qs_state (ac_step a), q)
          else tick now (finish_active now a q)
      | None \<Rightarrow>
          (case start_next now q of (started, q') \<Rightarrow>
             if started then tick now q'
             else (case keep_alive now q' of (queued, q'') \<Rightarrow>
                     if queued then tick now q'' else Some (state_neutral, q''))))"

definition take_finished :: "input_queue \<Rightarrow> finished list \<times> input_queue" where
  "take_finished q = (iq_finished q, q\<lparr>iq_finished := []\<rparr>)"

definition is_idle :: "input_queue \<Rightarrow> bool" where
  "is_idle q \<longleftrightarrow> iq_active q = None \<and> iq_steps q = []"

definition pending :: "input_queue \<Rightarrow> nat" where
  "pending q = length (iq_steps q)"

section \<open>The loop of tick: invariants, results, termination\<close>

text \<open>Whatever the three transitions of the loop keep, \<open>tick\<close> keeps; and it stops only with an
  unfinished active step, whose state it presents, or idle, presenting the neutral state.\<close>

lemma tick_preserves:
  assumes "tick now q = Some (st, q')" and "I q"
    and finish: "\<And>q a. I q \<Longrightarrow> iq_active q = Some a \<Longrightarrow> ac_ends_at a \<le> now \<Longrightarrow>
      I (finish_active now a q)"
    and start: "\<And>q. I q \<Longrightarrow> iq_active q = None \<Longrightarrow> I (snd (start_next now q))"
    and keep: "\<And>q. I q \<Longrightarrow> is_idle q \<Longrightarrow> I (snd (keep_alive now q))"
  shows "I q' \<and>
    (case iq_active q' of Some a \<Rightarrow> now < ac_ends_at a \<and> st = qs_state (ac_step a)
     | None \<Rightarrow> iq_steps q' = [] \<and> st = state_neutral)"
proof -
  let ?R = "\<lambda>(st, q'). I q' \<and>
    (case iq_active q' of Some a \<Rightarrow> now < ac_ends_at a \<and> st = qs_state (ac_step a)
     | None \<Rightarrow> iq_steps q' = [] \<and> st = state_neutral)"
  have "\<forall>r. now' = now \<longrightarrow> I q \<longrightarrow> r = (st, q') \<longrightarrow> ?R r" if "tick now' q = Some (st, q')" for now'
  proof (rule tick.raw_induct [where P = "\<lambda>now' q r. \<forall>r'. now' = now \<longrightarrow> I q \<longrightarrow> r' = r \<longrightarrow> ?R r'",
        OF _ that])
    fix f n q r
    assume IH: "\<And>n q r. f n q = Some r \<Longrightarrow> \<forall>r'. n = now \<longrightarrow> I q \<longrightarrow> r' = r \<longrightarrow> ?R r'"
      and eq: "(case iq_active q of
        Some a \<Rightarrow> if n < ac_ends_at a then Some (qs_state (ac_step a), q)
          else f n (finish_active n a q)
      | None \<Rightarrow> (case start_next n q of (started, q') \<Rightarrow>
             if started then f n q'
             else (case keep_alive n q' of (queued, q'') \<Rightarrow>
                     if queued then f n q'' else Some (state_neutral, q'')))) = Some r"
    show "\<forall>r'. n = now \<longrightarrow> I q \<longrightarrow> r' = r \<longrightarrow> ?R r'"
    proof (intro allI impI)
      fix r'
      assume n: "n = now" and I: "I q" and r: "r' = r"
      show "?R r'"
      proof (cases "iq_active q")
        case (Some a)
        then show ?thesis
        proof (cases "now < ac_ends_at a")
          case True
          with Some eq n I r show ?thesis by auto
        next
          case False
          with Some eq n have "f now (finish_active now a q) = Some r" by simp
          from IH [OF this] finish [OF I Some] False r show ?thesis by simp
        qed
      next
        case None
        show ?thesis
        proof (cases "iq_steps q")
          case (Cons s ss)
          with None eq n have "f now (snd (start_next now q)) = Some r"
            by (simp add: start_next_def)
          from IH [OF this] start [OF I None] r show ?thesis by simp
        next
          case Nil
          with None have idle: "is_idle q" by (simp add: is_idle_def)
          obtain b q2 where k: "keep_alive now q = (b, q2)" by (cases "keep_alive now q") auto
          with keep [OF I idle] have I2: "I q2" by simp
          have q2: "\<not> b \<Longrightarrow> iq_active q2 = None \<and> iq_steps q2 = []"
            using k None Nil
            by (auto simp: keep_alive_def Let_def split: option.splits if_splits)
          have "if b then f now q2 = Some r else r = (state_neutral, q2)"
            using None Nil eq n k by (simp add: start_next_def split: if_splits)
          with I2 q2 IH r show ?thesis by (cases b) auto
        qed
      qed
    qed
  qed
  from this [OF assms(1)] assms(2) show ?thesis by simp
qed

text \<open>Termination: a keepalive with a positive idle time fires at most once per call, and every
  other turn of the loop consumes a queued step or the active one.\<close>

definition routine_len :: "input_queue \<Rightarrow> nat" where
  "routine_len q = (case iq_keepalive q of
     None \<Rightarrow> 0 | Some k \<Rightarrow> length (switch_timeline (ka_routine k) default_profile))"

definition armed :: "nanos \<Rightarrow> input_queue \<Rightarrow> bool" where
  "armed now q \<longleftrightarrow> (case (iq_keepalive q, iq_idle_since q) of
     (Some k, Some t) \<Rightarrow> ka_after k \<le> now - t | _ \<Rightarrow> False)"

definition loop_measure :: "nanos \<Rightarrow> input_queue \<Rightarrow> nat" where
  "loop_measure now q =
     (if armed now q then 2 * routine_len q + 1 else 0) + 2 * length (iq_steps q)
     + (if iq_active q = None then 0 else 1)"

definition keepalive_ok :: "input_queue \<Rightarrow> bool" where
  "keepalive_ok q \<longleftrightarrow> (case iq_keepalive q of Some k \<Rightarrow> 0 < ka_after k | None \<Rightarrow> True)"

lemmas loop_defs = loop_measure_def armed_def routine_len_def keepalive_ok_def

lemma finish_active_measure:
  "iq_active q = Some a \<Longrightarrow> loop_measure now (finish_active now a q) < loop_measure now q"
  by (cases "iq_steps q")
    (auto simp: loop_defs finish_active_def start_next_def Let_def split: option.split)

lemma start_next_measure:
  "iq_active q = None \<Longrightarrow> start_next now q = (True, q') \<Longrightarrow> loop_measure now q' < loop_measure now q"
  by (cases "iq_steps q") (auto simp: loop_defs start_next_def split: option.split)

lemma keep_alive_measure:
  assumes "keepalive_ok q" "is_idle q" "keep_alive now q = (True, q')"
  shows "loop_measure now q' < loop_measure now q"
proof -
  obtain k where k: "iq_keepalive q = Some k"
    using assms(3) by (auto simp: keep_alive_def split: option.splits)
  have "armed now q"
  proof (cases "iq_idle_since q")
    case None
    with assms k show ?thesis by (simp add: keep_alive_def Let_def keepalive_ok_def)
  next
    case (Some t)
    with assms k show ?thesis by (auto simp: keep_alive_def Let_def armed_def split: if_splits)
  qed
  moreover have "q' = queue_timeline (iq_next_id q)
      (switch_timeline (ka_routine k) default_profile) True
      (q\<lparr>iq_next_id := iq_next_id q + 1, iq_keepalives := iq_keepalives q + 1,
         iq_idle_since := None\<rparr>)"
    using assms(3) k by (auto simp: keep_alive_def Let_def split: if_splits)
  ultimately show ?thesis
    using assms(2) k
    by (auto simp: loop_measure_def is_idle_def queue_timeline_def timeline_steps_def armed_def
        routine_len_def)
qed

lemma step_keepalive [queue_simps]:
  "iq_keepalive (finish_active now a q) = iq_keepalive q"
  "iq_keepalive (snd (start_next now q)) = iq_keepalive q"
  "iq_keepalive (snd (keep_alive now q)) = iq_keepalive q"
  by (auto simp: finish_active_def start_next_def keep_alive_def queue_timeline_def Let_def
      split: list.splits option.splits)

lemma tick_total:
  "keepalive_ok q \<Longrightarrow> \<exists>st q'. tick now q = Some (st, q')"
proof (induction "loop_measure now q" arbitrary: q rule: less_induct)
  case less
  show ?case
  proof (cases "iq_active q")
    case (Some a)
    have "keepalive_ok (finish_active now a q)"
      using less.prems by (simp add: keepalive_ok_def queue_simps)
    then have "\<exists>st q'. tick now (finish_active now a q) = Some (st, q')"
      using less.hyps finish_active_measure [OF Some] by blast
    with Some show ?thesis by (subst tick.simps) simp
  next
    case None
    obtain b q1 where st: "start_next now q = (b, q1)" by (cases "start_next now q") auto
    have ok1: "keepalive_ok q1"
      using less.prems step_keepalive(2) [of now q] st by (simp add: keepalive_ok_def)
    show ?thesis
    proof (cases b)
      case True
      then have "\<exists>st q'. tick now q1 = Some (st, q')"
        using less.hyps [OF start_next_measure [OF None] ok1] st by simp
      with None st True show ?thesis by (subst tick.simps) simp
    next
      case False
      then have q1: "q1 = q" "is_idle q"
        using st None by (auto simp: start_next_def is_idle_def split: list.splits)
      obtain c q2 where ka: "keep_alive now q = (c, q2)" by (cases "keep_alive now q") auto
      have ok2: "keepalive_ok q2"
        using less.prems step_keepalive(3) [of now q] ka by (simp add: keepalive_ok_def)
      have "c \<Longrightarrow> \<exists>st q'. tick now q2 = Some (st, q')"
        using less.hyps [OF keep_alive_measure [OF less.prems q1(2)] ok2] ka by simp
      with None st False q1 ka show ?thesis by (subst tick.simps) (cases c; simp)
    qed
  qed
qed

section \<open>Every accepted command is reported once, in order\<close>

text \<open>The client's steps still to be played, the commands they still owe a report (each command
  has one step marked last), and the ids reported or owed.\<close>

definition live :: "input_queue \<Rightarrow> qstep list" where
  "live q = filter (\<lambda>s. \<not> qs_internal s)
     ((case iq_active q of Some a \<Rightarrow> [ac_step a] | None \<Rightarrow> []) @ iq_steps q)"

definition waiting :: "input_queue \<Rightarrow> nat list" where
  "waiting q = map qs_command (filter qs_last (live q))"

definition command_ids :: "input_queue \<Rightarrow> nat list" where
  "command_ids q = map fin_id (iq_finished q) @ waiting q"

text \<open>The steps of a command are contiguous, the last one is marked, and ids increase.\<close>

fun grouped :: "qstep list \<Rightarrow> bool" where
  "grouped [] = True"
| "grouped [s] = qs_last s"
| "grouped (s # t # r) =
     ((if qs_last s then qs_command s < qs_command t else qs_command t = qs_command s)
      \<and> grouped (t # r))"

definition queue_inv :: "input_queue \<Rightarrow> bool" where
  "queue_inv q \<longleftrightarrow>
     grouped (live q) \<and> (\<forall>s\<in>set (live q). qs_command s < iq_next_id q)
     \<and> sorted_wrt (<) (command_ids q) \<and> (\<forall>i\<in>set (command_ids q). i < iq_next_id q)"

lemma grouped_tl: "grouped (s # ss) \<Longrightarrow> grouped ss"
  by (cases ss) simp_all

lemma grouped_append:
  "grouped xs \<Longrightarrow> grouped ys \<Longrightarrow> (\<And>x y. x \<in> set xs \<Longrightarrow> y \<in> set ys \<Longrightarrow> qs_command x < qs_command y)
     \<Longrightarrow> grouped (xs @ ys)"
proof (induction xs rule: grouped.induct)
  case (2 s)
  then show ?case by (cases ys) auto
qed auto

lemma remdups_grouped:
  "grouped xs \<Longrightarrow> remdups_adj (map qs_command xs) = map qs_command (filter qs_last xs)"
  by (induction xs rule: grouped.induct) (auto split: if_splits)

text \<open>Steps of one command, none but the final one marked last.\<close>

lemma grouped_init_last:
  "(\<forall>x\<in>set xs. \<not> qs_last x) \<Longrightarrow> qs_command ` set xs \<subseteq> {qs_command y} \<Longrightarrow> qs_last y
     \<Longrightarrow> grouped (xs @ [y])"
proof (induction xs)
  case (Cons x xs)
  then have "grouped (xs @ [y])" by auto
  with Cons.prems show ?case by (cases xs) auto
qed simp

lemma filter_init_last:
  "\<forall>x\<in>set xs. \<not> qs_last x \<Longrightarrow> qs_last y \<Longrightarrow> filter qs_last (xs @ [y]) = [y]"
  by simp

lemma timeline_steps_snoc:
  "timeline_steps c (ts @ [t]) b =
     map (\<lambda>u. \<lparr>qs_command = c, qs_state = tsi_state u, qs_duration = tsi_duration u,
               qs_last = False, qs_internal = b\<rparr>) ts
     @ [\<lparr>qs_command = c, qs_state = tsi_state t, qs_duration = tsi_duration t,
         qs_last = True, qs_internal = b\<rparr>]"
proof -
  have "map (\<lambda>(i, u). \<lparr>qs_command = c, qs_state = tsi_state u, qs_duration = tsi_duration u,
         qs_last = (i + 1 = Suc (length ts)), qs_internal = b\<rparr>) (enumerate 0 ts)
      = map (\<lambda>u. \<lparr>qs_command = c, qs_state = tsi_state u, qs_duration = tsi_duration u,
         qs_last = False, qs_internal = b\<rparr>) ts"
    by (rule nth_equalityI) (simp_all add: nth_enumerate_eq)
  then show ?thesis by (simp add: timeline_steps_def enumerate_append_eq)
qed

lemma timeline_steps_client:
  assumes "ts \<noteq> []"
  shows "grouped (timeline_steps c ts False)"
    and "map qs_command (filter qs_last (timeline_steps c ts False)) = [c]"
proof -
  obtain us u where ts: "ts = us @ [u]" using assms by (metis rev_exhaust)
  show "grouped (timeline_steps c ts False)"
    unfolding ts timeline_steps_snoc by (rule grouped_init_last) auto
  show "map qs_command (filter qs_last (timeline_steps c ts False)) = [c]"
    unfolding ts timeline_steps_snoc by (subst filter_init_last) auto
qed

lemma timeline_steps_fields:
  "x \<in> set (timeline_steps c ts b) \<Longrightarrow> qs_command x = c \<and> qs_internal x = b"
  by (auto simp: timeline_steps_def)

lemma filter_timeline_internal [simp]:
  "filter (\<lambda>s. \<not> qs_internal s) (timeline_steps c ts True) = []"
  "filter (\<lambda>s. \<not> qs_internal s) (timeline_steps c ts False) = timeline_steps c ts False"
  by (auto simp: filter_empty_conv filter_id_conv dest: timeline_steps_fields)

lemma live_drop_internal [queue_simps]: "live (drop_internal q) = live q"
  by (auto simp: live_def drop_internal_def split: option.splits)

lemma command_ids_drop_internal [queue_simps]: "command_ids (drop_internal q) = command_ids q"
  by (simp add: command_ids_def waiting_def queue_simps) (simp add: drop_internal_def)

lemma iq_next_id_drop_internal [queue_simps]: "iq_next_id (drop_internal q) = iq_next_id q"
  by (simp add: drop_internal_def)

subsection \<open>What tick keeps\<close>

lemma start_next_live [queue_simps]:
  "iq_active q = None \<Longrightarrow> live (snd (start_next t q)) = live q"
  by (auto simp: live_def start_next_def split: list.splits)

lemma start_next_frame [queue_simps]:
  "iq_finished (snd (start_next t q)) = iq_finished q"
  "iq_next_id (snd (start_next t q)) = iq_next_id q"
  by (auto simp: start_next_def split: list.splits)

lemma finish_active_live:
  assumes "iq_active q = Some a"
  shows "live q = (if qs_internal (ac_step a) then [] else [ac_step a])
      @ live (finish_active now a q)"
  using assms
  by (simp add: finish_active_def Let_def queue_simps) (simp add: live_def)

lemma finish_active_frame:
  "iq_next_id (finish_active now a q) = iq_next_id q"
  "iq_finished (finish_active now a q) = iq_finished q @
     (if qs_last (ac_step a) \<and> \<not> qs_internal (ac_step a)
      then [\<lparr>fin_id = qs_command (ac_step a), fin_cancelled = False\<rparr>] else [])"
  by (simp_all add: finish_active_def Let_def queue_simps)

lemma finish_active_ids:
  assumes "iq_active q = Some a"
  shows "command_ids (finish_active now a q) = command_ids q"
  using finish_active_live [OF assms, of now]
  by (simp add: command_ids_def waiting_def finish_active_frame split: if_splits)

lemma finish_active_inv:
  assumes "queue_inv q" "iq_active q = Some a"
  shows "queue_inv (finish_active now a q)"
  using assms(1) finish_active_live [OF assms(2), of now] finish_active_ids [OF assms(2), of now]
  by (auto simp: queue_inv_def finish_active_frame dest: grouped_tl split: if_splits)

lemma keep_alive_live:
  "live (snd (keep_alive now q)) = live q" "iq_finished (snd (keep_alive now q)) = iq_finished q"
  by (auto simp: keep_alive_def Let_def queue_timeline_def live_def split: option.split)

lemma keep_alive_next_id: "iq_next_id q \<le> iq_next_id (snd (keep_alive now q))"
  by (auto simp: keep_alive_def Let_def queue_timeline_def split: option.split)

lemma queue_inv_mono:
  assumes "queue_inv q" "live r = live q" "iq_finished r = iq_finished q"
    and "iq_next_id q \<le> iq_next_id r"
  shows "queue_inv r \<and> command_ids r = command_ids q"
proof
  show ids: "command_ids r = command_ids q"
    by (simp add: command_ids_def waiting_def assms(2,3))
  show "queue_inv r"
    using assms(1,4) unfolding queue_inv_def ids assms(2) by auto
qed

lemma keep_alive_inv:
  "queue_inv q \<Longrightarrow> queue_inv (snd (keep_alive now q)) \<and>
     command_ids (snd (keep_alive now q)) = command_ids q"
  by (rule queue_inv_mono) (simp_all add: keep_alive_live keep_alive_next_id)

lemma start_next_inv:
  "queue_inv q \<Longrightarrow> iq_active q = None \<Longrightarrow> queue_inv (snd (start_next now q)) \<and>
     command_ids (snd (start_next now q)) = command_ids q"
  by (rule queue_inv_mono) (simp_all add: queue_simps)

lemma tick_invariant:
  assumes "tick now q = Some (st, q')" "queue_inv q"
  shows "queue_inv q' \<and> command_ids q' = command_ids q"
  by (rule tick_preserves [where I = "\<lambda>r. queue_inv r \<and> command_ids r = command_ids q",
        OF assms(1), THEN conjunct1])
    (auto simp: assms(2) finish_active_inv finish_active_ids keep_alive_inv start_next_inv)

subsection \<open>What push adds\<close>

lemma cancel_ids:
  assumes "grouped (live q)"
  shows "command_ids (cancel q) = command_ids q" "live (cancel q) = []"
proof -
  have "(case iq_active q of
          Some a \<Rightarrow> if qs_internal (ac_step a) then [] else [qs_command (ac_step a)] | None \<Rightarrow> [])
      @ map qs_command (filter (\<lambda>s. \<not> qs_internal s) (iq_steps q)) = map qs_command (live q)"
    by (auto simp: live_def split: option.split)
  then show "command_ids (cancel q) = command_ids q"
    using remdups_grouped [OF assms]
    by (simp add: command_ids_def waiting_def cancel_def Let_def live_def comp_def)
  show "live (cancel q) = []"
    by (simp add: live_def cancel_def Let_def)
qed

lemma cancel_frame: "iq_next_id (cancel q) = iq_next_id q"
  by (simp add: cancel_def Let_def)

text \<open>Adding a group of client steps with a fresh id.\<close>

lemma append_group:
  assumes inv: "queue_inv q" and fresh: "c = iq_next_id q"
    and g: "grouped ss" "map qs_command (filter qs_last ss) = [c]"
    and ss: "\<forall>s\<in>set ss. qs_command s = c \<and> \<not> qs_internal s"
  shows "queue_inv (q\<lparr>iq_next_id := c + 1, iq_steps := iq_steps q @ ss\<rparr>)"
    and "command_ids (q\<lparr>iq_next_id := c + 1, iq_steps := iq_steps q @ ss\<rparr>) = command_ids q @ [c]"
proof -
  let ?q = "q\<lparr>iq_next_id := c + 1, iq_steps := iq_steps q @ ss\<rparr>"
  have live: "live ?q = live q @ ss"
    using ss by (auto simp: live_def filter_id_conv split: option.splits)
  then show ids: "command_ids ?q = command_ids q @ [c]"
    using g(2) by (simp add: command_ids_def waiting_def)
  have "grouped (live ?q)"
    unfolding live using inv fresh ss g(1) by (intro grouped_append) (auto simp: queue_inv_def)
  moreover have "\<forall>s\<in>set (live ?q). qs_command s < c + 1"
    unfolding live using inv fresh ss by (fastforce simp: queue_inv_def)
  moreover have "sorted_wrt (<) (command_ids q @ [c]) \<and> (\<forall>i\<in>set (command_ids q @ [c]). i < c + 1)"
    using inv fresh by (fastforce simp: queue_inv_def sorted_wrt_append)
  moreover have "iq_next_id ?q = c + 1" by simp
  ultimately show "queue_inv ?q" unfolding queue_inv_def ids by simp
qed

lemma push_accepted:
  assumes inv: "queue_inv q" and p: "push q cmd profile = (Inr a, q')"
  shows "queue_inv q'" "command_ids q' = command_ids q @ [acc_id a]"
    "length (iq_steps q') \<le> capacity + 1"
proof -
  let ?d = "drop_internal q"
  let ?b = "if cmd = SNeutral then cancel ?d else ?d"
  let ?ts = "switch_timeline cmd profile"
  let ?c = "iq_next_id q"
  let ?ss = "if ?ts = [] then [\<lparr>qs_command = ?c, qs_state = state_neutral, qs_duration = 0,
       qs_last = True, qs_internal = False\<rparr>] else timeline_steps ?c ?ts False"
  have d: "queue_inv ?d" "command_ids ?d = command_ids q"
    using queue_inv_mono [OF inv, of ?d] by (simp_all add: queue_simps)
      (simp add: drop_internal_def)
  have b: "queue_inv ?b" "command_ids ?b = command_ids q" "iq_next_id ?b = ?c"
    using d cancel_ids [of ?d] by (auto simp: queue_inv_def cancel_frame queue_simps)
  have q': "q' = ?b\<lparr>iq_next_id := ?c + 1, iq_steps := iq_steps ?b @ ?ss\<rparr>"
    and a: "acc_id a = ?c" and cap: "length (iq_steps ?d) + length ?ts \<le> capacity"
    using p by (auto simp: push_def Let_def queue_timeline_def timeline_steps_def cancel_def
        queue_simps split: if_splits)
  have ss: "grouped ?ss" "map qs_command (filter qs_last ?ss) = [?c]"
    "\<forall>s\<in>set ?ss. qs_command s = ?c \<and> \<not> qs_internal s"
    using timeline_steps_client [of ?ts ?c] timeline_steps_fields by auto
  show "queue_inv q'" "command_ids q' = command_ids q @ [acc_id a]"
    unfolding q' a using append_group [OF b(1) b(3) [symmetric] ss] b(2) by simp_all
  show "length (iq_steps q') \<le> capacity + 1"
    using cap unfolding q' by (auto simp: timeline_steps_def cancel_def Let_def)
qed

subsection \<open>The steps of the queue\<close>

inductive queue_step :: "input_queue \<Rightarrow> nat list \<Rightarrow> nat list \<Rightarrow> input_queue \<Rightarrow> bool" where
  push_accepts: "push q cmd profile = (Inr a, q') \<Longrightarrow> queue_step q [acc_id a] [] q'"
| push_rejects: "push q cmd profile = (Inl e, q') \<Longrightarrow> queue_step q [] [] q'"
| tick_plays: "tick now q = Some (st, q') \<Longrightarrow> queue_step q [] [] q'"
| take_reports: "take_finished q = (fs, q') \<Longrightarrow> queue_step q [] (map fin_id fs) q'"
| keepalive_set: "queue_step q [] [] (set_keepalive k q)"

lemma push_rejected:
  "push q cmd profile = (Inl e, q') \<Longrightarrow> q' = drop_internal q"
  by (auto simp: push_def Let_def split: if_splits)

lemma drop_internal_inv: "queue_inv q \<Longrightarrow> queue_inv (drop_internal q)"
  using queue_inv_mono [of q "drop_internal q"]
  by (simp add: queue_simps) (simp add: drop_internal_def)

lemma set_keepalive_frame:
  "live (set_keepalive k q) = live q" "iq_finished (set_keepalive k q) = iq_finished q"
  "iq_next_id (set_keepalive k q) = iq_next_id q"
  by (simp_all add: set_keepalive_def live_def)

lemma take_finished_inv:
  assumes "queue_inv q" "take_finished q = (fs, q')"
  shows "queue_inv q'" "command_ids q = map fin_id fs @ command_ids q'" "iq_next_id q' = iq_next_id q"
proof -
  have q': "q' = q\<lparr>iq_finished := []\<rparr>" "fs = iq_finished q"
    using assms(2) by (simp_all add: take_finished_def)
  then have live: "live q' = live q" by (simp add: live_def)
  then show ids: "command_ids q = map fin_id fs @ command_ids q'"
    by (simp add: command_ids_def waiting_def q')
  show next_id: "iq_next_id q' = iq_next_id q" by (simp add: q')
  show "queue_inv q'"
    using assms(1) unfolding queue_inv_def live next_id ids
    by (auto simp: sorted_wrt_append)
qed

lemma push_next_id:
  "push q cmd profile = (Inr a, q') \<Longrightarrow> acc_id a = iq_next_id q \<and> iq_next_id q' = iq_next_id q + 1"
  by (auto simp: push_def Let_def queue_timeline_def cancel_def drop_internal_def split: if_splits)

lemma tick_next_id:
  assumes "tick now q = Some (st, q')"
  shows "iq_next_id q \<le> iq_next_id q'"
proof -
  have "iq_next_id q \<le> iq_next_id (snd (keep_alive now r))" if "iq_next_id q \<le> iq_next_id r" for r
    using that keep_alive_next_id order_trans by blast
  then show ?thesis
    by (intro tick_preserves [where I = "\<lambda>r. iq_next_id q \<le> iq_next_id r", OF assms, THEN conjunct1])
      (simp_all add: finish_active_frame queue_simps)
qed

lemma set_keepalive_inv:
  "queue_inv q \<Longrightarrow> queue_inv (set_keepalive k q) \<and> command_ids (set_keepalive k q) = command_ids q"
  by (rule queue_inv_mono) (simp_all add: set_keepalive_frame)

lemma queue_step_laws:
  assumes "queue_step q a l q'" "queue_inv q"
  shows "queue_inv q' \<and> command_ids q @ a = l @ command_ids q'
    \<and> (a = [] \<and> iq_next_id q \<le> iq_next_id q' \<or> a = [iq_next_id q] \<and> iq_next_id q < iq_next_id q')"
  using assms(1)
proof cases
  case (push_accepts cmd profile acc)
  then show ?thesis
    using push_accepted(1,2) [OF assms(2) push_accepts(3)] push_next_id [OF push_accepts(3)] by simp
next
  case (push_rejects cmd profile e)
  then show ?thesis
    using push_rejected [OF push_rejects(3)] drop_internal_inv [OF assms(2)]
    by (simp add: queue_simps)
next
  case (tick_plays now st)
  then show ?thesis
    using tick_invariant [OF tick_plays(3) assms(2)] tick_next_id [OF tick_plays(3)] by simp
next
  case (take_reports fs)
  then show ?thesis using take_finished_inv [OF assms(2) take_reports(3)] by simp
next
  case (keepalive_set k)
  then show ?thesis using set_keepalive_inv [OF assms(2)] by (simp add: set_keepalive_frame)
qed

interpretation pad_queue: command_queue queue_step command_ids iq_next_id queue_inv
  by unfold_locales (use queue_step_laws in \<open>blast+, simp add: queue_inv_def\<close>)

section \<open>Properties\<close>

lemma new_queue_inv: "queue_inv new_queue" "command_ids new_queue = []"
  by (simp_all add: queue_inv_def command_ids_def waiting_def live_def new_queue_def)

text \<open>C3: however pushes (accepted or rejected), ticks, keepalive changes and report collections
  interleave, the ids reported so far followed by the ids still owed a report are exactly the
  accepted ids, in order and without repetition: every accepted command is reported once,
  finished or cancelled, and never out of turn.\<close>

theorem queue_reports_exactly_once:
  assumes "command_run queue_step new_queue accepted reported q"
  shows "accepted = reported @ command_ids q \<and> sorted_wrt (<) accepted"
  using assms new_queue_inv by (rule pad_queue.run_exactly_once)

text \<open>\<open>tick\<close> returns whenever the keepalive, if any, has a positive idle time; it leaves an
  unfinished step and presents its state, or an idle queue and presents the neutral state.\<close>

lemma tick_returns:
  assumes "\<forall>k. iq_keepalive q = Some k \<longrightarrow> 0 < ka_after k"
  shows "\<exists>st q'. tick now q = Some (st, q') \<and>
    (case iq_active q' of Some a \<Rightarrow> now < ac_ends_at a \<and> st = qs_state (ac_step a)
     | None \<Rightarrow> is_idle q' \<and> st = state_neutral)"
proof -
  have "keepalive_ok q" using assms by (simp add: keepalive_ok_def split: option.split)
  then obtain st q' where t: "tick now q = Some (st, q')" using tick_total by blast
  show ?thesis
    using tick_preserves [where I = "\<lambda>_. True", OF t] t
    by (auto simp: is_idle_def split: option.splits)
qed

lemma push_neutral_queue:
  assumes "push q SNeutral p = (Inr a, q')" "queue_inv q"
  shows "q' = q'\<lparr>iq_active := None, iq_steps := [\<lparr>qs_command = acc_id a, qs_state = state_neutral,
      qs_duration = 0, qs_last = True, qs_internal = False\<rparr>],
      iq_finished := iq_finished q @ map (\<lambda>i. \<lparr>fin_id = i, fin_cancelled = True\<rparr>) (waiting q)\<rparr>"
    and "iq_keepalive q' = iq_keepalive q"
proof -
  let ?d = "drop_internal q"
  have g: "grouped (live q)" using assms(2) by (simp add: queue_inv_def)
  have "(case iq_active ?d of
          Some a \<Rightarrow> if qs_internal (ac_step a) then [] else [qs_command (ac_step a)] | None \<Rightarrow> [])
      @ map qs_command (filter (\<lambda>s. \<not> qs_internal s) (iq_steps ?d)) = map qs_command (live q)"
    by (auto simp: live_def drop_internal_def split: option.split)
  with assms(1) show "q' = q'\<lparr>iq_active := None, iq_steps := [\<lparr>qs_command = acc_id a,
      qs_state = state_neutral, qs_duration = 0, qs_last = True, qs_internal = False\<rparr>],
      iq_finished := iq_finished q @ map (\<lambda>i. \<lparr>fin_id = i, fin_cancelled = True\<rparr>) (waiting q)\<rparr>"
    by (auto simp: push_def Let_def cancel_def remdups_grouped [OF g] waiting_def comp_def
        queue_timeline_def timeline_steps_def drop_internal_def split: if_splits)
  from assms(1) show "iq_keepalive q' = iq_keepalive q"
    by (auto simp: push_def Let_def cancel_def queue_timeline_def drop_internal_def split: if_splits)
qed

lemma tick_zero_step:
  assumes "iq_active q = None" "iq_steps q = [s]" "qs_duration s = 0" "keepalive_ok q"
  shows "\<exists>q'. tick now q = Some (state_neutral, q') \<and> is_idle q' \<and>
    iq_finished q' = iq_finished q @ (if qs_last s \<and> \<not> qs_internal s
      then [\<lparr>fin_id = qs_command s, fin_cancelled = False\<rparr>] else [])"
proof -
  let ?q1 = "q\<lparr>iq_steps := [], iq_idle_since := None,
      iq_active := Some \<lparr>ac_step = s, ac_ends_at = now\<rparr>\<rparr>"
  let ?q2 = "finish_active now \<lparr>ac_step = s, ac_ends_at = now\<rparr> ?q1"
  have q2: "iq_active ?q2 = None" "iq_steps ?q2 = []" "iq_idle_since ?q2 = None"
    "iq_keepalive ?q2 = iq_keepalive q"
    by (simp_all add: finish_active_def start_next_def Let_def)
  obtain b q3 where k: "keep_alive now ?q2 = (b, q3)" by (cases "keep_alive now ?q2") auto
  have "\<not> b"
    using k q2 assms(4) by (auto simp: keep_alive_def keepalive_ok_def Let_def split: option.splits)
  moreover have "iq_finished q3 = iq_finished ?q2"
    using keep_alive_live(2) [of now ?q2] k by simp
  moreover have "is_idle q3"
    using k \<open>\<not> b\<close> q2 by (auto simp: is_idle_def keep_alive_def Let_def split: option.splits if_splits)
  moreover have "tick now ?q2 = Some (state_neutral, q3)"
    using q2 k \<open>\<not> b\<close> by (subst tick.simps) (simp add: start_next_def)
  moreover have "tick now q = tick now ?q1"
    using assms(1-3) by (subst tick.simps) (simp add: start_next_def)
  moreover have "tick now ?q1 = tick now ?q2"
    by (subst tick.simps) simp
  ultimately show ?thesis by (simp add: finish_active_frame)
qed

text \<open>An accepted \<open>Neutral\<close> takes effect at once: the next tick, at whatever time, presents
  the released controller and leaves the queue idle; every command that still owed a report is
  reported cancelled, in order, and the \<open>Neutral\<close> itself finished.\<close>

lemma neutral_releases_at_once:
  assumes "queue_inv q" "keepalive_ok q" "push q SNeutral p = (Inr a, q')"
  shows "\<exists>q''. tick now q' = Some (state_neutral, q'') \<and> is_idle q'' \<and>
    iq_finished q'' = iq_finished q @ map (\<lambda>i. \<lparr>fin_id = i, fin_cancelled = True\<rparr>) (waiting q)
      @ [\<lparr>fin_id = acc_id a, fin_cancelled = False\<rparr>]"
proof -
  let ?s = "\<lparr>qs_command = acc_id a, qs_state = state_neutral, qs_duration = 0,
      qs_last = True, qs_internal = False\<rparr>"
  note shape = arg_cong [OF push_neutral_queue(1) [OF assms(3,1)]]
  have "iq_active q' = None" "iq_steps q' = [?s]"
    "iq_finished q' = iq_finished q @ map (\<lambda>i. \<lparr>fin_id = i, fin_cancelled = True\<rparr>) (waiting q)"
    using shape [of iq_active] shape [of iq_steps] shape [of iq_finished] by simp_all
  moreover have "keepalive_ok q'"
    using assms(2) push_neutral_queue(2) [OF assms(3,1)] by (simp add: keepalive_ok_def)
  ultimately show ?thesis using tick_zero_step [of q' ?s now] by simp
qed

text \<open>\<open>push\<close> rejects exactly when the client steps already waiting plus the new command's
  would exceed the capacity; a rejection only takes the keepalive off the line: no id is spent,
  nothing is reported and no client step is lost. An accepted push leaves at most one step over
  the capacity (the marker of a command that holds nothing).\<close>

lemma push_capacity:
  "case push q c p of
     (Inl QueueFull, q') \<Rightarrow>
       capacity < length (filter (\<lambda>s. \<not> qs_internal s) (iq_steps q)) + length (switch_timeline c p)
       \<and> iq_next_id q' = iq_next_id q \<and> command_ids q' = command_ids q \<and> live q' = live q
   | (Inr a, q') \<Rightarrow>
       length (filter (\<lambda>s. \<not> qs_internal s) (iq_steps q)) + length (switch_timeline c p) \<le> capacity
       \<and> acc_id a = iq_next_id q \<and> acc_input a = sum_list (map tsi_duration (switch_timeline c p))
       \<and> pending q' \<le> capacity + 1"
proof -
  have rej: "live (drop_internal q) = live q" "command_ids (drop_internal q) = command_ids q"
    "iq_next_id (drop_internal q) = iq_next_id q" by (simp_all add: queue_simps)
  have steps: "iq_steps (drop_internal q) = filter (\<lambda>s. \<not> qs_internal s) (iq_steps q)"
    by (simp add: drop_internal_def)
  show ?thesis
  proof (cases "capacity < length (filter (\<lambda>s. \<not> qs_internal s) (iq_steps q))
      + length (switch_timeline c p)")
    case True
    with rej steps show ?thesis by (simp add: push_def Let_def)
  next
    case False
    obtain r q' where p: "push q c p = (r, q')" by (cases "push q c p") auto
    with False steps have r: "r = Inr \<lparr>acc_id = iq_next_id q,
        acc_input = sum_list (map tsi_duration (switch_timeline c p))\<rparr>"
      by (simp add: push_def Let_def queue_simps)
    have "pending q' \<le> capacity + 1"
      using p False steps
      by (auto simp: push_def Let_def queue_timeline_def timeline_steps_def cancel_def
          pending_def split: if_splits)
    with p r False show ?thesis by simp
  qed
qed

lemma length_timeline_steps [simp]: "length (timeline_steps c ts b) = length ts"
  by (simp add: timeline_steps_def)

text \<open>The queue can fill past the point where it still takes \<open>Neutral\<close>: 256 inputs and one
  command that holds nothing are accepted, and from then on, until a tick, the command that
  releases everything is rejected as if there were no room for it.\<close>

lemma full_queue_rejects_neutral:
  "\<exists>q. command_run queue_step new_queue [0, 1] [] q \<and> push q SNeutral p = (Inl QueueFull, q)"
proof -
  obtain ts :: "timed_switch_input list" where ts: "length ts = 256"
    using Ex_list_of_length by blast
  then have ne: "ts \<noteq> []" by auto
  let ?s0 = "timeline_steps 0 ts False"
  let ?s1 = "\<lparr>qs_command = 1, qs_state = state_neutral, qs_duration = 0,
      qs_last = True, qs_internal = False\<rparr>"
  let ?q1 = "new_queue\<lparr>iq_next_id := 1, iq_steps := ?s0\<rparr>"
  let ?q2 = "?q1\<lparr>iq_next_id := 2, iq_steps := ?s0 @ [?s1]\<rparr>"
  have d0: "drop_internal new_queue = new_queue"
    by (simp add: drop_internal_def new_queue_def)
  have d1: "drop_internal ?q1 = ?q1" "drop_internal ?q2 = ?q2"
    by (simp_all add: drop_internal_def new_queue_def)
  have p1: "push new_queue (SSequence ts) p
      = (Inr \<lparr>acc_id = 0, acc_input = sum_list (map tsi_duration ts)\<rparr>, ?q1)"
    unfolding push_def d0
    using ts ne by (simp add: Let_def capacity_def queue_timeline_def new_queue_def)
  have p2: "push ?q1 (SSequence []) p = (Inr \<lparr>acc_id = 1, acc_input = 0\<rparr>, ?q2)"
    unfolding push_def d1
    using ts by (simp add: Let_def capacity_def queue_timeline_def timeline_steps_def new_queue_def)
  have "command_run queue_step new_queue (([] @ [0]) @ [1]) (([] @ []) @ []) ?q2"
    using push_accepts [OF p1] push_accepts [OF p2]
    by (intro command_run.run_step [OF command_run.run_step [OF command_run.run_start]]) simp_all
  moreover have "push ?q2 SNeutral p = (Inl QueueFull, ?q2)"
    using ts unfolding push_def d1 by (simp add: Let_def capacity_def)
  ultimately show ?thesis by auto
qed

text \<open>No drift and no skipped input: when the active step has ended, a tick less than 2 ms
  late starts the next step from the scheduled end, a later one from the time of the tick; a next
  step of at least 2 ms is the one presented, with its whole duration less the lateness still to
  run.\<close>

lemma tick_next_step:
  assumes "iq_active q = Some a" "ac_ends_at a \<le> now" "iq_steps q = s # ss" "millis 2 \<le> qs_duration s"
  shows "\<exists>q'. tick now q = Some (qs_state s, q') \<and> iq_steps q' = ss \<and>
    iq_active q' = Some \<lparr>ac_step = s, ac_ends_at =
      (if now - ac_ends_at a < millis 2 then ac_ends_at a else now) + qs_duration s\<rparr>"
proof -
  let ?q = "finish_active now a q"
  have q: "iq_steps ?q = ss" "iq_active ?q = Some \<lparr>ac_step = s, ac_ends_at =
      (if now - ac_ends_at a < millis 2 then ac_ends_at a else now) + qs_duration s\<rparr>"
    using assms(3) by (simp_all add: finish_active_def start_next_def Let_def)
  have "now < (if now - ac_ends_at a < millis 2 then ac_ends_at a else now) + qs_duration s"
    using assms(2,4) by auto
  then have "tick now ?q = Some (qs_state s, ?q)"
    using q(2) by (subst tick.simps) simp
  moreover have "tick now q = tick now ?q"
    using assms(1,2) by (subst tick.simps) simp
  ultimately show ?thesis using q by auto
qed

section \<open>Concrete instances\<close>

text \<open>A hold of 5 ms on an idle device: pushed, played from time 0, finished by the tick at 5 ms.\<close>

definition demo_hold :: "switch_command" where
  "demo_hold = SHold (state_of_button Switch_A) (millis 5)"

definition demo_pushed :: input_queue where
  "demo_pushed = new_queue\<lparr>iq_next_id := 1, iq_steps := [\<lparr>qs_command = 0,
     qs_state = state_of_button Switch_A, qs_duration = millis 5, qs_last = True,
     qs_internal = False\<rparr>]\<rparr>"

definition demo_playing :: input_queue where
  "demo_playing = demo_pushed\<lparr>iq_steps := [], iq_active := Some \<lparr>ac_step = \<lparr>qs_command = 0,
     qs_state = state_of_button Switch_A, qs_duration = millis 5, qs_last = True,
     qs_internal = False\<rparr>, ac_ends_at = millis 5\<rparr>\<rparr>"

definition demo_done :: input_queue where
  "demo_done = demo_playing\<lparr>iq_active := None,
     iq_finished := [\<lparr>fin_id = 0, fin_cancelled = False\<rparr>]\<rparr>"

lemmas demo_defs = demo_hold_def demo_pushed_def demo_playing_def demo_done_def new_queue_def

lemma demo_run:
  "push new_queue demo_hold default_profile =
     (Inr \<lparr>acc_id = 0, acc_input = millis 5\<rparr>, demo_pushed)"
  "tick 0 demo_pushed = Some (state_of_button Switch_A, demo_playing)"
  "tick (millis 5) demo_playing = Some (state_neutral, demo_done)"
  "take_finished demo_done = ([\<lparr>fin_id = 0, fin_cancelled = False\<rparr>], demo_done\<lparr>iq_finished := []\<rparr>)"
  by (simp_all add: demo_defs push_def drop_internal_def Let_def capacity_def queue_timeline_def
      timeline_steps_def tick.simps start_next_def finish_active_def keep_alive_def take_finished_def)

theorem queue_reports_exactly_once_witness:
  "command_run queue_step new_queue [0] [0] (demo_done\<lparr>iq_finished := []\<rparr>) \<and>
   [0] = [0] @ command_ids (demo_done\<lparr>iq_finished := []\<rparr>) \<and> sorted_wrt (<) [0::nat]"
proof -
  have "command_run queue_step new_queue (((([] @ [0]) @ []) @ []) @ []) (((([] @ []) @ []) @ []) @ [0])
      (demo_done\<lparr>iq_finished := []\<rparr>)"
    using push_accepts [OF demo_run(1)] tick_plays [OF demo_run(2)] tick_plays [OF demo_run(3)]
      take_reports [OF demo_run(4)]
    by (intro command_run.run_step [OF command_run.run_step [OF command_run.run_step
          [OF command_run.run_step [OF command_run.run_start]]]]) simp_all
  then have run: "command_run queue_step new_queue [0] [0] (demo_done\<lparr>iq_finished := []\<rparr>)" by simp
  show ?thesis using run queue_reports_exactly_once [OF run] by blast
qed

end
