(* ===== verification/Crc32c.thy ===== *)
theory Crc32c
  imports Prelude
begin

text \<open>
  adapters/pabotbase/src/crc.rs: the table-driven CRC-32C of the packets, its bit-serial
  reference, and what it detects.
\<close>

section \<open>The table-driven code\<close>

definition poly :: u32 where
  "poly = 0x82F63B78"

definition crc_bit :: "u32 \<Rightarrow> u32" where
  "crc_bit crc = (if crc AND 1 \<noteq> 0 then drop_bit 1 crc XOR poly else drop_bit 1 crc)"

definition crc_table :: "u32 list" where
  "crc_table = map (\<lambda>i. (crc_bit ^^ 8) (of_nat i)) [0..<256]"

definition crc_step :: "u32 \<Rightarrow> u8 \<Rightarrow> u32" where
  "crc_step crc b = (crc_table ! unat ((crc XOR ucast b) AND 0xff)) XOR drop_bit 8 crc"

definition crc32c :: "u32 \<Rightarrow> bytes \<Rightarrow> u32" where
  "crc32c seed data = foldl crc_step seed data"

text \<open>The reference: the register takes a byte in its low bits and is clocked eight times.\<close>

definition crc_serial :: "u32 \<Rightarrow> bytes \<Rightarrow> u32" where
  "crc_serial seed data = foldl (\<lambda>crc b. (crc_bit ^^ 8) (crc XOR ucast b)) seed data"

section \<open>One clock of the register\<close>

lemma crc_bit_alt: "crc_bit x = (if bit x 0 then drop_bit 1 x XOR poly else drop_bit 1 x)"
  using and_push_bit_1_iff [of x 0] by (simp add: crc_bit_def)

lemma crc_bit_xor: "crc_bit (x XOR y) = crc_bit x XOR crc_bit y"
  by (rule bit_word_eqI) (auto simp: crc_bit_alt bit_simps)

lemma crc_bits_xor: "(crc_bit ^^ n) (x XOR y) = (crc_bit ^^ n) x XOR (crc_bit ^^ n) y"
  by (induction n) (simp_all add: crc_bit_xor)

lemma poly_top: "bit poly 31"
  by (simp add: poly_def bit_simps)

lemma crc_bit_zero_iff: "crc_bit x = 0 \<longleftrightarrow> x = 0"
proof
  assume z: "crc_bit x = 0"
  have "\<not> bit x 0"
  proof
    assume "bit x 0"
    then have "drop_bit 1 x XOR poly = 0" using z by (simp add: crc_bit_alt)
    then have "\<not> bit (drop_bit 1 x XOR poly) 31" by simp
    then show False using poly_top bit_imp_le_length [of x 32] by (auto simp: bit_simps)
  qed
  then have d: "drop_bit 1 x = 0" using z by (simp add: crc_bit_alt)
  show "x = 0"
  proof (rule bit_word_eqI)
    fix n
    assume "n < LENGTH(32)"
    have "bit x n \<Longrightarrow> 0 < n" using \<open>\<not> bit x 0\<close> by (cases n) auto
    moreover have "bit x n \<Longrightarrow> 0 < n \<Longrightarrow> bit (drop_bit 1 x) (n - 1)"
      by (simp add: bit_simps)
    ultimately show "bit x n \<longleftrightarrow> bit (0 :: u32) n" using d by auto
  qed
qed (simp add: crc_bit_alt)

lemma crc_bits_zero_iff: "(crc_bit ^^ n) x = 0 \<longleftrightarrow> x = 0"
  by (induction n) (simp_all add: crc_bit_zero_iff)

lemma xor_zero_iff: "x XOR y = 0 \<longleftrightarrow> x = (y :: 'a::len word)"
  by (auto simp: xor_self_eq) (metis xor.assoc xor.right_neutral xor_self_eq)

lemma crc_bits_inject: "(crc_bit ^^ n) x = (crc_bit ^^ n) y \<longleftrightarrow> x = y"
  by (metis crc_bits_xor crc_bits_zero_iff xor_zero_iff)

text \<open>Clocking \<open>n\<close> zeros out of the register shifts it.\<close>

lemma crc_bits_shift: "take_bit n x = 0 \<Longrightarrow> (crc_bit ^^ n) x = drop_bit n x"
proof (induction n arbitrary: x)
  case (Suc n)
  have b0: "\<not> bit x 0"
    using arg_cong [OF Suc.prems, where f = "\<lambda>w. bit w 0"] by (simp add: bit_simps)
  have "take_bit n (drop_bit 1 x) = 0"
  proof (rule bit_word_eqI)
    fix k
    assume "k < LENGTH(32)"
    show "bit (take_bit n (drop_bit 1 x)) k \<longleftrightarrow> bit (0 :: u32) k"
      using arg_cong [OF Suc.prems, where f = "\<lambda>w. bit w (Suc k)"] by (auto simp: bit_simps)
  qed
  note step = Suc.IH [OF this]
  have "(crc_bit ^^ Suc n) x = (crc_bit ^^ n) (crc_bit x)" by (simp add: funpow_swap1)
  also have "crc_bit x = drop_bit 1 x" using b0 by (simp add: crc_bit_alt)
  also note step
  finally show ?case by simp
qed simp

section \<open>The table is the reference\<close>

lemma crc_table_nth: "crc_table ! unat (b AND 0xff) = (crc_bit ^^ 8) (b AND 0xff)"
proof -
  have "unat (b AND 0xff) \<le> unat (0xff :: u32)"
    using word_and_le1 [of b "0xff"] by (simp add: word_le_nat_alt)
  then have "unat (b AND 0xff) < 256" by simp
  then show ?thesis by (simp add: crc_table_def)
qed

lemma crc_step_serial: "crc_step crc b = (crc_bit ^^ 8) (crc XOR ucast b)"
proof -
  let ?x = "crc XOR ucast b"
  have m: "(0xff :: u32) = mask 8" by (simp add: mask_eq_exp_minus_1)
  have split: "?x = (?x AND 0xff) XOR push_bit 8 (drop_bit 8 crc)"
    unfolding m by (rule bit_word_eqI) (auto simp: bit_simps dest: bit_imp_le_length)
  have "(crc_bit ^^ 8) ?x = (crc_bit ^^ 8) (?x AND 0xff) XOR
      (crc_bit ^^ 8) (push_bit 8 (drop_bit 8 crc))"
    using split crc_bits_xor by metis
  also have "(crc_bit ^^ 8) (push_bit 8 (drop_bit 8 crc)) = drop_bit 8 crc"
  proof -
    have "(crc_bit ^^ 8) (push_bit 8 (drop_bit 8 crc)) = drop_bit 8 (push_bit 8 (drop_bit 8 crc))"
      by (rule crc_bits_shift) (simp add: take_bit_push_bit)
    also have "\<dots> = drop_bit 8 crc"
      by (rule bit_word_eqI) (auto simp: bit_simps dest: bit_imp_le_length)
    finally show ?thesis .
  qed
  finally show ?thesis by (simp only: crc_step_def crc_table_nth)
qed

lemma crc32c_simps [simp]:
  "crc32c s [] = s" "crc32c s (b # bs) = crc32c (crc_step s b) bs"
  "crc32c s (xs @ ys) = crc32c (crc32c s xs) ys"
  by (simp_all add: crc32c_def)

lemma crc_step_inject: "crc_step s b = crc_step t c \<longleftrightarrow> s XOR ucast b = t XOR ucast c"
  by (simp add: crc_step_serial crc_bits_inject del: funpow.simps)

lemma xor_right_inject [simp]: "x XOR z = y XOR z \<longleftrightarrow> x = (y :: 'a::len word)"
  by (metis xor.assoc xor.right_neutral xor_self_eq)

lemma crc32c_seed_inject: "crc32c s d = crc32c t d \<longleftrightarrow> s = t"
  by (induction d arbitrary: s t) (simp_all add: crc_step_inject)

section \<open>Up to four bytes at once\<close>

text \<open>Up to four bytes enter the register as one little-endian word.\<close>

fun le_word :: "bytes \<Rightarrow> u32" where
  "le_word [] = 0"
| "le_word (b # bs) = ucast b XOR push_bit 8 (le_word bs)"

lemma le_word_small: "bit (le_word bs) n \<Longrightarrow> n < 8 * length bs"
proof (induction bs arbitrary: n)
  case (Cons b bs)
  then consider "bit b n" | "8 \<le> n" "bit (le_word bs) (n - 8)"
    by (auto simp: bit_simps)
  then show ?case
  proof cases
    case 1
    then show ?thesis using bit_imp_le_length [of b n] by simp
  next
    case 2
    from Cons.IH [OF 2(2)] 2(1) show ?thesis by simp
  qed
qed simp

lemma le_word_inject:
  "length a = length b \<Longrightarrow> length a \<le> 4 \<Longrightarrow> le_word a = le_word b \<Longrightarrow> a = b"
proof (induction a b rule: list_induct2)
  case (Cons x xs y ys)
  have eq: "bit (ucast x XOR push_bit 8 (le_word xs) :: u32) n =
      bit (ucast y XOR push_bit 8 (le_word ys) :: u32) n" for n
    using Cons.prems(2) by simp
  have "x = y"
  proof (rule bit_word_eqI)
    fix n
    assume "n < LENGTH(8)"
    then show "bit x n = bit y n" using eq [of n] by (simp add: bit_simps)
  qed
  moreover have "le_word xs = le_word ys"
  proof (rule bit_word_eqI)
    fix n
    assume "n < LENGTH(32)"
    show "bit (le_word xs) n = bit (le_word ys) n"
    proof (cases "n < 24")
      case True
      then show ?thesis using eq [of "8 + n"] by (auto simp: bit_simps)
    next
      case False
      then have "\<not> bit (le_word xs) n" "\<not> bit (le_word ys) n"
        using le_word_small [of xs n] le_word_small [of ys n] Cons by auto
      then show ?thesis by simp
    qed
  qed
  ultimately show ?case using Cons by simp
qed simp

lemma crc32c_le_word:
  "length bs \<le> 4 \<Longrightarrow> crc32c s bs = (crc_bit ^^ (8 * length bs)) (s XOR le_word bs)"
proof (induction bs arbitrary: s)
  case (Cons b bs)
  let ?w = "le_word bs"
  have w: "(crc_bit ^^ 8) (push_bit 8 ?w) = ?w"
  proof -
    have "(crc_bit ^^ 8) (push_bit 8 ?w) = drop_bit 8 (push_bit 8 ?w)"
      by (rule crc_bits_shift) (simp add: take_bit_push_bit)
    also have "\<dots> = ?w"
    proof (rule bit_word_eqI)
      fix n
      have "n < 24" if "bit ?w n" using le_word_small [OF that] Cons.prems by simp
      then show "bit (drop_bit 8 (push_bit 8 ?w)) n \<longleftrightarrow> bit ?w n"
        by (auto simp: bit_simps)
    qed
    finally show ?thesis .
  qed
  have "crc32c s (b # bs) = (crc_bit ^^ (8 * length bs)) (crc_step s b XOR ?w)"
    using Cons by simp
  also have "crc_step s b XOR ?w = (crc_bit ^^ 8) (s XOR ucast b) XOR (crc_bit ^^ 8) (push_bit 8 ?w)"
    by (simp only: w crc_step_serial)
  also have "\<dots> = (crc_bit ^^ 8) (s XOR le_word (b # bs))"
    by (simp only: crc_bits_xor [symmetric] le_word.simps xor.assoc)
  also have "(crc_bit ^^ (8 * length bs)) \<dots> = (crc_bit ^^ (8 * length bs + 8)) (s XOR le_word (b # bs))"
    by (simp only: funpow_add o_apply)
  finally show ?case by (simp add: add.commute)
qed simp

lemma crc32c_burst_inject:
  assumes "length a = length b" "length a \<le> 4"
  shows "crc32c s a = crc32c s b \<longleftrightarrow> a = b"
proof
  assume "crc32c s a = crc32c s b"
  then have "s XOR le_word a = s XOR le_word b"
    using assms by (simp add: crc32c_le_word crc_bits_inject)
  then have "le_word a = le_word b" by (metis xor.commute xor_right_inject)
  with assms show "a = b" by (intro le_word_inject)
qed simp

section \<open>Properties\<close>

text \<open>C26: the table-driven CRC is the bit-serial CRC-32C (reflected, polynomial 0x82F63B78): a byte
  enters the low bits of the register, which is clocked eight times.\<close>

theorem crc32c_is_serial: "crc32c seed data = crc_serial seed data"
proof -
  have "crc_step = (\<lambda>crc b. (crc_bit ^^ 8) (crc XOR ucast b))"
    by (intro ext) (rule crc_step_serial)
  then show ?thesis unfolding crc32c_def crc_serial_def by (rule arg_cong)
qed

text \<open>The CRC detects every change confined to at most four consecutive bytes of a packet,
  wherever it is, and every change of the session that seeds it.\<close>

lemma crc32c_detects_bursts:
  assumes "length a = length b" "length a \<le> 4" "(s, a) \<noteq> (t, b)" "s = t \<or> a = b"
  shows "crc32c s (pre @ a @ post) \<noteq> crc32c t (pre @ b @ post)"
  using assms crc32c_burst_inject [OF assms(1,2)] by (auto simp: crc32c_seed_inject)

end
