(* ===== verification/Stream_Decoder.thy ===== *)
theory Stream_Decoder
  imports Prelude
begin

text \<open>
  The interface of the incremental decoders of the serial protocol (the packet parser and the
  message reader of adapters/pabotbase): a decoder takes the bytes of one read and gives what
  they complete. The law is that a read may be split anywhere; the client lemmas show that the
  result depends on the bytes only, however the reads cut them. \<open>fine\<close> marks the inputs the law
  is claimed for.
\<close>

fun push_reads :: "('s \<Rightarrow> bytes \<Rightarrow> 'o list \<times> 's) \<Rightarrow> 's \<Rightarrow> bytes list \<Rightarrow> 'o list \<times> 's" where
  "push_reads push s [] = ([], s)"
| "push_reads push s (r # rs) =
     (let (out, s') = push s r; (outs, s'') = push_reads push s' rs in (out @ outs, s''))"

text \<open>Prepending one decoded item.\<close>

definition emit :: "'o \<Rightarrow> 'o list \<times> 's \<Rightarrow> 'o list \<times> 's" where
  "emit o1 r = (o1 # fst r, snd r)"

lemma fst_emit [simp]: "fst (emit x r) = x # fst r" "snd (emit x r) = snd r"
  by (simp_all add: emit_def)

locale stream_decoder =
  fixes push :: "'s \<Rightarrow> bytes \<Rightarrow> 'o list \<times> 's"
    and fine :: "'s \<Rightarrow> bytes \<Rightarrow> bool"
    and ready :: "'s \<Rightarrow> bool"
  assumes push_nothing: "ready s \<Longrightarrow> push s [] = ([], s)"
    and push_append: "ready s \<Longrightarrow> fine s (xs @ ys) \<Longrightarrow>
      push s (xs @ ys) = (fst (push s xs) @ fst (push (snd (push s xs)) ys),
                          snd (push (snd (push s xs)) ys))"
    and fine_prefix: "ready s \<Longrightarrow> fine s (xs @ ys) \<Longrightarrow> fine s xs"
    and fine_rest: "ready s \<Longrightarrow> fine s (xs @ ys) \<Longrightarrow> fine (snd (push s xs)) ys"
    and push_ready: "ready s \<Longrightarrow> ready (snd (push s xs))"
begin

lemma reads_concat:
  "ready s \<Longrightarrow> fine s (concat rs) \<Longrightarrow> push_reads push s rs = push s (concat rs)"
proof (induction rs arbitrary: s)
  case Nil
  then show ?case by (simp add: push_nothing)
next
  case (Cons r rs)
  have fine: "fine s (r @ concat rs)" using Cons.prems(2) by simp
  have "push_reads push (snd (push s r)) rs = push (snd (push s r)) (concat rs)"
    using Cons.IH push_ready [OF Cons.prems(1)] fine_rest [OF Cons.prems(1) fine] by blast
  then show ?case
    using push_append [OF Cons.prems(1) fine] by (simp add: split_beta)
qed

text \<open>Frames decoded one by one are decoded in one read, and in any reads that cut them.\<close>

lemma frames_in_any_reads:
  assumes "ready s" and step: "\<And>f. f \<in> set frames \<Longrightarrow> push s (wire f) = ([item f], s)"
    and "fine s (concat (map wire frames))" "concat rs = concat (map wire frames)"
  shows "push_reads push s rs = (map item frames, s)"
proof -
  have "push s (concat (map wire frames)) = (map item frames, s)"
    using step assms(3)
  proof (induction frames)
    case Nil
    then show ?case by (simp add: push_nothing assms(1))
  next
    case (Cons f fs)
    have fine: "fine s (wire f @ concat (map wire fs))" using Cons.prems(2) by simp
    have f: "push s (wire f) = ([item f], s)" by (rule Cons.prems(1)) simp
    have "fine s (concat (map wire fs))" using fine_rest [OF assms(1) fine] f by simp
    then have "push s (concat (map wire fs)) = (map item fs, s)" using Cons by simp
    with push_append [OF assms(1) fine] f show ?case by simp
  qed
  then show ?thesis using reads_concat assms by metis
qed

end

end
