(* ===== verification/Packet.thy ===== *)
theory Packet
  imports Crc32c Stream_Decoder
begin

text \<open>
  adapters/pabotbase/src/packet.rs: the packets of the serial link and the incremental parser
  that finds them in what is read from the port. \<open>encode\<close> panics on a packet of more than 256
  bytes, the value \<open>None\<close> here.
\<close>

section \<open>Format\<close>

definition MAGIC :: u8 where "MAGIC = 0x81"
definition RETRANSMIT_FLAG :: u8 where "RETRANSMIT_FLAG = 0x80"
definition OPCODE_MASK :: u8 where "OPCODE_MASK = 0x7f"
definition HEADER_BYTES :: nat where "HEADER_BYTES = 4"
definition MIN_PACKET_BYTES :: nat where "MIN_PACKET_BYTES = HEADER_BYTES + 4"
definition MAX_PACKET_BYTES :: nat where "MAX_PACKET_BYTES = 256"
definition RESET_CRC_SEED :: u32 where "RESET_CRC_SEED = 0xFFFFFFFF"

definition ASK_RESET :: u8 where "ASK_RESET = 0x01"
definition ASK_VERSION :: u8 where "ASK_VERSION = 0x02"
definition ASK_PACKET_SIZE :: u8 where "ASK_PACKET_SIZE = 0x03"
definition ASK_BUFFER_SLOTS :: u8 where "ASK_BUFFER_SLOTS = 0x04"
definition ASK_BUFFER_BYTES :: u8 where "ASK_BUFFER_BYTES = 0x05"
definition REBOOT_TO_BOOTLOADER :: u8 where "REBOOT_TO_BOOTLOADER = 0x06"
definition INFO_STREAM_NOT_READY :: u8 where "INFO_STREAM_NOT_READY = 0x11"
definition ASK_STREAM_DATA :: u8 where "ASK_STREAM_DATA = 0x12"
definition INFO_STR :: u8 where "INFO_STR = 0x25"
definition INVALID_LENGTH :: u8 where "INVALID_LENGTH = 0x30"
definition INVALID_CHECKSUM_FAIL :: u8 where "INVALID_CHECKSUM_FAIL = 0x31"
definition UNKNOWN_OPCODE :: u8 where "UNKNOWN_OPCODE = 0x32"
definition RET_RESET :: u8 where "RET_RESET = 0x41"
definition RET_VERSION :: u8 where "RET_VERSION = 0x42"
definition RET_PACKET_SIZE :: u8 where "RET_PACKET_SIZE = 0x43"
definition RET_BUFFER_SLOTS :: u8 where "RET_BUFFER_SLOTS = 0x44"
definition RET_BUFFER_BYTES :: u8 where "RET_BUFFER_BYTES = 0x45"
definition RET_STREAM_DATA :: u8 where "RET_STREAM_DATA = 0x52"

lemmas packet_opcodes = ASK_RESET_def ASK_VERSION_def ASK_PACKET_SIZE_def ASK_BUFFER_SLOTS_def
  ASK_BUFFER_BYTES_def REBOOT_TO_BOOTLOADER_def INFO_STREAM_NOT_READY_def ASK_STREAM_DATA_def
  INFO_STR_def INVALID_LENGTH_def INVALID_CHECKSUM_FAIL_def UNKNOWN_OPCODE_def RET_RESET_def
  RET_VERSION_def RET_PACKET_SIZE_def RET_BUFFER_SLOTS_def RET_BUFFER_BYTES_def RET_STREAM_DATA_def

lemmas packet_sizes = HEADER_BYTES_def MIN_PACKET_BYTES_def MAX_PACKET_BYTES_def

record packet =
  pk_seq :: u8
  pk_opcode :: u8
  pk_payload :: bytes

definition base_opcode :: "packet \<Rightarrow> u8" where
  "base_opcode p = pk_opcode p AND OPCODE_MASK"

definition payload_u32 :: "packet \<Rightarrow> u32 option" where
  "payload_u32 p = get_u32 (pk_payload p)"

datatype parsed = Valid packet | Invalid u8 | ChecksumFail u8

definition seal :: "bytes \<Rightarrow> u32 \<Rightarrow> bytes" where
  "seal body seed = body @ u32_to_le (crc32c seed body)"

definition encode :: "u8 \<Rightarrow> u8 \<Rightarrow> bytes \<Rightarrow> u32 \<Rightarrow> bytes option" where
  "encode seq opcode payload seed =
     (let total = MIN_PACKET_BYTES + length payload in
      if total \<le> MAX_PACKET_BYTES
      then Some (seal ([MAGIC, seq, of_nat (total mod 256), opcode] @ payload) seed)
      else None)"

definition packet_len :: "u8 \<Rightarrow> nat" where
  "packet_len b = (if b = 0 then MAX_PACKET_BYTES else unat b)"

definition verify :: "bytes \<Rightarrow> u32 \<Rightarrow> parsed" where
  "verify bs session =
     (let body = take (length bs - 4) bs; crc = drop (length bs - 4) bs;
          seq = body ! 1; opcode = body ! 3;
          seed = (if opcode = ASK_RESET then RESET_CRC_SEED else session)
      in if u32_to_le (crc32c seed body) \<noteq> crc then ChecksumFail seq
         else Valid \<lparr>pk_seq = seq, pk_opcode = opcode, pk_payload = drop HEADER_BYTES body\<rparr>)"

section \<open>The parser\<close>

record parser =
  pa_buffer :: bytes

definition new_parser :: parser where
  "new_parser = \<lparr>pa_buffer = []\<rparr>"

definition reset_parser :: "parser \<Rightarrow> parser" where
  "reset_parser p = p\<lparr>pa_buffer := []\<rparr>"

text \<open>The loop of \<open>push\<close>: with nothing buffered it first looks for the magic byte; \<open>want\<close> is a whole
  header first, the packet's own length once the header is there.\<close>

definition wanted :: "bytes \<Rightarrow> nat" where
  "wanted buffer = (if length buffer < MIN_PACKET_BYTES then MIN_PACKET_BYTES
                    else packet_len (buffer ! 2))"

function push_loop :: "u32 \<Rightarrow> bytes \<Rightarrow> bytes \<Rightarrow> parsed list \<times> bytes" where
  "push_loop session buffer input =
     (if input = [] then ([], buffer)
      else
        let bs = (if buffer = [] then dropWhile (\<lambda>b. b \<noteq> MAGIC) input else input) in
        if bs = [] then ([], buffer)
        else
          let want = wanted buffer;
              n = min (want - length buffer) (length bs);
              buffer' = buffer @ take n bs;
              rest = drop n bs
          in if length buffer' < want then ([], buffer')
             else
               let total = packet_len (buffer' ! 2) in
               if total < MIN_PACKET_BYTES
               then emit (Invalid (buffer' ! 1)) (push_loop session [] rest)
               else if length buffer' < total then push_loop session buffer' rest
               else emit (verify buffer' session) (push_loop session [] rest))"
  by pat_completeness auto
termination
proof (relation "measure (\<lambda>(_, buffer, input). 2 * length input + (if buffer = [] then 0 else 1))",
    goal_cases)
  case (2 session buffer input bs want n buffer' rest total)
  have "length bs \<le> length input" using 2 length_dropWhile_less by auto
  moreover have "buffer = [] \<Longrightarrow> 0 < n" using 2 by (simp add: wanted_def packet_sizes)
  ultimately show ?case using 2 by auto
next
  case (3 session buffer input bs want n buffer' rest total)
  have "length bs \<le> length input" using 3 length_dropWhile_less by auto
  moreover have "n \<noteq> 0"
  proof
    assume n: "n = 0"
    then have b: "buffer' = buffer" using 3(6) by simp
    have "want \<le> length buffer" using n 3(3,5) by (simp add: min_def split: if_splits)
    moreover have "length buffer < packet_len (buffer ! 2)" using 3(9,11) b by simp
    ultimately show False using 3(4) unfolding wanted_def by (simp split: if_splits)
  qed
  ultimately show ?case using 3 by auto
next
  case (4 session buffer input bs want n buffer' rest total)
  have "length bs \<le> length input" using 4 length_dropWhile_less by auto
  moreover have "buffer = [] \<Longrightarrow> 0 < n" using 4 by (simp add: wanted_def packet_sizes)
  ultimately show ?case using 4 by auto
qed simp

declare push_loop.simps [simp del]

definition push_parser :: "u32 \<Rightarrow> parser \<Rightarrow> bytes \<Rightarrow> parsed list \<times> parser" where
  "push_parser session p input =
     (case push_loop session (pa_buffer p) input of (out, b) \<Rightarrow> (out, p\<lparr>pa_buffer := b\<rparr>))"

section \<open>One byte at a time\<close>

text \<open>What becomes of a grown buffer, and the parser fed single bytes: the machine the loop is
  equal to.\<close>

definition settle :: "u32 \<Rightarrow> bytes \<Rightarrow> parsed list \<times> bytes" where
  "settle session buffer =
     (if length buffer < MIN_PACKET_BYTES then ([], buffer)
      else let total = packet_len (buffer ! 2) in
        if total < MIN_PACKET_BYTES then ([Invalid (buffer ! 1)], [])
        else if length buffer < total then ([], buffer)
        else ([verify buffer session], []))"

definition feed :: "u32 \<Rightarrow> bytes \<Rightarrow> u8 \<Rightarrow> parsed list \<times> bytes" where
  "feed session buffer b =
     (if buffer = [] \<and> b \<noteq> MAGIC then ([], []) else settle session (buffer @ [b]))"

fun feeds :: "u32 \<Rightarrow> bytes \<Rightarrow> bytes \<Rightarrow> parsed list \<times> bytes" where
  "feeds session buffer [] = ([], buffer)"
| "feeds session buffer (b # bs) =
     (let (out, buffer') = feed session buffer b; (outs, buffer'') = feeds session buffer' bs
      in (out @ outs, buffer''))"

lemma feeds_append:
  "feeds session buffer (xs @ ys) =
     (fst (feeds session buffer xs) @ fst (feeds session (snd (feeds session buffer xs)) ys),
      snd (feeds session (snd (feeds session buffer xs)) ys))"
  by (induction xs arbitrary: buffer) (simp_all add: split_beta)

text \<open>A buffer between two bytes: empty, or a begun packet that still wants more.\<close>

definition begun :: "bytes \<Rightarrow> bool" where
  "begun buffer \<longleftrightarrow> buffer = [] \<or> length buffer < wanted buffer"

lemma packet_len_bounds: "0 < packet_len b" "packet_len b \<le> 256"
proof -
  have "unat b < 256" using unsigned_less [of b, where ?'a = nat] by simp
  then show "0 < packet_len b" "packet_len b \<le> 256"
    by (simp_all add: packet_len_def packet_sizes unat_gt_0)
qed

lemma begun_short: "begun buffer \<Longrightarrow> length buffer < 256"
  using packet_len_bounds(2) by (auto simp: begun_def wanted_def packet_sizes intro: less_le_trans
      split: if_splits)

lemma settle_begun: "begun (snd (settle session buffer))"
  by (simp add: settle_def begun_def wanted_def Let_def)

lemma feeds_begun: "begun buffer \<Longrightarrow> begun (snd (feeds session buffer bs))"
proof (induction bs arbitrary: buffer)
  case (Cons b bs)
  have "begun (snd (feed session buffer b))"
    using settle_begun by (simp add: feed_def begun_def)
  from Cons.IH [OF this] show ?case by (simp add: split_beta)
qed simp

lemma feeds_grow:
  "buffer \<noteq> [] \<Longrightarrow> length buffer + length ys < wanted buffer \<Longrightarrow>
     feeds session buffer ys = ([], buffer @ ys)"
proof (induction ys arbitrary: buffer)
  case (Cons y ys)
  have w: "length (buffer @ [y]) + length ys < wanted (buffer @ [y]) \<and>
      settle session (buffer @ [y]) = ([], buffer @ [y])"
    using Cons.prems(2)
    by (cases "length buffer < MIN_PACKET_BYTES")
      (auto simp: wanted_def settle_def packet_sizes nth_append Let_def split: if_splits)
  then have "feed session buffer y = ([], buffer @ [y])"
    using Cons.prems(1) by (simp add: feed_def)
  with Cons.IH [of "buffer @ [y]"] w show ?case by simp
qed simp

lemma feeds_fill:
  assumes "buffer \<noteq> []" "ys \<noteq> []" "length buffer + length ys = wanted buffer"
  shows "feeds session buffer ys = settle session (buffer @ ys)"
proof -
  obtain zs z where ys: "ys = zs @ [z]" using assms(2) by (cases ys rule: rev_cases) auto
  have "feeds session buffer zs = ([], buffer @ zs)"
    using assms ys by (intro feeds_grow) simp_all
  then show ?thesis using assms(1) by (simp add: ys feeds_append feed_def split_beta)
qed

lemma feeds_garbage:
  "feeds session [] bs = feeds session [] (dropWhile (\<lambda>b. b \<noteq> MAGIC) bs)"
  by (induction bs) (simp_all add: feed_def)

lemma feeds_magic: "feeds session [] (MAGIC # bs) = feeds session [MAGIC] bs"
  by (simp add: feed_def settle_def packet_sizes)

lemma feeds_take:
  assumes "ys \<noteq> []" "buffer = [] \<longrightarrow> hd ys = MAGIC"
  shows "length (buffer @ ys) < wanted buffer \<Longrightarrow> feeds session buffer ys = ([], buffer @ ys)"
    and "length (buffer @ ys) = wanted buffer \<Longrightarrow>
      feeds session buffer ys = settle session (buffer @ ys)"
proof -
  have first: "feeds session [] ys = feeds session [MAGIC] (tl ys) \<and> ys = [MAGIC] @ tl ys
      \<and> wanted [MAGIC] = wanted []" if "buffer = []"
    using assms that by (cases ys) (simp_all add: feeds_magic wanted_def packet_sizes del: feeds.simps(2))
  show "feeds session buffer ys = ([], buffer @ ys)" if "length (buffer @ ys) < wanted buffer"
  proof (cases "buffer = []")
    case True
    have "feeds session [MAGIC] (tl ys) = ([], [MAGIC] @ tl ys)"
      by (rule feeds_grow) (use that first True assms(1) in \<open>simp_all add: wanted_def\<close>)
    with first True show ?thesis by simp
  next
    case False
    with that show ?thesis by (intro feeds_grow) simp_all
  qed
  show "feeds session buffer ys = settle session (buffer @ ys)"
    if "length (buffer @ ys) = wanted buffer"
  proof (cases "buffer = []")
    case True
    have "length ys = 8" using that True by (simp add: wanted_def packet_sizes)
    then have "tl ys \<noteq> []" by (cases ys rule: list.exhaust) auto
    then have "feeds session [MAGIC] (tl ys) = settle session ([MAGIC] @ tl ys)"
      by (intro feeds_fill) (use \<open>length ys = 8\<close> in \<open>simp_all add: wanted_def packet_sizes\<close>)
    with first True show ?thesis by simp
  next
    case False
    with that assms(1) show ?thesis by (intro feeds_fill) simp_all
  qed
qed

lemma settle_full:
  assumes "MIN_PACKET_BYTES \<le> length buffer"
  shows "packet_len (buffer ! 2) < MIN_PACKET_BYTES \<Longrightarrow>
      settle session buffer = ([Invalid (buffer ! 1)], [])"
    and "MIN_PACKET_BYTES \<le> packet_len (buffer ! 2) \<Longrightarrow> length buffer < packet_len (buffer ! 2) \<Longrightarrow>
      settle session buffer = ([], buffer)"
    and "MIN_PACKET_BYTES \<le> packet_len (buffer ! 2) \<Longrightarrow> packet_len (buffer ! 2) \<le> length buffer \<Longrightarrow>
      settle session buffer = ([verify buffer session], [])"
  using assms by (simp_all add: settle_def)

lemma push_loop_step:
  assumes "input \<noteq> []" "bs \<noteq> []"
    and "bs = (if buffer = [] then dropWhile (\<lambda>b. b \<noteq> MAGIC) input else input)"
    and "n = min (wanted buffer - length buffer) (length bs)" "b = buffer @ take n bs"
  shows "push_loop session buffer input =
    (if length b < wanted buffer then ([], b)
     else if packet_len (b ! 2) < MIN_PACKET_BYTES
     then emit (Invalid (b ! 1)) (push_loop session [] (drop n bs))
     else if length b < packet_len (b ! 2) then push_loop session b (drop n bs)
     else emit (verify b session) (push_loop session [] (drop n bs)))"
  using assms(1,2) unfolding push_loop.simps [of session buffer input] assms(3) [symmetric] Let_def
    assms(4) [symmetric] assms(5) [symmetric]
  by (simp only: if_False)

lemma push_loop_feeds: "begun buffer \<Longrightarrow> push_loop session buffer input = feeds session buffer input"
proof (induction session buffer input rule: push_loop.induct)
  case (1 session buffer input)
  let ?bs = "if buffer = [] then dropWhile (\<lambda>b. b \<noteq> MAGIC) input else input"
  let ?n = "min (wanted buffer - length buffer) (length ?bs)"
  let ?b = "buffer @ take ?n ?bs" and ?r = "drop ?n ?bs"
  have skip: "feeds session buffer input = feeds session buffer ?bs"
    using feeds_garbage by auto
  show ?case
  proof (cases "?bs = []")
    case True
    then have "feeds session buffer input = ([], buffer)" using skip by simp
    with True show ?thesis by (subst push_loop.simps) auto
  next
    case False
    then have input: "input \<noteq> []" by (auto split: if_splits)
    have begun: "length buffer < wanted buffer"
      using "1.prems" by (auto simp: begun_def wanted_def packet_sizes)
    then have take: "take ?n ?bs \<noteq> []" using False by simp
    have "hd ?bs = MAGIC" if "buffer = []"
      using False that by (metis (mono_tags, lifting) hd_dropWhile)
    then have "buffer = [] \<longrightarrow> hd (take ?n ?bs) = MAGIC" using take by (metis hd_take take_eq_Nil neq0_conv)
    note fed = feeds_take [OF take this, of session]
    have cut: "feeds session buffer input =
        (fst (feeds session buffer (take ?n ?bs)) @
           fst (feeds session (snd (feeds session buffer (take ?n ?bs))) ?r),
         snd (feeds session (snd (feeds session buffer (take ?n ?bs))) ?r))"
      unfolding skip by (metis append_take_drop_id feeds_append)
    show ?thesis
    proof (cases "length ?b < wanted buffer")
      case True
      then have "?r = []" by auto
      then have "feeds session buffer input = ([], ?b)"
        using cut fed(1) True by simp
      then show ?thesis
        unfolding push_loop_step [where session = session, OF input False refl refl refl] if_P [OF True]
        by (rule sym)
    next
      case full: False
      then have eq: "length ?b = wanted buffer" using begun by auto
      have min: "MIN_PACKET_BYTES \<le> length ?b"
        using eq begun by (auto simp: wanted_def split: if_splits)
      note cut = cut [unfolded fed(2) [OF eq]]
      consider "packet_len (?b ! 2) < MIN_PACKET_BYTES"
        | "MIN_PACKET_BYTES \<le> packet_len (?b ! 2)" "length ?b < packet_len (?b ! 2)"
        | "MIN_PACKET_BYTES \<le> packet_len (?b ! 2)" "packet_len (?b ! 2) \<le> length ?b"
        by linarith
      moreover have unfolded: "push_loop session buffer input =
          (if packet_len (?b ! 2) < MIN_PACKET_BYTES
           then emit (Invalid (?b ! 1)) (push_loop session [] ?r)
           else if length ?b < packet_len (?b ! 2) then push_loop session ?b ?r
           else emit (verify ?b session) (push_loop session [] ?r))"
        unfolding push_loop_step [where session = session, OF input False refl refl refl]
          if_not_P [OF full] by (rule refl)
      note IH = "1.IH" [OF input refl False refl refl refl refl full refl]
      have empty: "begun []" by (simp add: begun_def)
      ultimately show ?thesis
      proof cases
        case 1
        then show ?thesis unfolding unfolded cut settle_full(1) [OF min 1]
          using IH(1) [OF 1 empty] by (simp add: emit_def)
      next
        case 2
        have "begun ?b" using 2 min unfolding begun_def wanted_def by auto
        then have "push_loop session ?b ?r = feeds session ?b ?r"
          using IH(2) 2 by auto
        then show ?thesis unfolding unfolded cut settle_full(2) [OF min 2]
          using 2 by simp
      next
        case 3
        then have "push_loop session [] ?r = feeds session [] ?r"
          using IH(3) empty by auto
        then show ?thesis unfolding unfolded cut settle_full(3) [OF min 3]
          using 3 by (simp add: emit_def)
      qed
    qed
  qed
qed

section \<open>The parser is a stream decoder\<close>

lemma push_parser_feeds:
  "begun (pa_buffer p) \<Longrightarrow> push_parser session p bs =
     (fst (feeds session (pa_buffer p) bs), p\<lparr>pa_buffer := snd (feeds session (pa_buffer p) bs)\<rparr>)"
  by (simp add: push_parser_def push_loop_feeds split_beta)

lemma push_parser_append:
  assumes "begun (pa_buffer p)"
  shows "push_parser session p (xs @ ys) =
    (fst (push_parser session p xs) @ fst (push_parser session (snd (push_parser session p xs)) ys),
     snd (push_parser session (snd (push_parser session p xs)) ys))"
proof -
  have "begun (pa_buffer (p\<lparr>pa_buffer := snd (feeds session (pa_buffer p) xs)\<rparr>))"
    using feeds_begun [OF assms] by simp
  from push_parser_feeds [OF this] assms show ?thesis
    by (simp add: push_parser_feeds feeds_append)
qed

interpretation packets: stream_decoder "push_parser session" "\<lambda>p bs. True" "\<lambda>p. begun (pa_buffer p)"
  for session
  by unfold_locales
    (simp_all add: push_parser_append, simp_all add: push_parser_feeds feeds_begun)

lemma new_parser_begun [simp]: "begun (pa_buffer new_parser)" "begun []"
  by (simp_all add: new_parser_def begun_def)

section \<open>Encoded packets\<close>

definition crc_seed :: "u8 \<Rightarrow> u32 \<Rightarrow> u32" where
  "crc_seed opcode session = (if opcode = ASK_RESET then RESET_CRC_SEED else session)"

lemma packet_len_mod:
  assumes "8 \<le> n" "n \<le> 256"
  shows "packet_len (of_nat (n mod 256)) = n"
proof (cases "n = 256")
  case True
  then show ?thesis by (simp add: packet_len_def packet_sizes)
next
  case False
  then have n: "n < 256" using assms by simp
  then have "unat (of_nat n :: u8) = n" by (simp add: unsigned_of_nat take_bit_nat_eq_self)
  moreover from this have "(of_nat n :: u8) \<noteq> 0" using assms(1) by (metis not_numeral_le_zero unsigned_0)
  ultimately show ?thesis using n by (simp add: packet_len_def)
qed

text \<open>A whole packet of a consistent length byte is settled by \<open>verify\<close>.\<close>

lemma feeds_whole:
  assumes "bs = [MAGIC, seq, of_nat (length bs mod 256)] @ rest" "8 \<le> length bs" "length bs \<le> 256"
  shows "feeds session [] bs = ([verify bs session], [])"
proof -
  have len: "packet_len (bs ! 2) = length bs"
    using packet_len_mod [OF assms(2,3)] by (subst assms(1)) simp
  have hd: "hd bs = MAGIC" "bs \<noteq> []" by (subst assms(1), simp)+
  have take: "hd (take 8 bs) = MAGIC" "take 8 bs \<noteq> []" "length (take 8 bs) = 8"
    using hd assms(2) by simp_all
  have nth: "take 8 bs ! 2 = bs ! 2" by simp
  have head: "feeds session [] (take 8 bs) = settle session (take 8 bs)"
    using feeds_take(2) [of "take 8 bs" "[]" session] take by (simp add: wanted_def packet_sizes)
  show ?thesis
  proof (cases "length bs = 8")
    case True
    then show ?thesis using head len by (simp add: settle_def packet_sizes)
  next
    case False
    then have lt: "8 < length bs" using assms(2) by simp
    then have s: "settle session (take 8 bs) = ([], take 8 bs)"
      using len nth by (simp add: settle_def packet_sizes)
    have "feeds session (take 8 bs) (drop 8 bs) = settle session (take 8 bs @ drop 8 bs)"
      using take lt len nth by (intro feeds_fill) (simp_all add: wanted_def packet_sizes)
    also have "\<dots> = ([verify bs session], [])"
      using assms(2) len by (simp add: settle_def packet_sizes)
    finally have "feeds session [] (take 8 bs @ drop 8 bs) = ([verify bs session], [])"
      using head s by (simp only: feeds_append) simp
    then show ?thesis by simp
  qed
qed

lemma encode_Some:
  "encode seq opcode payload seed = Some w \<longleftrightarrow> length payload \<le> 248 \<and>
     w = seal ([MAGIC, seq, of_nat ((8 + length payload) mod 256), opcode] @ payload) seed"
  by (auto simp: encode_def packet_sizes)

lemma verify_body:
  "verify (body @ u32_to_le c) session =
     (if crc32c (crc_seed (body ! 3) session) body \<noteq> c then ChecksumFail (body ! 1)
      else Valid \<lparr>pk_seq = body ! 1, pk_opcode = body ! 3, pk_payload = drop 4 body\<rparr>)"
  unfolding verify_def crc_seed_def Let_def HEADER_BYTES_def by simp

lemma verify_seal:
  "body = [MAGIC, seq, n, opcode] @ payload \<Longrightarrow> verify (seal body (crc_seed opcode session)) session =
     Valid \<lparr>pk_seq = seq, pk_opcode = opcode, pk_payload = payload\<rparr>"
  unfolding seal_def verify_body by simp

lemma feeds_sealed:
  assumes "length payload \<le> 248" "set garbage \<subseteq> - {MAGIC}"
    and "w = seal ([MAGIC, seq, of_nat ((8 + length payload) mod 256), opcode] @ payload)
      (crc_seed opcode session)"
  shows "feeds session [] (garbage @ w) =
    ([Valid \<lparr>pk_seq = seq, pk_opcode = opcode, pk_payload = payload\<rparr>], [])"
proof -
  have "dropWhile (\<lambda>b. b \<noteq> MAGIC) (garbage @ w) = w"
    using assms(2) unfolding assms(3) seal_def by (subst dropWhile_append2) auto
  then have "feeds session [] (garbage @ w) = feeds session [] w"
    by (metis feeds_garbage)
  also have "\<dots> = ([verify w session], [])"
    unfolding assms(3) seal_def using assms(1) by (intro feeds_whole) simp_all
  also have "verify w session = Valid \<lparr>pk_seq = seq, pk_opcode = opcode, pk_payload = payload\<rparr>"
    unfolding assms(3) by (rule verify_seal) (rule refl)
  finally show ?thesis .
qed

text \<open>The checksum of a whole packet, checksum included, is zero when it is right.\<close>

lemma le_word_u32_to_le: "le_word (u32_to_le c) = c"
proof (rule bit_word_eqI)
  fix n
  assume "n < LENGTH(32)"
  then consider "n < 8" | "8 \<le> n" "n < 16" | "16 \<le> n" "n < 24" | "24 \<le> n" "n < 32"
    by fastforce
  then show "bit (le_word (u32_to_le c)) n = bit c n"
    by cases (auto simp: u32_to_le_def bit_simps)
qed

lemma crc_check_zero: "length c = 4 \<Longrightarrow> u32_to_le s = c \<longleftrightarrow> crc32c s c = 0"
proof -
  assume c: "length c = 4"
  have "crc32c s c = 0 \<longleftrightarrow> s = le_word c"
    using c by (simp add: crc32c_le_word crc_bits_zero_iff xor_zero_iff del: funpow.simps)
  also have "\<dots> \<longleftrightarrow> u32_to_le s = c"
    using c le_word_inject [of "u32_to_le s" c] by (auto simp: le_word_u32_to_le)
  finally show ?thesis by simp
qed

lemma verify_zero:
  assumes "8 \<le> length bs"
  shows "verify bs session =
    (if crc32c (crc_seed (bs ! 3) session) bs = 0
     then Valid \<lparr>pk_seq = bs ! 1, pk_opcode = bs ! 3, pk_payload = drop 4 (take (length bs - 4) bs)\<rparr>
     else ChecksumFail (bs ! 1))"
proof -
  let ?body = "take (length bs - 4) bs" and ?crc = "drop (length bs - 4) bs"
  have "crc32c s bs = crc32c (crc32c s ?body) ?crc" for s
    by (metis append_take_drop_id crc32c_simps(3))
  moreover have "length ?crc = 4" using assms by simp
  ultimately have "u32_to_le (crc32c s ?body) = ?crc \<longleftrightarrow> crc32c s bs = 0" for s
    by (simp add: crc_check_zero)
  moreover have "?body ! 1 = bs ! 1" "?body ! 3 = bs ! 3" using assms by simp_all
  ultimately show ?thesis
    unfolding verify_def Let_def crc_seed_def HEADER_BYTES_def by auto
qed

lemma crc_seal_zero: "crc32c seed (seal body seed) = 0"
  using crc_check_zero [of "u32_to_le (crc32c seed body)" "crc32c seed body"] by (simp add: seal_def)

section \<open>Properties\<close>

definition encode_packet :: "u32 \<Rightarrow> packet \<Rightarrow> bytes" where
  "encode_packet session p =
     the (encode (pk_seq p) (pk_opcode p) (pk_payload p) (crc_seed (pk_opcode p) session))"

text \<open>What the parser finds does not depend on how the bytes were cut into reads, and it never
  buffers 256 bytes or more.\<close>

lemma parser_ignores_reads:
  "push_reads (push_parser session) new_parser reads = push_parser session new_parser (concat reads) \<and>
   length (pa_buffer (snd (push_reads (push_parser session) new_parser reads))) < 256"
proof
  show "push_reads (push_parser session) new_parser reads =
      push_parser session new_parser (concat reads)"
    by (rule packets.reads_concat) simp_all
  then show "length (pa_buffer (snd (push_reads (push_parser session) new_parser reads))) < 256"
    using begun_short [OF packets.push_ready [OF new_parser_begun(1)]] by simp
qed



text \<open>C29: a packet in which up to four consecutive bytes behind the header are changed, checksum
  included, is reported as a checksum failure of its sequence number and nothing else, and the
  parser is ready for the next packet.\<close>

theorem corrupted_packet_rejected:
  assumes "encode seq opcode payload (crc_seed opcode session) = Some (pre @ a @ post)"
    and "4 \<le> length pre" "length a = length b" "length a \<le> 4" "a \<noteq> b"
  shows "push_parser session new_parser (pre @ b @ post) = ([ChecksumFail seq], new_parser)"
proof -
  let ?w = "pre @ a @ post" and ?v = "pre @ b @ post"
  let ?head = "[MAGIC, seq, of_nat ((8 + length payload) mod 256), opcode]"
  have len: "length payload \<le> 248"
    and w: "?w = seal (?head @ payload) (crc_seed opcode session)"
    using assms(1) by (simp_all only: encode_Some)
  have lenw: "length ?w = 8 + length payload" unfolding w by (simp add: seal_def)
  then have lenv: "length ?v = 8 + length payload" using assms(3) by simp
  have "take 4 ?v = take 4 ?w" using assms(2) by simp
  also have "\<dots> = ?head" unfolding w seal_def by simp
  finally have head: "?v = ?head @ drop 4 ?v" by (metis append_take_drop_id)
  have nth: "?v ! 1 = seq" "?v ! 3 = opcode" by (subst head, simp)+
  have "?v = [MAGIC, seq, of_nat (length ?v mod 256)] @ opcode # drop 4 ?v"
    unfolding lenv by (subst (1) head) simp
  then have "feeds session [] ?v = ([verify ?v session], [])"
    by (rule feeds_whole) (simp_all only: lenv, use len in simp_all)
  moreover have "crc32c (crc_seed opcode session) ?v \<noteq> crc32c (crc_seed opcode session) ?w"
    using assms(3-5) by (simp add: crc32c_seed_inject crc32c_burst_inject)
  then have "verify ?v session = ChecksumFail seq"
    using lenv by (subst verify_zero) (simp_all only: nth w crc_seal_zero, simp_all)
  ultimately show ?thesis
    by (subst push_parser_feeds) (simp_all add: new_parser_def)
qed

theorem corrupted_packet_rejected_witness:
  "push_parser 7 new_parser
     ([MAGIC, 5, 8, ASK_VERSION] @ map (\<lambda>b. b XOR 1)
        (u32_to_le (crc32c 7 [MAGIC, 5, 8, ASK_VERSION])) @ []) = ([ChecksumFail 5], new_parser)"
proof (rule corrupted_packet_rejected)
  show "encode 5 ASK_VERSION [] (crc_seed ASK_VERSION 7) =
      Some ([MAGIC, 5, 8, ASK_VERSION] @ u32_to_le (crc32c 7 [MAGIC, 5, 8, ASK_VERSION]) @ [])"
    by (simp add: encode_Some seal_def crc_seed_def packet_opcodes)
  show "u32_to_le (crc32c 7 [MAGIC, 5, 8, ASK_VERSION]) \<noteq>
      map (\<lambda>b. b XOR 1) (u32_to_le (crc32c 7 [MAGIC, 5, 8, ASK_VERSION]))"
    by (simp add: u32_to_le_def) (metis xor.right_neutral xor.commute xor_right_inject zero_neq_one)
qed simp_all

end
