(* ===== verification/Rel_Link.thy ===== *)
theory Rel_Link
  imports Packet
begin

text \<open>
  adapters/pabotbase/src/link.rs: the reliable link endpoint both sides of the serial protocol
  use. Operations that seal a packet give \<open>None\<close> where \<open>packet::encode\<close> panics; \<open>send_stream\<close> is
  also \<open>None\<close> when the packet size leaves no room for data, where the code underflows or never ends
  (\<open>set_max_packet_bytes\<close> keeps it above that).
\<close>

definition WINDOW :: u8 where "WINDOW = 128"
definition BUFFER_BYTES :: nat where "BUFFER_BYTES = 16384"
definition STREAM_OVERHEAD :: nat where "STREAM_OVERHEAD = MIN_PACKET_BYTES + 2"
definition RETRANSMIT_AFTER_TICKS :: u32 where "RETRANSMIT_AFTER_TICKS = 2"

record unacked_packet =
  un_seq :: u8
  un_body :: bytes
  un_seed :: u32
  un_sent :: u32

record link =
  ln_session :: u32
  ln_parser :: parser
  ln_next_seq :: u8
  ln_unacked :: "unacked_packet list"
  ln_offset :: u16
  ln_max_bytes :: nat
  ln_tick :: u32
  ln_head :: u8
  ln_received :: "u8 \<rightharpoonup> bytes option"
  ln_ready :: bytes

definition new_link :: "u32 \<Rightarrow> nat \<Rightarrow> link" where
  "new_link session max_bytes =
     \<lparr>ln_session = session, ln_parser = new_parser, ln_next_seq = 0, ln_unacked = [], ln_offset = 0,
      ln_max_bytes = max_bytes, ln_tick = 0, ln_head = 0, ln_received = Map.empty, ln_ready = []\<rparr>"

definition reset_link :: "link \<Rightarrow> u32 \<Rightarrow> link" where
  "reset_link l session = new_link session (ln_max_bytes l)"

definition set_max_packet_bytes :: "link \<Rightarrow> nat \<Rightarrow> link" where
  "set_max_packet_bytes l n =
     l\<lparr>ln_max_bytes := max (STREAM_OVERHEAD + 1) (min n MAX_PACKET_BYTES)\<rparr>"

definition unacked_count :: "link \<Rightarrow> nat" where
  "unacked_count l = length (ln_unacked l)"

definition parse_link :: "link \<Rightarrow> bytes \<Rightarrow> parsed list \<times> link" where
  "parse_link l bs =
     (case push_parser (ln_session l) (ln_parser l) bs of (out, p) \<Rightarrow> (out, l\<lparr>ln_parser := p\<rparr>))"

section \<open>Sending\<close>

definition push_reliable :: "link \<Rightarrow> u8 \<Rightarrow> bytes \<Rightarrow> u32 \<Rightarrow> (bytes \<times> link) option" where
  "push_reliable l opcode payload seed =
     (let seq = ln_next_seq l in
      map_option (\<lambda>wire. (wire, l\<lparr>ln_next_seq := seq + 1,
          ln_unacked := ln_unacked l @
            [\<lparr>un_seq = seq, un_body = take (length wire - 4) wire, un_seed = seed,
              un_sent = ln_tick l\<rparr>]\<rparr>))
        (encode seq opcode payload seed))"

definition send_request :: "link \<Rightarrow> u8 \<Rightarrow> bytes \<Rightarrow> (bytes \<times> link) option" where
  "send_request l opcode payload =
     push_reliable l opcode payload
       (if opcode = ASK_RESET then RESET_CRC_SEED else ln_session l)"

function send_stream :: "link \<Rightarrow> bytes \<Rightarrow> (bytes \<times> link) option" where
  "send_stream l data =
     (if data = [] then Some ([], l)
      else if ln_max_bytes l \<le> STREAM_OVERHEAD then None
      else
        let chunk = min (length data) (ln_max_bytes l - STREAM_OVERHEAD);
            payload = u16_to_le (ln_offset l) @ take chunk data;
            l1 = l\<lparr>ln_offset := ln_offset l + of_nat chunk\<rparr>
        in case push_reliable l1 ASK_STREAM_DATA payload (ln_session l1) of
             None \<Rightarrow> None
           | Some (wire, l2) \<Rightarrow>
               (case send_stream l2 (drop chunk data) of
                  None \<Rightarrow> None
                | Some (wires, l3) \<Rightarrow> Some (wire @ wires, l3)))"
  by pat_completeness auto
termination by (relation "measure (\<lambda>(l, data). length data)") auto

declare send_stream.simps [simp del]

definition packets_for :: "link \<Rightarrow> nat \<Rightarrow> nat" where
  "packets_for l n =
     (let room = ln_max_bytes l - STREAM_OVERHEAD in
      if n mod room = 0 then n div room else n div room + 1)"

definition out_of_band :: "link \<Rightarrow> u8 \<Rightarrow> u8 \<Rightarrow> bytes \<Rightarrow> bytes option" where
  "out_of_band l seq opcode payload = encode seq opcode payload (ln_session l)"

definition acknowledge :: "link \<Rightarrow> u8 \<Rightarrow> bool \<times> link" where
  "acknowledge l seq =
     (let kept = filter (\<lambda>p. un_seq p \<noteq> seq) (ln_unacked l)
      in (length (ln_unacked l) \<noteq> length kept, l\<lparr>ln_unacked := kept\<rparr>))"

text \<open>One turn of the loop of \<open>tick\<close>: a packet that is two ticks old is flagged and sealed again.\<close>

definition resend :: "u32 \<Rightarrow> unacked_packet \<Rightarrow> bytes \<times> unacked_packet" where
  "resend now u =
     (if now - un_sent u \<ge> RETRANSMIT_AFTER_TICKS then
        let body = (un_body u)[3 := un_body u ! 3 OR RETRANSMIT_FLAG]
        in (seal body (un_seed u), u\<lparr>un_body := body, un_sent := now\<rparr>)
      else ([], u))"

definition tick_link :: "link \<Rightarrow> bytes \<times> link" where
  "tick_link l =
     (let now = ln_tick l + 1; rs = map (resend now) (ln_unacked l)
      in (concat (map fst rs), l\<lparr>ln_tick := now, ln_unacked := map snd rs\<rparr>))"

section \<open>Receiving\<close>

definition in_window :: "link \<Rightarrow> u8 \<Rightarrow> bool" where
  "in_window l seq \<longleftrightarrow> seq - ln_head l < WINDOW"

function advance_link :: "link \<Rightarrow> link" where
  "advance_link l =
     (case ln_received l (ln_head l) of
        None \<Rightarrow> l
      | Some slot \<Rightarrow>
          advance_link (l\<lparr>ln_received := (ln_received l)(ln_head l := None),
            ln_ready := ln_ready l @ (case slot of None \<Rightarrow> [] | Some data \<Rightarrow> data),
            ln_head := ln_head l + 1\<rparr>))"
  by pat_completeness auto
termination
proof (relation "measure (\<lambda>l. card (dom (ln_received l)))")
  fix l :: link and slot
  assume "ln_received l (ln_head l) = Some slot"
  then have "ln_head l \<in> dom (ln_received l)" by blast
  then show "(l\<lparr>ln_received := (ln_received l)(ln_head l := None),
      ln_ready := ln_ready l @ (case slot of None \<Rightarrow> [] | Some data \<Rightarrow> data),
      ln_head := ln_head l + 1\<rparr>, l) \<in> measure (\<lambda>l. card (dom (ln_received l)))"
    using card_Diff1_less [of "dom (ln_received l)" "ln_head l"] by simp
qed simp

declare advance_link.simps [simp del]

definition accept_control :: "link \<Rightarrow> u8 \<Rightarrow> link" where
  "accept_control l seq =
     (if in_window l seq
      then advance_link (l\<lparr>ln_received := (ln_received l)(seq \<mapsto> None)\<rparr>) else l)"

definition accept_stream :: "link \<Rightarrow> u8 \<Rightarrow> bytes \<Rightarrow> bool \<times> link" where
  "accept_stream l seq payload =
     (if length payload < 2 then (False, l)
      else if \<not> in_window l seq then ((seq - ln_head l) AND 0x80 \<noteq> 0, l)
      else (True, advance_link (l\<lparr>ln_received := (ln_received l)(seq \<mapsto> Some (drop 2 payload))\<rparr>)))"

definition take_stream :: "link \<Rightarrow> bytes \<times> link" where
  "take_stream l = (ln_ready l, l\<lparr>ln_ready := []\<rparr>)"

definition free_bytes :: "link \<Rightarrow> nat" where
  "free_bytes l = BUFFER_BYTES - length (ln_ready l) mod 2 ^ 32"

section \<open>Sequence numbers\<close>

lemma of_nat_u8_eq_iff: "(of_nat i :: u8) = of_nat j \<longleftrightarrow> i mod 256 = j mod 256"
  by (simp add: word_of_nat_eq_iff take_bit_eq_mod)

lemma mod_eq_close:
  fixes i j :: nat
  assumes "i mod n = j mod n" "j \<le> i" "i < j + n"
  shows "i = j"
proof -
  have "n dvd i - j" using assms(1,2) by (simp add: mod_eq_dvd_iff_nat)
  then have "i - j = 0" using assms(3) by (cases "i - j") (auto dest: dvd_imp_le)
  with assms(2) show ?thesis by simp
qed

lemma of_nat_u8_inj:
  assumes "(of_nat i :: u8) = of_nat j" "i < j + 256" "j < i + 256"
  shows "i = j"
  using assms mod_eq_close [of i 256 j] mod_eq_close [of j 256 i]
  by (cases "j \<le> i") (simp_all add: of_nat_u8_eq_iff)

lemma u8_high_bit: "\<not> x < WINDOW \<longleftrightarrow> x AND 0x80 \<noteq> (0 :: u8)"
proof -
  have u: "unat x < 256" using unsigned_less [of x, where ?'a = nat] by simp
  have "x AND push_bit 7 1 \<noteq> 0 \<longleftrightarrow> bit x 7" by (rule and_push_bit_1_iff)
  also have "\<dots> \<longleftrightarrow> bit (unat x) 7" by (simp add: bit_unsigned_iff)
  also have "\<dots> \<longleftrightarrow> 128 \<le> unat x"
  proof -
    have "unat x div 128 = (if 128 \<le> unat x then 1 else 0)"
      using u by (auto intro: div_nat_eqI)
    then show ?thesis by (simp add: bit_iff_odd)
  qed
  also have "\<dots> \<longleftrightarrow> \<not> x < WINDOW" by (simp add: WINDOW_def word_less_nat_alt not_less)
  finally show ?thesis by simp
qed

lemma ahead_in_window: "h \<le> i \<Longrightarrow> i < h + 128 \<Longrightarrow> of_nat i - of_nat h < WINDOW"
proof -
  assume h: "h \<le> i" "i < h + 128"
  then have "of_nat i - of_nat h = (of_nat (i - h) :: u8)" by (simp add: of_nat_diff)
  moreover have "unat (of_nat (i - h) :: u8) = i - h"
    using h by (simp add: unsigned_of_nat take_bit_nat_eq_self del: of_nat_diff)
  ultimately show ?thesis using h by (simp add: WINDOW_def word_less_nat_alt)
qed

lemma behind_not_in_window:
  assumes "i < h" "h \<le> i + 128"
  shows "\<not> of_nat i - of_nat h < WINDOW"
proof -
  have "(of_nat i - of_nat h :: u8) = of_nat (i + 256) - of_nat h" by simp
  also have "\<dots> = of_nat (i + 256 - h)" using assms by (subst of_nat_diff) simp_all
  finally have d: "(of_nat i - of_nat h :: u8) = of_nat (i + 256 - h)" .
  have "unat (of_nat (i + 256 - h) :: u8) = i + 256 - h"
    using assms by (simp add: unsigned_of_nat take_bit_nat_eq_self del: of_nat_diff)
  then show ?thesis unfolding d using assms by (simp add: WINDOW_def word_less_nat_alt)
qed

text \<open>Whatever the sequence number, a payload with an offset is acknowledged: a number outside the
  window always counts as one behind the head.\<close>

lemma accept_stream_cases:
  assumes "2 \<le> length payload"
  shows "accept_stream l seq payload =
    (True, if in_window l seq
       then advance_link (l\<lparr>ln_received := (ln_received l)(seq \<mapsto> Some (drop 2 payload))\<rparr>) else l)"
  using assms u8_high_bit [of "seq - ln_head l"] by (simp add: accept_stream_def in_window_def)

end
