(* ===== verification/Rel_Delivery.thy ===== *)
theory Rel_Delivery
  imports Rel_Link "HOL-Library.Sublist"
begin

text \<open>
  Two link endpoints joined by a serial line that delivers packets in order but may lose any of
  them (a packet hit by noise fails its checksum and is lost too), with acknowledgements lost the
  same way. The steps are the operations of adapters/pabotbase/src/link.rs in any interleaving;
  retransmissions may happen at any time. The sender keeps the packets from its oldest
  unacknowledged one on within the receiver's window of 128.
\<close>

section \<open>The two endpoints and the line\<close>

definition on_wire :: "u32 \<Rightarrow> bytes \<Rightarrow> packet list" where
  "on_wire session wire =
     List.map_filter (\<lambda>p. case p of Valid q \<Rightarrow> Some q | _ \<Rightarrow> None)
       (fst (push_parser session new_parser wire))"

text \<open>What \<open>on_packet\<close> of the device and of the host does with a packet that occupies a slot.\<close>

definition receive_packet :: "link \<Rightarrow> packet \<Rightarrow> bool \<times> bytes \<times> link" where
  "receive_packet l p =
     (if base_opcode p = ASK_STREAM_DATA then
        let (ok, l1) = accept_stream l (pk_seq p) (pk_payload p); (bs, l2) = take_stream l1
        in (ok, bs, l2)
      else (True, [], accept_control l (pk_seq p)))"

text \<open>The sequence numbers from the oldest unacknowledged packet to the next one to send.\<close>

definition send_span :: "link \<Rightarrow> nat" where
  "send_span l = (case ln_unacked l of [] \<Rightarrow> 0 | u # _ \<Rightarrow> unat (ln_next_seq l - un_seq u))"

record duplex =
  dx_tx :: link
  dx_rx :: link
  dx_line :: "packet list"
  dx_acks :: "u8 list"
  dx_sent :: bytes
  dx_got :: bytes

definition duplex_start :: "u32 \<Rightarrow> nat \<Rightarrow> nat \<Rightarrow> duplex" where
  "duplex_start session m n =
     \<lparr>dx_tx = new_link session m, dx_rx = new_link session n, dx_line = [], dx_acks = [],
      dx_sent = [], dx_got = []\<rparr>"

inductive duplex_step :: "duplex \<Rightarrow> duplex \<Rightarrow> bool" where
  send_data: "send_span (dx_tx s) + packets_for (dx_tx s) (length data) \<le> 128 \<Longrightarrow>
    send_stream (dx_tx s) data = Some (wire, tx) \<Longrightarrow>
    duplex_step s (s\<lparr>dx_tx := tx, dx_line := dx_line s @ on_wire (ln_session (dx_rx s)) wire,
      dx_sent := dx_sent s @ data\<rparr>)"
| send_control: "send_span (dx_tx s) < 128 \<Longrightarrow>
    opcode \<noteq> ASK_RESET \<Longrightarrow> opcode \<noteq> ASK_STREAM_DATA \<Longrightarrow> opcode AND OPCODE_MASK = opcode \<Longrightarrow>
    send_request (dx_tx s) opcode payload = Some (wire, tx) \<Longrightarrow>
    duplex_step s (s\<lparr>dx_tx := tx, dx_line := dx_line s @ on_wire (ln_session (dx_rx s)) wire\<rparr>)"
| retransmit: "tick_link (dx_tx s) = (wire, tx) \<Longrightarrow>
    duplex_step s (s\<lparr>dx_tx := tx, dx_line := dx_line s @ on_wire (ln_session (dx_rx s)) wire\<rparr>)"
| lose_packet: "dx_line s = ps @ p # qs \<Longrightarrow> duplex_step s (s\<lparr>dx_line := ps @ qs\<rparr>)"
| deliver: "dx_line s = p # ps \<Longrightarrow> receive_packet (dx_rx s) p = (ok, bs, rx) \<Longrightarrow>
    duplex_step s (s\<lparr>dx_rx := rx, dx_line := ps, dx_got := dx_got s @ bs,
      dx_acks := dx_acks s @ (if ok then [pk_seq p] else [])\<rparr>)"
| lose_ack: "dx_acks s = as @ a # bs \<Longrightarrow> duplex_step s (s\<lparr>dx_acks := as @ bs\<rparr>)"
| acked: "dx_acks s = a # as \<Longrightarrow> acknowledge (dx_tx s) a = (known, tx) \<Longrightarrow>
    duplex_step s (s\<lparr>dx_tx := tx, dx_acks := as\<rparr>)"

section \<open>Packets on the wire\<close>

lemma push_encode_packet:
  "length (pk_payload p) \<le> 248 \<Longrightarrow>
     push_parser session new_parser (encode_packet session p) = ([Valid p], new_parser)"
proof -
  assume len: "length (pk_payload p) \<le> 248"
  have "feeds session [] ([] @ encode_packet session p) = ([Valid p], [])"
    using len by (subst feeds_sealed) (auto simp: encode_packet_def encode_def packet_sizes)
  then show ?thesis by (subst push_parser_feeds) (simp_all add: new_parser_def)
qed

lemma on_wire_packets:
  assumes "\<forall>p\<in>set ps. length (pk_payload p) \<le> 248"
  shows "on_wire session (concat (map (encode_packet session) ps)) = ps"
proof -
  have "push_reads (push_parser session) new_parser [concat (map (encode_packet session) ps)] =
      (map Valid ps, new_parser)"
    by (rule packets.frames_in_any_reads) (use assms push_encode_packet in simp_all)
  then have "fst (push_parser session new_parser (concat (map (encode_packet session) ps))) =
      map Valid ps"
    by (simp add: split_beta)
  then show ?thesis
    by (simp add: on_wire_def map_filter_map_filter) (simp add: map_filter_def comp_def)
qed

text \<open>The packets sent so far, by position: operation code and payload.\<close>

type_synonym sent_packets = "(u8 \<times> bytes) list"

definition slot_of :: "u8 \<times> bytes \<Rightarrow> bytes option" where
  "slot_of e = (if fst e = ASK_STREAM_DATA then Some (drop 2 (snd e)) else None)"

definition content_of :: "u8 \<times> bytes \<Rightarrow> bytes" where
  "content_of e = (case slot_of e of None \<Rightarrow> [] | Some d \<Rightarrow> d)"

definition carries :: "sent_packets \<Rightarrow> nat \<Rightarrow> packet \<Rightarrow> bool" where
  "carries L i p \<longleftrightarrow> i < length L \<and> pk_seq p = of_nat i \<and> base_opcode p = fst (L ! i) \<and>
     pk_payload p = snd (L ! i) \<and> length (pk_payload p) \<le> 248 \<and> pk_opcode p \<noteq> ASK_RESET \<and>
     (base_opcode p = ASK_STREAM_DATA \<longrightarrow> 2 \<le> length (pk_payload p))"

definition packet_body :: "packet \<Rightarrow> bytes" where
  "packet_body p =
     [MAGIC, pk_seq p, of_nat ((8 + length (pk_payload p)) mod 256), pk_opcode p] @ pk_payload p"

definition held :: "u32 \<Rightarrow> sent_packets \<Rightarrow> nat \<Rightarrow> unacked_packet \<Rightarrow> bool" where
  "held session L i u \<longleftrightarrow> un_seq u = of_nat i \<and> un_seed u = session \<and>
     (\<exists>p. carries L i p \<and> un_body u = packet_body p)"

lemma carries_append: "carries L i p \<Longrightarrow> carries (L @ M) i p"
  by (auto simp: carries_def nth_append)

lemma held_append: "held session L i u \<Longrightarrow> held session (L @ M) i u"
  using carries_append by (fastforce simp: held_def)

lemma encode_packet_seal:
  "length (pk_payload p) \<le> 248 \<Longrightarrow> pk_opcode p \<noteq> ASK_RESET \<Longrightarrow>
     encode_packet session p = seal (packet_body p) session"
  by (simp add: encode_packet_def encode_def packet_sizes crc_seed_def packet_body_def)

lemma resend_held:
  assumes "held session L i u"
  shows "held session L i (snd (resend now u)) \<and>
    (fst (resend now u) = [] \<or> (\<exists>p. carries L i p \<and> fst (resend now u) = encode_packet session p))"
proof (cases "now - un_sent u \<ge> RETRANSMIT_AFTER_TICKS")
  case True
  obtain p where p: "carries L i p" "un_body u = packet_body p" and u: "un_seq u = of_nat i"
    "un_seed u = session"
    using assms by (auto simp: held_def)
  let ?p = "p\<lparr>pk_opcode := pk_opcode p OR RETRANSMIT_FLAG\<rparr>"
  have base: "base_opcode ?p = base_opcode p"
  proof -
    have "(x OR 0x80) AND 0x7f = x AND (0x7f :: u8)" for x
      by (simp add: word_ao_dist)
    then show ?thesis by (simp add: base_opcode_def RETRANSMIT_FLAG_def OPCODE_MASK_def)
  qed
  have "(x OR 0x80) \<noteq> (0x01 :: u8)" for x
  proof
    assume "x OR 0x80 = 0x01"
    then have "(x OR 0x80) AND 0x80 = 0x01 AND (0x80 :: u8)" by simp
    then show False by (simp add: word_ao_dist)
  qed
  then have op: "pk_opcode ?p \<noteq> ASK_RESET" by (simp add: RETRANSMIT_FLAG_def packet_opcodes)
  have c: "carries L i ?p" using p(1) base op unfolding carries_def by auto
  have body: "(packet_body p)[3 := packet_body p ! 3 OR RETRANSMIT_FLAG] = packet_body ?p"
    by (simp add: packet_body_def numeral_3_eq_3)
  have "length (pk_payload ?p) \<le> 248" using c unfolding carries_def by blast
  note sealed = encode_packet_seal [OF this op, of session]
  have "fst (resend now u) = encode_packet session ?p"
    unfolding sealed using True u p(2) body by (simp add: resend_def Let_def)
  moreover have "held session L i (snd (resend now u))"
    using True u p(2) body c by (auto simp: resend_def Let_def held_def)
  ultimately show ?thesis using c by blast
next
  case False
  then show ?thesis using assms by (simp add: resend_def)
qed

section \<open>The sender\<close>

definition sends :: "u32 \<Rightarrow> sent_packets \<Rightarrow> nat list \<Rightarrow> link \<Rightarrow> bool" where
  "sends session L U l \<longleftrightarrow> ln_session l = session \<and> ln_next_seq l = of_nat (length L) \<and>
     list_all2 (held session L) U (ln_unacked l)"

lemma held_all_append: "list_all2 (held session L) U us \<Longrightarrow> list_all2 (held session (L @ M)) U us"
  by (erule list_all2_mono) (rule held_append)

lemma push_reliable_sends:
  assumes s: "sends session L U l" and r: "push_reliable l opcode payload session = Some (w, l')"
    and op: "opcode \<noteq> ASK_RESET" "opcode AND OPCODE_MASK = opcode"
      "opcode = ASK_STREAM_DATA \<longrightarrow> 2 \<le> length payload"
  shows "sends session (L @ [(opcode, payload)]) (U @ [length L]) l' \<and>
    (\<exists>p. carries (L @ [(opcode, payload)]) (length L) p \<and> w = encode_packet session p) \<and>
    ln_offset l' = ln_offset l \<and> ln_max_bytes l' = ln_max_bytes l"
proof -
  let ?L = "L @ [(opcode, payload)]"
  let ?p = "\<lparr>pk_seq = ln_next_seq l, pk_opcode = opcode, pk_payload = payload\<rparr>"
  obtain w where e: "encode (ln_next_seq l) opcode payload session = Some w"
    using r by (auto simp: push_reliable_def Let_def)
  then have len: "length payload \<le> 248" and w: "w = seal (packet_body ?p) session"
    by (simp_all add: encode_Some packet_body_def)
  have c: "carries ?L (length L) ?p"
    using s len op by (simp add: carries_def sends_def base_opcode_def)
  have "take (length w - 4) w = packet_body ?p"
    unfolding w seal_def by simp
  then have "held session ?L (length L)
      \<lparr>un_seq = ln_next_seq l, un_body = take (length w - 4) w, un_seed = session, un_sent = ln_tick l\<rparr>"
    using c s by (auto simp: held_def sends_def)
  moreover have "list_all2 (held session ?L) U (ln_unacked l)"
    using s held_all_append by (simp add: sends_def)
  ultimately show ?thesis
    using r e s c w len op(1)
    by (auto simp: push_reliable_def Let_def sends_def encode_packet_seal add.commute
        intro!: list_all2_appendI)
qed

lemma stream_chunk:
  assumes "d \<noteq> []" "STREAM_OVERHEAD < ln_max_bytes l"
    and "n = min (length d) (ln_max_bytes l - STREAM_OVERHEAD)"
  shows "packets_for l (length d) = 1 + packets_for l (length d - n)" "0 < n"
proof -
  let ?m = "ln_max_bytes l - STREAM_OVERHEAD"
  show "0 < n" using assms by simp
  show "packets_for l (length d) = 1 + packets_for l (length d - n)"
  proof (cases "?m \<le> length d")
    case True
    then have n: "n = ?m" using assms(3) by simp
    have "length d = ?m + (length d - ?m)" using True by simp
    then have "length d div ?m = 1 + (length d - ?m) div ?m" "length d mod ?m = (length d - ?m) mod ?m"
      using assms(2) by (metis div_add_self1 add.commute zero_less_diff less_not_refl, metis mod_add_self1)
    then show ?thesis unfolding n packets_for_def Let_def by simp
  next
    case False
    then show ?thesis using assms(1,3) by (simp add: packets_for_def Let_def)
  qed
qed

lemma send_stream_sends:
  "sends session L U l \<Longrightarrow> send_stream l data = Some (w, l') \<Longrightarrow>
    \<exists>es ps. sends session (L @ es) (U @ [length L..<length L + length es]) l' \<and>
      concat (map content_of es) = data \<and> length es = packets_for l (length data) \<and>
      w = concat (map (encode_packet session) ps) \<and>
      list_all2 (carries (L @ es)) [length L..<length L + length es] ps"
proof (induction l data arbitrary: L U w l' rule: send_stream.induct)
  case (1 l data)
  show ?case
  proof (cases "data = []")
    case True
    then have "w = []" "l' = l" using "1.prems"(2) by (simp_all add: send_stream.simps)
    with "1.prems"(1) True show ?thesis
      by (intro exI [of _ "[]"]) (simp add: packets_for_def)
  next
    case ne: False
    have room: "\<not> ln_max_bytes l \<le> STREAM_OVERHEAD"
      using "1.prems"(2) ne by (subst (asm) send_stream.simps) (simp split: if_splits)
    define n where "n = min (length data) (ln_max_bytes l - STREAM_OVERHEAD)"
    define pl where "pl = u16_to_le (ln_offset l) @ take n data"
    define l1 where "l1 = l\<lparr>ln_offset := ln_offset l + of_nat n\<rparr>"
    obtain w1 l2 w2 where r: "push_reliable l1 ASK_STREAM_DATA pl (ln_session l1) = Some (w1, l2)"
      and s2: "send_stream l2 (drop n data) = Some (w2, l')" and w: "w = w1 @ w2"
      using "1.prems"(2) ne room unfolding send_stream.simps [of l data] Let_def
        n_def [symmetric] pl_def [symmetric] l1_def [symmetric]
      by (auto split: option.splits)
    let ?e = "(ASK_STREAM_DATA, pl)"
    have s1: "sends session L U l1" using "1.prems"(1) by (simp add: sends_def l1_def)
    have mask: "ASK_STREAM_DATA AND OPCODE_MASK = ASK_STREAM_DATA" "ASK_STREAM_DATA \<noteq> ASK_RESET"
      by (simp_all add: packet_opcodes OPCODE_MASK_def)
    have "ln_session l1 = session" using s1 by (simp add: sends_def)
    then obtain p where sent: "sends session (L @ [?e]) (U @ [length L]) l2"
      and p: "carries (L @ [?e]) (length L) p" "w1 = encode_packet session p"
      and max: "ln_max_bytes l2 = ln_max_bytes l1"
      using push_reliable_sends [OF s1 _ mask(2,1), of pl w1 l2] r by (auto simp: pl_def)
    obtain es ps where es: "sends session ((L @ [?e]) @ es)
        ((U @ [length L]) @ [length (L @ [?e])..<length (L @ [?e]) + length es]) l'"
      "concat (map content_of es) = drop n data" "length es = packets_for l2 (length (drop n data))"
      "w2 = concat (map (encode_packet session) ps)"
      "list_all2 (carries ((L @ [?e]) @ es)) [length (L @ [?e])..<length (L @ [?e]) + length es] ps"
      using "1.IH" [OF ne room n_def pl_def l1_def r refl sent s2] by blast
    have "content_of ?e = take n data" by (simp add: content_of_def slot_of_def pl_def)
    then have content: "concat (map content_of (?e # es)) = data" using es(2) by simp
    have pf: "packets_for l2 = packets_for l"
      using max by (intro ext) (simp add: packets_for_def l1_def)
    have count: "length (?e # es) = packets_for l (length data)"
      using es(3) stream_chunk(1) [OF ne, of l n] room n_def pf by simp
    have upt: "[length L..<length L + length (?e # es)] =
        length L # [length (L @ [?e])..<length (L @ [?e]) + length es]"
      using upt_conv_Cons [of "length L" "length L + Suc (length es)"] by (simp del: upt_Suc)
    have "carries ((L @ [?e]) @ es) (length L) p" by (rule carries_append [OF p(1)])
    then have ps: "list_all2 (carries (L @ ?e # es)) [length L..<length L + length (?e # es)] (p # ps)"
      unfolding upt using es(5) by simp
    have "sends session (L @ ?e # es) (U @ [length L..<length L + length (?e # es)]) l'"
      unfolding upt using es(1) by simp
    moreover have "w = concat (map (encode_packet session) (p # ps))"
      using w p(2) es(4) by simp
    ultimately show ?thesis using content count ps by blast
  qed
qed

lemma send_stream_on_wire:
  assumes "list_all2 (carries L) is ps"
  shows "on_wire session (concat (map (encode_packet session) ps)) = ps"
  by (rule on_wire_packets) (use assms in \<open>auto simp: list_all2_conv_all_nth carries_def in_set_conv_nth\<close>)

lemma retransmit_after: "RETRANSMIT_AFTER_TICKS \<le> x \<longleftrightarrow> 2 \<le> unat x"
  by (simp add: RETRANSMIT_AFTER_TICKS_def word_le_nat_alt)

definition due :: "u32 \<Rightarrow> unacked_packet \<Rightarrow> bool" where
  "due now u \<longleftrightarrow> RETRANSMIT_AFTER_TICKS \<le> now - un_sent u"

lemma tick_sends:
  assumes s: "sends session L U l" and t: "tick_link l = (w, l')"
  shows "sends session L U l' \<and>
    (\<exists>is ps. set is \<subseteq> set U \<and> w = concat (map (encode_packet session) ps) \<and>
       list_all2 (carries L) is ps \<and>
       (\<forall>u\<in>set (ln_unacked l). due (ln_tick l + 1) u \<longrightarrow> un_seq u \<in> pk_seq ` set ps))"
proof -
  let ?now = "ln_tick l + 1"
  have h: "list_all2 (held session L) U (ln_unacked l)" using s by (simp add: sends_def)
  have l': "l' = l\<lparr>ln_tick := ?now, ln_unacked := map (snd \<circ> resend ?now) (ln_unacked l)\<rparr>"
    and w: "w = concat (map (fst \<circ> resend ?now) (ln_unacked l))"
    using t by (auto simp: tick_link_def Let_def)
  have "list_all2 (held session L) U (map (snd \<circ> resend ?now) (ln_unacked l))"
    using h resend_held by (simp add: list_all2_conv_all_nth)
  then have "sends session L U l'" using s by (simp add: sends_def l')
  moreover from h have "\<exists>is ps. set is \<subseteq> set U \<and>
      concat (map (fst \<circ> resend ?now) (ln_unacked l)) = concat (map (encode_packet session) ps) \<and>
      list_all2 (carries L) is ps \<and>
      (\<forall>u\<in>set (ln_unacked l). due ?now u \<longrightarrow> un_seq u \<in> pk_seq ` set ps)"
    unfolding comp_def
  proof (induction rule: list_all2_induct)
    case Nil
    show ?case by (intro exI [of _ "[]"]) simp
  next
    case (Cons i U u us)
    from Cons.IH obtain "is" ps where ips: "set is \<subseteq> set U"
      "concat (map (\<lambda>x. fst (resend ?now x)) us) = concat (map (encode_packet session) ps)"
      "list_all2 (carries L) is ps" "\<forall>u\<in>set us. due ?now u \<longrightarrow> un_seq u \<in> pk_seq ` set ps" by blast
    have seq: "un_seq u = of_nat i" using Cons.hyps(1) by (simp add: held_def)
    from resend_held [OF Cons.hyps(1), of ?now] consider "fst (resend ?now u) = []"
      | p where "carries L i p" "fst (resend ?now u) = encode_packet session p" by blast
    then show ?case
    proof cases
      case 1
      then have "\<not> due ?now u" by (auto simp: due_def resend_def Let_def seal_def u32_to_le_def)
      with 1 ips show ?thesis by (intro exI [of _ "is"] exI [of _ ps]) auto
    next
      case 2
      then have "pk_seq p = un_seq u" using seq by (simp add: carries_def)
      with 2 ips show ?thesis by (intro exI [of _ "i # is"] exI [of _ "p # ps"]) auto
    qed
  qed
  ultimately show ?thesis using w by (simp add: comp_def)
qed

lemma acknowledge_sends:
  assumes s: "sends session L U l" and a: "\<forall>u\<in>set U. u < a + 256 \<and> a < u + 256"
  shows "sends session L (filter (\<lambda>u. u \<noteq> a) U) (snd (acknowledge l (of_nat a)))"
proof -
  have "list_all2 (held session L) U (ln_unacked l)" using s by (simp add: sends_def)
  then have "list_all2 (held session L) (filter (\<lambda>u. u \<noteq> a) U)
      (filter (\<lambda>p. un_seq p \<noteq> of_nat a) (ln_unacked l))"
    using a
  proof (induction rule: list_all2_induct)
    case (Cons u U p ps)
    have "un_seq p = of_nat u" using Cons.hyps(1) by (simp add: held_def)
    then have "un_seq p \<noteq> of_nat a \<longleftrightarrow> u \<noteq> a"
      using of_nat_u8_inj [of u a] Cons.prems by auto
    with Cons show ?case by auto
  qed simp
  then show ?thesis using s by (simp add: sends_def acknowledge_def Let_def)
qed

lemma send_span_sends:
  assumes s: "sends session L (u # U) l" and "u < length L" "length L \<le> u + 128"
  shows "send_span l = length L - u"
proof -
  obtain p ps where p: "ln_unacked l = p # ps" "un_seq p = of_nat u"
    using s by (auto simp: sends_def list_all2_Cons1 held_def)
  have "ln_next_seq l - un_seq p = of_nat (length L - u)"
    using s p assms(2) by (simp add: sends_def of_nat_diff)
  then show ?thesis
    using p assms(2,3)
    by (simp add: send_span_def unsigned_of_nat take_bit_nat_eq_self del: of_nat_diff)
qed

section \<open>The receiver\<close>

text \<open>\<open>h\<close> packets have been passed on; \<open>R\<close> are the positions waiting behind the gap at the head.\<close>

definition slots :: "sent_packets \<Rightarrow> nat \<Rightarrow> nat set \<Rightarrow> link \<Rightarrow> bool" where
  "slots L h R l \<longleftrightarrow> ln_head l = of_nat h \<and> R \<subseteq> {h..<h + 128} \<and>
     (\<forall>i\<in>R. ln_received l (of_nat i) = Some (slot_of (L ! i))) \<and>
     dom (ln_received l) = of_nat ` R"

definition contents :: "sent_packets \<Rightarrow> nat \<Rightarrow> nat \<Rightarrow> bytes" where
  "contents L i j = concat (map (\<lambda>k. content_of (L ! k)) [i..<j])"

lemma contents_split: "i \<le> j \<Longrightarrow> j \<le> k \<Longrightarrow> contents L i j @ contents L j k = contents L i k"
  using upt_add_eq_append [of i j "k - j"] by (simp add: contents_def flip: concat_append map_append)

lemma slots_head:
  assumes "slots L h R l"
  shows "ln_received l (ln_head l) = (if h \<in> R then Some (slot_of (L ! h)) else None)"
proof (cases "h \<in> R")
  case True
  then show ?thesis using assms by (simp add: slots_def)
next
  case False
  have "of_nat h \<notin> (of_nat ` R :: u8 set)"
  proof
    assume "of_nat h \<in> (of_nat ` R :: u8 set)"
    then obtain i where "i \<in> R" "(of_nat i :: u8) = of_nat h" by force
    moreover from this have "h \<le> i" "i < h + 128" using assms by (auto simp: slots_def)
    ultimately have "i = h" by (intro of_nat_u8_inj) simp_all
    with \<open>i \<in> R\<close> False show False by simp
  qed
  then show ?thesis using assms False by (auto simp: slots_def)
qed

lemma slots_pop:
  assumes s: "slots L h R l" and h: "h \<in> R"
    and l': "ln_head l' = ln_head l + 1" "ln_received l' = (ln_received l)(ln_head l := None)"
  shows "slots L (h + 1) (R - {h}) l'"
proof -
  have R: "R \<subseteq> {h..<h + 128}" and head: "ln_head l = of_nat h"
    and dom: "dom (ln_received l) = of_nat ` R"
    using s by (simp_all add: slots_def)
  have ne: "(of_nat i :: u8) \<noteq> of_nat h" if "i \<in> R - {h}" for i
    using that R of_nat_u8_inj [of i h] by auto
  have "dom (ln_received l') = of_nat ` (R - {h})"
  proof -
    have "dom (ln_received l') = of_nat ` R - {of_nat h}" using l' head dom by auto
    also have "\<dots> = of_nat ` (R - {h})" using ne by auto
    finally show ?thesis .
  qed
  moreover have "\<forall>i\<in>R - {h}. ln_received l' (of_nat i) = Some (slot_of (L ! i))"
    using s ne l' head by (auto simp: slots_def)
  ultimately show ?thesis using R l' head by (auto simp: slots_def)
qed

lemma advance_link_slots:
  "slots L h R l \<Longrightarrow> \<exists>h'. h \<le> h' \<and> {h..<h'} \<subseteq> R \<and> h' \<notin> R \<and>
     slots L h' (R - {..<h'}) (advance_link l) \<and>
     ln_ready (advance_link l) = ln_ready l @ contents L h h' \<and>
     ln_session (advance_link l) = ln_session l"
proof (induction l arbitrary: h R rule: advance_link.induct)
  case (1 l)
  note head = slots_head [OF "1.prems"]
  show ?case
  proof (cases "h \<in> R")
    case False
    then have "advance_link l = l" using head by (subst advance_link.simps) simp
    moreover have "R - {..<h} = R" using "1.prems" by (auto simp: slots_def)
    ultimately show ?thesis
      using "1.prems" False by (intro exI [of _ h]) (simp add: contents_def)
  next
    case True
    define l1 where "l1 = l\<lparr>ln_received := (ln_received l)(ln_head l := None),
      ln_ready := ln_ready l @ content_of (L ! h), ln_head := ln_head l + 1\<rparr>"
    have adv: "advance_link l = advance_link l1"
      using head True by (subst advance_link.simps) (simp add: l1_def content_of_def)
    have "slots L (h + 1) (R - {h}) l1"
      using "1.prems" True by (rule slots_pop) (simp_all add: l1_def)
    from "1.IH" [OF _ this [unfolded l1_def content_of_def]] head True
    obtain h' where h': "h + 1 \<le> h'" "{h + 1..<h'} \<subseteq> R - {h}" "h' \<notin> R - {h}"
      "slots L h' (R - {h} - {..<h'}) (advance_link l1)"
      "ln_ready (advance_link l1) = ln_ready l1 @ contents L (h + 1) h'"
      "ln_session (advance_link l1) = ln_session l1"
      unfolding l1_def content_of_def by auto
    have "R - {h} - {..<h'} = R - {..<h'}" "{h..<h'} \<subseteq> R" "h' \<notin> R"
      using h' True by (auto simp: le_less_Suc_eq) (metis Suc_leI atLeastLessThan_iff le_antisym not_less
        Diff_iff subset_eq)
    moreover have "contents L h h' = content_of (L ! h) @ contents L (h + 1) h'"
      using h'(1) by (simp add: contents_def upt_conv_Cons)
    ultimately show ?thesis
      using h' adv by (intro exI [of _ h']) (simp add: l1_def)
  qed
qed

text \<open>A packet put into its slot, or found to be behind the head.\<close>

lemma slots_insert:
  assumes s: "slots L h R l" and i: "h \<le> i" "i < h + 128"
    and l': "l' = l\<lparr>ln_received := (ln_received l)(of_nat i \<mapsto> slot_of (L ! i))\<rparr>"
  shows "slots L h (insert i R) l'"
proof -
  have "slot_of (L ! j) = slot_of (L ! i)" if "j \<in> R" "(of_nat j :: u8) = of_nat i" for j
  proof -
    have "h \<le> j" "j < h + 128" using s that(1) by (auto simp: slots_def)
    then have "j = i" using i that(2) by (intro of_nat_u8_inj) simp_all
    then show ?thesis by simp
  qed
  then show ?thesis using s i by (auto simp: slots_def l')
qed

lemma receive_packet_slots:
  assumes s: "slots L h R l" "h \<notin> R" and p: "carries L i p" and i: "i < h + 128" "h \<le> i + 128"
    and r: "receive_packet l p = (ok, bs, l')"
  obtains h' R' where "ok" "slots L h' R' l'" "h' \<notin> R'" "h \<le> h'"
    "{..<h'} \<union> R' = insert i ({..<h} \<union> R)"
    "bs @ ln_ready l' = ln_ready l @ contents L h h'" "ln_session l' = ln_session l"
proof -
  have seq: "pk_seq p = of_nat i" and e: "base_opcode p = fst (L ! i)" "pk_payload p = snd (L ! i)"
    and two: "base_opcode p = ASK_STREAM_DATA \<longrightarrow> 2 \<le> length (pk_payload p)"
    using p unfolding carries_def by blast+
  have slot: "slot_of (L ! i) =
      (if base_opcode p = ASK_STREAM_DATA then Some (drop 2 (pk_payload p)) else None)"
    using e by (simp add: slot_of_def)
  define l0 where "l0 = l\<lparr>ln_received := (ln_received l)(of_nat i \<mapsto> slot_of (L ! i))\<rparr>"
  define l1 where "l1 = (if in_window l (of_nat i) then advance_link l0 else l)"
  have l1: "ok \<and> (bs, l') = (if base_opcode p = ASK_STREAM_DATA then take_stream l1 else ([], l1))"
    using r two slot unfolding receive_packet_def accept_control_def seq
    by (auto simp: accept_stream_cases l1_def l0_def split: if_splits prod.splits)
  have head: "ln_head l = of_nat h" using s(1) by (simp add: slots_def)
  obtain h' R' where h': "h \<le> h'" "h' \<notin> R'" "slots L h' R' l1"
    "{..<h'} \<union> R' = insert i ({..<h} \<union> R)" "ln_ready l1 = ln_ready l @ contents L h h'"
    "ln_session l1 = ln_session l"
  proof (cases "h \<le> i")
    case True
    then have "in_window l (of_nat i)"
      unfolding in_window_def head using i(1) by (intro ahead_in_window)
    then have l1': "l1 = advance_link l0" by (simp add: l1_def)
    have "slots L h (insert i R) l0" using s(1) True i(1) l0_def by (rule slots_insert)
    from advance_link_slots [OF this] obtain h' where h': "h \<le> h'" "{h..<h'} \<subseteq> insert i R"
      "h' \<notin> insert i R" "slots L h' (insert i R - {..<h'}) l1"
      "ln_ready l1 = ln_ready l0 @ contents L h h'" "ln_session l1 = ln_session l0"
      unfolding l1' by blast
    have "{..<h'} \<union> (insert i R - {..<h'}) = insert i ({..<h} \<union> R)"
      using h'(1,2) by auto (metis atLeastLessThan_iff insertE not_less subset_eq)
    from that [OF h'(1) _ h'(4) this] h'(3,5,6) show ?thesis by (simp add: l0_def)
  next
    case False
    then have "\<not> in_window l (of_nat i)"
      unfolding in_window_def head using i(2) by (intro behind_not_in_window) simp_all
    then have "l1 = l" by (simp add: l1_def)
    moreover have "insert i ({..<h} \<union> R) = {..<h} \<union> R" using False by auto
    ultimately show ?thesis using s that [of h R] by (simp add: contents_def)
  qed
  have "slots L h' R' l'" "bs @ ln_ready l' = ln_ready l1" "ln_session l' = ln_session l1"
    using l1 h'(3) by (auto simp: take_stream_def slots_def split: if_splits)
  then show ?thesis using that l1 h' by metis
qed

section \<open>The invariant\<close>

text \<open>\<open>U\<close>: positions not acknowledged; \<open>F\<close>: on the line; \<open>A\<close>: acknowledgements under way. A position
  on the line is never more than 128 behind one that was received, so it is not mistaken for a
  later one of the same 8-bit number; the same holds of the acknowledgements.\<close>

definition received_before :: "nat \<Rightarrow> nat set \<Rightarrow> nat set" where
  "received_before h R = {..<h} \<union> R"

definition duplex_inv :: "u32 \<Rightarrow> sent_packets \<Rightarrow> nat list \<Rightarrow> nat list \<Rightarrow> nat list \<Rightarrow> nat \<Rightarrow> nat set \<Rightarrow>
    duplex \<Rightarrow> bool" where
  "duplex_inv session L U F A h R s \<longleftrightarrow>
     sends session L U (dx_tx s) \<and> slots L h R (dx_rx s) \<and> h \<notin> R \<and>
     ln_session (dx_rx s) = session \<and>
     list_all2 (carries L) F (dx_line s) \<and> dx_acks s = map of_nat A \<and>
     sorted U \<and> set U \<subseteq> {..<length L} \<and> (\<forall>u\<in>set U. length L \<le> u + 128) \<and>
     received_before h R \<subseteq> {..<length L} \<and> {..<length L} - set U \<subseteq> received_before h R \<and>
     set A \<subseteq> received_before h R \<and>
     (\<forall>i\<in>set F. \<forall>k\<in>received_before h R. k < i + 128) \<and> sorted_wrt (\<lambda>j i. j < i + 128) F \<and>
     (\<forall>a\<in>set A. \<forall>k\<in>{..<length L} - set U. k < a + 128) \<and> sorted_wrt (\<lambda>j i. j < i + 128) A \<and>
     dx_sent s = contents L 0 (length L) \<and>
     dx_got s @ ln_ready (dx_rx s) = contents L 0 h"

lemma inv_start: "duplex_inv session [] [] [] [] 0 {} (duplex_start session m n)"
  by (simp add: duplex_inv_def sends_def slots_def received_before_def duplex_start_def new_link_def
      contents_def)

lemma sorted_wrt_all: "\<forall>x\<in>set xs. \<forall>y\<in>set xs. P x y \<Longrightarrow> sorted_wrt P xs"
  by (induction xs) auto

lemma sorted_wrt_extend:
  "sorted_wrt P xs \<Longrightarrow> \<forall>y\<in>set ys. \<forall>x\<in>set xs \<union> set ys. P x y \<Longrightarrow> sorted_wrt P (xs @ ys)"
  by (auto simp: sorted_wrt_append intro: sorted_wrt_all)

lemma sorted_wrt_delete: "sorted_wrt P (xs @ x # ys) \<Longrightarrow> sorted_wrt P (xs @ ys)"
  by (auto simp: sorted_wrt_append)

lemma contents_append: "j \<le> length L \<Longrightarrow> contents (L @ M) i j = contents L i j"
  by (auto simp: contents_def nth_append intro!: arg_cong [where f = concat])

lemma contents_new: "contents (L @ M) (length L) (length (L @ M)) = concat (map content_of M)"
proof -
  have "map (\<lambda>k. content_of ((L @ M) ! k)) [length L..<length (L @ M)] = map content_of M"
    by (rule nth_equalityI) (simp_all add: nth_append)
  then show ?thesis by (simp add: contents_def)
qed

lemma slots_append: "slots L h R l \<Longrightarrow> R \<subseteq> {..<length L} \<Longrightarrow> slots (L @ M) h R l"
  by (auto simp: slots_def nth_append subset_iff)

lemma inv_send:
  assumes inv: "duplex_inv session L U F A h R s"
    and tx: "sends session (L @ es) (U @ [length L..<length L + length es]) tx"
    and ps: "list_all2 (carries (L @ es)) [length L..<length L + length es] ps"
    and room: "\<forall>u\<in>set U. length L + length es \<le> u + 128" "length es \<le> 128"
    and s': "s' = s\<lparr>dx_tx := tx, dx_line := dx_line s @ ps,
      dx_sent := dx_sent s @ concat (map content_of es)\<rparr>"
  shows "duplex_inv session (L @ es) (U @ [length L..<length L + length es])
    (F @ [length L..<length L + length es]) A h R s'"
proof -
  let ?n = "length L" and ?new = "[length L..<length L + length es]"
  note i = inv [unfolded duplex_inv_def]
  have "R \<subseteq> {..<?n}" "h \<le> ?n" using i by (auto simp: received_before_def lessThan_subset_iff)
  then have rx: "slots (L @ es) h R (dx_rx s)" "contents (L @ es) 0 h = contents L 0 h"
    using i slots_append contents_append by auto
  have line: "list_all2 (carries (L @ es)) (F @ ?new) (dx_line s @ ps)"
    using i ps carries_append by (auto intro!: list_all2_appendI elim: list_all2_mono)
  have F: "\<forall>j\<in>set F. j < ?n"
    using i by (auto simp: list_all2_conv_all_nth carries_def in_set_conv_nth)
  have recv: "received_before h R \<subseteq> {..<?n}" using i by blast
  have "sorted_wrt (\<lambda>j i. j < i + 128) (F @ ?new)"
    using i F room(2) by (intro sorted_wrt_extend) auto
  moreover have "\<forall>i\<in>set (F @ ?new). \<forall>k\<in>received_before h R. k < i + 128"
    using i recv by fastforce
  moreover have "{..<length (L @ es)} - set (U @ ?new) = {..<?n} - set U" by auto
  moreover have "dx_sent s @ concat (map content_of es) = contents (L @ es) 0 (length (L @ es))"
    using i contents_split [of 0 ?n "length (L @ es)" "L @ es"] contents_new [of L es]
      contents_append [of ?n L es 0] by simp
  moreover have "sorted (U @ ?new)" using i by (auto simp: sorted_append)
  moreover have "\<forall>u\<in>set (U @ ?new). length (L @ es) \<le> u + 128" using room by auto
  moreover have "set (U @ ?new) \<subseteq> {..<length (L @ es)}" using i by auto
  moreover have "received_before h R \<subseteq> {..<length (L @ es)}" using recv by auto
  ultimately show ?thesis
    using i tx line rx unfolding duplex_inv_def s' by simp
qed

lemma inv_span:
  assumes "duplex_inv session L U F A h R s" "send_span (dx_tx s) + k \<le> 128"
  shows "\<forall>u\<in>set U. length L + k \<le> u + 128" "k \<le> 128"
proof -
  show "\<forall>u\<in>set U. length L + k \<le> u + 128"
  proof (cases U)
    case (Cons u V)
    have u: "u < length L" "length L \<le> u + 128" "\<forall>v\<in>set U. u \<le> v"
      using assms(1) Cons by (auto simp: duplex_inv_def)
    have "send_span (dx_tx s) = length L - u"
      using assms(1) Cons u(1,2) by (intro send_span_sends) (auto simp: duplex_inv_def)
    then show ?thesis using assms(2) u by fastforce
  qed simp
qed (use assms(2) in simp)

lemma inv_tick:
  assumes inv: "duplex_inv session L U F A h R s"
    and tx: "sends session L U tx" and ps: "list_all2 (carries L) is ps" "set is \<subseteq> set U"
    and s': "s' = s\<lparr>dx_tx := tx, dx_line := dx_line s @ ps\<rparr>"
  shows "duplex_inv session L U (F @ is) A h R s'"
proof -
  note i = inv [unfolded duplex_inv_def]
  have old: "\<forall>i\<in>set is. length L \<le> i + 128" using i ps(2) by blast
  have below: "\<forall>j\<in>set (F @ is) \<union> received_before h R. j < length L"
    using i ps by (auto simp: list_all2_conv_all_nth carries_def in_set_conv_nth)
  have "sorted_wrt (\<lambda>j i. j < i + 128) (F @ is)"
    using i old below by (intro sorted_wrt_extend) (auto intro: less_le_trans)
  moreover have "\<forall>i\<in>set (F @ is). \<forall>k\<in>received_before h R. k < i + 128"
    using i old below by (auto intro: less_le_trans)
  moreover have "list_all2 (carries L) (F @ is) (dx_line s @ ps)"
    using i ps(1) by (auto intro: list_all2_appendI)
  ultimately show ?thesis using i tx unfolding duplex_inv_def s' by simp
qed

lemma list_all2_line_split:
  assumes "list_all2 P F (ps @ p # qs)"
  obtains F1 f F2 where "F = F1 @ f # F2" "list_all2 P (F1 @ F2) (ps @ qs)" "P f p"
proof -
  obtain F1 G where F: "F = F1 @ G" "list_all2 P F1 ps" "list_all2 P G (p # qs)"
    using assms by (auto simp: list_all2_append2)
  then obtain f F2 where "G = f # F2" "P f p" "list_all2 P F2 qs"
    by (auto simp: list_all2_Cons2)
  with F that show ?thesis by (auto intro: list_all2_appendI)
qed

lemma inv_lose_packet:
  assumes inv: "duplex_inv session L U F A h R s" and line: "dx_line s = ps @ p # qs"
  shows "\<exists>F'. duplex_inv session L U F' A h R (s\<lparr>dx_line := ps @ qs\<rparr>)"
proof -
  note i = inv [unfolded duplex_inv_def]
  have "list_all2 (carries L) F (ps @ p # qs)" using i line by simp
  then obtain F1 f F2 where F: "F = F1 @ f # F2" "list_all2 (carries L) (F1 @ F2) (ps @ qs)"
    by (rule list_all2_line_split)
  have "sorted_wrt (\<lambda>j i. j < i + 128) (F1 @ f # F2)" using i unfolding F(1) by simp
  then have "sorted_wrt (\<lambda>j i. j < i + 128) (F1 @ F2)" by (rule sorted_wrt_delete)
  then have "duplex_inv session L U (F1 @ F2) A h R (s\<lparr>dx_line := ps @ qs\<rparr>)"
    using i F unfolding duplex_inv_def by simp
  then show ?thesis by blast
qed

lemma inv_lose_ack:
  assumes inv: "duplex_inv session L U F A h R s" and acks: "dx_acks s = as @ a # bs"
  shows "\<exists>A'. duplex_inv session L U F A' h R (s\<lparr>dx_acks := as @ bs\<rparr>)"
proof -
  note i = inv [unfolded duplex_inv_def]
  have "map of_nat A = as @ a # bs" using i acks by simp
  then obtain A1 x A2 where A: "A = A1 @ x # A2" "as = map of_nat A1" "bs = map of_nat A2"
    by (auto simp: map_eq_append_conv map_eq_Cons_conv)
  have "sorted_wrt (\<lambda>j i. j < i + 128) (A1 @ x # A2)" using i unfolding A(1) by simp
  then have "sorted_wrt (\<lambda>j i. j < i + 128) (A1 @ A2)" by (rule sorted_wrt_delete)
  then have "duplex_inv session L U F (A1 @ A2) h R (s\<lparr>dx_acks := as @ bs\<rparr>)"
    using i A unfolding duplex_inv_def by simp
  then show ?thesis by blast
qed

lemma inv_deliver:
  assumes inv: "duplex_inv session L U F A h R s" and line: "dx_line s = p # ps"
    and r: "receive_packet (dx_rx s) p = (ok, bs, rx)"
  shows "\<exists>F' A' h' R'. duplex_inv session L U F' A' h' R'
    (s\<lparr>dx_rx := rx, dx_line := ps, dx_got := dx_got s @ bs,
      dx_acks := dx_acks s @ (if ok then [pk_seq p] else [])\<rparr>)"
proof -
  note i = inv [unfolded duplex_inv_def]
  obtain f F' where F: "F = f # F'" "carries L f p" "list_all2 (carries L) F' ps"
    using i line by (auto simp: list_all2_Cons2)
  have f: "f < length L" using F(2) by (simp add: carries_def)
  have recv_f: "\<forall>k\<in>received_before h R. k < f + 128" using i F(1) by simp
  have below: "h \<le> f + 128"
  proof (cases h)
    case (Suc k)
    then have "k \<in> received_before h R" by (simp add: received_before_def)
    with recv_f Suc show ?thesis by fastforce
  qed simp
  have above: "f < h + 128"
  proof (cases "h < length L")
    case True
    then have "h \<in> set U" using i by (auto simp: received_before_def)
    then have "length L \<le> h + 128" using i by blast
    with f show ?thesis by simp
  qed (use f in simp)
  obtain h' R' where *: "ok" "slots L h' R' rx" "h' \<notin> R'" "h \<le> h'"
    "received_before h' R' = insert f (received_before h R)"
    "bs @ ln_ready rx = ln_ready (dx_rx s) @ contents L h h'" "ln_session rx = ln_session (dx_rx s)"
    using receive_packet_slots [OF _ _ F(2) above below r] i unfolding received_before_def by metis
  let ?A = "A @ [f]"
  have "\<forall>g\<in>set F'. \<forall>k\<in>received_before h' R'. k < g + 128"
    using i F(1) *(5) by auto
  moreover have "sorted_wrt (\<lambda>j i. j < i + 128) F'" using i F(1) by simp
  moreover have "\<forall>a\<in>set ?A. \<forall>k\<in>{..<length L} - set U. k < a + 128"
    using i recv_f by auto
  moreover have "sorted_wrt (\<lambda>j i. j < i + 128) ?A"
  proof -
    have "\<forall>a\<in>set A. a < f + 128" using i recv_f by blast
    then show ?thesis using i by (simp add: sorted_wrt_append)
  qed
  moreover have "set ?A \<subseteq> received_before h' R'" using i *(5) by auto
  moreover have "received_before h' R' \<subseteq> {..<length L}" using i *(5) f by auto
  moreover have "{..<length L} - set U \<subseteq> received_before h' R'" using i *(5) by auto
  moreover have "(dx_got s @ bs) @ ln_ready rx = contents L 0 h'"
  proof -
    have "(dx_got s @ bs) @ ln_ready rx = (dx_got s @ ln_ready (dx_rx s)) @ contents L h h'"
      using *(6) by simp
    also have "\<dots> = contents L 0 h'" using i *(4) contents_split [of 0 h h' L] by simp
    finally show ?thesis .
  qed
  moreover have "pk_seq p = of_nat f" using F(2) by (simp add: carries_def)
  ultimately have "duplex_inv session L U F' ?A h' R'
    (s\<lparr>dx_rx := rx, dx_line := ps, dx_got := dx_got s @ bs,
      dx_acks := dx_acks s @ (if ok then [pk_seq p] else [])\<rparr>)"
    using i F(3) * unfolding duplex_inv_def by simp
  then show ?thesis by blast
qed

lemma inv_ack:
  assumes inv: "duplex_inv session L U F A h R s" and acks: "dx_acks s = b # as"
    and r: "acknowledge (dx_tx s) b = (known, tx)"
  shows "\<exists>U' A'. duplex_inv session L U' F A' h R (s\<lparr>dx_tx := tx, dx_acks := as\<rparr>)"
proof -
  note i = inv [unfolded duplex_inv_def]
  obtain a A' where A: "A = a # A'" "b = of_nat a" "as = map of_nat A'"
    using i acks by (auto simp: Cons_eq_map_conv)
  let ?U = "filter (\<lambda>u. u \<noteq> a) U" and ?n = "length L"
  have a: "a \<in> received_before h R" using i A(1) by auto
  then have an: "a < ?n" using i by blast
  have close: "\<forall>u\<in>set U. u < a + 256 \<and> a < u + 256"
  proof
    fix u
    assume u: "u \<in> set U"
    then have "?n \<le> u + 128" "u < ?n" using i by auto
    moreover have "?n \<le> a + 256"
    proof (rule ccontr)
      assume far: "\<not> ?n \<le> a + 256"
      then have "?n - 129 \<in> {..<?n} - set U" using i by fastforce
      then have "?n - 129 < a + 128" using i A(1) by auto
      with far show False by simp
    qed
    ultimately show "u < a + 256 \<and> a < u + 256" using an by simp
  qed
  have tx: "sends session L ?U tx"
    using acknowledge_sends [OF _ close, of session L "dx_tx s"] i r A(2) by simp
  have "\<forall>c\<in>set A'. \<forall>k\<in>{..<?n} - set ?U. k < c + 128"
    using i A(1) by auto
  moreover have "sorted_wrt (\<lambda>j i. j < i + 128) A'" using i A(1) by simp
  moreover have "{..<?n} - set ?U \<subseteq> received_before h R" using i a by auto
  moreover have "sorted ?U" using i by (simp add: sorted_filter [where f = "\<lambda>x. x", simplified])
  ultimately have "duplex_inv session L ?U F A' h R (s\<lparr>dx_tx := tx, dx_acks := as\<rparr>)"
    using i tx A(1,3) unfolding duplex_inv_def by auto
  then show ?thesis by blast
qed

text \<open>Every step keeps the invariant for some bookkeeping.\<close>

definition duplex_ok :: "u32 \<Rightarrow> duplex \<Rightarrow> bool" where
  "duplex_ok session s \<longleftrightarrow> (\<exists>L U F A h R. duplex_inv session L U F A h R s)"

lemma duplex_okI: "duplex_inv session L U F A h R s \<Longrightarrow> duplex_ok session s"
  unfolding duplex_ok_def by blast

lemma duplex_step_ok:
  assumes "duplex_step s s'" "duplex_ok session s"
  shows "duplex_ok session s'"
proof -
  obtain L U F A h R where inv: "duplex_inv session L U F A h R s"
    using assms(2) by (auto simp: duplex_ok_def)
  then have tx: "sends session L U (dx_tx s)" and ses: "ln_session (dx_rx s) = session"
    by (simp_all add: duplex_inv_def)
  from assms(1) show ?thesis
  proof cases
    case (send_data data wire tx')
    obtain es ps where es: "sends session (L @ es) (U @ [length L..<length L + length es]) tx'"
      "concat (map content_of es) = data" "length es = packets_for (dx_tx s) (length data)"
      "wire = concat (map (encode_packet session) ps)"
      "list_all2 (carries (L @ es)) [length L..<length L + length es] ps"
      using send_stream_sends [OF tx send_data(3)] by blast
    have "on_wire session wire = ps" unfolding es(4) by (rule send_stream_on_wire [OF es(5)])
    then have "duplex_inv session (L @ es) (U @ [length L..<length L + length es])
        (F @ [length L..<length L + length es]) A h R s'"
      using inv_send [OF inv es(1,5) inv_span [OF inv send_data(2) [folded es(3)]] refl] es(2) ses
      unfolding send_data(1) by simp
    then show ?thesis by (rule duplex_okI)
  next
    case (send_control opcode payload wire tx')
    let ?es = "[(opcode, payload)]"
    have upt: "[length L..<length L + length ?es] = [length L]" by simp
    have "push_reliable (dx_tx s) opcode payload session = Some (wire, tx')"
      using send_control tx by (simp add: send_request_def sends_def)
    from push_reliable_sends [OF tx this send_control(3,5)] send_control(4)
    obtain p where s1: "sends session (L @ ?es) (U @ [length L..<length L + length ?es]) tx'"
      and p: "list_all2 (carries (L @ ?es)) [length L..<length L + length ?es] [p]"
      and w: "wire = concat (map (encode_packet session) [p])"
      unfolding upt by auto
    have "on_wire session wire = [p]" unfolding w by (rule send_stream_on_wire [OF p])
    moreover have "concat (map content_of ?es) = []"
      using send_control(4) by (simp add: content_of_def slot_of_def)
    moreover have span: "send_span (dx_tx s) + length ?es \<le> 128" using send_control(2) by simp
    ultimately have "duplex_inv session (L @ ?es) (U @ [length L..<length L + length ?es])
        (F @ [length L..<length L + length ?es]) A h R s'"
      using inv_send [OF inv s1 p inv_span [OF inv span] refl] ses unfolding send_control(1) by simp
    then show ?thesis by (rule duplex_okI)
  next
    case (retransmit wire tx')
    obtain "is" ps where t: "sends session L U tx'" "set is \<subseteq> set U"
      "wire = concat (map (encode_packet session) ps)" "list_all2 (carries L) is ps"
      using tick_sends [OF tx retransmit(2)] by blast
    have "on_wire session wire = ps" unfolding t(3) by (rule send_stream_on_wire [OF t(4)])
    then have "duplex_inv session L U (F @ is) A h R s'"
      using inv_tick [OF inv t(1,4,2) refl] ses unfolding retransmit(1) by simp
    then show ?thesis by (rule duplex_okI)
  next
    case (lose_packet ps p qs)
    from inv_lose_packet [OF inv lose_packet(2)] show ?thesis
      unfolding lose_packet(1) duplex_ok_def by blast
  next
    case (deliver p ps ok bs rx)
    from inv_deliver [OF inv deliver(2,3)] show ?thesis unfolding deliver(1) duplex_ok_def by blast
  next
    case (lose_ack as a bs)
    from inv_lose_ack [OF inv lose_ack(2)] show ?thesis
      unfolding lose_ack(1) duplex_ok_def by blast
  next
    case (acked a as known tx')
    from inv_ack [OF inv acked(2,3)] show ?thesis unfolding acked(1) duplex_ok_def by blast
  qed
qed

lemma duplex_run_ok: "duplex_step\<^sup>*\<^sup>* (duplex_start session m n) s \<Longrightarrow> duplex_ok session s"
proof (induction rule: rtranclp_induct)
  case base
  show ?case using inv_start unfolding duplex_ok_def by blast
next
  case (step s s')
  from step.hyps(2) step.IH show ?case by (rule duplex_step_ok)
qed

section \<open>Retransmission\<close>

text \<open>No unacknowledged packet is two ticks old between two steps.\<close>

definition fresh :: "link \<Rightarrow> bool" where
  "fresh l \<longleftrightarrow> (\<forall>u\<in>set (ln_unacked l). un_sent u = ln_tick l \<or> un_sent u + 1 = ln_tick l)"

lemma push_reliable_fresh: "push_reliable l opcode payload seed = Some (w, l') \<Longrightarrow> fresh l \<Longrightarrow> fresh l'"
  by (auto simp: push_reliable_def Let_def fresh_def)

lemma send_stream_fresh: "send_stream l data = Some (w, l') \<Longrightarrow> fresh l \<Longrightarrow> fresh l'"
proof (induction l data arbitrary: w l' rule: send_stream.induct)
  case (1 l data)
  show ?case
  proof (cases "data = []")
    case True
    then have "l' = l" using "1.prems"(1) by (simp add: send_stream.simps)
    with "1.prems"(2) show ?thesis by simp
  next
    case ne: False
    have room: "\<not> ln_max_bytes l \<le> STREAM_OVERHEAD"
      using "1.prems"(1) ne by (subst (asm) send_stream.simps) (simp split: if_splits)
    define n where "n = min (length data) (ln_max_bytes l - STREAM_OVERHEAD)"
    define pl where "pl = u16_to_le (ln_offset l) @ take n data"
    define l1 where "l1 = l\<lparr>ln_offset := ln_offset l + of_nat n\<rparr>"
    obtain w1 l2 w2 where r: "push_reliable l1 ASK_STREAM_DATA pl (ln_session l1) = Some (w1, l2)"
      and s2: "send_stream l2 (drop n data) = Some (w2, l')" and w: "w = w1 @ w2"
      using "1.prems"(1) ne room unfolding send_stream.simps [of l data] Let_def
        n_def [symmetric] pl_def [symmetric] l1_def [symmetric]
      by (auto split: option.splits)
    have "fresh l1" using "1.prems"(2) unfolding fresh_def l1_def by simp
    then have "fresh l2" by (rule push_reliable_fresh [OF r])
    then show ?thesis by (rule "1.IH" [OF ne room n_def pl_def l1_def r refl s2])
  qed
qed

lemma tick_fresh:
  assumes "fresh l"
  shows "fresh (snd (tick_link l))"
proof -
  have "un_sent (snd (resend (ln_tick l + 1) u)) = ln_tick l + 1 \<or>
      un_sent (snd (resend (ln_tick l + 1) u)) + 1 = ln_tick l + 1" if "u \<in> set (ln_unacked l)" for u
  proof -
    have "un_sent u = ln_tick l \<or> un_sent u + 1 = ln_tick l" using assms that by (simp add: fresh_def)
    then show ?thesis
    proof
      assume "un_sent u + 1 = ln_tick l"
      then have "ln_tick l = un_sent u + 1" by (rule sym)
      then have "ln_tick l + 1 - un_sent u = 2" by (simp only:) simp
      then have "RETRANSMIT_AFTER_TICKS \<le> ln_tick l + 1 - un_sent u"
        by (simp only: retransmit_after) simp
      then show ?thesis by (simp add: resend_def Let_def)
    qed (simp add: resend_def Let_def)
  qed
  then show ?thesis by (auto simp: fresh_def tick_link_def Let_def)
qed

lemma duplex_run_fresh: "duplex_step\<^sup>*\<^sup>* (duplex_start session m n) s \<Longrightarrow> fresh (dx_tx s)"
proof (induction rule: rtranclp_induct)
  case base
  show ?case by (simp add: fresh_def duplex_start_def new_link_def)
next
  case (step s s')
  from step.hyps(2) show ?case
  proof cases
    case (send_data data wire tx)
    then show ?thesis using send_stream_fresh step.IH by simp
  next
    case (send_control opcode payload wire tx)
    then show ?thesis using push_reliable_fresh step.IH by (simp add: send_request_def)
  next
    case (retransmit wire tx)
    then show ?thesis using tick_fresh [OF step.IH] by simp
  next
    case (acked a as known tx)
    then show ?thesis using step.IH by (auto simp: acknowledge_def Let_def fresh_def)
  qed (use step.IH in simp_all)
qed

section \<open>Properties\<close>


definition demo_packet :: packet where
  "demo_packet = \<lparr>pk_seq = 0, pk_opcode = ASK_STREAM_DATA, pk_payload = [0, 0, 1, 2, 3]\<rparr>"

definition demo_sender :: link where
  "demo_sender = (new_link 7 24)\<lparr>ln_next_seq := 1, ln_offset := 3,
     ln_unacked := [\<lparr>un_seq = 0, un_body = packet_body demo_packet, un_seed = 7, un_sent = 0\<rparr>]\<rparr>"

lemma demo_send:
  "send_stream (new_link 7 24) [1, 2, 3] = Some (encode_packet 7 demo_packet, demo_sender)"
proof -
  let ?l = "(new_link 7 24)\<lparr>ln_offset := 3\<rparr>"
  have "push_reliable ?l ASK_STREAM_DATA [0, 0, 1, 2, 3] 7 = Some (encode_packet 7 demo_packet, demo_sender)"
    by (simp add: push_reliable_def encode_def new_link_def packet_sizes demo_packet_def encode_packet_def
        crc_seed_def packet_opcodes demo_sender_def packet_body_def seal_def Let_def)
  then show ?thesis
    by (simp add: send_stream.simps new_link_def STREAM_OVERHEAD_def packet_sizes u16_to_le_def Let_def)
qed

definition demo_sent :: duplex where
  "demo_sent = (duplex_start 7 24 256)\<lparr>dx_tx := demo_sender, dx_line := [demo_packet],
     dx_sent := [1, 2, 3]\<rparr>"

lemma demo_link_run: "duplex_step\<^sup>*\<^sup>* (duplex_start 7 24 256) demo_sent"
proof (rule r_into_rtranclp)
  have wire: "on_wire 7 (encode_packet 7 demo_packet) = [demo_packet]"
    using on_wire_packets [of "[demo_packet]" 7] by (simp add: demo_packet_def)
  have start: "dx_tx (duplex_start 7 24 256) = new_link 7 24"
    "ln_session (dx_rx (duplex_start 7 24 256)) = 7"
    by (simp_all add: duplex_start_def new_link_def)
  have "duplex_step (duplex_start 7 24 256) ((duplex_start 7 24 256)\<lparr>dx_tx := demo_sender,
      dx_line := dx_line (duplex_start 7 24 256) @
        on_wire (ln_session (dx_rx (duplex_start 7 24 256))) (encode_packet 7 demo_packet),
      dx_sent := dx_sent (duplex_start 7 24 256) @ [1, 2, 3]\<rparr>)"
    by (rule send_data) (unfold start, simp add: send_span_def new_link_def packets_for_def
        STREAM_OVERHEAD_def packet_sizes, rule demo_send)
  then show "duplex_step (duplex_start 7 24 256) demo_sent"
    unfolding start wire by (simp add: demo_sent_def duplex_start_def)
qed

text \<open>The packet delivered and acknowledged.\<close>

definition demo_receiver :: link where
  "demo_receiver = (new_link 7 256)\<lparr>ln_head := 1\<rparr>"

definition demo_acked :: duplex where
  "demo_acked = \<lparr>dx_tx = demo_sender\<lparr>ln_unacked := []\<rparr>, dx_rx = demo_receiver, dx_line = [],
     dx_acks = [], dx_sent = [1, 2, 3], dx_got = [1, 2, 3]\<rparr>"

lemma demo_receive: "receive_packet (new_link 7 256) demo_packet = (True, [1, 2, 3], demo_receiver)"
proof -
  let ?l = "(new_link 7 256)\<lparr>ln_received := [0 \<mapsto> Some [1, 2, 3]]\<rparr>"
  have "advance_link ?l = demo_receiver\<lparr>ln_ready := [1, 2, 3]\<rparr>"
    by (simp add: advance_link.simps new_link_def demo_receiver_def)
  moreover have "base_opcode demo_packet = ASK_STREAM_DATA" "in_window (new_link 7 256) 0"
    by (simp_all add: demo_packet_def base_opcode_def packet_opcodes OPCODE_MASK_def in_window_def
        new_link_def WINDOW_def word_less_nat_alt)
  ultimately show ?thesis
    by (simp add: receive_packet_def accept_stream_cases demo_packet_def take_stream_def)
      (simp add: new_link_def demo_receiver_def)
qed

lemma demo_acked_run: "duplex_step\<^sup>*\<^sup>* (duplex_start 7 24 256) demo_acked"
proof -
  let ?got = "demo_sent\<lparr>dx_rx := demo_receiver, dx_line := [], dx_got := [1, 2, 3], dx_acks := [0]\<rparr>"
  have rx: "dx_rx demo_sent = new_link 7 256" by (simp add: demo_sent_def duplex_start_def)
  have "duplex_step demo_sent (demo_sent\<lparr>dx_rx := demo_receiver, dx_line := [],
      dx_got := dx_got demo_sent @ [1, 2, 3],
      dx_acks := dx_acks demo_sent @ (if True then [pk_seq demo_packet] else [])\<rparr>)"
    by (rule deliver) (simp_all add: demo_sent_def rx [unfolded demo_sent_def] demo_receive duplex_start_def)
  then have "duplex_step demo_sent ?got"
    by (simp add: demo_sent_def duplex_start_def demo_packet_def)
  moreover have "duplex_step ?got (?got\<lparr>dx_tx := demo_sender\<lparr>ln_unacked := []\<rparr>, dx_acks := []\<rparr>)"
    by (rule acked [where known = True])
      (simp_all add: demo_sent_def acknowledge_def demo_sender_def)
  then have "duplex_step ?got demo_acked"
    by (simp add: demo_acked_def demo_sent_def duplex_start_def)
  ultimately show ?thesis using demo_link_run by (meson rtranclp.rtrancl_into_rtrancl)
qed


text \<open>C35: whenever a packet is unacknowledged, one of the next two ticks puts it on the wire again,
  readable by the receiver.\<close>

theorem unacked_resent:
  assumes "duplex_step\<^sup>*\<^sup>* (duplex_start session m n) s" "u \<in> set (ln_unacked (dx_tx s))"
    and "tick_link (dx_tx s) = (w1, l1)" "tick_link l1 = (w2, l2)"
  shows "un_seq u \<in> pk_seq ` set (on_wire session w1 @ on_wire session w2)"
proof -
  obtain L U F A h R where inv: "duplex_inv session L U F A h R s"
    using duplex_run_ok [OF assms(1)] by (auto simp: duplex_ok_def)
  then have tx: "sends session L U (dx_tx s)" by (simp add: duplex_inv_def)
  obtain is1 ps1 where 1: "sends session L U l1" "w1 = concat (map (encode_packet session) ps1)"
    "list_all2 (carries L) is1 ps1"
    "\<forall>u\<in>set (ln_unacked (dx_tx s)). due (ln_tick (dx_tx s) + 1) u \<longrightarrow> un_seq u \<in> pk_seq ` set ps1"
    using tick_sends [OF tx assms(3)] by blast
  obtain is2 ps2 where 2: "w2 = concat (map (encode_packet session) ps2)"
    "list_all2 (carries L) is2 ps2"
    "\<forall>u\<in>set (ln_unacked l1). due (ln_tick l1 + 1) u \<longrightarrow> un_seq u \<in> pk_seq ` set ps2"
    using tick_sends [OF 1(1) assms(4)] by blast
  have wires: "on_wire session w1 = ps1" "on_wire session w2 = ps2"
    unfolding 1(2) 2(1) by (rule send_stream_on_wire [OF 1(3)], rule send_stream_on_wire [OF 2(2)])
  show ?thesis
  proof (cases "due (ln_tick (dx_tx s) + 1) u")
    case True
    then show ?thesis using 1(4) assms(2) wires by auto
  next
    case False
    then have "un_sent u \<noteq> ln_tick (dx_tx s) - 1"
      by (auto simp: due_def retransmit_after)
    then have "un_sent u = ln_tick (dx_tx s)"
      using duplex_run_fresh [OF assms(1)] assms(2) by (auto simp: fresh_def eq_diff_eq)
    moreover have "snd (resend (ln_tick (dx_tx s) + 1) u) = u"
      using False by (simp add: resend_def due_def)
    then have "u \<in> set (ln_unacked l1)" "ln_tick l1 = ln_tick (dx_tx s) + 1"
      using assms(2,3) by (force simp: tick_link_def Let_def)+
    ultimately show ?thesis using 2(3) wires by (auto simp: due_def retransmit_after)
  qed
qed

theorem unacked_resent_witness:
  "0 \<in> pk_seq ` set (on_wire 7 (fst (tick_link demo_sender)) @
     on_wire 7 (fst (tick_link (snd (tick_link demo_sender)))))"
proof -
  have "dx_tx demo_sent = demo_sender" by (simp add: demo_sent_def)
  then show ?thesis
    using unacked_resent [OF demo_link_run _ surjective_pairing surjective_pairing,
        of "hd (ln_unacked demo_sender)"]
    by (simp add: demo_sender_def)
qed

text \<open>A lost reset is never recovered: the first copy of \<open>ASK_RESET\<close> is accepted by a device of
  any session, but its retransmission carries the flag, for which the device checks the session
  seed while the sender still seals with the reset seed, so every device but one of session
  0xFFFFFFFF rejects it.\<close>

lemma retransmitted_reset_rejected:
  assumes "send_request (new_link session m) ASK_RESET (u32_to_le session) = Some (w0, l1)"
    and "tick_link l1 = (w1, l2)" "tick_link l2 = (w2, l3)" "device_session \<noteq> RESET_CRC_SEED"
  shows "push_parser device_session new_parser w0 =
      ([Valid \<lparr>pk_seq = 0, pk_opcode = ASK_RESET, pk_payload = u32_to_le session\<rparr>], new_parser) \<and>
    w1 = [] \<and> push_parser device_session new_parser w2 = ([ChecksumFail 0], new_parser)"
proof -
  let ?p = "\<lparr>pk_seq = 0, pk_opcode = ASK_RESET, pk_payload = u32_to_le session\<rparr>"
  let ?q = "\<lparr>pk_seq = 0, pk_opcode = ASK_RESET OR RETRANSMIT_FLAG, pk_payload = u32_to_le session\<rparr>"
  let ?u = "\<lparr>un_seq = 0, un_body = packet_body ?p, un_seed = RESET_CRC_SEED, un_sent = 0\<rparr>"
  have w0: "w0 = encode_packet device_session ?p" and l1: "ln_unacked l1 = [?u]" "ln_tick l1 = 0"
    using assms(1)
    by (auto simp: send_request_def push_reliable_def new_link_def encode_def packet_sizes Let_def
        encode_packet_def crc_seed_def packet_body_def seal_def)
  have "push_parser device_session new_parser w0 = ([Valid ?p], new_parser)"
    unfolding w0 by (rule push_encode_packet) simp
  moreover have w1: "w1 = []" and l2: "ln_unacked l2 = [?u]" "ln_tick l2 = 1"
    using assms(2) l1 by (auto simp: tick_link_def resend_def retransmit_after)
  have w2: "w2 = seal (packet_body ?q) RESET_CRC_SEED"
    using assms(3) l2 by (auto simp: tick_link_def resend_def retransmit_after Let_def
        packet_body_def numeral_3_eq_3)
  have flagged: "ASK_RESET OR RETRANSMIT_FLAG \<noteq> ASK_RESET"
    by (simp add: packet_opcodes RETRANSMIT_FLAG_def)
  have len: "length w2 = 12" unfolding w2 by (simp add: seal_def packet_body_def)
  have body: "packet_body ?q ! 1 = 0" "packet_body ?q ! 3 = ASK_RESET OR RETRANSMIT_FLAG"
    by (simp_all add: packet_body_def)
  have "verify w2 device_session = ChecksumFail 0"
    unfolding w2 seal_def verify_body crc_seed_def body
    using flagged assms(4) by (simp add: crc32c_seed_inject)
  moreover have "feeds device_session [] w2 = ([verify w2 device_session], [])"
    by (rule feeds_whole [where seq = 0 and rest = "drop 3 w2"])
      (simp_all only: len, simp_all add: w2 seal_def packet_body_def)
  ultimately show ?thesis
    using w1 by (simp add: push_parser_feeds new_parser_def)
qed

text \<open>A stream packet is acknowledged whenever it carries an offset, never refused as too far
  ahead, and one that is exactly a window ahead is acknowledged although its bytes are dropped: the
  sender forgets them.\<close>

lemma accept_stream_never_refuses:
  "(fst (accept_stream l seq payload) \<longleftrightarrow> 2 \<le> length payload) \<and>
   accept_stream l (ln_head l + WINDOW) payload = (2 \<le> length payload, l)"
proof -
  have "\<not> in_window l (ln_head l + WINDOW)" by (simp add: in_window_def)
  then show ?thesis
    by (cases "2 \<le> length payload") (simp add: accept_stream_cases, simp add: accept_stream_def)
qed

end
