(* ===== verification/Stream_Message.thy ===== *)
theory Stream_Message
  imports Stream_Decoder
begin

text \<open>
  adapters/pabotbase/src/message.rs: the messages carried in the reliable stream and the reader
  that splits the reassembled bytes into them. The length field is 16 bits: \<open>encode\<close> writes the
  total modulo 65536, as the cast in the code does.
\<close>

section \<open>Messages\<close>

definition LOG_STRING :: u8 where "LOG_STRING = 0x01"
definition LOG_LABEL_H32 :: u8 where "LOG_LABEL_H32 = 0x02"
definition LOG_LABEL_U32 :: u8 where "LOG_LABEL_U32 = 0x03"
definition LOG_LABEL_I32 :: u8 where "LOG_LABEL_I32 = 0x04"
definition REQUEST_DROPPED :: u8 where "REQUEST_DROPPED = 0x10"
definition RET :: u8 where "RET = 0x11"
definition RET_U32 :: u8 where "RET_U32 = 0x12"
definition RET_DATA :: u8 where "RET_DATA = 0x13"
definition RET_U32_DATA :: u8 where "RET_U32_DATA = 0x14"
definition MSG_PROTOCOL_VERSION :: u8 where "MSG_PROTOCOL_VERSION = 0x20"
definition MSG_FIRMWARE_VERSION :: u8 where "MSG_FIRMWARE_VERSION = 0x21"
definition MSG_DEVICE_IDENTIFIER :: u8 where "MSG_DEVICE_IDENTIFIER = 0x22"
definition DEVICE_NAME :: u8 where "DEVICE_NAME = 0x23"
definition CONTROLLER_LIST :: u8 where "CONTROLLER_LIST = 0x24"
definition SET_LOGGING_FLAG :: u8 where "SET_LOGGING_FLAG = 0x25"
definition CQ_CAPACITY :: u8 where "CQ_CAPACITY = 0x26"
definition REQUEST_SESSION_NUM :: u8 where "REQUEST_SESSION_NUM = 0x30"
definition REQUEST_STATUS :: u8 where "REQUEST_STATUS = 0x31"
definition READ_CONTROLLER_MODE :: u8 where "READ_CONTROLLER_MODE = 0x32"
definition CHANGE_CONTROLLER_MODE :: u8 where "CHANGE_CONTROLLER_MODE = 0x33"
definition RESET_TO_CONTROLLER :: u8 where "RESET_TO_CONTROLLER = 0x34"
definition CQ_COMMAND_DROPPED :: u8 where "CQ_COMMAND_DROPPED = 0x40"
definition CQ_CANCEL :: u8 where "CQ_CANCEL = 0x41"
definition CQ_REPLACE_ON_NEXT :: u8 where "CQ_REPLACE_ON_NEXT = 0x42"
definition CQ_COMMAND_FINISHED :: u8 where "CQ_COMMAND_FINISHED = 0x43"
definition CMD_NS_WIRED_CONTROLLER_STATE :: u8 where "CMD_NS_WIRED_CONTROLLER_STATE = 0x90"
definition CMD_NS1_OEM_CONTROLLER_BUTTONS :: u8 where "CMD_NS1_OEM_CONTROLLER_BUTTONS = 0x97"

lemmas message_opcodes = LOG_STRING_def LOG_LABEL_H32_def LOG_LABEL_U32_def LOG_LABEL_I32_def
  REQUEST_DROPPED_def RET_def RET_U32_def RET_DATA_def RET_U32_DATA_def MSG_PROTOCOL_VERSION_def
  MSG_FIRMWARE_VERSION_def MSG_DEVICE_IDENTIFIER_def DEVICE_NAME_def CONTROLLER_LIST_def
  SET_LOGGING_FLAG_def CQ_CAPACITY_def REQUEST_SESSION_NUM_def REQUEST_STATUS_def
  READ_CONTROLLER_MODE_def CHANGE_CONTROLLER_MODE_def RESET_TO_CONTROLLER_def
  CQ_COMMAND_DROPPED_def CQ_CANCEL_def CQ_REPLACE_ON_NEXT_def CQ_COMMAND_FINISHED_def
  CMD_NS_WIRED_CONTROLLER_STATE_def CMD_NS1_OEM_CONTROLLER_BUTTONS_def

record message =
  ms_opcode :: u8
  ms_id :: u8
  ms_body :: bytes

definition new_message :: "u8 \<Rightarrow> u8 \<Rightarrow> bytes \<Rightarrow> message" where
  "new_message opcode mid body = \<lparr>ms_opcode = opcode, ms_id = mid, ms_body = body\<rparr>"

definition u32_message :: "u8 \<Rightarrow> u8 \<Rightarrow> u32 \<Rightarrow> message" where
  "u32_message opcode mid x = new_message opcode mid (u32_to_le x)"

definition body_u32 :: "message \<Rightarrow> u32 option" where
  "body_u32 m = get_u32 (ms_body m)"

definition MESSAGE_HEADER_BYTES :: nat where "MESSAGE_HEADER_BYTES = 4"

definition encode_message :: "message \<Rightarrow> bytes" where
  "encode_message m =
     u16_to_le (of_nat (MESSAGE_HEADER_BYTES + length (ms_body m))) @ [ms_opcode m, ms_id m] @ ms_body m"

section \<open>The reader\<close>

record message_reader =
  mr_buffer :: bytes

definition new_reader :: message_reader where
  "new_reader = \<lparr>mr_buffer = []\<rparr>"

definition reset_reader :: "message_reader \<Rightarrow> message_reader" where
  "reset_reader r = r\<lparr>mr_buffer := []\<rparr>"

definition frame_total :: "bytes \<Rightarrow> nat" where
  "frame_total b = unat (u16_from_le (b ! 0) (b ! 1))"

function split_messages :: "bytes \<Rightarrow> message list \<times> bytes" where
  "split_messages b =
     (if length b < MESSAGE_HEADER_BYTES then ([], b)
      else
        let total = frame_total b in
        if total < MESSAGE_HEADER_BYTES then ([], [])
        else if length b < total then ([], b)
        else emit (new_message (b ! 2) (b ! 3) (drop MESSAGE_HEADER_BYTES (take total b)))
               (split_messages (drop total b)))"
  by pat_completeness auto
termination by (relation "measure length") (auto simp: MESSAGE_HEADER_BYTES_def)

declare split_messages.simps [simp del]

definition push_reader :: "message_reader \<Rightarrow> bytes \<Rightarrow> message list \<times> message_reader" where
  "push_reader r input =
     (case split_messages (mr_buffer r @ input) of (out, b) \<Rightarrow> (out, r\<lparr>mr_buffer := b\<rparr>))"

section \<open>Framing\<close>

text \<open>Bytes in which no length field is below the header's size, and a buffer between two reads.\<close>

function framed :: "bytes \<Rightarrow> bool" where
  "framed b \<longleftrightarrow>
     (if length b < 4 then True
      else if frame_total b < 4 then False
      else if length b < frame_total b then True
      else framed (drop (frame_total b) b))"
  by pat_completeness auto
termination by (relation "measure length") auto

declare framed.simps [simp del]

definition partial_frame :: "bytes \<Rightarrow> bool" where
  "partial_frame b \<longleftrightarrow> length b < 4 \<or> 4 \<le> frame_total b \<and> length b < frame_total b"

lemma frame_total_append: "2 \<le> length b \<Longrightarrow> frame_total (b @ c) = frame_total b"
  by (cases b) (auto simp: frame_total_def nth_append Suc_le_eq)

lemma split_messages_cases:
  shows "partial_frame b \<Longrightarrow> split_messages b = ([], b)"
    and "4 \<le> length b \<Longrightarrow> frame_total b < 4 \<Longrightarrow> split_messages b = ([], [])"
    and "4 \<le> frame_total b \<Longrightarrow> frame_total b \<le> length b \<Longrightarrow> split_messages b =
      emit (new_message (b ! 2) (b ! 3) (drop 4 (take (frame_total b) b)))
        (split_messages (drop (frame_total b) b))"
  by (subst split_messages.simps, auto simp: partial_frame_def MESSAGE_HEADER_BYTES_def Let_def)+

lemma framed_prefix: "framed (b @ c) \<Longrightarrow> framed b"
proof (induction b rule: framed.induct)
  case (1 b)
  show ?case
  proof (cases "length b < 4")
    case False
    then have t: "frame_total (b @ c) = frame_total b" by (intro frame_total_append) simp
    have h: "\<not> frame_total b < 4" "length (b @ c) < frame_total b \<or> framed (drop (frame_total b) (b @ c))"
      using "1.prems" False t by (subst (asm) framed.simps, auto split: if_splits)+
    show ?thesis
    proof (cases "length b < frame_total b")
      case True
      then show ?thesis using h by (subst framed.simps) simp
    next
      case le: False
      then have "framed (drop (frame_total b) b @ c)" using h by auto
      from "1.IH" [OF False h(1) le this] h le show ?thesis by (subst framed.simps) simp
    qed
  qed (subst framed.simps, simp)
qed

lemma split_messages_append:
  "framed (b @ c) \<Longrightarrow> split_messages (b @ c) =
     (fst (split_messages b) @ fst (split_messages (snd (split_messages b) @ c)),
      snd (split_messages (snd (split_messages b) @ c)))
   \<and> framed (snd (split_messages b) @ c)"
proof (induction b rule: framed.induct)
  case (1 b)
  show ?case
  proof (cases "partial_frame b")
    case True
    then show ?thesis using "1.prems" by (simp add: split_messages_cases(1))
  next
    case False
    then have four: "\<not> length b < 4" by (simp add: partial_frame_def)
    then have t: "frame_total (b @ c) = frame_total b" by (intro frame_total_append) simp
    have ge: "\<not> frame_total b < 4"
      using framed_prefix [OF "1.prems"] four by (subst (asm) framed.simps) (simp split: if_splits)
    with False four have le: "\<not> length b < frame_total b" by (simp add: partial_frame_def)
    have "framed (drop (frame_total b) b @ c)"
      using "1.prems" four ge le t by (subst (asm) framed.simps) auto
    note IH = "1.IH" [OF four ge le this]
    have bc: "split_messages (b @ c) =
        emit (new_message (b ! 2) (b ! 3) (drop 4 (take (frame_total b) b)))
          (split_messages (drop (frame_total b) b @ c))"
      using split_messages_cases(3) [of "b @ c"] ge le t four by (simp add: nth_append)
    have b: "split_messages b =
        emit (new_message (b ! 2) (b ! 3) (drop 4 (take (frame_total b) b)))
          (split_messages (drop (frame_total b) b))"
      using ge le by (intro split_messages_cases(3)) simp_all
    show ?thesis unfolding bc b using IH by (simp add: emit_def)
  qed
qed

lemma split_messages_partial: "partial_frame (snd (split_messages b))"
proof (induction b rule: split_messages.induct)
  case (1 b)
  then show ?case
    by (subst split_messages.simps) (auto simp: partial_frame_def MESSAGE_HEADER_BYTES_def Let_def)
qed

interpretation messages: stream_decoder push_reader "\<lambda>r bs. framed (mr_buffer r @ bs)"
  "\<lambda>r. partial_frame (mr_buffer r)"
proof unfold_locales
  fix r :: message_reader and xs ys
  assume r: "partial_frame (mr_buffer r)"
  show "push_reader r [] = ([], r)"
    using r by (simp add: push_reader_def split_messages_cases(1))
  show "partial_frame (mr_buffer (snd (push_reader r xs)))"
    using split_messages_partial by (simp add: push_reader_def split_beta)
  assume "framed (mr_buffer r @ xs @ ys)"
  then have f: "framed ((mr_buffer r @ xs) @ ys)" by simp
  show "framed (mr_buffer r @ xs)" by (rule framed_prefix [OF f])
  show "framed (mr_buffer (snd (push_reader r xs)) @ ys)"
    using split_messages_append [OF f] by (simp add: push_reader_def split_beta)
  show "push_reader r (xs @ ys) =
      (fst (push_reader r xs) @ fst (push_reader (snd (push_reader r xs)) ys),
       snd (push_reader (snd (push_reader r xs)) ys))"
    using split_messages_append [OF f] by (simp add: push_reader_def split_beta)
qed

lemma new_reader_partial [simp]: "partial_frame (mr_buffer new_reader)" "mr_buffer new_reader = []"
  by (simp_all add: new_reader_def partial_frame_def)

section \<open>Encoded messages\<close>

lemma frame_total_le: "frame_total (u16_to_le x @ c) = unat x"
  unfolding frame_total_def u16_to_le_def by simp

lemma frame_total_encode:
  "length (ms_body m) < 65532 \<Longrightarrow> frame_total (encode_message m @ c) = 4 + length (ms_body m)"
  unfolding encode_message_def append_assoc frame_total_le
  by (simp add: MESSAGE_HEADER_BYTES_def unsigned_of_nat take_bit_nat_eq_self del: of_nat_add)

lemma length_encode_message [simp]: "length (encode_message m) = 4 + length (ms_body m)"
  by (simp add: encode_message_def)

lemma framed_encode:
  "\<forall>m\<in>set ms. length (ms_body m) < 65532 \<Longrightarrow> framed (concat (map encode_message ms))"
proof (induction ms)
  case (Cons m ms)
  then show ?case
    using frame_total_encode [of m] by (subst framed.simps) simp
qed (subst framed.simps, simp)

lemma nth_encode_message:
  "encode_message m ! 2 = ms_opcode m" "encode_message m ! 3 = ms_id m"
  "drop 4 (encode_message m) = ms_body m"
  by (simp_all add: encode_message_def u16_to_le_def)

lemma push_encoded:
  assumes "length (ms_body m) < 65532"
  shows "push_reader new_reader (encode_message m) = ([m], new_reader)"
proof -
  have t: "frame_total (encode_message m) = length (encode_message m)"
    using frame_total_encode [OF assms, of "[]"] by simp
  have "split_messages (encode_message m) = ([m], [])"
    using split_messages_cases(1) [of "[]"]
    by (subst split_messages_cases(3))
      (simp_all add: t partial_frame_def new_message_def emit_def nth_encode_message)
  then show ?thesis by (simp add: push_reader_def)
qed

section \<open>Properties\<close>

text \<open>Messages of up to 65531 body bytes, encoded one after the other, are read back whole and
  in order however the stream is cut into reads, and the reader is left empty.\<close>

lemma messages_roundtrip:
  assumes "\<forall>m\<in>set ms. length (ms_body m) < 65532" "concat reads = concat (map encode_message ms)"
  shows "push_reads push_reader new_reader reads = (ms, new_reader)"
proof -
  have "push_reads push_reader new_reader reads = (map (\<lambda>m. m) ms, new_reader)"
    by (rule messages.frames_in_any_reads [where wire = encode_message])
      (use assms push_encoded framed_encode in \<open>simp_all add: partial_frame_def\<close>)
  then show ?thesis by simp
qed

end
