(* ===== verification/Command_Report.thy ===== *)
theory Command_Report
  imports Controller Stream_Message
begin

text \<open>
  adapters/pabotbase/src/report.rs: one queued command of the serial device, for the two
  controllers its firmware emulates, and the device side's reading of it.
\<close>

section \<open>Inputs\<close>

datatype switch_input =
    Input_A | Input_B | Input_L | Input_R | Input_Plus | Input_Minus | Input_Home
  | DpadUp | DpadDown | DpadLeft | DpadRight

fun switch_input_of :: "button \<Rightarrow> switch_input" where
  "switch_input_of Button_A = Input_A"
| "switch_input_of Button_B = Input_B"
| "switch_input_of Button_L = Input_L"
| "switch_input_of Button_R = Input_R"
| "switch_input_of Button_Start = Input_Plus"
| "switch_input_of Button_Select = Input_Minus"
| "switch_input_of Button_Home = Input_Home"
| "switch_input_of Button_Up = DpadUp"
| "switch_input_of Button_Down = DpadDown"
| "switch_input_of Button_Left = DpadLeft"
| "switch_input_of Button_Right = DpadRight"

datatype controller_kind = WirelessProController | WiredController

fun kind_id :: "controller_kind \<Rightarrow> u32" where
  "kind_id WirelessProController = 0x1180"
| "kind_id WiredController = 0x1000"

definition kind_from_id :: "u32 \<Rightarrow> controller_kind option" where
  "kind_from_id i =
     (if i = 0x1180 then Some WirelessProController
      else if i = 0x1000 then Some WiredController
      else None)"

definition NEUTRAL_STICK_OEM :: bytes where "NEUTRAL_STICK_OEM = [0x00, 0x08, 0x80]"
definition NEUTRAL_STICK_WIRED :: u8 where "NEUTRAL_STICK_WIRED = 0x80"
definition HAT_NEUTRAL :: u8 where "HAT_NEUTRAL = 8"

definition dpad_hat :: "bool \<Rightarrow> bool \<Rightarrow> bool \<Rightarrow> bool \<Rightarrow> u8" where
  "dpad_hat up down left right =
     (let vertical = of_bool up - of_bool down :: int;
          horizontal = of_bool right - of_bool left :: int
      in if (vertical, horizontal) = (1, 0) then 0
         else if (vertical, horizontal) = (1, 1) then 1
         else if (vertical, horizontal) = (0, 1) then 2
         else if (vertical, horizontal) = (-1, 1) then 3
         else if (vertical, horizontal) = (-1, 0) then 4
         else if (vertical, horizontal) = (-1, -1) then 5
         else if (vertical, horizontal) = (0, -1) then 6
         else if (vertical, horizontal) = (1, -1) then 7
         else HAT_NEUTRAL)"

section \<open>Encoding\<close>

definition has_input :: "button_set \<Rightarrow> switch_input \<Rightarrow> bool" where
  "has_input buttons input \<longleftrightarrow> list_ex (\<lambda>b. switch_input_of b = input) (bs_iter buttons)"

definition flag :: "bool \<Rightarrow> nat \<Rightarrow> 'a::len word" where
  "flag on n = (if on then push_bit n 1 else 0)"

definition encode_command :: "controller_kind \<Rightarrow> u8 \<Rightarrow> button_set \<Rightarrow> u16 \<Rightarrow> message" where
  "encode_command kind mid buttons ms =
     (let has = has_input buttons in
      case kind of
        WirelessProController \<Rightarrow>
          let button3 = flag (has Input_B) 2 OR flag (has Input_A) 3 OR flag (has Input_R) 6;
              button4 = flag (has Input_Minus) 0 OR flag (has Input_Plus) 1 OR
                        flag (has Input_Home) 4;
              button5 = flag (has DpadDown) 0 OR flag (has DpadUp) 1 OR flag (has DpadRight) 2 OR
                        flag (has DpadLeft) 3 OR flag (has Input_L) 6
          in new_message CMD_NS1_OEM_CONTROLLER_BUTTONS mid
               (u16_to_le ms @ [button3, button4, button5] @ NEUTRAL_STICK_OEM @ NEUTRAL_STICK_OEM
                @ [0])
      | WiredController \<Rightarrow>
          let buttons0 = ucast (flag (has Input_B) 1 :: u8) OR ucast (flag (has Input_A) 2 :: u8) OR
                ucast (flag (has Input_L) 4 :: u8) OR ucast (flag (has Input_R) 5 :: u8) OR
                flag (has Input_Minus) 8 OR flag (has Input_Plus) 9 OR flag (has Input_Home) 12
          in new_message CMD_NS_WIRED_CONTROLLER_STATE mid
               (u16_to_le ms @ u16_to_le buttons0 @
                [dpad_hat (has DpadUp) (has DpadDown) (has DpadLeft) (has DpadRight)] @
                replicate 4 NEUTRAL_STICK_WIRED))"

section \<open>Decoding\<close>

text \<open>The closure \<open>add\<close> of the code, over the conditions in their order.\<close>

definition add_pressed :: "(bool \<times> button) list \<Rightarrow> button_set" where
  "add_pressed xs = foldl (\<lambda>s (on, b). if on then bs_with s b else s) bs_none xs"

definition wired_directions :: "u8 \<Rightarrow> bool \<times> bool \<times> bool \<times> bool" where
  "wired_directions h =
     (if h = 0 then (True, False, False, False)
      else if h = 1 then (True, False, False, True)
      else if h = 2 then (False, False, False, True)
      else if h = 3 then (False, True, False, True)
      else if h = 4 then (False, True, False, False)
      else if h = 5 then (False, True, True, False)
      else if h = 6 then (False, False, True, False)
      else if h = 7 then (True, False, True, False)
      else (False, False, False, False))"

definition decode_oem :: "bytes \<Rightarrow> button_set option" where
  "decode_oem body =
     (case body of
        b3 # b4 # b5 # _ \<Rightarrow> Some (add_pressed
          [(b3 AND push_bit 2 1 \<noteq> 0, Button_B), (b3 AND push_bit 3 1 \<noteq> 0, Button_A),
           (b3 AND push_bit 6 1 \<noteq> 0, Button_R), (b4 AND push_bit 0 1 \<noteq> 0, Button_Select),
           (b4 AND push_bit 1 1 \<noteq> 0, Button_Start), (b5 AND push_bit 0 1 \<noteq> 0, Button_Down),
           (b5 AND push_bit 1 1 \<noteq> 0, Button_Up), (b5 AND push_bit 2 1 \<noteq> 0, Button_Right),
           (b5 AND push_bit 3 1 \<noteq> 0, Button_Left), (b5 AND push_bit 6 1 \<noteq> 0, Button_L)])
      | _ \<Rightarrow> None)"

definition decode_wired :: "bytes \<Rightarrow> button_set option" where
  "decode_wired body =
     (case body of
        lo # hi # h # _ \<Rightarrow>
          let b = u16_from_le lo hi; (up, down, left, right) = wired_directions (h AND 0x0f) in
          Some (add_pressed
            [(b AND push_bit 1 1 \<noteq> 0, Button_B), (b AND push_bit 2 1 \<noteq> 0, Button_A),
             (b AND push_bit 4 1 \<noteq> 0, Button_L), (b AND push_bit 5 1 \<noteq> 0, Button_R),
             (b AND push_bit 8 1 \<noteq> 0, Button_Select), (b AND push_bit 9 1 \<noteq> 0, Button_Start),
             (up, Button_Up), (down, Button_Down), (left, Button_Left), (right, Button_Right)])
      | _ \<Rightarrow> None)"

definition decode_command :: "message \<Rightarrow> (button_set \<times> u16) option" where
  "decode_command m =
     (case ms_body m of
        m0 # m1 # rest \<Rightarrow>
          map_option (\<lambda>s. (s, u16_from_le m0 m1))
            (if ms_opcode m = CMD_NS1_OEM_CONTROLLER_BUTTONS then decode_oem rest
             else if ms_opcode m = CMD_NS_WIRED_CONTROLLER_STATE then decode_wired rest
             else None)
      | _ \<Rightarrow> None)"

section \<open>Facts\<close>

lemma switch_input_inj: "switch_input_of a = switch_input_of b \<longleftrightarrow> a = b"
  by (cases a; cases b) simp_all

lemma has_input_iff: "has_input s (switch_input_of b) \<longleftrightarrow> bs_contains s b \<and> b \<noteq> Button_Home"
  by (simp add: has_input_def list_ex_iff set_bs_iter switch_input_inj)

lemmas has_inputs [set_simps] = has_input_iff [of _ Button_A, simplified]
  has_input_iff [of _ Button_B, simplified] has_input_iff [of _ Button_L, simplified]
  has_input_iff [of _ Button_R, simplified] has_input_iff [of _ Button_Start, simplified]
  has_input_iff [of _ Button_Select, simplified] has_input_iff [of _ Button_Home, simplified]
  has_input_iff [of _ Button_Up, simplified] has_input_iff [of _ Button_Down, simplified]
  has_input_iff [of _ Button_Left, simplified] has_input_iff [of _ Button_Right, simplified]

lemma bit_flag [bit_simps]: "bit (flag on n :: 'a::len word) m \<longleftrightarrow> on \<and> m = n \<and> m < LENGTH('a)"
  by (auto simp: flag_def bit_simps)

lemma add_pressed_step:
  "bs_contains (foldl (\<lambda>s (on, b). if on then bs_with s b else s) s xs) b \<longleftrightarrow>
     bs_contains s b \<or> (True, b) \<in> set xs"
proof (induction xs arbitrary: s)
  case (Cons x xs)
  obtain on c where x: "x = (on, c)" by (cases x)
  show ?case
  proof (cases on)
    case True
    have "bs_contains (bs_with s c) b \<longleftrightarrow> bs_contains s b \<or> b = c" by (rule gba.contains_add)
    then show ?thesis using Cons.IH [of "bs_with s c"] x True by auto
  next
    case False
    then show ?thesis using Cons.IH [of s] x by simp
  qed
qed simp

lemma add_pressed_contains [set_simps]: "bs_contains (add_pressed xs) b \<longleftrightarrow> (True, b) \<in> set xs"
  by (simp add: add_pressed_def add_pressed_step set_simps)

lemma wired_directions_hat:
  "wired_directions (dpad_hat up down left right AND 0x0f) =
     (up \<and> \<not> down, down \<and> \<not> up, left \<and> \<not> right, right \<and> \<not> left)"
  by (cases up; cases down; cases left; cases right)
    (simp_all add: dpad_hat_def HAT_NEUTRAL_def wired_directions_def)

text \<open>What the device is told of a button: no \<open>Home\<close>, and on the wired controller's hat no
  direction together with its opposite.\<close>

definition reported :: "controller_kind \<Rightarrow> button_set \<Rightarrow> button \<Rightarrow> bool" where
  "reported kind s b \<longleftrightarrow> bs_contains s b \<and> b \<noteq> Button_Home \<and>
     (kind = WiredController \<longrightarrow>
       (case b of Button_Up \<Rightarrow> \<not> bs_contains s Button_Down
        | Button_Down \<Rightarrow> \<not> bs_contains s Button_Up
        | Button_Left \<Rightarrow> \<not> bs_contains s Button_Right
        | Button_Right \<Rightarrow> \<not> bs_contains s Button_Left
        | _ \<Rightarrow> True))"

lemma decode_oem_encode:
  "\<exists>s'. decode_command (encode_command WirelessProController mid s ms) = Some (s', ms) \<and>
     (\<forall>b. bs_contains s' b \<longleftrightarrow> reported WirelessProController s b)"
proof -
  let ?m = "encode_command WirelessProController mid s ms"
  have opcode: "ms_opcode ?m = CMD_NS1_OEM_CONTROLLER_BUTTONS"
    by (simp add: encode_command_def new_message_def Let_def)
  obtain b3 b4 b5 rest where body: "ms_body ?m = u16_to_le ms @ b3 # b4 # b5 # rest"
    and b3: "b3 = flag (has_input s Input_B) 2 OR flag (has_input s Input_A) 3 OR
      flag (has_input s Input_R) 6"
    and b4: "b4 = flag (has_input s Input_Minus) 0 OR flag (has_input s Input_Plus) 1 OR
      flag (has_input s Input_Home) 4"
    and b5: "b5 = flag (has_input s DpadDown) 0 OR flag (has_input s DpadUp) 1 OR
      flag (has_input s DpadRight) 2 OR flag (has_input s DpadLeft) 3 OR flag (has_input s Input_L) 6"
    by (simp add: encode_command_def new_message_def Let_def)
  define pressed where "pressed =
    [(bit b3 2, Button_B), (bit b3 3, Button_A), (bit b3 6, Button_R), (bit b4 0, Button_Select),
     (bit b4 1, Button_Start), (bit b5 0, Button_Down), (bit b5 1, Button_Up),
     (bit b5 2, Button_Right), (bit b5 3, Button_Left), (bit b5 6, Button_L)]"
  have "decode_oem (b3 # b4 # b5 # rest) = Some (add_pressed pressed)"
    unfolding decode_oem_def and_push_bit_1_iff list.case pressed_def ..
  then have "decode_command ?m = Some (add_pressed pressed, ms)"
    unfolding decode_command_def opcode body u16_to_le_def by simp
  moreover have "bs_contains (add_pressed pressed) b \<longleftrightarrow> reported WirelessProController s b" for b
    unfolding add_pressed_contains pressed_def b3 b4 b5
    by (cases b) (simp_all add: bit_simps set_simps reported_def)
  ultimately show ?thesis by blast
qed

lemma decode_wired_encode:
  "\<exists>s'. decode_command (encode_command WiredController mid s ms) = Some (s', ms) \<and>
     (\<forall>b. bs_contains s' b \<longleftrightarrow> reported WiredController s b)"
proof -
  let ?m = "encode_command WiredController mid s ms"
  have opcode: "ms_opcode ?m = CMD_NS_WIRED_CONTROLLER_STATE"
    "CMD_NS_WIRED_CONTROLLER_STATE \<noteq> CMD_NS1_OEM_CONTROLLER_BUTTONS"
    by (simp_all add: encode_command_def new_message_def Let_def message_opcodes)
  let ?h = "dpad_hat (has_input s DpadUp) (has_input s DpadDown) (has_input s DpadLeft)
    (has_input s DpadRight)"
  obtain w rest where body: "ms_body ?m = u16_to_le ms @ u16_to_le w @ ?h # rest"
    and w: "w = ucast (flag (has_input s Input_B) 1 :: u8) OR ucast (flag (has_input s Input_A) 2 :: u8)
      OR ucast (flag (has_input s Input_L) 4 :: u8) OR ucast (flag (has_input s Input_R) 5 :: u8) OR
      flag (has_input s Input_Minus) 8 OR flag (has_input s Input_Plus) 9 OR
      flag (has_input s Input_Home) 12"
    by (simp add: encode_command_def new_message_def Let_def)
  define pressed where "pressed =
    [(bit w 1, Button_B), (bit w 2, Button_A), (bit w 4, Button_L), (bit w 5, Button_R),
     (bit w 8, Button_Select), (bit w 9, Button_Start),
     (has_input s DpadUp \<and> \<not> has_input s DpadDown, Button_Up),
     (has_input s DpadDown \<and> \<not> has_input s DpadUp, Button_Down),
     (has_input s DpadLeft \<and> \<not> has_input s DpadRight, Button_Left),
     (has_input s DpadRight \<and> \<not> has_input s DpadLeft, Button_Right)]"
  have "decode_wired (ucast w # ucast (drop_bit 8 w) # ?h # rest) = Some (add_pressed pressed)"
    unfolding decode_wired_def and_push_bit_1_iff list.case pressed_def Let_def u16_le_roundtrip
      wired_directions_hat prod.case ..
  then have "decode_command ?m = Some (add_pressed pressed, ms)"
    unfolding decode_command_def opcode(1) body u16_to_le_def using opcode(2) by simp
  moreover have "bs_contains (add_pressed pressed) b \<longleftrightarrow> reported WiredController s b" for b
    unfolding add_pressed_contains pressed_def w
    by (cases b) (simp_all add: bit_simps set_simps reported_def)
  ultimately show ?thesis by blast
qed

section \<open>Properties\<close>

text \<open>C31: the device reads back from a queued command the duration and exactly the buttons the
  controller can report: all but \<open>Home\<close>, and on the wired controller's hat no direction together
  with its opposite.\<close>

theorem command_roundtrip:
  "\<exists>s'. decode_command (encode_command kind mid s ms) = Some (s', ms) \<and>
     (\<forall>b. bs_contains s' b \<longleftrightarrow> reported kind s b)"
  by (cases kind) (simp_all only: decode_oem_encode decode_wired_encode)

text \<open>A command that holds only \<open>Home\<close> is encoded as released buttons: \<open>has\<close> walks
  \<open>ButtonSet::iter\<close>, which leaves \<open>Home\<close> out, so the bits set for \<open>SwitchInput::Home\<close> are never
  set and the serial device never presses it.\<close>

lemma home_never_encoded:
  "encode_command kind mid (bs_with s Button_Home) ms = encode_command kind mid s ms"
proof -
  have "bs_contains (bs_with s Button_Home) b \<longleftrightarrow> bs_contains s b \<or> b = Button_Home" for b
    by (rule gba.contains_add)
  then have "set (bs_iter (bs_with s Button_Home)) = set (bs_iter s)"
    by (auto simp: set_bs_iter)
  then have "has_input (bs_with s Button_Home) = has_input s"
    by (intro ext) (simp add: has_input_def list_ex_iff)
  then show ?thesis by (simp add: encode_command_def)
qed

end
