(* ===== verification/Virtual_Device.thy ===== *)
theory Virtual_Device
  imports Rel_Link Stream_Message Command_Report Command_Queue
begin

text \<open>
  adapters/pabotbase/src/device.rs: the device side of the serial protocol, pressing buttons on a
  \<open>ButtonSink\<close>. The sink's methods are an argument of the operations; the locale below states
  what the trait promises. \<open>None\<close> is a panic (of \<open>packet::encode\<close>), which the device never reaches.
\<close>

section \<open>The sink\<close>

record 's sink_ops =
  op_hold :: "button_set \<Rightarrow> u16 \<Rightarrow> 's \<Rightarrow> nat \<times> 's"
  op_completed :: "'s \<Rightarrow> nat option"
  op_cancel :: "'s \<Rightarrow> 's"

text \<open>Ids increase with every hold; only given ids are reported as elapsed. \<open>plays\<close> is the sink's own
  progress between two calls.\<close>

locale button_sink =
  fixes ops :: "'s sink_ops" and plays :: "'s \<Rightarrow> 's \<Rightarrow> bool"
    and newest :: "'s \<Rightarrow> nat" and ok :: "'s \<Rightarrow> bool"
  assumes hold_id: "ok s \<Longrightarrow> op_hold ops b ms s = (i, s') \<Longrightarrow> ok s' \<and> newest s = i \<and> i < newest s'"
    and cancel_newest: "ok s \<Longrightarrow> ok (op_cancel ops s) \<and> newest s \<le> newest (op_cancel ops s)"
    and plays_newest: "ok s \<Longrightarrow> plays s s' \<Longrightarrow> ok s' \<and> newest s \<le> newest s'"
    and completed_given: "ok s \<Longrightarrow> op_completed ops s = Some c \<Longrightarrow> c < newest s"

section \<open>The device\<close>

definition POLL :: nanos where "POLL = millis 50"
definition COMMAND_QUEUE_CAPACITY :: u32 where "COMMAND_QUEUE_CAPACITY = 32"
definition FIRMWARE_VERSION :: u32 where "FIRMWARE_VERSION = 2026090200"
definition DEVICE_IDENTIFIER :: u32 where "DEVICE_IDENTIFIER = 0x10"
definition PROTOCOL_VERSION :: u32 where "PROTOCOL_VERSION = 2026061800"

text \<open>The log lines, as what they report.\<close>

datatype device_log =
    Host_connected u32
  | Mode_set controller_kind
  | Unsupported_mode "u32 option"
  | Queue_cancelled
  | Command_logged u8 button_set u16

record 's device =
  dv_sink :: 's
  dv_name :: bytes
  dv_link :: link
  dv_messages :: message_reader
  dv_stream_ready :: bool
  dv_mode :: controller_kind
  dv_queue :: "(u8 \<times> nat) list"
  dv_replace_on_next :: bool
  dv_started :: nanos
  dv_last_poll :: nanos
  dv_log :: "device_log list"

definition new_device :: "'s \<Rightarrow> bytes \<Rightarrow> nanos \<Rightarrow> 's device" where
  "new_device sink name now =
     \<lparr>dv_sink = sink, dv_name = name, dv_link = new_link 0 MAX_PACKET_BYTES, dv_messages = new_reader,
      dv_stream_ready = False, dv_mode = WirelessProController, dv_queue = [],
      dv_replace_on_next = False, dv_started = now, dv_last_poll = now, dv_log = []\<rparr>"

definition log_line :: "device_log \<Rightarrow> 's device \<Rightarrow> 's device" where
  "log_line e d = d\<lparr>dv_log := dv_log d @ [e]\<rparr>"

text \<open>A handler over a list, its outputs one after the other, ended by a panic.\<close>

fun run_all :: "('e \<Rightarrow> 'd \<Rightarrow> (bytes \<times> 'd) option) \<Rightarrow> 'e list \<Rightarrow> 'd \<Rightarrow> (bytes \<times> 'd) option" where
  "run_all f [] d = Some ([], d)"
| "run_all f (x # xs) d =
     (case f x d of
        None \<Rightarrow> None
      | Some (w, d') \<Rightarrow> map_option (\<lambda>(ws, d''). (w @ ws, d'')) (run_all f xs d'))"

definition send_message :: "message \<Rightarrow> 's device \<Rightarrow> (bytes \<times> 's device) option" where
  "send_message m d =
     (if \<not> dv_stream_ready d
      then map_option (\<lambda>w. (w, d)) (out_of_band (dv_link d) 0 INFO_STREAM_NOT_READY [])
      else map_option (\<lambda>(w, l). (w, d\<lparr>dv_link := l\<rparr>)) (send_stream (dv_link d) (encode_message m)))"

definition set_mode :: "message \<Rightarrow> 's device \<Rightarrow> 's device" where
  "set_mode m d =
     (case Option.bind (body_u32 m) kind_from_id of
        Some kind \<Rightarrow> log_line (Mode_set kind) (d\<lparr>dv_mode := kind\<rparr>)
      | None \<Rightarrow> log_line (Unsupported_mode (body_u32 m)) d)"

definition cancel_queue :: "'s sink_ops \<Rightarrow> 's device \<Rightarrow> 's device" where
  "cancel_queue ops d = d\<lparr>dv_sink := op_cancel ops (dv_sink d), dv_queue := []\<rparr>"

definition hold_command :: "'s sink_ops \<Rightarrow> u8 \<Rightarrow> button_set \<Rightarrow> u16 \<Rightarrow> 's device \<Rightarrow> 's device" where
  "hold_command ops mid buttons ms d0 =
     (let d = (if dv_replace_on_next d0 then cancel_queue ops d0 else d0)\<lparr>dv_replace_on_next := False\<rparr>;
          (sink_id, sink) = op_hold ops buttons ms (dv_sink d)
      in log_line (Command_logged mid buttons ms)
           (d\<lparr>dv_sink := sink, dv_queue := dv_queue d @ [(mid, sink_id)]\<rparr>))"

text \<open>The match of \<open>on_message\<close>: the reply, if any, and the device after it.\<close>

definition answer :: "'s sink_ops \<Rightarrow> message \<Rightarrow> 's device \<Rightarrow> message option \<times> 's device" where
  "answer ops m d =
     (let opcode = ms_opcode m; mid = ms_id m; ret_u32 = (\<lambda>x. Some (u32_message RET_U32 mid x)) in
      if opcode = MSG_PROTOCOL_VERSION then (ret_u32 PROTOCOL_VERSION, d)
      else if opcode = MSG_FIRMWARE_VERSION then (ret_u32 FIRMWARE_VERSION, d)
      else if opcode = MSG_DEVICE_IDENTIFIER then (ret_u32 DEVICE_IDENTIFIER, d)
      else if opcode = DEVICE_NAME then (Some (new_message RET_DATA mid (dv_name d)), d)
      else if opcode = CONTROLLER_LIST then
        (Some (new_message RET_DATA mid
           (concat (map u32_to_le [kind_id WirelessProController, kind_id WiredController]))), d)
      else if opcode = CQ_CAPACITY then (ret_u32 COMMAND_QUEUE_CAPACITY, d)
      else if opcode = READ_CONTROLLER_MODE then (ret_u32 (kind_id (dv_mode d)), d)
      else if opcode = REQUEST_STATUS then (ret_u32 0, d)
      else if opcode = REQUEST_SESSION_NUM then (ret_u32 (ln_session (dv_link d)), d)
      else if opcode = SET_LOGGING_FLAG then (None, d)
      else if opcode = CHANGE_CONTROLLER_MODE \<or> opcode = RESET_TO_CONTROLLER then (None, set_mode m d)
      else if opcode = CQ_CANCEL then (None, log_line Queue_cancelled (cancel_queue ops d))
      else if opcode = CQ_REPLACE_ON_NEXT then (None, d\<lparr>dv_replace_on_next := True\<rparr>)
      else if opcode = CMD_NS1_OEM_CONTROLLER_BUTTONS \<or> opcode = CMD_NS_WIRED_CONTROLLER_STATE then
        (case decode_command m of
           Some (buttons, ms) \<Rightarrow> (None, hold_command ops mid buttons ms d)
         | None \<Rightarrow> (Some (new_message CQ_COMMAND_DROPPED mid []), d))
      else if mid \<noteq> 0 then (Some (new_message REQUEST_DROPPED mid []), d)
      else (None, d))"

definition device_on_message ::
  "'s sink_ops \<Rightarrow> message \<Rightarrow> 's device \<Rightarrow> (bytes \<times> 's device) option" where
  "device_on_message ops m d =
     (case answer ops m d of
        (Some reply, d') \<Rightarrow> send_message reply d'
      | (None, d') \<Rightarrow> Some ([], d'))"

definition with_link :: "(link \<Rightarrow> link) \<Rightarrow> 's device \<Rightarrow> 's device" where
  "with_link f d = d\<lparr>dv_link := f (dv_link d)\<rparr>"

definition reply_u32 :: "u8 \<Rightarrow> u8 \<Rightarrow> u32 \<Rightarrow> 's device \<Rightarrow> (bytes \<times> 's device) option" where
  "reply_u32 seq opcode x d =
     map_option (\<lambda>w. (w, d)) (out_of_band (dv_link d) seq opcode (u32_to_le x))"

definition on_reset :: "'s sink_ops \<Rightarrow> u8 \<Rightarrow> u32 \<Rightarrow> 's device \<Rightarrow> (bytes \<times> 's device) option" where
  "on_reset ops seq session d0 =
     (let d = log_line (Host_connected session) (cancel_queue ops
                (d0\<lparr>dv_link := accept_control (reset_link (dv_link d0) session) 0,
                   dv_messages := reset_reader (dv_messages d0), dv_stream_ready := False\<rparr>))
      in map_option (\<lambda>w. (w, d)) (out_of_band (dv_link d) seq RET_RESET []))"

definition on_stream_data :: "'s sink_ops \<Rightarrow> packet \<Rightarrow> 's device \<Rightarrow> (bytes \<times> 's device) option" where
  "on_stream_data ops p d0 =
     (let (accepted, l1) = accept_stream (dv_link d0) (pk_seq p) (pk_payload p);
          d1 = d0\<lparr>dv_stream_ready := True, dv_link := l1\<rparr>
      in case (if accepted
               then reply_u32 (pk_seq p) RET_STREAM_DATA (of_nat (free_bytes l1)) d1
               else Some ([], d1)) of
           None \<Rightarrow> None
         | Some (ack, d1) \<Rightarrow>
             let (stream, l2) = take_stream (dv_link d1);
                 (ms, r) = push_reader (dv_messages d1) stream
             in map_option (\<lambda>(w, d). (ack @ w, d))
                  (run_all (device_on_message ops) ms (d1\<lparr>dv_link := l2, dv_messages := r\<rparr>)))"

definition device_on_packet ::
  "'s sink_ops \<Rightarrow> packet \<Rightarrow> 's device \<Rightarrow> (bytes \<times> 's device) option" where
  "device_on_packet ops p d =
     (let seq = pk_seq p; opcode = base_opcode p;
          control = (\<lambda>ret x. reply_u32 seq ret x (with_link (\<lambda>l. accept_control l seq) d)) in
      if opcode = ASK_RESET then
        (case payload_u32 p of None \<Rightarrow> Some ([], d) | Some session \<Rightarrow> on_reset ops seq session d)
      else if opcode = ASK_VERSION then control RET_VERSION PROTOCOL_VERSION
      else if opcode = ASK_PACKET_SIZE then control RET_PACKET_SIZE (of_nat MAX_PACKET_BYTES)
      else if opcode = ASK_BUFFER_SLOTS then control RET_BUFFER_SLOTS (ucast WINDOW)
      else if opcode = ASK_BUFFER_BYTES then control RET_BUFFER_BYTES (of_nat BUFFER_BYTES)
      else if opcode = ASK_STREAM_DATA then on_stream_data ops p d
      else if opcode = RET_STREAM_DATA then
        Some ([], with_link (\<lambda>l. snd (acknowledge l seq)) d)
      else if opcode = REBOOT_TO_BOOTLOADER then Some ([], d)
      else reply_u32 seq UNKNOWN_OPCODE (ucast opcode) d)"

definition on_parsed :: "'s sink_ops \<Rightarrow> parsed \<Rightarrow> 's device \<Rightarrow> (bytes \<times> 's device) option" where
  "on_parsed ops x d =
     (case x of
        Valid p \<Rightarrow> device_on_packet ops p d
      | Invalid seq \<Rightarrow>
          map_option (\<lambda>w. (w, d)) (out_of_band (dv_link d) seq INVALID_LENGTH [])
      | ChecksumFail seq \<Rightarrow>
          map_option (\<lambda>w. (w, d)) (out_of_band (dv_link d) seq INVALID_CHECKSUM_FAIL []))"

definition on_bytes :: "'s sink_ops \<Rightarrow> bytes \<Rightarrow> 's device \<Rightarrow> (bytes \<times> 's device) option" where
  "on_bytes ops bs d =
     (let (xs, l) = parse_link (dv_link d) bs in run_all (on_parsed ops) xs (d\<lparr>dv_link := l\<rparr>))"

text \<open>The loop of \<open>poll\<close> over the front of the queue.\<close>

definition finished_by :: "nat option \<Rightarrow> nat \<Rightarrow> bool" where
  "finished_by don i \<longleftrightarrow> (case don of None \<Rightarrow> False | Some c \<Rightarrow> i \<le> c)"

fun report_front ::
  "nat option \<Rightarrow> u32 \<Rightarrow> (u8 \<times> nat) list \<Rightarrow> 's device \<Rightarrow> (bytes \<times> 's device) option" where
  "report_front don ts [] d = Some ([], d\<lparr>dv_queue := []\<rparr>)"
| "report_front don ts ((cq, i) # q) d =
     (if \<not> finished_by don i then Some ([], d\<lparr>dv_queue := (cq, i) # q\<rparr>)
      else case send_message (u32_message CQ_COMMAND_FINISHED cq ts) (d\<lparr>dv_queue := q\<rparr>) of
             None \<Rightarrow> None
           | Some (w, d') \<Rightarrow> map_option (\<lambda>(ws, d''). (w @ ws, d'')) (report_front don ts q d'))"

definition poll :: "'s sink_ops \<Rightarrow> nanos \<Rightarrow> 's device \<Rightarrow> (bytes \<times> 's device) option" where
  "poll ops now d =
     (case report_front (op_completed ops (dv_sink d)) (of_nat ((now - dv_started d) div 1000000))
             (dv_queue d) d of
        None \<Rightarrow> None
      | Some (w, d1) \<Rightarrow>
          if now - dv_last_poll d1 \<ge> POLL then
            let (w2, l) = tick_link (dv_link d1)
            in Some (w @ w2, d1\<lparr>dv_last_poll := now, dv_link := l\<rparr>)
          else Some (w, d1))"

definition take_log :: "'s device \<Rightarrow> device_log list \<times> 's device" where
  "take_log d = (dv_log d, d\<lparr>dv_log := []\<rparr>)"

section \<open>The device never panics\<close>

definition roomy :: "link \<Rightarrow> bool" where
  "roomy l \<longleftrightarrow> STREAM_OVERHEAD < ln_max_bytes l \<and> ln_max_bytes l \<le> MAX_PACKET_BYTES"

lemma encode_total: "length payload \<le> 248 \<Longrightarrow> \<exists>w. encode seq opcode payload seed = Some w"
  by (simp add: encode_def packet_sizes)

lemma send_stream_total: "roomy l \<Longrightarrow> \<exists>w l'. send_stream l data = Some (w, l') \<and> roomy l'"
proof (induction l data rule: send_stream.induct)
  case (1 l data)
  show ?case
  proof (cases "data = []")
    case True
    with "1.prems" show ?thesis by (simp add: send_stream.simps)
  next
    case ne: False
    have room: "\<not> ln_max_bytes l \<le> STREAM_OVERHEAD" using "1.prems" by (simp add: roomy_def)
    define n where "n = min (length data) (ln_max_bytes l - STREAM_OVERHEAD)"
    define pl where "pl = u16_to_le (ln_offset l) @ take n data"
    define l1 where "l1 = l\<lparr>ln_offset := ln_offset l + of_nat n\<rparr>"
    have "length pl \<le> 248"
      using "1.prems" by (auto simp: pl_def n_def roomy_def packet_sizes STREAM_OVERHEAD_def min_def)
    then obtain w1 l2 where r: "push_reliable l1 ASK_STREAM_DATA pl (ln_session l1) = Some (w1, l2)"
      using encode_total by (fastforce simp: push_reliable_def Let_def)
    then have "roomy l2" using "1.prems" by (auto simp: push_reliable_def Let_def roomy_def l1_def)
    from "1.IH" [OF ne room n_def pl_def l1_def r refl this]
    obtain w2 l3 where "send_stream l2 (drop n data) = Some (w2, l3)" "roomy l3" by blast
    then show ?thesis
      using ne room r unfolding send_stream.simps [of l data] Let_def
        n_def [symmetric] pl_def [symmetric] l1_def [symmetric] by simp
  qed
qed

lemma advance_link_frame: "ln_max_bytes (advance_link l) = ln_max_bytes l"
proof (induction l rule: advance_link.induct)
  case (1 l)
  then show ?case by (subst advance_link.simps) (simp split: option.split)
qed

definition panic_free :: "('d \<Rightarrow> bool) \<Rightarrow> (bytes \<times> 'd) option \<Rightarrow> bool" where
  "panic_free P r \<longleftrightarrow> (\<exists>w d. r = Some (w, d) \<and> P d)"

lemma panic_freeI: "P d \<Longrightarrow> panic_free P (Some (w, d))"
  by (simp add: panic_free_def)

lemma run_all_panic_free:
  "(\<And>x d. P d \<Longrightarrow> panic_free P (f x d)) \<Longrightarrow> P d \<Longrightarrow> panic_free P (run_all f xs d)"
proof (induction xs arbitrary: d)
  case Nil
  then show ?case by (simp add: panic_free_def)
next
  case (Cons x xs)
  obtain w d' where 1: "f x d = Some (w, d')" "P d'"
    using Cons.prems(1) [OF Cons.prems(2), of x] unfolding panic_free_def by blast
  from Cons.IH [OF Cons.prems(1) 1(2)]
  obtain ws d'' where "run_all f xs d' = Some (ws, d'')" "P d''" by (auto simp: panic_free_def)
  with 1 show ?case by (simp add: panic_free_def)
qed

definition device_roomy :: "'s device \<Rightarrow> bool" where
  "device_roomy d \<longleftrightarrow> roomy (dv_link d)"

lemma panic_free_encoded:
  assumes "length payload \<le> 248" "P d"
  shows "panic_free P (map_option (\<lambda>w. (w, d)) (out_of_band l seq opcode payload))"
proof -
  obtain w where "out_of_band l seq opcode payload = Some w"
    using encode_total [OF assms(1)] unfolding out_of_band_def by blast
  with assms(2) show ?thesis by (simp add: panic_free_def)
qed

lemma reply_u32_panic_free: "P d \<Longrightarrow> panic_free P (reply_u32 seq opcode x d)"
  unfolding reply_u32_def by (rule panic_free_encoded) simp_all

lemma send_message_panic_free:
  assumes "device_roomy d"
  shows "panic_free device_roomy (send_message m d)"
proof (cases "dv_stream_ready d")
  case True
  obtain w l where "send_stream (dv_link d) (encode_message m) = Some (w, l)" "roomy l"
    using send_stream_total assms by (force simp: device_roomy_def)
  with True show ?thesis by (simp add: send_message_def panic_free_def device_roomy_def)
next
  case False
  with assms show ?thesis unfolding send_message_def by (simp add: panic_free_encoded)
qed

lemma answer_link [simp]: "dv_link (snd (answer ops m d)) = dv_link d"
  by (simp add: answer_def Let_def set_mode_def log_line_def cancel_queue_def hold_command_def
      split: option.split prod.split)

lemma device_on_message_panic_free:
  assumes "device_roomy d"
  shows "panic_free device_roomy (device_on_message ops m d)"
proof -
  obtain r d' where a: "answer ops m d = (r, d')" by (cases "answer ops m d") auto
  then have "device_roomy d'" using assms answer_link [of ops m d] by (simp add: device_roomy_def)
  then show ?thesis
    using a send_message_panic_free
    by (cases r) (simp_all add: device_on_message_def panic_freeI)
qed

lemma roomy_frames:
  "roomy (reset_link l session) = roomy l" "roomy (accept_control l seq) = roomy l"
  "roomy (snd (accept_stream l seq payload)) = roomy l" "roomy (snd (acknowledge l seq)) = roomy l"
  "roomy (snd (take_stream l)) = roomy l" "roomy (snd (parse_link l bs)) = roomy l"
  "roomy (snd (tick_link l)) = roomy l"
  by (simp_all add: roomy_def reset_link_def new_link_def accept_control_def accept_stream_def
      acknowledge_def take_stream_def parse_link_def tick_link_def advance_link_frame Let_def
      split: prod.split)

lemma on_stream_data_panic_free:
  assumes "device_roomy d"
  shows "panic_free device_roomy (on_stream_data ops p d)"
proof -
  obtain accepted l1 where a: "accept_stream (dv_link d) (pk_seq p) (pk_payload p) = (accepted, l1)"
    by (cases "accept_stream (dv_link d) (pk_seq p) (pk_payload p)") auto
  let ?d1 = "d\<lparr>dv_stream_ready := True, dv_link := l1\<rparr>"
  have d1: "device_roomy ?d1"
    using assms roomy_frames(3) [of "dv_link d" "pk_seq p" "pk_payload p"] a
    by (simp add: device_roomy_def)
  have "panic_free (\<lambda>d. d = ?d1) (if accepted
      then reply_u32 (pk_seq p) RET_STREAM_DATA (of_nat (free_bytes l1)) ?d1 else Some ([], ?d1))"
    by (simp add: reply_u32_panic_free panic_freeI)
  then obtain ack where ack: "(if accepted
      then reply_u32 (pk_seq p) RET_STREAM_DATA (of_nat (free_bytes l1)) ?d1 else Some ([], ?d1)) =
      Some (ack, ?d1)"
    unfolding panic_free_def by blast
  obtain stream l2 where t: "take_stream l1 = (stream, l2)" by (cases "take_stream l1") auto
  obtain ms r where m: "push_reader (dv_messages ?d1) stream = (ms, r)"
    by (cases "push_reader (dv_messages ?d1) stream") auto
  have "device_roomy (?d1\<lparr>dv_link := l2, dv_messages := r\<rparr>)"
    using d1 roomy_frames(5) [of l1] t by (simp add: device_roomy_def)
  then have "panic_free device_roomy
      (run_all (device_on_message ops) ms (?d1\<lparr>dv_link := l2, dv_messages := r\<rparr>))"
    by (intro run_all_panic_free device_on_message_panic_free)
  then obtain w d2 where "run_all (device_on_message ops) ms (?d1\<lparr>dv_link := l2, dv_messages := r\<rparr>) =
      Some (w, d2)" "device_roomy d2" unfolding panic_free_def by blast
  then show ?thesis
    using a ack t m unfolding on_stream_data_def Let_def by (simp add: panic_free_def)
qed

lemma on_parsed_panic_free:
  assumes "device_roomy d"
  shows "panic_free device_roomy (on_parsed ops x d)"
proof (cases x)
  case (Valid p)
  have control: "panic_free device_roomy
      (reply_u32 (pk_seq p) ret v (with_link (\<lambda>l. accept_control l (pk_seq p)) d))" for ret v
    using assms by (intro reply_u32_panic_free) (simp add: device_roomy_def with_link_def roomy_frames)
  have reset: "panic_free device_roomy (on_reset ops (pk_seq p) session d)" for session
    unfolding on_reset_def Let_def using assms
    by (intro panic_free_encoded)
      (simp_all add: device_roomy_def log_line_def cancel_queue_def roomy_frames)
  have "panic_free device_roomy (device_on_packet ops p d)"
    unfolding device_on_packet_def Let_def
    using assms control reset on_stream_data_panic_free [OF assms] reply_u32_panic_free [of device_roomy, OF assms]
    by (auto simp: panic_freeI device_roomy_def with_link_def roomy_frames split: option.split)
  then show ?thesis by (simp add: on_parsed_def Valid)
qed (simp_all add: on_parsed_def panic_free_encoded assms)

lemma report_front_panic_free:
  "device_roomy d \<Longrightarrow> panic_free device_roomy (report_front don ts q d)"
proof (induction don ts q d rule: report_front.induct)
  case (2 don ts cq i q d)
  show ?case
  proof (cases "finished_by don i")
    case True
    have "device_roomy (d\<lparr>dv_queue := q\<rparr>)" using "2.prems" by (simp add: device_roomy_def)
    then obtain w d' where 1: "send_message (u32_message CQ_COMMAND_FINISHED cq ts) (d\<lparr>dv_queue := q\<rparr>) =
        Some (w, d')" "device_roomy d'"
      using send_message_panic_free unfolding panic_free_def by blast
    have "panic_free device_roomy (report_front don ts q d')"
      using "2.IH" [OF _ 1(1) refl 1(2)] True by simp
    then show ?thesis using 1 True by (auto simp: panic_free_def)
  qed (use 2 in \<open>simp add: panic_free_def device_roomy_def\<close>)
qed (simp add: panic_free_def device_roomy_def)

lemma poll_panic_free:
  assumes "device_roomy d"
  shows "panic_free device_roomy (poll ops now d)"
proof -
  obtain w d1 where "report_front (op_completed ops (dv_sink d))
      (of_nat ((now - dv_started d) div 1000000)) (dv_queue d) d = Some (w, d1)" "device_roomy d1"
    using report_front_panic_free [OF assms] unfolding panic_free_def by blast
  moreover obtain w2 l where "tick_link (dv_link d1) = (w2, l)" by (cases "tick_link (dv_link d1)") auto
  ultimately show ?thesis
    using roomy_frames(7) [of "dv_link d1"] by (simp add: poll_def panic_free_def device_roomy_def)
qed

text \<open>What can happen to the device: bytes from the host, a poll, or the sink playing on.\<close>

datatype 's device_event = From_host bytes | Polled nanos | Sink_now 's

definition device_event :: "'s sink_ops \<Rightarrow> 's device_event \<Rightarrow> 's device \<Rightarrow> (bytes \<times> 's device) option" where
  "device_event ops e d =
     (case e of
        From_host bs \<Rightarrow> on_bytes ops bs d
      | Polled now \<Rightarrow> poll ops now d
      | Sink_now s \<Rightarrow> Some ([], d\<lparr>dv_sink := s\<rparr>))"

lemma device_event_panic_free:
  assumes "device_roomy d"
  shows "panic_free device_roomy (device_event ops e d)"
proof (cases e)
  case (From_host bs)
  obtain xs l where p: "parse_link (dv_link d) bs = (xs, l)" by (cases "parse_link (dv_link d) bs") auto
  then have "device_roomy (d\<lparr>dv_link := l\<rparr>)"
    using assms roomy_frames(6) [of "dv_link d" bs] by (simp add: device_roomy_def)
  then have "panic_free device_roomy (run_all (on_parsed ops) xs (d\<lparr>dv_link := l\<rparr>))"
    by (intro run_all_panic_free on_parsed_panic_free)
  with p From_host show ?thesis by (simp add: device_event_def on_bytes_def)
next
  case (Polled now)
  then show ?thesis using poll_panic_free [OF assms] by (simp add: device_event_def)
next
  case (Sink_now s)
  then show ?thesis using assms by (simp add: device_event_def panic_free_def device_roomy_def)
qed

section \<open>Properties\<close>


section \<open>Finished commands\<close>

text \<open>The ids of the queue rise from front to back, so the first unfinished command ends the loop.\<close>

definition finish_message :: "u32 \<Rightarrow> u8 \<times> nat \<Rightarrow> message" where
  "finish_message ts c = u32_message CQ_COMMAND_FINISHED (fst c) ts"

lemma send_message_frame:
  "send_message m d = Some (w, d') \<Longrightarrow> dv_queue d' = dv_queue d \<and> dv_sink d' = dv_sink d \<and>
     dv_started d' = dv_started d \<and> dv_last_poll d' = dv_last_poll d"
  by (auto simp: send_message_def split: if_splits)

lemma send_message_queue:
  "send_message m (d\<lparr>dv_queue := q\<rparr>) =
     map_option (\<lambda>(w, d'). (w, d'\<lparr>dv_queue := q\<rparr>)) (send_message m d)"
  by (cases "send_stream (dv_link d) (encode_message m)")
    (auto simp: send_message_def option.map_comp comp_def)

lemma run_all_send_queue:
  "run_all send_message ms (d\<lparr>dv_queue := q\<rparr>) =
     map_option (\<lambda>(w, d'). (w, d'\<lparr>dv_queue := q\<rparr>)) (run_all send_message ms d)"
proof (induction ms arbitrary: d)
  case (Cons m ms)
  then show ?case
    by (cases "send_message m d") (auto simp: send_message_queue option.map_comp comp_def split_beta split: option.split)
qed simp

lemma report_front_run:
  assumes "sorted (map snd q)"
  shows "report_front don ts q d =
    map_option (\<lambda>(w, d'). (w, d'\<lparr>dv_queue := filter (\<lambda>c. \<not> finished_by don (snd c)) q\<rparr>))
      (run_all send_message (map (finish_message ts) (filter (\<lambda>c. finished_by don (snd c)) q)) d)"
  using assms
proof (induction don ts q d rule: report_front.induct)
  case (2 don ts cq i q d)
  show ?case
  proof (cases "finished_by don i")
    case False
    then have "\<forall>c\<in>set q. \<not> finished_by don (snd c)"
      using "2.prems" by (auto simp: finished_by_def split: option.splits intro: le_trans)
    with False show ?thesis by (simp add: filter_True filter_False)
  next
    case True
    let ?m = "u32_message CQ_COMMAND_FINISHED cq ts"
    have fm: "finish_message ts (cq, i) = ?m" by (simp add: finish_message_def)
    show ?thesis
    proof (cases "send_message ?m d")
      case None
      with True show ?thesis by (simp add: send_message_queue fm)
    next
      case (Some r)
      obtain w d' where r: "send_message ?m d = Some (w, d')" using Some by (cases r) auto
      then have r': "send_message ?m (d\<lparr>dv_queue := q\<rparr>) = Some (w, d'\<lparr>dv_queue := q\<rparr>)"
        by (simp add: send_message_queue)
      have "sorted (map snd q)" using "2.prems" by simp
      from "2.IH" [OF _ r' refl this] True
      have "report_front don ts q (d'\<lparr>dv_queue := q\<rparr>) =
        map_option (\<lambda>(w, d'). (w, d'\<lparr>dv_queue := filter (\<lambda>c. \<not> finished_by don (snd c)) q\<rparr>))
          (run_all send_message (map (finish_message ts) (filter (\<lambda>c. finished_by don (snd c)) q)) d')"
        by (simp add: run_all_send_queue option.map_comp comp_def case_prod_unfold)
      then show ?thesis using True r r'
        by (simp add: fm option.map_comp comp_def case_prod_unfold)
    qed
  qed
qed simp

lemma report_front_queue:
  assumes "report_front don ts q d = Some (w, d')" "sorted (map snd q)"
  shows "dv_queue d' = filter (\<lambda>c. \<not> finished_by don (snd c)) q \<and> dv_sink d' = dv_sink d"
proof -
  have "run_all send_message ms d = Some (w, d1) \<Longrightarrow> dv_sink d1 = dv_sink d" for ms w d d1
    by (induction ms arbitrary: w d d1) (auto split: option.splits dest!: send_message_frame)
  then show ?thesis using assms(1) unfolding report_front_run [OF assms(2)] by auto
qed

lemma poll_queue:
  assumes "poll ops now d = Some (w, d')" "sorted (map snd (dv_queue d))"
  shows "dv_queue d' = filter (\<lambda>c. \<not> finished_by (op_completed ops (dv_sink d)) (snd c)) (dv_queue d)
    \<and> dv_sink d' = dv_sink d"
proof -
  obtain w1 d1 where r: "report_front (op_completed ops (dv_sink d))
      (of_nat ((now - dv_started d) div 1000000)) (dv_queue d) d = Some (w1, d1)"
    using assms(1) by (auto simp: poll_def split: option.splits)
  then have "dv_queue d' = dv_queue d1 \<and> dv_sink d' = dv_sink d1"
    using assms(1) by (auto simp: poll_def split: if_splits prod.splits)
  with report_front_queue [OF r assms(2)] show ?thesis by simp
qed

section \<open>The device as a queue of commands\<close>

definition sink_ids :: "'s device \<Rightarrow> nat list" where
  "sink_ids d = map snd (dv_queue d)"

definition is_command :: "message \<Rightarrow> bool" where
  "is_command m \<longleftrightarrow> (ms_opcode m = CMD_NS1_OEM_CONTROLLER_BUTTONS \<or>
     ms_opcode m = CMD_NS_WIRED_CONTROLLER_STATE) \<and> decode_command m \<noteq> None"

inductive device_step ::
  "'s sink_ops \<Rightarrow> ('s \<Rightarrow> 's \<Rightarrow> bool) \<Rightarrow> 's device \<Rightarrow> nat list \<Rightarrow> nat list \<Rightarrow> 's device \<Rightarrow> bool"
  for ops plays where
  command_queued: "is_command m \<Longrightarrow> device_on_message ops m d = Some (w, d') \<Longrightarrow>
    device_step ops plays d [last (sink_ids d')] (if dv_replace_on_next d then sink_ids d else []) d'"
| message_handled: "\<not> is_command m \<Longrightarrow> device_on_message ops m d = Some (w, d') \<Longrightarrow>
    device_step ops plays d [] (if ms_opcode m = CQ_CANCEL then sink_ids d else []) d'"
| host_reset: "on_reset ops seq session d = Some (w, d') \<Longrightarrow>
    device_step ops plays d [] (sink_ids d) d'"
| device_polled: "poll ops now d = Some (w, d') \<Longrightarrow>
    device_step ops plays d [] (filter (finished_by (op_completed ops (dv_sink d))) (sink_ids d)) d'"
| sink_plays: "plays (dv_sink d) s \<Longrightarrow> device_step ops plays d [] [] (d\<lparr>dv_sink := s\<rparr>)"

definition device_inv :: "('s \<Rightarrow> nat) \<Rightarrow> ('s \<Rightarrow> bool) \<Rightarrow> 's device \<Rightarrow> bool" where
  "device_inv newest ok d \<longleftrightarrow> ok (dv_sink d) \<and> sorted_wrt (<) (sink_ids d) \<and>
     (\<forall>i\<in>set (sink_ids d). i < newest (dv_sink d))"

lemma answer_command:
  "is_command m \<Longrightarrow> \<exists>b ms. decode_command m = Some (b, ms) \<and>
     answer ops m d = (None, hold_command ops (ms_id m) b ms d)"
  by (auto simp: is_command_def answer_def Let_def message_opcodes)

lemma answer_other:
  assumes "\<not> is_command m"
  shows "sink_ids (snd (answer ops m d)) = (if ms_opcode m = CQ_CANCEL then [] else sink_ids d) \<and>
    dv_sink (snd (answer ops m d)) =
      (if ms_opcode m = CQ_CANCEL then op_cancel ops (dv_sink d) else dv_sink d)"
proof -
  have "decode_command m = None \<or> \<not> (ms_opcode m = CMD_NS1_OEM_CONTROLLER_BUTTONS \<or>
      ms_opcode m = CMD_NS_WIRED_CONTROLLER_STATE)"
    using assms by (auto simp: is_command_def)
  moreover have "sink_ids (set_mode m d) = sink_ids d \<and> dv_sink (set_mode m d) = dv_sink d"
    by (simp add: set_mode_def log_line_def sink_ids_def split: option.split)
  moreover have "CQ_CANCEL \<notin> {MSG_PROTOCOL_VERSION, MSG_FIRMWARE_VERSION, MSG_DEVICE_IDENTIFIER,
      DEVICE_NAME, CONTROLLER_LIST, CQ_CAPACITY, READ_CONTROLLER_MODE, REQUEST_STATUS,
      REQUEST_SESSION_NUM, SET_LOGGING_FLAG, CHANGE_CONTROLLER_MODE, RESET_TO_CONTROLLER}"
    by (simp add: message_opcodes)
  ultimately show ?thesis
    by (auto simp: answer_def Let_def cancel_queue_def log_line_def sink_ids_def split: option.split)
qed

lemma device_on_message_answer:
  "device_on_message ops m d = Some (w, d') \<Longrightarrow>
     sink_ids d' = sink_ids (snd (answer ops m d)) \<and> dv_sink d' = dv_sink (snd (answer ops m d))"
  by (cases "answer ops m d")
    (auto simp: device_on_message_def sink_ids_def split: option.splits dest!: send_message_frame)

lemma hold_command_ids:
  "op_hold ops b ms (dv_sink (if dv_replace_on_next d then cancel_queue ops d else d)) = (i, s) \<Longrightarrow>
     sink_ids (hold_command ops mid b ms d) = (if dv_replace_on_next d then [] else sink_ids d) @ [i] \<and>
     dv_sink (hold_command ops mid b ms d) = s"
  by (auto simp: hold_command_def Let_def cancel_queue_def log_line_def sink_ids_def)

lemma on_reset_ids:
  "on_reset ops seq session d = Some (w, d') \<Longrightarrow>
     sink_ids d' = [] \<and> dv_sink d' = op_cancel ops (dv_sink d)"
  by (auto simp: on_reset_def Let_def cancel_queue_def log_line_def sink_ids_def)

lemma sorted_wrt_filter_split:
  "sorted_wrt (<) (xs :: nat list) \<Longrightarrow> xs = filter (finished_by don) xs @ filter (\<lambda>i. \<not> finished_by don i) xs"
proof (induction xs)
  case (Cons x xs)
  show ?case
  proof (cases "finished_by don x")
    case False
    then have "\<forall>y\<in>set xs. \<not> finished_by don y"
      using Cons.prems by (auto simp: finished_by_def split: option.splits)
    with False show ?thesis by (simp add: filter_True filter_False)
  qed (use Cons in simp)
qed simp

context button_sink
begin

lemma hold_command_laws:
  assumes "device_inv newest ok d"
  shows "\<exists>i. sink_ids (hold_command ops mid b ms d) =
      (if dv_replace_on_next d then [] else sink_ids d) @ [i] \<and> newest (dv_sink d) \<le> i \<and>
    i < newest (dv_sink (hold_command ops mid b ms d)) \<and> ok (dv_sink (hold_command ops mid b ms d))"
proof -
  let ?s = "dv_sink (if dv_replace_on_next d then cancel_queue ops d else d)"
  have s: "ok ?s" "newest (dv_sink d) \<le> newest ?s"
    using assms cancel_newest by (auto simp: device_inv_def cancel_queue_def)
  obtain i s' where h: "op_hold ops b ms ?s = (i, s')" by (cases "op_hold ops b ms ?s") auto
  from hold_id [OF s(1) h] hold_command_ids [OF h] s(2) show ?thesis by auto
qed

lemma device_step_laws:
  assumes step: "device_step ops plays d a l d'" and inv: "device_inv newest ok d"
  shows "device_inv newest ok d' \<and> sink_ids d @ a = l @ sink_ids d' \<and>
    (a = [] \<and> newest (dv_sink d) \<le> newest (dv_sink d') \<or>
      (\<exists>i. a = [i] \<and> newest (dv_sink d) \<le> i \<and> i < newest (dv_sink d')))"
  using step
proof cases
  case (command_queued m w)
  obtain b ms where "answer ops m d = (None, hold_command ops (ms_id m) b ms d)"
    using answer_command [OF command_queued(3)] by blast
  then have d': "sink_ids d' = sink_ids (hold_command ops (ms_id m) b ms d)"
    "dv_sink d' = dv_sink (hold_command ops (ms_id m) b ms d)"
    using device_on_message_answer [OF command_queued(4)] by simp_all
  from hold_command_laws [OF inv, of "ms_id m" b ms]
  obtain i where i: "sink_ids d' = (if dv_replace_on_next d then [] else sink_ids d) @ [i]"
    "newest (dv_sink d) \<le> i" "i < newest (dv_sink d')" "ok (dv_sink d')"
    unfolding d' by blast
  have "\<forall>j\<in>set (sink_ids d). j < i" using inv i(2) by (auto simp: device_inv_def)
  with i inv show ?thesis
    by (auto simp: device_inv_def command_queued(1,2) sorted_wrt_append intro: less_trans)
next
  case (message_handled m w)
  have "sink_ids d' = (if ms_opcode m = CQ_CANCEL then [] else sink_ids d)"
    "dv_sink d' = (if ms_opcode m = CQ_CANCEL then op_cancel ops (dv_sink d) else dv_sink d)"
    using device_on_message_answer [OF message_handled(4)] answer_other [OF message_handled(3), of ops d]
    by simp_all
  with inv cancel_newest [of "dv_sink d"] show ?thesis
    by (auto simp: device_inv_def message_handled(1,2))
next
  case (host_reset seq session w)
  from on_reset_ids [OF host_reset(3)] inv cancel_newest [of "dv_sink d"] show ?thesis
    by (auto simp: device_inv_def host_reset(1,2))
next
  case (device_polled now w)
  have srt: "sorted_wrt (<) (sink_ids d)" using inv by (simp add: device_inv_def)
  then have "sorted (map snd (dv_queue d))"
    by (simp add: sink_ids_def strict_sorted_imp_sorted)
  from poll_queue [OF device_polled(3) this]
  have "sink_ids d' = filter (\<lambda>i. \<not> finished_by (op_completed ops (dv_sink d)) i) (sink_ids d)"
    and "dv_sink d' = dv_sink d"
    by (simp_all add: sink_ids_def filter_map comp_def)
  with inv sorted_wrt_filter_split [OF srt, of "op_completed ops (dv_sink d)"] show ?thesis
    by (auto simp: device_inv_def device_polled(1,2) intro: sorted_wrt_filter)
next
  case (sink_plays s)
  with inv plays_newest [OF _ sink_plays(4)] show ?thesis
    by (auto simp: device_inv_def sink_ids_def)
qed

end

sublocale button_sink \<subseteq> device: command_queue "device_step ops plays" sink_ids
  "\<lambda>d. newest (dv_sink d)" "device_inv newest ok"
  by unfold_locales (use device_step_laws in \<open>blast+, simp add: device_inv_def\<close>)

text \<open>A poll reports every command whose hold has elapsed, in the order they were queued, one
  \<open>CQ_COMMAND_FINISHED\<close> each with the command's own id, and leaves exactly the others: looking only
  at the front of the queue misses none.\<close>

lemma poll_reports_finished:
  assumes "sorted (map snd (dv_queue d))" "poll ops now d = Some (w, d')"
    and "fin = (\<lambda>c. finished_by (op_completed ops (dv_sink d)) (snd c))"
  shows "dv_queue d' = filter (\<lambda>c. \<not> fin c) (dv_queue d) \<and>
    (\<exists>w1 d1. run_all send_message (map (finish_message (of_nat ((now - dv_started d) div 1000000)))
        (filter fin (dv_queue d))) d = Some (w1, d1) \<and>
      w = w1 @ (if now - dv_last_poll d \<ge> POLL then fst (tick_link (dv_link d1)) else []))"
proof
  show "dv_queue d' = filter (\<lambda>c. \<not> fin c) (dv_queue d)"
    using poll_queue [OF assms(2,1)] by (simp add: assms(3))
  let ?ms = "map (finish_message (of_nat ((now - dv_started d) div 1000000))) (filter fin (dv_queue d))"
  obtain w1 d2 where r: "report_front (op_completed ops (dv_sink d))
      (of_nat ((now - dv_started d) div 1000000)) (dv_queue d) d = Some (w1, d2)"
    using assms(2) by (auto simp: poll_def split: option.splits)
  from r obtain d1 where d1: "run_all send_message ?ms d = Some (w1, d1)"
    and d2: "d2 = d1\<lparr>dv_queue := filter (\<lambda>c. \<not> fin c) (dv_queue d)\<rparr>"
    unfolding report_front_run [OF assms(1)] assms(3) by auto
  have "run_all send_message ms d = Some (w, d1) \<Longrightarrow> dv_last_poll d1 = dv_last_poll d" for ms w d d1
    by (induction ms arbitrary: w d d1) (auto split: option.splits dest!: send_message_frame)
  from this [OF d1] d2 have "dv_last_poll d2 = dv_last_poll d" "dv_link d2 = dv_link d1" by simp_all
  then have "w = w1 @ (if now - dv_last_poll d \<ge> POLL then fst (tick_link (dv_link d1)) else [])"
    using assms(2) r by (auto simp: poll_def split: if_splits prod.splits)
  with d1 show "\<exists>w1 d1. run_all send_message ?ms d = Some (w1, d1) \<and>
      w = w1 @ (if now - dv_last_poll d \<ge> POLL then fst (tick_link (dv_link d1)) else [])"
    by blast
qed

end
