(* ===== verification/Frame_Schedule.thy ===== *)
theory Frame_Schedule
  imports Controller Command_Queue
begin

text \<open>
  crates/controller/src/schedule.rs: the frame-clocked schedule the emulator's joypad plays.
  Commands become segments of whole frames; \<open>advance\<close> gives the buttons of the next frame and
  \<open>completed_through\<close> the newest command whose input has been applied. Frame counts are \<open>u64\<close>
  (the cast of the \<open>u128\<close> quotient is written out); the sums and the id counter never reach
  that bound and are natural numbers.
\<close>

section \<open>Frame rates\<close>

record frame_rate =
  numerator :: nat
  denominator :: nat

definition gba_rate :: frame_rate where
  "gba_rate = \<lparr>numerator = 16777216, denominator = 280896\<rparr>"

definition div_ceil :: "nat \<Rightarrow> nat \<Rightarrow> nat" where
  "div_ceil a b = (if a mod b = 0 then a div b else a div b + 1)"

definition frames_for :: "frame_rate \<Rightarrow> nanos \<Rightarrow> nat" where
  "frames_for r d = div_ceil (d * numerator r) (1000000000 * denominator r) mod 2 ^ 64"

definition frame_period :: "frame_rate \<Rightarrow> nanos" where
  "frame_period r = (1000000000 * denominator r) div numerator r mod 2 ^ 64"

definition duration_of :: "frame_rate \<Rightarrow> nat \<Rightarrow> nanos" where
  "duration_of r n = (n * 1000000000 * denominator r) div numerator r mod 2 ^ 64"

section \<open>The schedule\<close>

record segment =
  sg_buttons :: button_set
  sg_frames :: nat
  sg_command :: nat

record input_schedule =
  sc_rate :: frame_rate
  sc_profile :: press_profile
  sc_segments :: "segment list"
  sc_next_id :: nat
  sc_completed :: "nat option"

definition new_schedule :: "frame_rate \<Rightarrow> press_profile \<Rightarrow> input_schedule" where
  "new_schedule r p =
     \<lparr>sc_rate = r, sc_profile = p, sc_segments = [], sc_next_id = 0, sc_completed = None\<rparr>"

text \<open>The segments of a timeline: inputs of no frame are dropped.\<close>

definition timeline_segments :: "frame_rate \<Rightarrow> nat \<Rightarrow> timed_input list \<Rightarrow> segment list" where
  "timeline_segments r cid ts =
     map (\<lambda>t. \<lparr>sg_buttons = ti_buttons t, sg_frames = frames_for r (ti_duration t),
              sg_command = cid\<rparr>)
       (filter (\<lambda>t. frames_for r (ti_duration t) > 0) ts)"

definition enqueue ::
  "input_schedule \<Rightarrow> controller_command \<Rightarrow> (nat \<times> nat) \<times> input_schedule" where
  "enqueue s0 cmd =
     (let cid = sc_next_id s0; s = s0\<lparr>sc_next_id := cid + 1\<rparr> in
      if cmd = Neutral then ((cid, 0), s\<lparr>sc_segments := [], sc_completed := Some cid\<rparr>)
      else
        let segs = timeline_segments (sc_rate s) cid (timeline cmd (sc_profile s));
            total = sum_list (map sg_frames segs);
            s = s\<lparr>sc_segments := sc_segments s @ segs\<rparr>;
            s = (if total = 0 then
                   if sc_segments s = [] then s\<lparr>sc_completed := Some cid\<rparr>
                   else s\<lparr>sc_segments := sc_segments s @
                          [\<lparr>sg_buttons = bs_none, sg_frames = 0, sg_command = cid\<rparr>]\<rparr>
                 else s)
        in ((cid, total), s))"

fun pop_segments :: "segment list \<Rightarrow> nat option \<Rightarrow> segment list \<times> nat option" where
  "pop_segments [] c = ([], c)"
| "pop_segments (s # ss) c =
     (if sg_frames s = 0 then
        pop_segments ss
          (if (case ss of [] \<Rightarrow> None | t # _ \<Rightarrow> Some (sg_command t)) \<noteq> Some (sg_command s)
           then Some (sg_command s) else c)
      else (s # ss, c))"

definition pop_finished :: "input_schedule \<Rightarrow> input_schedule" where
  "pop_finished s =
     (case pop_segments (sc_segments s) (sc_completed s) of
        (ss, c) \<Rightarrow> s\<lparr>sc_segments := ss, sc_completed := c\<rparr>)"

definition advance :: "input_schedule \<Rightarrow> button_set \<times> input_schedule" where
  "advance s0 =
     (let s = pop_finished s0 in
      case sc_segments s of
        [] \<Rightarrow> (bs_none, s)
      | front # rest \<Rightarrow>
          (sg_buttons front,
           pop_finished (s\<lparr>sc_segments := front\<lparr>sg_frames := sg_frames front - 1\<rparr> # rest\<rparr>)))"

definition completed_through :: "input_schedule \<Rightarrow> nat option" where
  "completed_through s = sc_completed s"

definition schedule_is_idle :: "input_schedule \<Rightarrow> bool" where
  "schedule_is_idle s \<longleftrightarrow> sc_segments s = []"

definition pending_frames :: "input_schedule \<Rightarrow> nat" where
  "pending_frames s = sum_list (map sg_frames (sc_segments s))"

section \<open>Frame arithmetic\<close>

lemma div_ceil_le_iff: "0 < b \<Longrightarrow> div_ceil a b \<le> n \<longleftrightarrow> a \<le> n * b"
proof -
  assume b: "0 < b"
  have a: "a = a div b * b + a mod b" by simp
  show ?thesis
  proof (cases "a mod b = 0")
    case True
    then have "a = a div b * b" using a by simp
    then show ?thesis using b by (metis True div_ceil_def mult_le_cancel2)
  next
    case False
    have "a div b + 1 \<le> n \<longleftrightarrow> a div b < n" by (simp add: Suc_le_eq)
    also have "\<dots> \<longleftrightarrow> a < n * b" using b by (simp add: div_less_iff_less_mult)
    also have "\<dots> \<longleftrightarrow> a \<le> n * b" using False by (auto simp: le_less)
    finally show ?thesis using False by (simp add: div_ceil_def)
  qed
qed

lemma div_ceil_floor:
  assumes "0 < num" "num \<le> den"
  shows "div_ceil (n * den div num * num) den = n"
proof (rule antisym)
  have den: "0 < den" using assms by simp
  show "div_ceil (n * den div num * num) den \<le> n"
    unfolding div_ceil_le_iff [OF den] by (rule div_times_less_eq_dividend)
  show "n \<le> div_ceil (n * den div num * num) den"
  proof (rule ccontr)
    assume "\<not> n \<le> div_ceil (n * den div num * num) den"
    then have lt: "div_ceil (n * den div num * num) den \<le> n - 1" "0 < n" by simp_all
    then have "n * den div num * num \<le> (n - 1) * den" by (simp add: div_ceil_le_iff [OF den])
    moreover have "n * den < n * den div num * num + num"
      using dividend_less_div_times [OF assms(1), of "n * den"] by (simp add: add.commute)
    moreover have "(n - 1) * den + den = n * den" using lt(2) by (cases n) simp_all
    ultimately show False using assms(2) by linarith
  qed
qed

section \<open>The frames still to be shown\<close>

definition segment_frames :: "segment list \<Rightarrow> button_set list" where
  "segment_frames ss = concat (map (\<lambda>s. replicate (sg_frames s) (sg_buttons s)) ss)"

definition future :: "input_schedule \<Rightarrow> button_set list" where
  "future s = segment_frames (sc_segments s)"

text \<open>The frames a command asks for: each input of its timeline for its rounded-up frames.\<close>

definition command_frames :: "input_schedule \<Rightarrow> controller_command \<Rightarrow> button_set list" where
  "command_frames s cmd =
     concat (map (\<lambda>t. replicate (frames_for (sc_rate s) (ti_duration t)) (ti_buttons t))
       (timeline cmd (sc_profile s)))"

lemma segment_frames_simps [simp]:
  "segment_frames [] = []"
  "segment_frames (s # ss) = replicate (sg_frames s) (sg_buttons s) @ segment_frames ss"
  "segment_frames (xs @ ys) = segment_frames xs @ segment_frames ys"
  by (simp_all add: segment_frames_def)

lemma segment_frames_timeline:
  "segment_frames (timeline_segments r c ts) =
     concat (map (\<lambda>t. replicate (frames_for r (ti_duration t)) (ti_buttons t)) ts)"
  by (induction ts) (auto simp: timeline_segments_def)

lemma length_segment_frames: "length (segment_frames ss) = sum_list (map sg_frames ss)"
  by (induction ss) simp_all

lemma pop_segments_frames: "segment_frames (fst (pop_segments ss c)) = segment_frames ss"
  by (induction ss c rule: pop_segments.induct) simp_all

lemma pop_segments_front:
  "fst (pop_segments ss c) = [] \<or> 0 < sg_frames (hd (fst (pop_segments ss c)))"
  by (induction ss c rule: pop_segments.induct) simp_all

lemma pop_segments_suffix: "\<exists>dropped. ss = dropped @ fst (pop_segments ss c)"
proof (induction ss c rule: pop_segments.induct)
  case (2 s ss c)
  then show ?case by (auto intro: exI [of _ "[]"]) (metis append_Cons)+
qed simp

lemma pop_finished_frame [queue_simps]:
  "sc_next_id (pop_finished s) = sc_next_id s" "sc_rate (pop_finished s) = sc_rate s"
  "sc_profile (pop_finished s) = sc_profile s"
  "sc_segments (pop_finished s) = fst (pop_segments (sc_segments s) (sc_completed s))"
  "sc_completed (pop_finished s) = snd (pop_segments (sc_segments s) (sc_completed s))"
  by (simp_all add: pop_finished_def split: prod.splits)

lemma future_pop_finished [queue_simps]: "future (pop_finished s) = future s"
  by (simp add: future_def queue_simps pop_segments_frames)

lemma advance_future:
  "fst (advance s) = (case future s of [] \<Rightarrow> bs_none | b # _ \<Rightarrow> b)"
  "future (snd (advance s)) = tl (future s)"
proof -
  let ?p = "pop_finished s"
  show "fst (advance s) = (case future s of [] \<Rightarrow> bs_none | b # _ \<Rightarrow> b)"
  proof (cases "sc_segments ?p")
    case Nil
    then have "future s = []" using future_pop_finished [of s] by (simp add: future_def)
    with Nil show ?thesis by (simp add: advance_def)
  next
    case (Cons front rest)
    then obtain k where k: "sg_frames front = Suc k"
      using pop_segments_front [of "sc_segments s" "sc_completed s"]
      by (cases "sg_frames front") (auto simp: queue_simps)
    have "future s = sg_buttons front # replicate k (sg_buttons front) @ segment_frames rest"
      using future_pop_finished [of s] Cons k by (simp add: future_def)
    with Cons show ?thesis by (simp add: advance_def)
  qed
  show "future (snd (advance s)) = tl (future s)"
  proof (cases "sc_segments ?p")
    case Nil
    then have "future s = []" using future_pop_finished [of s] by (simp add: future_def)
    with Nil show ?thesis by (simp add: advance_def future_def)
  next
    case (Cons front rest)
    then obtain k where k: "sg_frames front = Suc k"
      using pop_segments_front [of "sc_segments s" "sc_completed s"]
      by (cases "sg_frames front") (auto simp: queue_simps)
    have "future s = sg_buttons front # replicate k (sg_buttons front) @ segment_frames rest"
      using future_pop_finished [of s] Cons k by (simp add: future_def)
    with Cons k show ?thesis by (simp add: advance_def queue_simps) (simp add: future_def)
  qed
qed

lemma enqueue_future:
  "future (snd (enqueue s cmd)) =
     (if cmd = Neutral then [] else future s @ command_frames s cmd)"
  "cmd \<noteq> Neutral \<Longrightarrow> snd (fst (enqueue s cmd)) = length (command_frames s cmd)"
  by (auto simp: enqueue_def Let_def future_def command_frames_def segment_frames_timeline
      length_segment_frames [symmetric])

section \<open>Completion\<close>

text \<open>The first id not covered by \<open>completed_through\<close>; the open commands are the ids from there to
  the next one, and they are exactly the commands with a segment in the queue.\<close>

definition first_open :: "nat option \<Rightarrow> nat" where
  "first_open c = (case c of None \<Rightarrow> 0 | Some i \<Rightarrow> i + 1)"

definition open_commands :: "input_schedule \<Rightarrow> nat list" where
  "open_commands s = [first_open (sc_completed s)..<sc_next_id s]"

definition tracks :: "segment list \<Rightarrow> nat option \<Rightarrow> nat \<Rightarrow> bool" where
  "tracks ss c n \<longleftrightarrow> sorted (map sg_command ss) \<and> set (map sg_command ss) = {first_open c..<n}
     \<and> first_open c \<le> n"

definition schedule_inv :: "input_schedule \<Rightarrow> bool" where
  "schedule_inv s \<longleftrightarrow> tracks (sc_segments s) (sc_completed s) (sc_next_id s) \<and>
     (sc_segments s = [] \<or> 0 < sg_frames (hd (sc_segments s)))"

lemma first_open_simps [simp]: "first_open None = 0" "first_open (Some i) = i + 1"
  by (simp_all add: first_open_def)

lemma tracks_Cons:
  assumes "tracks (s # ss) c n"
  shows "sg_command s = first_open c" "\<forall>t\<in>set ss. first_open c \<le> sg_command t" "first_open c < n"
proof -
  have srt: "\<forall>t\<in>set ss. sg_command s \<le> sg_command t"
    and set: "set (map sg_command (s # ss)) = {first_open c..<n}"
    using assms by (simp_all add: tracks_def)
  have "sg_command s \<in> {first_open c..<n}" unfolding set [symmetric] by simp
  then have ge: "first_open c \<le> sg_command s" and lt: "first_open c < n" by simp_all
  then have "first_open c \<in> set (map sg_command (s # ss))" unfolding set by simp
  with srt ge show eq: "sg_command s = first_open c" by auto
  show "\<forall>t\<in>set ss. first_open c \<le> sg_command t" using srt eq by simp
  show "first_open c < n" by (rule lt)
qed

lemma tracks_tail:
  assumes "tracks (s # ss) c n"
  shows "tracks ss (if (case ss of [] \<Rightarrow> None | t # _ \<Rightarrow> Some (sg_command t)) \<noteq> Some (sg_command s)
           then Some (sg_command s) else c) n"
proof (cases "(case ss of [] \<Rightarrow> None | t # _ \<Rightarrow> Some (sg_command t)) = Some (sg_command s)")
  case True
  then obtain t ts where ss: "ss = t # ts" "sg_command t = sg_command s"
    by (auto split: list.splits)
  then have "set (map sg_command ss) = set (map sg_command (s # ss))" by auto
  with assms True show ?thesis by (simp add: tracks_def)
next
  case False
  note s = tracks_Cons [OF assms]
  have "\<forall>t\<in>set ss. sg_command s < sg_command t"
    using assms False s by (cases ss) (auto simp: tracks_def)
  then have "set (map sg_command ss) = set (map sg_command (s # ss)) - {sg_command s}"
    by auto
  with assms s have "set (map sg_command ss) = {first_open c + 1..<n}"
    by (auto simp: tracks_def)
  with assms s False show ?thesis by (simp add: tracks_def)
qed

lemma pop_segments_tracks:
  "tracks ss c n \<Longrightarrow> pop_segments ss c = (ss', c') \<Longrightarrow>
     tracks ss' c' n \<and> first_open c \<le> first_open c'"
proof (induction ss c rule: pop_segments.induct)
  case (2 s ss c)
  show ?case
  proof (cases "sg_frames s = 0")
    case True
    let ?c = "if (case ss of [] \<Rightarrow> None | t # _ \<Rightarrow> Some (sg_command t)) \<noteq> Some (sg_command s)
           then Some (sg_command s) else c"
    have "tracks ss' c' n \<and> first_open ?c \<le> first_open c'"
      using "2.IH" [OF True tracks_tail [OF "2.prems"(1)]] "2.prems"(2) True by simp
    moreover have "first_open c \<le> first_open ?c"
      using tracks_Cons(1) [OF "2.prems"(1)] by simp
    ultimately show ?thesis using le_trans by blast
  next
    case False
    with "2.prems" show ?thesis by auto
  qed
qed auto

lemma pop_finished_inv:
  assumes "tracks (sc_segments s) (sc_completed s) (sc_next_id s)"
  shows "schedule_inv (pop_finished s)
    \<and> first_open (sc_completed s) \<le> first_open (sc_completed (pop_finished s))"
proof -
  obtain ss c where p: "pop_segments (sc_segments s) (sc_completed s) = (ss, c)"
    by (cases "pop_segments (sc_segments s) (sc_completed s)") auto
  from pop_segments_tracks [OF assms p] pop_segments_front [of "sc_segments s" "sc_completed s"] p
  show ?thesis by (auto simp: schedule_inv_def queue_simps)
qed

lemma advance_inv:
  assumes "schedule_inv s"
  shows "schedule_inv (snd (advance s))
    \<and> first_open (sc_completed s) \<le> first_open (sc_completed (snd (advance s)))
    \<and> sc_next_id (snd (advance s)) = sc_next_id s"
proof -
  have p: "schedule_inv (pop_finished s)"
    "first_open (sc_completed s) \<le> first_open (sc_completed (pop_finished s))"
    using assms pop_finished_inv by (auto simp: schedule_inv_def)
  show ?thesis
  proof (cases "sc_segments (pop_finished s)")
    case Nil
    with p show ?thesis by (simp add: advance_def queue_simps)
  next
    case (Cons front rest)
    let ?s = "pop_finished s\<lparr>sc_segments := front\<lparr>sg_frames := sg_frames front - 1\<rparr> # rest\<rparr>"
    have "tracks (sc_segments ?s) (sc_completed ?s) (sc_next_id ?s)"
      using p(1) Cons by (simp add: schedule_inv_def tracks_def)
    from pop_finished_inv [OF this] p(2) Cons show ?thesis
      by (simp add: advance_def) (simp add: pop_finished_def split: prod.splits)
  qed
qed

lemma timeline_segments_fields:
  "x \<in> set (timeline_segments r c ts) \<Longrightarrow> sg_command x = c \<and> 0 < sg_frames x"
  by (auto simp: timeline_segments_def)

lemma sum_frames_zero:
  "sum_list (map sg_frames (timeline_segments r c ts)) = 0 \<longleftrightarrow> timeline_segments r c ts = []"
proof
  assume "sum_list (map sg_frames (timeline_segments r c ts)) = 0"
  then have "\<forall>x\<in>set (timeline_segments r c ts). sg_frames x = 0"
    by (simp add: sum_list_eq_0_iff)
  then show "timeline_segments r c ts = []"
    using timeline_segments_fields by (metis last_in_set less_not_refl)
qed simp

text \<open>Appending segments of the next id.\<close>

lemma tracks_append:
  assumes "tracks ss c n" "xs \<noteq> []" "\<forall>x\<in>set xs. sg_command x = n"
  shows "tracks (ss @ xs) c (n + 1)"
proof -
  have "set (map sg_command xs) = {n}" using assms(2,3) by (cases xs) auto
  moreover have "sorted (map sg_command xs)"
    using assms(3) by (auto simp: sorted_iff_nth_mono)
  ultimately show ?thesis
    using assms(1) by (auto simp: tracks_def sorted_append atLeastLessThanSuc)
qed

lemma enqueue_inv:
  assumes inv: "schedule_inv s" and e: "enqueue s cmd = ((cid, n), s')"
  shows "schedule_inv s' \<and> cid = sc_next_id s \<and> sc_next_id s' = sc_next_id s + 1
    \<and> first_open (sc_completed s) \<le> first_open (sc_completed s')"
proof -
  let ?n = "sc_next_id s" and ?c = "sc_completed s"
  have t: "tracks (sc_segments s) ?c ?n" and le: "first_open ?c \<le> ?n"
    using inv by (simp_all add: schedule_inv_def tracks_def)
  let ?xs = "timeline_segments (sc_rate s) ?n (timeline cmd (sc_profile s))"
  consider "cmd = Neutral" | "cmd \<noteq> Neutral" "?xs \<noteq> []"
    | "cmd \<noteq> Neutral" "?xs = []" "sc_segments s = []"
    | "cmd \<noteq> Neutral" "?xs = []" "sc_segments s \<noteq> []" by blast
  then show ?thesis
  proof cases
    case 1
    with e le show ?thesis by (auto simp: enqueue_def Let_def schedule_inv_def tracks_def)
  next
    case 2
    then have "s' = s\<lparr>sc_next_id := ?n + 1, sc_segments := sc_segments s @ ?xs\<rparr>" "cid = ?n"
      using e by (auto simp: enqueue_def Let_def sum_frames_zero simp del: sum_list_eq_0_iff)
    moreover have "tracks (sc_segments s @ ?xs) ?c (?n + 1)"
      using t 2(2) timeline_segments_fields by (intro tracks_append) blast+
    moreover have "0 < sg_frames (hd (sc_segments s @ ?xs))"
      using inv 2(2) timeline_segments_fields [OF hd_in_set [OF 2(2)]]
      by (cases "sc_segments s") (simp_all add: schedule_inv_def)
    ultimately show ?thesis by (simp add: schedule_inv_def)
  next
    case 3
    then have "s' = s\<lparr>sc_next_id := ?n + 1, sc_completed := Some ?n\<rparr>" "cid = ?n"
      using e by (auto simp: enqueue_def Let_def)
    with 3 t le show ?thesis by (simp add: schedule_inv_def tracks_def)
  next
    case 4
    let ?m = "\<lparr>sg_buttons = bs_none, sg_frames = 0, sg_command = ?n\<rparr>"
    from 4 have "s' = s\<lparr>sc_next_id := ?n + 1, sc_segments := sc_segments s @ [?m]\<rparr>" "cid = ?n"
      using e by (auto simp: enqueue_def Let_def)
    moreover have "tracks (sc_segments s @ [?m]) ?c (?n + 1)"
      using t by (intro tracks_append) simp_all
    ultimately show ?thesis using inv 4 by (simp add: schedule_inv_def)
  qed
qed

inductive schedule_step ::
  "input_schedule \<Rightarrow> nat list \<Rightarrow> nat list \<Rightarrow> input_schedule \<Rightarrow> bool" where
  enqueue_accepts: "enqueue s cmd = ((cid, n), s') \<Longrightarrow>
    schedule_step s [cid] [first_open (sc_completed s)..<first_open (sc_completed s')] s'"
| advance_plays: "advance s = (b, s') \<Longrightarrow>
    schedule_step s [] [first_open (sc_completed s)..<first_open (sc_completed s')] s'"

lemma upt_split: "(i::nat) \<le> j \<Longrightarrow> j \<le> k \<Longrightarrow> [i..<k] = [i..<j] @ [j..<k]"
  using upt_add_eq_append [of i j "k - j"] by simp

lemma open_commands_split:
  assumes "schedule_inv s'" "first_open (sc_completed s) \<le> first_open (sc_completed s')"
  shows "[first_open (sc_completed s)..<sc_next_id s'] =
    [first_open (sc_completed s)..<first_open (sc_completed s')] @ open_commands s'"
  using assms upt_split unfolding open_commands_def schedule_inv_def tracks_def by blast

lemma schedule_step_laws:
  assumes "schedule_step s a l s'" "schedule_inv s"
  shows "schedule_inv s' \<and> open_commands s @ a = l @ open_commands s'
    \<and> (a = [] \<and> sc_next_id s \<le> sc_next_id s' \<or> a = [sc_next_id s] \<and> sc_next_id s < sc_next_id s')"
  using assms(1)
proof cases
  case (enqueue_accepts cmd cid n)
  note e = enqueue_inv [OF assms(2) enqueue_accepts(3)]
  have "first_open (sc_completed s) \<le> sc_next_id s"
    using assms(2) by (simp add: schedule_inv_def tracks_def)
  then have "open_commands s @ a = [first_open (sc_completed s)..<sc_next_id s']"
    using e enqueue_accepts(1) by (simp add: open_commands_def)
  also have "\<dots> = l @ open_commands s'"
    unfolding enqueue_accepts(2) using e by (intro open_commands_split) simp_all
  finally show ?thesis using e enqueue_accepts(1) by simp
next
  case (advance_plays b)
  then have a: "schedule_inv s'" "sc_next_id s' = sc_next_id s"
    "first_open (sc_completed s) \<le> first_open (sc_completed s')"
    using advance_inv [OF assms(2)] by simp_all
  have "open_commands s @ a = [first_open (sc_completed s)..<sc_next_id s']"
    using a(2) advance_plays(1) by (simp add: open_commands_def)
  also have "\<dots> = l @ open_commands s'"
    unfolding advance_plays(2) using a(1,3) by (rule open_commands_split)
  finally show ?thesis using a advance_plays(1) by simp
qed

interpretation joypad: command_queue schedule_step open_commands sc_next_id schedule_inv
  by unfold_locales
    (use schedule_step_laws in \<open>blast+, simp add: open_commands_def schedule_inv_def tracks_def\<close>)

section \<open>Properties\<close>

text \<open>The frames a device clocked by the schedule shows.\<close>

fun play :: "nat \<Rightarrow> input_schedule \<Rightarrow> button_set list \<times> input_schedule" where
  "play 0 s = ([], s)"
| "play (Suc n) s =
     (let (b, s') = advance s; (bs, s'') = play n s' in (b # bs, s''))"

lemma play_frames: "fst (play n s) = take n (future s @ replicate n bs_none)"
proof (induction n arbitrary: s)
  case (Suc n)
  obtain b s' where a: "advance s = (b, s')" by (cases "advance s") auto
  have "fst (play (Suc n) s) = b # fst (play n s')"
    using a by (simp add: split_beta)
  also have "\<dots> = b # take n (tl (future s) @ replicate n bs_none)"
    using Suc.IH [of s'] advance_future(2) [of s] a by simp
  also have "\<dots> = take (Suc n) (future s @ replicate (Suc n) bs_none)"
    using advance_future(1) [of s] a
    by (cases "future s") (simp, simp add: take_replicate del: replicate.simps)
  finally show ?case .
qed simp

text \<open>C33: what is shown after a command is queued is the pending frames followed by the command's
  own, each input held for its duration in whole frames, rounded up, and released buttons from
  there on; a \<open>Neutral\<close> replaces all of it by released buttons at once.\<close>

theorem schedule_plays_commands:
  "fst (play n (snd (enqueue s cmd))) =
     take n ((if cmd = Neutral then [] else future s @ command_frames s cmd) @ replicate n bs_none)"
  by (simp add: play_frames enqueue_future)

text \<open>On any run from a new schedule, the ids covered by \<open>completed_through\<close> are exactly the
  accepted commands with no segment left in the queue, so a device reports a command completed
  when its last frame has been shown, not before, and never later than its successors.\<close>

lemma completed_through_exact:
  assumes "command_run schedule_step (new_schedule r p) accepted done s" "i \<in> set accepted"
  shows "(\<exists>c. completed_through s = Some c \<and> i \<le> c) \<longleftrightarrow> i \<notin> sg_command ` set (sc_segments s)"
proof -
  have new: "schedule_inv (new_schedule r p)" "open_commands (new_schedule r p) = []"
    by (simp_all add: schedule_inv_def tracks_def open_commands_def new_schedule_def)
  have inv: "schedule_inv s" using joypad.run_inv [OF assms(1) new(1)] .
  have "i < sc_next_id s" using joypad.run_sorted [OF assms(1) new(1)] assms(2) by auto
  moreover have "sg_command ` set (sc_segments s) = {first_open (sc_completed s)..<sc_next_id s}"
    using inv by (simp add: schedule_inv_def tracks_def)
  ultimately show ?thesis
    by (auto simp: completed_through_def first_open_def split: option.splits)
qed

text \<open>A duration is rounded up to the least number of frames that covers it, and the duration
  of a number of frames is rounded back to that number, for any rate of at most one frame per
  nanosecond (the GBA's among them).\<close>

lemma frames_cover_duration:
  assumes "0 < denominator r" "0 < numerator r" "numerator r \<le> 1000000000 * denominator r"
    and n: "n * 1000000000 * denominator r div numerator r < 2 ^ 64"
    and d: "d * numerator r \<le> (2 ^ 64 - 1) * (1000000000 * denominator r)"
  shows "(frames_for r d \<le> k \<longleftrightarrow> d * numerator r \<le> k * (1000000000 * denominator r)) \<and>
    frames_for r (duration_of r n) = n"
proof
  have pos: "0 < 1000000000 * denominator r" using assms(1) by simp
  have "div_ceil (d * numerator r) (1000000000 * denominator r) \<le> 2 ^ 64 - 1"
    using d unfolding div_ceil_le_iff [OF pos] .
  then have "div_ceil (d * numerator r) (1000000000 * denominator r) < 2 ^ 64" by simp
  then show "frames_for r d \<le> k \<longleftrightarrow> d * numerator r \<le> k * (1000000000 * denominator r)"
    by (simp add: frames_for_def div_ceil_le_iff [OF pos])
  have "n * numerator r \<le> n * (1000000000 * denominator r)" using assms(3) by simp
  then have "n \<le> n * (1000000000 * denominator r) div numerator r"
    using assms(2) by (simp add: less_eq_div_iff_mult_less_eq)
  then have "n < 2 ^ 64" using n unfolding mult.assoc by (rule le_less_trans)
  moreover have "duration_of r n = n * (1000000000 * denominator r) div numerator r"
    using n by (simp add: duration_of_def mult.assoc)
  ultimately show "frames_for r (duration_of r n) = n"
    unfolding frames_for_def by (simp add: div_ceil_floor [OF assms(2,3)])
qed

text \<open>Two frames of A held on the GBA's clock: 20 ms are two frames, then the id is covered.\<close>

definition demo_schedule :: input_schedule where
  "demo_schedule = snd (enqueue (new_schedule gba_rate default_profile)
     (Hold (bs_single Button_A) (millis 20)))"

lemma demo_schedule_segments:
  "enqueue (new_schedule gba_rate default_profile) (Hold (bs_single Button_A) (millis 20)) =
     ((0, 2), demo_schedule)"
  "sc_segments demo_schedule = [\<lparr>sg_buttons = bs_single Button_A, sg_frames = 2, sg_command = 0\<rparr>]"
  by (simp_all add: demo_schedule_def enqueue_def new_schedule_def timeline_segments_def
      gba_rate_def frames_for_def div_ceil_def)

end
