(* ===== verification/Serial_Device.thy ===== *)
theory Serial_Device
  imports Virtual_Device Frame_Schedule
begin

text \<open>
  The serial device on the emulator: \<open>EmulatorController\<close> (adapters/emulator-libretro/src/device.rs),
  the \<open>ButtonSink\<close> over it (adapters/virtual-console/src/serial_device.rs), the device's contract
  with it, and what a command sent by the host does to the frames the emulator shows.
\<close>

section \<open>The emulator's controller\<close>

record emulator =
  em_schedule :: input_schedule
  em_failure :: "string option"

definition execute_emulator ::
  "emulator \<Rightarrow> controller_command \<Rightarrow> (error + nat \<times> nanos) \<times> emulator" where
  "execute_emulator e cmd =
     (case em_failure e of
        Some failure \<Rightarrow> (Inl (Disconnected failure), e)
      | None \<Rightarrow>
          (case enqueue (em_schedule e) cmd of
             ((cid, frames), s) \<Rightarrow>
               (Inr (cid, duration_of (sc_rate s) frames), e\<lparr>em_schedule := s\<rparr>)))"

text \<open>The worker's step: the buttons of the next emulated frame.\<close>

definition step_emulator :: "emulator \<Rightarrow> button_set \<times> emulator" where
  "step_emulator e =
     (case advance (em_schedule e) of (b, s) \<Rightarrow> (b, e\<lparr>em_schedule := s\<rparr>))"

section \<open>The sink\<close>

definition emulator_hold :: "button_set \<Rightarrow> u16 \<Rightarrow> emulator \<Rightarrow> nat \<times> emulator" where
  "emulator_hold buttons ms e =
     (case execute_emulator e (Hold buttons (millis (unat ms))) of
        (Inl _, e') \<Rightarrow> (2 ^ 64 - 1, e')
      | (Inr (cid, _), e') \<Rightarrow> (cid, e'))"

definition emulator_completed :: "emulator \<Rightarrow> nat option" where
  "emulator_completed e = completed_through (em_schedule e)"

definition emulator_cancel :: "emulator \<Rightarrow> emulator" where
  "emulator_cancel e = snd (execute_emulator e Neutral)"

definition emulator_buttons :: "emulator sink_ops" where
  "emulator_buttons =
     \<lparr>op_hold = emulator_hold, op_completed = emulator_completed, op_cancel = emulator_cancel\<rparr>"

definition emulator_plays :: "emulator \<Rightarrow> emulator \<Rightarrow> bool" where
  "emulator_plays e e' \<longleftrightarrow> e' = snd (step_emulator e)"

definition running :: "emulator \<Rightarrow> bool" where
  "running e \<longleftrightarrow> em_failure e = None \<and> schedule_inv (em_schedule e)"

definition new_emulator :: "frame_rate \<Rightarrow> press_profile \<Rightarrow> emulator" where
  "new_emulator r p = \<lparr>em_schedule = new_schedule r p, em_failure = None\<rparr>"

lemma execute_running:
  assumes "running e"
  shows "\<exists>n. execute_emulator e cmd = (Inr (sc_next_id (em_schedule e), n), snd (execute_emulator e cmd)) \<and>
    em_schedule (snd (execute_emulator e cmd)) = snd (enqueue (em_schedule e) cmd) \<and>
    running (snd (execute_emulator e cmd)) \<and>
    sc_next_id (em_schedule (snd (execute_emulator e cmd))) = sc_next_id (em_schedule e) + 1"
proof -
  obtain cid n s where en: "enqueue (em_schedule e) cmd = ((cid, n), s)"
    by (cases "enqueue (em_schedule e) cmd") auto
  have inv: "schedule_inv (em_schedule e)" and run: "em_failure e = None"
    using assms by (simp_all add: running_def)
  from enqueue_inv [OF inv en] en run show ?thesis
    by (simp add: execute_emulator_def running_def)
qed

interpretation emu: button_sink emulator_buttons emulator_plays "\<lambda>e. sc_next_id (em_schedule e)" running
proof unfold_locales
  fix e e' :: emulator and b ms i
  assume run: "running e"
  show "op_hold emulator_buttons b ms e = (i, e') \<Longrightarrow>
      running e' \<and> sc_next_id (em_schedule e) = i \<and> i < sc_next_id (em_schedule e')"
    using execute_running [OF run, of "Hold b (millis (unat ms))"]
    by (auto simp: emulator_buttons_def emulator_hold_def split: sum.splits prod.splits)
  show "running (op_cancel emulator_buttons e) \<and>
      sc_next_id (em_schedule e) \<le> sc_next_id (em_schedule (op_cancel emulator_buttons e))"
    using execute_running [OF run, of Neutral] by (auto simp: emulator_buttons_def emulator_cancel_def)
  show "emulator_plays e e' \<Longrightarrow> running e' \<and> sc_next_id (em_schedule e) \<le> sc_next_id (em_schedule e')"
    using run advance_inv [of "em_schedule e"]
    by (auto simp: emulator_plays_def step_emulator_def running_def split: prod.splits)
  show "op_completed emulator_buttons e = Some c \<Longrightarrow> c < sc_next_id (em_schedule e)" for c
    using run by (auto simp: emulator_buttons_def emulator_completed_def completed_through_def running_def
        schedule_inv_def tracks_def)
qed

section \<open>From the host's command to the frames\<close>

definition emulator_frames :: "nat \<Rightarrow> emulator \<Rightarrow> button_set list" where
  "emulator_frames n e = fst (play n (em_schedule e))"

lemma cancel_future: "running e \<Longrightarrow> future (em_schedule (emulator_cancel e)) = []"
  using execute_running [of e Neutral] by (auto simp: emulator_cancel_def enqueue_future)

lemma hold_future:
  assumes "running e" "emulator_hold b ms e = (i, e')"
  shows "future (em_schedule e') = future (em_schedule e) @
    replicate (frames_for (sc_rate (em_schedule e)) (millis (unat ms))) b"
  using execute_running [OF assms(1), of "Hold b (millis (unat ms))"] assms(2)
  by (auto simp: emulator_hold_def enqueue_future command_frames_def split: sum.splits prod.splits)

lemma decode_command_encode:
  "\<exists>s'. decode_command (encode_command kind mid s ms) = Some (s', ms) \<and>
     (\<forall>b. bs_contains s' b \<longleftrightarrow> reported kind s b)"
  by (cases kind) (simp_all only: decode_oem_encode decode_wired_encode)

lemma encode_command_opcode:
  "ms_opcode (encode_command kind mid s ms) = CMD_NS1_OEM_CONTROLLER_BUTTONS \<or>
   ms_opcode (encode_command kind mid s ms) = CMD_NS_WIRED_CONTROLLER_STATE"
  by (cases kind) (simp_all add: encode_command_def new_message_def Let_def)

lemma cancel_rate: "running e \<Longrightarrow> running (emulator_cancel e) \<and>
    sc_rate (em_schedule (emulator_cancel e)) = sc_rate (em_schedule e)"
  using execute_running [of e Neutral] by (auto simp: emulator_cancel_def enqueue_def Let_def)

section \<open>Properties\<close>

text \<open>C7: over any run of the serial device on a running emulator, the commands that left its queue
  (reported finished, or dropped by a cancel, a replacement or a reset) followed by those still
  queued are exactly the commands it accepted, each once and in order.\<close>

theorem device_commands_exactly_once:
  assumes "command_run (device_step emulator_buttons emulator_plays)
      (new_device (new_emulator r p) name now) accepted left d"
  shows "accepted = left @ map snd (dv_queue d) \<and> sorted_wrt (<) accepted"
proof -
  have "device_inv (\<lambda>e. sc_next_id (em_schedule e)) running (new_device (new_emulator r p) name now)"
    by (simp add: device_inv_def new_device_def new_emulator_def running_def sink_ids_def new_schedule_def
        schedule_inv_def tracks_def)
  moreover have "sink_ids (new_device (new_emulator r p) name now) = []"
    by (simp add: sink_ids_def new_device_def)
  ultimately show ?thesis
    using emu.device.run_exactly_once [OF assms] unfolding sink_ids_def by blast
qed

text \<open>C2: a command the host encodes makes the emulator show its reported buttons for its duration in
  whole frames, rounded up, behind what was queued before, or at once after a
  \<open>CQ_REPLACE_ON_NEXT\<close>.\<close>

theorem command_reaches_frames:
  assumes "running (dv_sink d)"
    and "device_on_message emulator_buttons (encode_command kind mid s ms) d = Some (w, d')"
  shows "w = [] \<and> (\<exists>s'. (\<forall>b. bs_contains s' b \<longleftrightarrow> reported kind s b) \<and>
    emulator_frames n (dv_sink d') =
      take n ((if dv_replace_on_next d then [] else future (em_schedule (dv_sink d))) @
        replicate (frames_for (sc_rate (em_schedule (dv_sink d))) (millis (unat ms))) s' @
        replicate n bs_none))"
proof -
  let ?m = "encode_command kind mid s ms"
  obtain s' where s': "decode_command ?m = Some (s', ms)" "\<forall>b. bs_contains s' b \<longleftrightarrow> reported kind s b"
    using decode_command_encode by blast
  have cmd: "is_command ?m" using encode_command_opcode s'(1) by (auto simp: is_command_def)
  then have a: "answer emulator_buttons ?m d = (None, hold_command emulator_buttons (ms_id ?m) s' ms d)"
    using answer_command [OF cmd, of emulator_buttons d] s'(1) by auto
  then have w: "w = []" and d': "d' = hold_command emulator_buttons (ms_id ?m) s' ms d"
    using assms(2) by (auto simp: device_on_message_def)
  let ?e = "dv_sink (if dv_replace_on_next d then cancel_queue emulator_buttons d else d)"
  have e: "running ?e" "sc_rate (em_schedule ?e) = sc_rate (em_schedule (dv_sink d))"
    "future (em_schedule ?e) =
      (if dv_replace_on_next d then [] else future (em_schedule (dv_sink d)))"
    using assms(1) cancel_rate [OF assms(1)] cancel_future [OF assms(1)]
    by (auto simp: cancel_queue_def emulator_buttons_def)
  obtain i e' where h: "op_hold emulator_buttons s' ms ?e = (i, e')"
    by (cases "op_hold emulator_buttons s' ms ?e") auto
  then have "dv_sink d' = e'" using hold_command_ids [OF h] d' by blast
  moreover have "emulator_hold s' ms ?e = (i, e')" using h by (simp add: emulator_buttons_def)
  ultimately have "emulator_frames n (dv_sink d') =
      take n ((if dv_replace_on_next d then [] else future (em_schedule (dv_sink d))) @
        replicate (frames_for (sc_rate (em_schedule (dv_sink d))) (millis (unat ms))) s' @
        replicate n bs_none)"
    using hold_future [OF e(1)] e(2,3) by (simp add: emulator_frames_def play_frames)
  with s'(2) w show ?thesis by blast
qed

text \<open>A cancel from the host, or a reset, empties the device's queue and lets go of every button
  from the next frame on.\<close>

lemma cancel_releases_everything:
  assumes "running (dv_sink d)"
    and "device_on_message emulator_buttons (new_message CQ_CANCEL mid []) d = Some (w, d') \<or>
      on_reset emulator_buttons seq session d = Some (w, d')"
  shows "dv_queue d' = [] \<and> emulator_frames n (dv_sink d') = replicate n bs_none"
proof -
  have "\<not> is_command (new_message CQ_CANCEL mid [])"
    by (simp add: is_command_def new_message_def message_opcodes)
  note other = answer_other [OF this, of emulator_buttons d]
  have "sink_ids d' = [] \<and> dv_sink d' = emulator_cancel (dv_sink d)"
    using assms(2)
  proof
    assume "device_on_message emulator_buttons (new_message CQ_CANCEL mid []) d = Some (w, d')"
    from device_on_message_answer [OF this] other show ?thesis
      by (simp add: new_message_def emulator_buttons_def)
  next
    assume "on_reset emulator_buttons seq session d = Some (w, d')"
    from on_reset_ids [OF this] show ?thesis by (simp add: emulator_buttons_def)
  qed
  then show ?thesis
    using cancel_future [OF assms(1)] by (simp add: emulator_frames_def play_frames sink_ids_def)
qed

section \<open>A concrete device\<close>

definition demo_device :: "emulator device" where
  "demo_device = new_device (new_emulator gba_rate default_profile) [] 0"

definition demo_command :: message where
  "demo_command = encode_command WirelessProController 5 (bs_single Button_A) 100"

lemma demo_device_running: "running (dv_sink demo_device)"
  by (simp add: demo_device_def new_device_def new_emulator_def running_def new_schedule_def
      schedule_inv_def tracks_def)

lemma demo_command_handled:
  "\<exists>d'. device_on_message emulator_buttons demo_command demo_device = Some ([], d') \<and> is_command demo_command
     \<and> sink_ids d' = [0]"
proof -
  obtain s' where s': "decode_command demo_command = Some (s', 100)"
    using decode_command_encode unfolding demo_command_def by blast
  have cmd: "is_command demo_command"
    using encode_command_opcode s' by (auto simp: is_command_def demo_command_def)
  have a: "answer emulator_buttons demo_command demo_device =
      (None, hold_command emulator_buttons (ms_id demo_command) s' 100 demo_device)"
    using answer_command [OF cmd, of emulator_buttons demo_device] s' by auto
  have "sink_ids (hold_command emulator_buttons (ms_id demo_command) s' 100 demo_device) = [0]"
    by (simp add: hold_command_def Let_def demo_device_def new_device_def emulator_buttons_def
        emulator_hold_def execute_emulator_def new_emulator_def enqueue_def new_schedule_def
        sink_ids_def log_line_def split: prod.split sum.split)
  with a cmd show ?thesis by (simp add: device_on_message_def)
qed

theorem device_commands_exactly_once_witness:
  "\<exists>d. command_run (device_step emulator_buttons emulator_plays) demo_device [0] [] d \<and>
    [0] = [] @ map snd (dv_queue d) \<and> sorted_wrt (<) [0 :: nat]"
proof -
  obtain d' where d': "device_on_message emulator_buttons demo_command demo_device = Some ([], d')"
    "is_command demo_command" "sink_ids d' = [0]" using demo_command_handled by blast
  have "\<not> dv_replace_on_next demo_device" by (simp add: demo_device_def new_device_def)
  then have "command_run (device_step emulator_buttons emulator_plays) demo_device ([] @ [0]) ([] @ []) d'"
    using command_queued [OF d'(2,1), of emulator_plays] d'(3)
    by (intro command_run.run_step [OF command_run.run_start]) simp
  then have run: "command_run (device_step emulator_buttons emulator_plays) demo_device [0] [] d'" by simp
  with device_commands_exactly_once [OF run [unfolded demo_device_def]] show ?thesis by blast
qed

theorem command_reaches_frames_witness:
  "\<exists>d'. device_on_message emulator_buttons
      (encode_command WirelessProController 5 (bs_single Button_A) 100) demo_device = Some ([], d') \<and>
    (\<exists>s'. (\<forall>b. bs_contains s' b \<longleftrightarrow> reported WirelessProController (bs_single Button_A) b) \<and>
      emulator_frames 10 (dv_sink d') =
        take 10 ((if dv_replace_on_next demo_device then [] else future (em_schedule (dv_sink demo_device))) @
          replicate (frames_for (sc_rate (em_schedule (dv_sink demo_device))) (millis (unat (100 :: u16)))) s' @
          replicate 10 bs_none))"
proof -
  obtain d' where d': "device_on_message emulator_buttons
      (encode_command WirelessProController 5 (bs_single Button_A) 100) demo_device = Some ([], d')"
    using demo_command_handled unfolding demo_command_def by blast
  with command_reaches_frames [OF demo_device_running d', of 10] show ?thesis by blast
qed

definition demo_polled :: "emulator device" where
  "demo_polled = demo_device\<lparr>dv_queue := [(5, 0), (6, 1)],
     dv_sink := (new_emulator gba_rate default_profile)\<lparr>em_schedule :=
       (new_schedule gba_rate default_profile)\<lparr>sc_completed := Some 0\<rparr>\<rparr>\<rparr>"

end
