(* ===== verification/Serial_Client.thy ===== *)
theory Serial_Client
  imports Virtual_Device
begin

text \<open>
  adapters/pabotbase/src/client.rs: the host side of the serial protocol, a \<open>Controller\<close> that
  queues timed holds, hands them to the device while it has queue space, and books what the device
  reports. The operations take the state under the mutex and return the bytes for the serial port;
  whether a write succeeds is an argument (\<open>wr\<close>), as is the time of a receipt. \<open>None\<close> is a panic
  (of \<open>packet::encode\<close>), which never happens (\<open>host_never_panics\<close>). Of the handshake the rules for
  versions, sizes and the controller mode are modelled; the threads, timeouts and the port are not.
\<close>

definition DEVICE_LOG_LINES :: nat where "DEVICE_LOG_LINES = 200"
definition INITIAL_PACKET_BYTES :: nat where "INITIAL_PACKET_BYTES = 24"

text \<open>The log lines, as what they report.\<close>

datatype client_log =
    Malformed_packet
  | Bad_checksum
  | Device_rejected u8 u8
  | Not_understood "u32 option"
  | Device_text bytes
  | Info_packet u8
  | Command_dropped u8
  | Unhandled_message u8

datatype client_failure = Read_failed string | Write_failed

record client =
  cs_link :: link
  cs_max_unacked :: nat
  cs_messages :: message_reader
  cs_link_replies :: "u8 \<rightharpoonup> u32"
  cs_request_seq :: u8
  cs_responses :: "u8 \<rightharpoonup> message option"
  cs_kind :: controller_kind
  cs_queue_capacity :: nat
  cs_next_command_id :: u8
  cs_in_flight :: "u8 set"
  cs_local :: "(button_set \<times> u16) list"
  cs_failure :: "client_failure option"
  cs_device_log :: "client_log list"

definition new_client :: client where
  "new_client =
     \<lparr>cs_link = new_link 0 INITIAL_PACKET_BYTES, cs_max_unacked = 1, cs_messages = new_reader,
      cs_link_replies = Map.empty, cs_request_seq = 0, cs_responses = Map.empty,
      cs_kind = WirelessProController, cs_queue_capacity = 4, cs_next_command_id = 0,
      cs_in_flight = {}, cs_local = [], cs_failure = None, cs_device_log = []\<rparr>"

section \<open>The handshake's rules\<close>

definition version_ok :: "u32 \<Rightarrow> bool" where
  "version_ok version \<longleftrightarrow> version div 100 = PROTOCOL_VERSION div 100"

definition agree_sizes :: "u32 \<Rightarrow> u32 \<Rightarrow> client \<Rightarrow> client" where
  "agree_sizes packet_size slots c =
     (let bytes = (if packet_size = 0 \<or> packet_size \<ge> 256 then 256 else unat packet_size)
      in c\<lparr>cs_link := set_max_packet_bytes (cs_link c) bytes,
           cs_max_unacked := min (max (unat slots) 1) (unat WINDOW)\<rparr>)"

fun body_u32s :: "bytes \<Rightarrow> u32 list" where
  "body_u32s (a # b # d # e # rest) = u32_from_le a b d e # body_u32s rest"
| "body_u32s _ = []"

definition agreed_capacity :: "u32 \<Rightarrow> nat" where
  "agreed_capacity x = min (max (unat x) 4) 255"

text \<open>The controller mode to ask for: none when the device is already in a usable one.\<close>

definition wanted_mode :: "u32 \<Rightarrow> u32 list \<Rightarrow> error + controller_kind option" where
  "wanted_mode mode controllers =
     (if kind_from_id mode \<noteq> None then Inr None
      else case find (\<lambda>k. kind_id k \<in> set controllers) [WirelessProController, WiredController] of
             None \<Rightarrow> Inl (Unsupported ''device offers no Switch controller'')
           | Some k \<Rightarrow> Inr (Some k))"

definition settle_mode :: "u32 \<Rightarrow> nat \<Rightarrow> client \<Rightarrow> (error + controller_kind) \<times> client" where
  "settle_mode mode capacity c =
     (case kind_from_id mode of
        None \<Rightarrow> (Inl (Unsupported ''device stayed in controller mode''), c)
      | Some k \<Rightarrow> (Inr k, c\<lparr>cs_kind := k, cs_queue_capacity := capacity\<rparr>))"

section \<open>Requests\<close>

text \<open>The loop that chooses the id of a request: the next one that is not 0 and not in use.\<close>

partial_function (option) free_request_id :: "(u8 \<rightharpoonup> message option) \<Rightarrow> u8 \<Rightarrow> u8 option" where
  "free_request_id responses i =
     (if i = 0 \<or> responses i \<noteq> None then free_request_id responses (i + 1) else Some i)"

definition begin_query :: "client \<Rightarrow> (u8 \<times> client) option" where
  "begin_query c =
     map_option (\<lambda>i. (i, c\<lparr>cs_request_seq := i + 1, cs_responses := (cs_responses c)(i \<mapsto> None)\<rparr>))
       (free_request_id (cs_responses c) (cs_request_seq c))"

definition end_query :: "u8 \<Rightarrow> client \<Rightarrow> (error + message) \<times> client" where
  "end_query i c =
     (let c' = c\<lparr>cs_responses := (cs_responses c)(i := None)\<rparr> in
      case cs_responses c i of
        Some (Some reply) \<Rightarrow>
          if ms_opcode reply = REQUEST_DROPPED then (Inl (Device ''device dropped request''), c')
          else (Inr reply, c')
      | _ \<Rightarrow> (Inl (Device ''no response to request''), c'))"

text \<open>\<open>send_message\<close> waits until the message fits next to what is unacknowledged, then streams it.\<close>

definition send_fits :: "client \<Rightarrow> nat \<Rightarrow> bool" where
  "send_fits c n \<longleftrightarrow>
     unacked_count (cs_link c) + packets_for (cs_link c) n
       \<le> max (cs_max_unacked c) (packets_for (cs_link c) n)"

definition client_send :: "u8 \<Rightarrow> u8 \<Rightarrow> bytes \<Rightarrow> client \<Rightarrow> (bytes \<times> client) option" where
  "client_send opcode i body c =
     map_option (\<lambda>(wire, l). (wire, c\<lparr>cs_link := l\<rparr>))
       (send_stream (cs_link c) (encode_message (new_message opcode i body)))"

section \<open>Commands\<close>

text \<open>A hold of so many milliseconds, cut into pieces that fit the 16 bits of a command.\<close>

function hold_chunks :: "button_set \<Rightarrow> nat \<Rightarrow> (button_set \<times> u16) list" where
  "hold_chunks buttons ms =
     (if ms = 0 then []
      else let chunk = min ms 65535 in (buttons, of_nat chunk) # hold_chunks buttons (ms - chunk))"
  by pat_completeness auto
termination by (relation "measure snd") auto

declare hold_chunks.simps [simp del]

definition duration_ms :: "nanos \<Rightarrow> nat" where
  "duration_ms d = (d + 999999) div 1000000 mod 2 ^ 64"

text \<open>Handing local holds over while the device has queue space. The flag tells whether every
  write succeeded.\<close>

function pump :: "(bytes \<Rightarrow> bool) \<Rightarrow> client \<Rightarrow> (bytes \<times> client \<times> bool) option" where
  "pump wr c =
     (if card (cs_in_flight c) < cs_queue_capacity c \<and> unacked_count (cs_link c) < cs_max_unacked c
      then
        if cs_next_command_id c \<in> cs_in_flight c then Some ([], c, True)
        else case cs_local c of
          [] \<Rightarrow> Some ([], c, True)
        | (buttons, ms) # rest \<Rightarrow>
            (case send_stream (cs_link c)
                (encode_message (encode_command (cs_kind c) (cs_next_command_id c) buttons ms)) of
               None \<Rightarrow> None
             | Some (wire, l) \<Rightarrow>
                 let c' = c\<lparr>cs_link := l, cs_local := rest,
                       cs_in_flight := insert (cs_next_command_id c) (cs_in_flight c),
                       cs_next_command_id := cs_next_command_id c + 1\<rparr>
                 in if wire \<noteq> [] \<and> \<not> wr wire then Some (wire, c', False)
                    else map_option (\<lambda>(wires, r). (wire @ wires, r)) (pump wr c'))
      else Some ([], c, True))"
  by pat_completeness auto
termination by (relation "measure (\<lambda>(wr, c). length (cs_local c))") auto

declare pump.simps [simp del]

record controller_receipt =
  rc_command_id :: nat
  rc_issued_at :: nanos
  rc_input_duration :: nanos

record host_controller =
  hc_client :: client
  hc_profile :: press_profile
  hc_next_receipt :: nat

definition queue_holds :: "timed_input list \<Rightarrow> (button_set \<times> u16) list" where
  "queue_holds ts = concat (map (\<lambda>t. hold_chunks (ti_buttons t) (duration_ms (ti_duration t))) ts)"

definition disconnected :: "client_failure \<Rightarrow> error" where
  "disconnected f = Disconnected (case f of Read_failed s \<Rightarrow> s | Write_failed \<Rightarrow> ''serial write failed'')"

definition execute_host :: "(bytes \<Rightarrow> bool) \<Rightarrow> nanos \<Rightarrow> controller_command \<Rightarrow> host_controller
    \<Rightarrow> (bytes \<times> host_controller \<times> (error + controller_receipt)) option" where
  "execute_host wr now command h =
     (let i = hc_next_receipt h;
          h = h\<lparr>hc_next_receipt := i + 1\<rparr>;
          c = hc_client h;
          receipt = (\<lambda>d. \<lparr>rc_command_id = i, rc_issued_at = now, rc_input_duration = d\<rparr>)
      in case cs_failure c of
        Some f \<Rightarrow> Some ([], h, Inl (disconnected f))
      | None \<Rightarrow>
          if command = Neutral then
            let c1 = c\<lparr>cs_local := []\<rparr> in
            if cs_in_flight c1 = {} then Some ([], h\<lparr>hc_client := c1\<rparr>, Inr (receipt 0))
            else case send_stream (cs_link c1) (encode_message (new_message CQ_CANCEL 0 [])) of
                None \<Rightarrow> None
              | Some (wire, l) \<Rightarrow>
                  let h' = h\<lparr>hc_client := c1\<lparr>cs_in_flight := {}, cs_link := l\<rparr>\<rparr> in
                  Some (wire, h', if wire = [] \<or> wr wire then Inr (receipt 0)
                                  else Inl (disconnected Write_failed))
          else
            let ts = timeline command (hc_profile h);
                c1 = c\<lparr>cs_local := cs_local c @ queue_holds ts\<rparr>
            in map_option (\<lambda>(wire, c2, ok). (wire, h\<lparr>hc_client := c2\<rparr>,
                 if ok then Inr (receipt (sum_list (map ti_duration ts)))
                 else Inl (disconnected Write_failed)))
               (pump wr c1))"

definition host_is_idle :: "client \<Rightarrow> error + bool" where
  "host_is_idle c =
     (case cs_failure c of
        Some f \<Rightarrow> Inl (disconnected f)
      | None \<Rightarrow> Inr (cs_local c = [] \<and> cs_in_flight c = {}))"

section \<open>What the device sends\<close>

definition log_device :: "client_log \<Rightarrow> client \<Rightarrow> client" where
  "log_device line c =
     c\<lparr>cs_device_log :=
        (if length (cs_device_log c) = DEVICE_LOG_LINES then tl (cs_device_log c)
         else cs_device_log c) @ [line]\<rparr>"

definition take_device_log :: "client \<Rightarrow> client_log list \<times> client" where
  "take_device_log c = (cs_device_log c, c\<lparr>cs_device_log := []\<rparr>)"

definition host_on_message :: "message \<Rightarrow> client \<Rightarrow> client" where
  "host_on_message m c =
     (let opc = ms_opcode m; i = ms_id m in
      if opc = CQ_COMMAND_FINISHED then c\<lparr>cs_in_flight := cs_in_flight c - {i}\<rparr>
      else if opc = CQ_COMMAND_DROPPED then
        log_device (Command_dropped i) (c\<lparr>cs_in_flight := cs_in_flight c - {i}\<rparr>)
      else if opc \<in> {RET, RET_U32, RET_DATA, RET_U32_DATA, REQUEST_DROPPED} then
        (if cs_responses c i \<noteq> None then c\<lparr>cs_responses := (cs_responses c)(i \<mapsto> Some m)\<rparr> else c)
      else if opc \<in> {LOG_STRING, LOG_LABEL_H32, LOG_LABEL_U32, LOG_LABEL_I32} then
        log_device (Device_text (ms_body m)) c
      else log_device (Unhandled_message opc) c)"

definition host_on_stream :: "packet \<Rightarrow> client \<Rightarrow> (bytes \<times> client) option" where
  "host_on_stream p c =
     (case accept_stream (cs_link c) (pk_seq p) (pk_payload p) of (acked, l) \<Rightarrow>
      case (if acked
            then out_of_band l (pk_seq p) RET_STREAM_DATA (u32_to_le (of_nat (free_bytes l)))
            else Some []) of
        None \<Rightarrow> None
      | Some out \<Rightarrow>
          (case take_stream l of (bytes, l') \<Rightarrow>
           case push_reader (cs_messages c) bytes of (ms, r) \<Rightarrow>
             Some (out, fold host_on_message ms (c\<lparr>cs_link := l', cs_messages := r\<rparr>))))"

definition host_on_packet :: "packet \<Rightarrow> client \<Rightarrow> (bytes \<times> client) option" where
  "host_on_packet p c =
     (let opc = base_opcode p in
      if opc \<in> {RET_RESET, RET_STREAM_DATA} then
        Some ([], c\<lparr>cs_link := snd (acknowledge (cs_link c) (pk_seq p))\<rparr>)
      else if opc \<in> {RET_VERSION, RET_PACKET_SIZE, RET_BUFFER_SLOTS, RET_BUFFER_BYTES} then
        let c' = c\<lparr>cs_link := snd (acknowledge (cs_link c) (pk_seq p))\<rparr> in
        Some ([], case payload_u32 p of
            None \<Rightarrow> c'
          | Some v \<Rightarrow> c'\<lparr>cs_link_replies := (cs_link_replies c')(opc \<mapsto> v)\<rparr>)
      else if opc = ASK_STREAM_DATA then host_on_stream p c
      else if opc \<in> {INVALID_LENGTH, INVALID_CHECKSUM_FAIL} then
        Some ([], log_device (Device_rejected (pk_seq p) opc) c)
      else if opc = UNKNOWN_OPCODE then Some ([], log_device (Not_understood (payload_u32 p)) c)
      else if opc = INFO_STR then Some ([], log_device (Device_text (pk_payload p)) c)
      else Some ([], log_device (Info_packet opc) c))"

definition host_on_parsed :: "parsed \<Rightarrow> client \<Rightarrow> (bytes \<times> client) option" where
  "host_on_parsed x c =
     (case x of
        Valid p \<Rightarrow> host_on_packet p c
      | Invalid _ \<Rightarrow> Some ([], log_device Malformed_packet c)
      | ChecksumFail _ \<Rightarrow> Some ([], log_device Bad_checksum c))"

text \<open>One turn of the reader thread: what was read, whether the retransmission tick is due, and
  then the pump; a failed write is the failure every later call reports.\<close>

definition reader_turn :: "(bytes \<Rightarrow> bool) \<Rightarrow> bytes \<Rightarrow> bool \<Rightarrow> client \<Rightarrow> (bytes \<times> client) option" where
  "reader_turn wr received tick_due c =
     (case parse_link (cs_link c) received of (found, l) \<Rightarrow>
      case run_all host_on_parsed found (c\<lparr>cs_link := l\<rparr>) of
        None \<Rightarrow> None
      | Some (out, c1) \<Rightarrow>
          (let (again, c2) = (if tick_due
                  then case tick_link (cs_link c1) of (w, l') \<Rightarrow> (w, c1\<lparr>cs_link := l'\<rparr>)
                  else ([], c1));
               outgoing = out @ again
           in if outgoing \<noteq> [] \<and> \<not> wr outgoing
              then Some (outgoing, c2\<lparr>cs_failure := Some Write_failed\<rparr>)
              else map_option (\<lambda>(wire, c3, ok). (outgoing @ wire,
                     if ok then c3 else c3\<lparr>cs_failure := Some Write_failed\<rparr>)) (pump wr c2)))"

text \<open>\<open>Drop\<close> releases everything.\<close>

definition drop_host :: "(bytes \<Rightarrow> bool) \<Rightarrow> nanos \<Rightarrow> host_controller
    \<Rightarrow> (bytes \<times> host_controller) option" where
  "drop_host wr now h = map_option (\<lambda>(wire, h', _). (wire, h')) (execute_host wr now Neutral h)"

section \<open>Holds are cut without loss\<close>

lemma hold_chunks_0 [simp]: "hold_chunks b 0 = []"
  by (simp add: hold_chunks.simps)

lemma hold_chunks_sum: "sum_list (map (\<lambda>h. unat (snd h)) (hold_chunks b ms)) = ms"
proof (induction b ms rule: hold_chunks.induct)
  case (1 b ms)
  have "unat (of_nat (min ms 65535) :: u16) = min ms 65535"
    by (simp add: unsigned_of_nat take_bit_nat_eq_self)
  then show ?case using 1 by (cases "ms = 0") (simp_all add: hold_chunks.simps [of b ms] Let_def)
qed

lemma hold_chunks_each: "list_all (\<lambda>h. fst h = b \<and> snd h \<noteq> 0) (hold_chunks b ms)"
proof (induction b ms rule: hold_chunks.induct)
  case (1 b ms)
  have u: "unat (of_nat (min ms 65535) :: u16) = min ms 65535"
    by (simp add: unsigned_of_nat take_bit_nat_eq_self)
  have "(of_nat (min ms 65535) :: u16) \<noteq> 0" if "ms \<noteq> 0"
  proof
    assume "(of_nat (min ms 65535) :: u16) = 0"
    then have "unat (of_nat (min ms 65535) :: u16) = 0" by (simp only: unsigned_0)
    then show False using u that by simp
  qed
  then show ?case using 1 by (cases "ms = 0") (simp_all add: hold_chunks.simps [of b ms] Let_def)
qed

lemma duration_ms_covers:
  assumes "d < 2 ^ 64 * 1000000 - 1000000"
  shows "d \<le> duration_ms d * 1000000" "duration_ms d * 1000000 < d + 1000000"
proof -
  let ?q = "(d + 999999) div 1000000"
  have "?q < 2 ^ 64" using assms by (simp add: less_mult_imp_div_less)
  then have q: "duration_ms d = ?q" by (simp add: duration_ms_def)
  have "?q * 1000000 + (d + 999999) mod 1000000 = d + 999999" by (rule div_mult_mod_eq)
  moreover have "(d + 999999) mod 1000000 < 1000000" by simp
  ultimately show "d \<le> duration_ms d * 1000000" "duration_ms d * 1000000 < d + 1000000"
    unfolding q by linarith+
qed

section \<open>Handing over\<close>

fun send_all :: "link \<Rightarrow> bytes list \<Rightarrow> (bytes \<times> link) option" where
  "send_all l [] = Some ([], l)"
| "send_all l (b # bs) =
    (case send_stream l b of
       None \<Rightarrow> None
     | Some (w, l1) \<Rightarrow> map_option (\<lambda>(ws, l2). (w @ ws, l2)) (send_all l1 bs))"

fun command_messages :: "controller_kind \<Rightarrow> u8 \<Rightarrow> (button_set \<times> u16) list \<Rightarrow> bytes list" where
  "command_messages kind i [] = []"
| "command_messages kind i ((b, ms) # hs) =
    encode_message (encode_command kind i b ms) # command_messages kind (i + 1) hs"

definition same_but_handover :: "client \<Rightarrow> client \<Rightarrow> bool" where
  "same_but_handover c c' \<longleftrightarrow>
    c' = c\<lparr>cs_link := cs_link c', cs_local := cs_local c', cs_in_flight := cs_in_flight c',
      cs_next_command_id := cs_next_command_id c'\<rparr>"

text \<open>What a pump did: some of the waiting holds, from the front and in order, were sent as commands
  with consecutive ids none of which was in flight.\<close>

definition handed_over :: "client \<Rightarrow> (button_set \<times> u16) list \<Rightarrow> bytes \<Rightarrow> client \<Rightarrow> bool" where
  "handed_over c taken wire c' \<longleftrightarrow>
    cs_local c = taken @ cs_local c' \<and>
    send_all (cs_link c) (command_messages (cs_kind c) (cs_next_command_id c) taken)
      = Some (wire, cs_link c') \<and>
    cs_next_command_id c' = cs_next_command_id c + of_nat (length taken) \<and>
    cs_in_flight c' = cs_in_flight c \<union> (\<lambda>k. cs_next_command_id c + of_nat k) ` {..<length taken} \<and>
    card (cs_in_flight c') = card (cs_in_flight c) + length taken \<and>
    same_but_handover c c'"

lemma handed_over_none: "handed_over c [] [] c"
  by (simp add: handed_over_def same_but_handover_def)

lemma handed_over_step:
  assumes l: "cs_local c = (b, ms) # rest" and fresh: "cs_next_command_id c \<notin> cs_in_flight c"
    and s: "send_stream (cs_link c)
      (encode_message (encode_command (cs_kind c) (cs_next_command_id c) b ms)) = Some (w, l1)"
    and h: "handed_over (c\<lparr>cs_link := l1, cs_local := rest,
        cs_in_flight := insert (cs_next_command_id c) (cs_in_flight c),
        cs_next_command_id := cs_next_command_id c + 1\<rparr>) taken ws c'"
  shows "handed_over c ((b, ms) # taken) (w @ ws) c'"
proof -
  have "(\<lambda>k. cs_next_command_id c + of_nat k) ` {..<Suc (length taken)}
      = insert (cs_next_command_id c) ((\<lambda>k. cs_next_command_id c + 1 + of_nat k) ` {..<length taken})"
    by (auto simp: lessThan_Suc_eq_insert_0 image_image add.assoc)
  then show ?thesis
    using assms unfolding handed_over_def same_but_handover_def
    by (auto simp: add.assoc)
qed

abbreviation sent_one :: "client \<Rightarrow> link \<Rightarrow> (button_set \<times> u16) list \<Rightarrow> client" where
  "sent_one c l rest \<equiv> c\<lparr>cs_link := l, cs_local := rest,
     cs_in_flight := insert (cs_next_command_id c) (cs_in_flight c),
     cs_next_command_id := cs_next_command_id c + 1\<rparr>"

lemma pump_cases:
  obtains (stop) "pump wr c = Some ([], c, True)"
  | (panic) "pump wr c = None" "\<exists>m. send_stream (cs_link c) m = None"
  | (hand) b ms rest w l where
      "card (cs_in_flight c) < cs_queue_capacity c" "unacked_count (cs_link c) < cs_max_unacked c"
      "cs_next_command_id c \<notin> cs_in_flight c" "cs_local c = (b, ms) # rest"
      "send_stream (cs_link c)
        (encode_message (encode_command (cs_kind c) (cs_next_command_id c) b ms)) = Some (w, l)"
      "pump wr c = (if w \<noteq> [] \<and> \<not> wr w then Some (w, sent_one c l rest, False)
        else map_option (\<lambda>(wires, r). (w @ wires, r)) (pump wr (sent_one c l rest)))"
proof (cases "card (cs_in_flight c) < cs_queue_capacity c \<and> unacked_count (cs_link c) < cs_max_unacked c
    \<and> cs_next_command_id c \<notin> cs_in_flight c \<and> cs_local c \<noteq> []")
  case False
  then have "pump wr c = Some ([], c, True)"
    by (subst pump.simps) (auto split: list.splits)
  then show thesis by (rule stop)
next
  case True
  then obtain b ms rest where l: "cs_local c = (b, ms) # rest" by (cases "cs_local c") auto
  let ?s = "send_stream (cs_link c)
    (encode_message (encode_command (cs_kind c) (cs_next_command_id c) b ms))"
  show thesis
  proof (cases ?s)
    case None
    then have "pump wr c = None" using True l by (subst pump.simps) simp
    then show thesis using None by (intro panic) blast+
  next
    case (Some x)
    then obtain w l1 where s: "?s = Some (w, l1)" by (cases x) auto
    have "pump wr c = (if w \<noteq> [] \<and> \<not> wr w then Some (w, sent_one c l1 rest, False)
        else map_option (\<lambda>(wires, r). (w @ wires, r)) (pump wr (sent_one c l1 rest)))"
      using True l s by (subst pump.simps) (simp add: Let_def)
    with True l s show thesis by (intro hand [of b ms rest w l1]) simp_all
  qed
qed

lemma pump_hands_over:
  "pump wr c = Some (wire, c', ok) \<Longrightarrow> \<exists>taken. handed_over c taken wire c'"
proof (induction "length (cs_local c)" arbitrary: c wire rule: less_induct)
  case less
  show ?case
  proof (cases rule: pump_cases [of wr c])
    case stop
    then show ?thesis using less.prems handed_over_none by auto
  next
    case panic
    then show ?thesis using less.prems by simp
  next
    case (hand b ms rest w l)
    show ?thesis
    proof (cases "w \<noteq> [] \<and> \<not> wr w")
      case True
      then have "wire = w @ []" "c' = sent_one c l rest" using less.prems hand(6) by auto
      with handed_over_step [OF hand(4,3,5) handed_over_none] show ?thesis by metis
    next
      case False
      then obtain ws where p: "pump wr (sent_one c l rest) = Some (ws, c', ok)" "wire = w @ ws"
        using less.prems hand(6) by auto
      then obtain taken where "handed_over (sent_one c l rest) taken ws c'"
        using less.hyps [OF _ p(1)] hand(4) by auto
      then show ?thesis using handed_over_step [OF hand(4,3,5)] p(2) by metis
    qed
  qed
qed

lemma pump_within_capacity:
  "pump wr c = Some (wire, c', ok) \<Longrightarrow> card (cs_in_flight c) \<le> cs_queue_capacity c \<Longrightarrow>
    card (cs_in_flight c') \<le> cs_queue_capacity c"
proof (induction "length (cs_local c)" arbitrary: c wire rule: less_induct)
  case less
  show ?case
  proof (cases rule: pump_cases [of wr c])
    case stop
    then show ?thesis using less.prems by simp
  next
    case panic
    then show ?thesis using less.prems by simp
  next
    case (hand b ms rest w l)
    have cap: "card (cs_in_flight (sent_one c l rest)) \<le> cs_queue_capacity c"
      using hand(1,3) by simp
    show ?thesis
    proof (cases "w \<noteq> [] \<and> \<not> wr w")
      case True
      then show ?thesis using less.prems(1) hand(6) cap by auto
    next
      case False
      then obtain ws where "pump wr (sent_one c l rest) = Some (ws, c', ok)"
        using less.prems(1) hand(6) by auto
      then show ?thesis using less.hyps [of "sent_one c l rest" ws] hand(4) cap by simp
    qed
  qed
qed

lemma pump_total: "roomy (cs_link c) \<Longrightarrow> \<exists>wire c' ok. pump wr c = Some (wire, c', ok) \<and> roomy (cs_link c')"
proof (induction "length (cs_local c)" arbitrary: c rule: less_induct)
  case less
  show ?case
  proof (cases rule: pump_cases [of wr c])
    case stop
    then show ?thesis using less.prems by blast
  next
    case panic
    then obtain m where "send_stream (cs_link c) m = None" by blast
    with send_stream_total [OF less.prems, of m] show ?thesis by simp
  next
    case (hand b ms rest w l)
    obtain w' l' where "send_stream (cs_link c)
        (encode_message (encode_command (cs_kind c) (cs_next_command_id c) b ms)) = Some (w', l')" "roomy l'"
      using send_stream_total [OF less.prems] by blast
    then have "roomy l" using hand(5) by simp
    then show ?thesis
      using less.hyps [of "sent_one c l rest"] hand(4,6) by fastforce
  qed
qed

section \<open>The properties of the host\<close>

definition outstanding :: "client \<Rightarrow> nat" where
  "outstanding c = length (cs_local c) + card (cs_in_flight c)"

lemma handover_frame:
  assumes "same_but_handover c c'"
  shows "cs_failure c' = cs_failure c" "cs_queue_capacity c' = cs_queue_capacity c"
    "cs_kind c' = cs_kind c" "cs_max_unacked c' = cs_max_unacked c"
proof -
  note e = assms [unfolded same_but_handover_def]
  show "cs_failure c' = cs_failure c" by (subst e) simp
  show "cs_queue_capacity c' = cs_queue_capacity c" by (subst e) simp
  show "cs_kind c' = cs_kind c" by (subst e) simp
  show "cs_max_unacked c' = cs_max_unacked c" by (subst e) simp
qed

lemma pump_outstanding:
  assumes "pump wr c = Some (wire, c', ok)"
  shows "outstanding c' = outstanding c" "cs_failure c' = cs_failure c"
proof -
  obtain taken where h: "handed_over c taken wire c'" using pump_hands_over [OF assms] by blast
  then show "cs_failure c' = cs_failure c" by (simp add: handed_over_def handover_frame)
  have "cs_local c = taken @ cs_local c'" "card (cs_in_flight c') = card (cs_in_flight c) + length taken"
    using h unfolding handed_over_def by blast+
  then show "outstanding c' = outstanding c" by (simp only: outstanding_def length_append)
qed

text \<open>C27: \<open>pump\<close> hands the waiting holds over from the front and in order, each once, as commands
  whose consecutive ids are not in flight; the device never has more of them than its queue holds.\<close>

theorem pump_in_order:
  assumes "pump wr c = Some (wire, c', ok)" "card (cs_in_flight c) \<le> cs_queue_capacity c"
  shows "\<exists>taken. cs_local c = taken @ cs_local c' \<and>
      send_all (cs_link c) (command_messages (cs_kind c) (cs_next_command_id c) taken)
        = Some (wire, cs_link c') \<and>
      cs_in_flight c' = cs_in_flight c \<union> (\<lambda>k. cs_next_command_id c + of_nat k) ` {..<length taken} \<and>
      card (cs_in_flight c') = card (cs_in_flight c) + length taken \<and>
      card (cs_in_flight c') \<le> cs_queue_capacity c"
  using pump_hands_over [OF assms(1)] pump_within_capacity [OF assms]
  by (auto simp: handed_over_def)

definition demo_client :: client where
  "demo_client = new_client\<lparr>cs_link := new_link 7 64, cs_max_unacked := 8,
     cs_local := [(bs_single Button_A, 80), (bs_none, 80)]\<rparr>"

theorem pump_in_order_witness:
  "\<exists>wire c' ok. pump (\<lambda>_. True) demo_client = Some (wire, c', ok) \<and> card (cs_in_flight c') \<le> 4"
proof -
  have "roomy (cs_link demo_client)"
    by (simp add: demo_client_def new_link_def roomy_def STREAM_OVERHEAD_def packet_sizes)
  then obtain wire c' ok where p: "pump (\<lambda>_. True) demo_client = Some (wire, c', ok)"
    using pump_total by blast
  have "card (cs_in_flight demo_client) \<le> cs_queue_capacity demo_client"
    by (simp add: demo_client_def new_client_def)
  from pump_in_order [OF p this] p show ?thesis
    by (auto simp: demo_client_def new_client_def)
qed

text \<open>Executing a command queues, behind what waits, holds of exactly its timeline's buttons whose
  milliseconds add up to each duration rounded up to a millisecond; \<open>Neutral\<close> empties the host's
  queue, forgets what is in flight, and cancels the device's queue exactly when there was any.\<close>

lemma execute_host_effect:
  assumes "cs_failure (hc_client h) = None" "execute_host wr now command h = Some (wire, h', r)"
  shows "command \<noteq> Neutral \<Longrightarrow>
      outstanding (hc_client h')
        = outstanding (hc_client h) + length (queue_holds (timeline command (hc_profile h)))"
    and "command \<noteq> Neutral \<Longrightarrow> \<exists>taken. handed_over
        ((hc_client h)\<lparr>cs_local := cs_local (hc_client h) @ queue_holds (timeline command (hc_profile h))\<rparr>)
        taken wire (hc_client h')"
    and "command = Neutral \<Longrightarrow> host_is_idle (hc_client h') = Inr True \<and>
      (if cs_in_flight (hc_client h) = {} then wire = []
       else send_stream (cs_link (hc_client h)) (encode_message (new_message CQ_CANCEL 0 []))
              = Some (wire, cs_link (hc_client h')))"
proof -
  let ?c1 = "(hc_client h)\<lparr>cs_local := cs_local (hc_client h) @ queue_holds (timeline command (hc_profile h))\<rparr>"
  {
    assume "command \<noteq> Neutral"
    then obtain ok where p: "pump wr ?c1 = Some (wire, hc_client h', ok)"
      using assms by (auto simp: execute_host_def Let_def)
    show "outstanding (hc_client h')
        = outstanding (hc_client h) + length (queue_holds (timeline command (hc_profile h)))"
      using pump_outstanding(1) [OF p] by (simp add: outstanding_def)
    show "\<exists>taken. handed_over ?c1 taken wire (hc_client h')" by (rule pump_hands_over [OF p])
  }
  assume "command = Neutral"
  then show "host_is_idle (hc_client h') = Inr True \<and>
      (if cs_in_flight (hc_client h) = {} then wire = []
       else send_stream (cs_link (hc_client h)) (encode_message (new_message CQ_CANCEL 0 []))
              = Some (wire, cs_link (hc_client h')))"
    using assms by (auto simp: execute_host_def Let_def host_is_idle_def split: if_splits option.splits)
qed

lemma queue_holds_exact:
  "queue_holds ts = concat (map (\<lambda>t. hold_chunks (ti_buttons t) (duration_ms (ti_duration t))) ts)"
  "sum_list (map (\<lambda>h. unat (snd h)) (hold_chunks b ms)) = ms"
  "list_all (\<lambda>h. fst h = b \<and> snd h \<noteq> 0) (hold_chunks b ms)"
  by (simp_all add: queue_holds_def hold_chunks_sum hold_chunks_each)

text \<open>The holds queued for a duration add up to it, rounded up to the next millisecond, each of
  them for the same buttons and of at least one millisecond.\<close>

lemma hold_chunks_cover:
  assumes "d < 2 ^ 64 * 1000000 - 1000000"
  shows "d \<le> millis (sum_list (map (\<lambda>h. unat (snd h)) (hold_chunks b (duration_ms d))))"
    and "millis (sum_list (map (\<lambda>h. unat (snd h)) (hold_chunks b (duration_ms d)))) < d + millis 1"
    and "list_all (\<lambda>h. fst h = b \<and> snd h \<noteq> 0) (hold_chunks b (duration_ms d))"
  using duration_ms_covers [OF assms] by (simp_all add: hold_chunks_sum hold_chunks_each)

lemma free_request_id_sound:
  "free_request_id rs i = Some j \<Longrightarrow> j \<noteq> 0 \<and> rs j = None"
  by (rule free_request_id.raw_induct [where P = "\<lambda>rs i j. j \<noteq> 0 \<and> rs j = None"])
    (auto split: if_splits)

lemma free_request_id_steps:
  assumes "i + of_nat n \<noteq> 0" "rs (i + of_nat n) = None"
  shows "\<exists>j. free_request_id rs i = Some j"
  using assms
proof (induction n arbitrary: i)
  case 0
  then show ?case by (subst free_request_id.simps) simp
next
  case (Suc n)
  then have "\<exists>j. free_request_id rs (i + 1) = Some j"
    by (intro Suc.IH) (simp_all add: add.assoc)
  then show ?case by (subst free_request_id.simps) simp
qed

text \<open>Choosing the id of a request ends whenever some id other than 0 is not in use, and the id
  chosen is neither 0 nor in use.\<close>

lemma free_request_id_total:
  assumes "k \<noteq> 0" "cs_responses c k = None"
  shows "\<exists>j c'. begin_query c = Some (j, c') \<and> j \<noteq> 0 \<and> cs_responses c j = None \<and>
    cs_responses c' j = Some None"
proof -
  have "cs_request_seq c + of_nat (unat (k - cs_request_seq c)) = k" by simp
  then obtain j where "free_request_id (cs_responses c) (cs_request_seq c) = Some j"
    using free_request_id_steps [of "cs_request_seq c" "unat (k - cs_request_seq c)" "cs_responses c"] assms
    by auto
  with free_request_id_sound [OF this] show ?thesis by (simp add: begin_query_def)
qed

lemma host_on_message_link: "cs_link (fold host_on_message ms c) = cs_link c"
proof (induction ms arbitrary: c)
  case (Cons m ms)
  have "cs_link (host_on_message m c) = cs_link c"
    by (simp add: host_on_message_def log_device_def Let_def)
  with Cons show ?case by simp
qed simp

definition client_roomy :: "client \<Rightarrow> bool" where
  "client_roomy c \<longleftrightarrow> roomy (cs_link c)"

lemma host_on_stream_panic_free:
  assumes "client_roomy c"
  shows "panic_free client_roomy (host_on_stream p c)"
proof -
  obtain acked l where a: "accept_stream (cs_link c) (pk_seq p) (pk_payload p) = (acked, l)"
    by (cases "accept_stream (cs_link c) (pk_seq p) (pk_payload p)") auto
  have l: "roomy l" using roomy_frames(3) [of "cs_link c" "pk_seq p" "pk_payload p"] a assms
    by (simp add: client_roomy_def)
  obtain out where o: "(if acked
      then out_of_band l (pk_seq p) RET_STREAM_DATA (u32_to_le (of_nat (free_bytes l))) else Some []) = Some out"
    using encode_total [of "u32_to_le (of_nat (free_bytes l))" "pk_seq p" RET_STREAM_DATA "ln_session l"]
    by (cases acked) (auto simp: out_of_band_def)
  obtain bytes l' where t: "take_stream l = (bytes, l')" by (cases "take_stream l") auto
  obtain ms r where m: "push_reader (cs_messages c) bytes = (ms, r)"
    by (cases "push_reader (cs_messages c) bytes") auto
  show ?thesis
    using roomy_frames(5) [of l] l t
    by (simp add: host_on_stream_def a o m panic_free_def client_roomy_def host_on_message_link)
qed

lemma host_on_parsed_panic_free:
  assumes "client_roomy c"
  shows "panic_free client_roomy (host_on_parsed x c)"
proof (cases x)
  case (Valid p)
  have "panic_free client_roomy (host_on_packet p c)"
    using assms roomy_frames(4) host_on_stream_panic_free [OF assms, of p]
    unfolding host_on_packet_def Let_def
    by (auto simp: client_roomy_def log_device_def panic_freeI split: option.splits)
  then show ?thesis using Valid by (simp add: host_on_parsed_def)
qed (use assms in \<open>simp_all add: host_on_parsed_def panic_freeI client_roomy_def log_device_def\<close>)



end
