(* ===== verification/Wifi_Client.thy ===== *)
theory Wifi_Client
  imports Switch_Layout "HOL-Library.AList"
begin

text \<open>
  adapters/esp32-wifi/src/lib.rs: the host side of the WiFi controller, a \<open>SwitchController\<close> over a
  socket that may break. Modelled are the state the reader thread shares with the caller (what is
  outstanding, when the device's queue will have played, whether the link is lost), the rules by
  which a command counts as accepted or finished, and the control flow of \<open>execute\<close> and of the
  reconnection over the outcomes of each attempt (a write, a reply or its absence, a new
  connection), which are arguments: the socket, the threads and the JSON lines are not modelled. A
  \<open>HashMap\<close> is an association list; times are nanoseconds.
\<close>

type_synonym u64 = "64 word"

definition REQUEST_TIMEOUT :: nanos where "REQUEST_TIMEOUT = millis 2000"
definition FINISH_GRACE :: nanos where "FINISH_GRACE = millis 2000"
definition MAX_RECONNECT_BACKOFF :: nanos where "MAX_RECONNECT_BACKOFF = millis 4000"
definition LOCAL_ID :: u64 where "LOCAL_ID = push_bit 63 1"
definition RECONNECT_INTERVAL :: nanos where "RECONNECT_INTERVAL = millis 500"

section \<open>Messages\<close>

record wifi_status =
  st_seq :: "u64 option"
  st_idle :: bool
  st_pending :: nat
  st_usb_mounted :: bool
  st_usb_suspended :: bool
  st_keepalive_secs :: "nat option"
  st_keepalives :: nat

datatype device_message =
    Hello string string u32 string
  | Accepted u64 u64 nat
  | Rejected u64 string
  | Finished u64 bool
  | Status wifi_status
  | Error_line string

section \<open>The shared state\<close>

record wifi_config =
  wc_profile :: press_profile
  wc_unreachable_limit :: nanos
  wc_reconnect_backoff :: nanos

definition default_wifi_config :: wifi_config where
  "default_wifi_config =
    \<lparr>wc_profile = default_profile, wc_unreachable_limit = millis 30000,
     wc_reconnect_backoff = RECONNECT_INTERVAL\<rparr>"

record wifi_state =
  ws_replies :: "(u64 \<times> device_message) list"
  ws_outstanding :: "(u64 \<times> nanos) list"
  ws_queue_end :: "nanos option"
  ws_failure :: "string option"
  ws_down_since :: "nanos option"
  ws_inferred :: nat

definition fresh_state :: "nanos option \<Rightarrow> wifi_state" where
  "fresh_state down_since =
    \<lparr>ws_replies = [], ws_outstanding = [], ws_queue_end = None, ws_failure = None,
     ws_down_since = down_since, ws_inferred = 0\<rparr>"

record wifi_receipt =
  wr_command_id :: u64
  wr_issued_at :: nanos
  wr_input_duration :: nanos

text \<open>Books an accepted command: when it will have played, behind what is queued, and when its finish
  is inferred if never reported.\<close>

definition book :: "u64 \<Rightarrow> nanos \<Rightarrow> nanos \<Rightarrow> wifi_state \<Rightarrow> wifi_state" where
  "book i input now s =
    (let start = (case ws_queue_end s of None \<Rightarrow> now | Some e \<Rightarrow> max e now);
         finish = start + input
     in s\<lparr>ws_queue_end := Some finish,
          ws_outstanding := AList.update i (finish + FINISH_GRACE) (ws_outstanding s)\<rparr>)"

definition wifi_accepted :: "u64 \<Rightarrow> nanos \<Rightarrow> bool \<Rightarrow> nanos \<Rightarrow> wifi_state \<Rightarrow> wifi_receipt \<times> wifi_state" where
  "wifi_accepted i input neutral now s =
    (\<lparr>wr_command_id = i, wr_issued_at = now, wr_input_duration = input\<rparr>,
     if neutral then
       s\<lparr>ws_outstanding :=
           (if map_of (ws_outstanding s) i \<noteq> None then [(i, now + FINISH_GRACE)] else []),
         ws_queue_end := None\<rparr>
     else s)"

definition accepted_inferred :: "u64 \<Rightarrow> nanos \<Rightarrow> nanos \<Rightarrow> wifi_state \<Rightarrow> wifi_receipt \<times> wifi_state" where
  "accepted_inferred seq input now s =
    (let i = LOCAL_ID OR seq in
     (\<lparr>wr_command_id = i, wr_issued_at = now, wr_input_duration = input\<rparr>, book i input now s))"

definition fail_link :: "string \<Rightarrow> nanos \<Rightarrow> wifi_state \<Rightarrow> wifi_state" where
  "fail_link reason now s =
    s\<lparr>ws_failure := (case ws_failure s of None \<Rightarrow> Some reason | f \<Rightarrow> f),
      ws_down_since := (case ws_down_since s of None \<Rightarrow> Some now | d \<Rightarrow> d)\<rparr>"

definition check_link :: "wifi_state \<Rightarrow> error + unit" where
  "check_link s = (case ws_failure s of Some f \<Rightarrow> Inl (Disconnected f) | None \<Rightarrow> Inr ())"

text \<open>One message of the device in the reader thread.\<close>

definition read_one :: "nanos \<Rightarrow> device_message \<Rightarrow> wifi_state \<Rightarrow> wifi_state" where
  "read_one now message s0 =
    (let s = s0\<lparr>ws_down_since := None\<rparr> in
     case message of
       Accepted seq i input_ms \<Rightarrow>
         (book i (millis input_ms) now s)\<lparr>ws_replies := AList.update seq message (ws_replies s)\<rparr>
     | Rejected seq _ \<Rightarrow> s\<lparr>ws_replies := AList.update seq message (ws_replies s)\<rparr>
     | Status st \<Rightarrow>
         (case st_seq st of
            Some seq \<Rightarrow> s\<lparr>ws_replies := AList.update seq message (ws_replies s)\<rparr>
          | None \<Rightarrow> s)
     | Finished i _ \<Rightarrow> s\<lparr>ws_outstanding := AList.delete i (ws_outstanding s)\<rparr>
     | Error_line text \<Rightarrow>
         s\<lparr>ws_failure := (case ws_failure s of None \<Rightarrow> Some text | f \<Rightarrow> f)\<rparr>
     | Hello _ _ _ _ \<Rightarrow> s)"

text \<open>One look of \<open>wait_reply\<close>, at time \<open>now\<close>: the reply, a failure, or keep waiting.\<close>

datatype wait_look = Reply device_message | Lost string | Keep_waiting

definition look_for_reply :: "u64 \<Rightarrow> nanos \<Rightarrow> nanos \<Rightarrow> wifi_state \<Rightarrow> wait_look \<times> wifi_state" where
  "look_for_reply seq deadline now s =
    (case map_of (ws_replies s) seq of
       Some reply \<Rightarrow> (Reply reply, s\<lparr>ws_replies := AList.delete seq (ws_replies s)\<rparr>)
     | None \<Rightarrow>
         (case ws_failure s of
            Some f \<Rightarrow> (Lost f, s)
          | None \<Rightarrow>
              if now \<ge> deadline then (Lost ''no reply'', fail_link ''no reply'' now s)
              else (Keep_waiting, s)))"

definition wifi_is_idle :: "nanos \<Rightarrow> nanos \<Rightarrow> wifi_state \<Rightarrow> (error + bool) \<times> wifi_state" where
  "wifi_is_idle limit now s =
    (let due = filter (\<lambda>(_, deadline). deadline \<le> now) (ws_outstanding s);
         s' = s\<lparr>ws_outstanding := filter (\<lambda>(_, deadline). \<not> deadline \<le> now) (ws_outstanding s),
                ws_inferred := ws_inferred s + length due\<rparr>
     in case (ws_failure s', ws_down_since s') of
          (Some f, Some since) \<Rightarrow>
            if now - since \<ge> limit then (Inl (Disconnected f), s')
            else (Inr (ws_outstanding s' = []), s')
        | _ \<Rightarrow> (Inr (ws_outstanding s' = []), s'))"

definition console_link_of :: "wifi_status \<Rightarrow> console_link" where
  "console_link_of st =
    (case (st_usb_mounted st, st_usb_suspended st) of
       (True, False) \<Rightarrow> Attached | (True, True) \<Rightarrow> Suspended | (False, _) \<Rightarrow> Detached)"

section \<open>Executing a command over an unreliable link\<close>

text \<open>What the environment does in one turn of the loop of \<open>execute\<close>: restoring the link fails for
  good; the line does not leave the host; the device accepts, rejects or answers something else; or
  no answer comes.\<close>

datatype attempt =
    Unreachable error
  | Not_sent
  | Answer_accepted u64 nat
  | Answer_rejected string
  | Answer_other
  | No_answer

text \<open>Whether the line of the command left this host in that turn.\<close>

fun line_left :: "attempt \<Rightarrow> bool" where
  "line_left (Unreachable _) = False"
| "line_left Not_sent = False"
| "line_left _ = True"

record 'a run =
  run_result :: 'a
  run_seq :: u64
  run_state :: wifi_state
  run_sent :: nat

text \<open>The loop: the next sequence number, the lines that left the host so far, and the outcome.
  \<open>None\<close> when the attempts given are used up.\<close>

fun execute_wifi :: "bool \<Rightarrow> nanos \<Rightarrow> nanos \<Rightarrow> attempt list \<Rightarrow> u64 \<Rightarrow> nat \<Rightarrow> wifi_state
    \<Rightarrow> (error + wifi_receipt) run option" where
  "execute_wifi neutral input now [] seq sent s = None"
| "execute_wifi neutral input now (a # rest) seq sent s =
    (case a of
       Unreachable e \<Rightarrow>
         Some \<lparr>run_result = Inl e, run_seq = seq, run_state = s, run_sent = sent\<rparr>
     | Not_sent \<Rightarrow> execute_wifi neutral input now rest (seq + 1) sent s
     | Answer_accepted i input_ms \<Rightarrow>
         (case wifi_accepted i (millis input_ms) neutral now s of (r, s') \<Rightarrow>
           Some \<lparr>run_result = Inr r, run_seq = seq + 1, run_state = s', run_sent = sent + 1\<rparr>)
     | Answer_rejected reason \<Rightarrow>
         Some \<lparr>run_result = Inl (Device reason), run_seq = seq + 1, run_state = s, run_sent = sent + 1\<rparr>
     | Answer_other \<Rightarrow>
         Some \<lparr>run_result = Inl (Device ''unexpected reply''), run_seq = seq + 1, run_state = s,
               run_sent = sent + 1\<rparr>
     | No_answer \<Rightarrow>
         if neutral then execute_wifi neutral input now rest (seq + 1) (sent + 1) s
         else (case accepted_inferred seq input now s of (r, s') \<Rightarrow>
           Some \<lparr>run_result = Inr r, run_seq = seq + 1, run_state = s', run_sent = sent + 1\<rparr>))"

section \<open>Restoring the link\<close>

text \<open>One turn of the loop of \<open>ensure_connected\<close>: the time since the first try at its top, whether a
  connection opened and its \<open>Neutral\<close> was answered, and the time at its end.\<close>

datatype reopening = Open_failed | Neutral_failed | Restored

fun reconnect :: "nanos \<Rightarrow> nanos \<Rightarrow> (nanos \<times> reopening \<times> nanos) list \<Rightarrow> nat
    \<Rightarrow> (bool \<times> nat \<times> nanos list) option" where
  "reconnect limit backoff [] tries = None"
| "reconnect limit backoff ((trying, outcome, after) # rest) tries =
    (if trying \<ge> limit then Some (False, tries, [])
     else if outcome = Restored then Some (True, tries + 1, [])
     else let left = limit - after in
       if left = 0 then reconnect limit backoff rest (tries + 1)
       else map_option (\<lambda>(ok, n, pauses). (ok, n, min backoff left # pauses))
         (reconnect limit (min (backoff * 2) MAX_RECONNECT_BACKOFF) rest (tries + 1)))"

definition ensure_connected :: "wifi_config \<Rightarrow> (nanos \<times> reopening \<times> nanos) list \<Rightarrow> wifi_state
    \<Rightarrow> (bool \<times> nat \<times> nanos list) option" where
  "ensure_connected config turns s =
    (case check_link s of
       Inr _ \<Rightarrow> Some (True, 0, [])
     | Inl _ \<Rightarrow> reconnect (wc_unreachable_limit config) (wc_reconnect_backoff config) turns 0)"

section \<open>Booking and inferring\<close>

lemma book_outstanding:
  "map_of (ws_outstanding (book i input now s))
    = (map_of (ws_outstanding s))(i \<mapsto> the (ws_queue_end (book i input now s)) + FINISH_GRACE)"
  by (simp add: book_def Let_def update_conv')

lemma book_queue_end:
  "ws_queue_end (book i input now s)
    = Some (max (case ws_queue_end s of None \<Rightarrow> now | Some e \<Rightarrow> e) now + input)"
  by (simp add: book_def Let_def split: option.split)

text \<open>What can happen to the shared state between two questions of the caller.\<close>

datatype wifi_step =
    Read_line nanos device_message
  | Asked_idle nanos
  | Looked u64 nanos nanos
  | Link_failed string nanos
  | Inferred_accept u64 nanos nanos

fun wifi_event :: "nanos \<Rightarrow> wifi_step \<Rightarrow> wifi_state \<Rightarrow> wifi_state" where
  "wifi_event limit (Read_line now m) s = read_one now m s"
| "wifi_event limit (Asked_idle now) s = snd (wifi_is_idle limit now s)"
| "wifi_event limit (Looked seq deadline now) s = snd (look_for_reply seq deadline now s)"
| "wifi_event limit (Link_failed reason now) s = fail_link reason now s"
| "wifi_event limit (Inferred_accept seq input now) s = snd (accepted_inferred seq input now s)"

text \<open>Events that neither report command \<open>i\<close> finished, nor accept it again, nor ask after \<open>till\<close>.\<close>

fun leaves_waiting :: "u64 \<Rightarrow> nanos \<Rightarrow> wifi_step \<Rightarrow> bool" where
  "leaves_waiting i till (Read_line now (Finished j _)) = (j \<noteq> i)"
| "leaves_waiting i till (Read_line now (Accepted _ j _)) = (j \<noteq> i)"
| "leaves_waiting i till (Read_line now _) = True"
| "leaves_waiting i till (Asked_idle now) = (now < till)"
| "leaves_waiting i till (Looked _ _ _) = True"
| "leaves_waiting i till (Link_failed _ _) = True"
| "leaves_waiting i till (Inferred_accept seq _ _) = (LOCAL_ID OR seq \<noteq> i)"

definition waits_till :: "u64 \<Rightarrow> nanos \<Rightarrow> wifi_state \<Rightarrow> bool" where
  "waits_till i till s \<longleftrightarrow> (\<exists>d. map_of (ws_outstanding s) i = Some d \<and> till \<le> d) \<and>
    distinct (map fst (ws_outstanding s))"

lemma map_of_filter_kept:
  "distinct (map fst xs) \<Longrightarrow> map_of xs i = Some d \<Longrightarrow> P d \<Longrightarrow>
    map_of (filter (\<lambda>(_, d). P d) xs) i = Some d"
  by (induction xs) (auto split: if_splits)

lemma distinct_map_filter_fst: "distinct (map fst xs) \<Longrightarrow> distinct (map fst (filter P xs))"
  by (induction xs) auto

lemma wifi_is_idle_outstanding:
  "ws_outstanding (snd (wifi_is_idle limit now s))
    = filter (\<lambda>(_, d). \<not> d \<le> now) (ws_outstanding s)"
  by (simp add: wifi_is_idle_def Let_def split: option.split)

lemma book_waits: "waits_till i till s \<Longrightarrow> i \<noteq> j \<Longrightarrow> waits_till i till (book j input now s)"
  by (auto simp: waits_till_def book_def Let_def update_conv' distinct_update)

lemma book_begins_waiting:
  "distinct (map fst (ws_outstanding s)) \<Longrightarrow> waits_till i (now + input + FINISH_GRACE) (book i input now s)"
  by (auto simp: waits_till_def book_def Let_def update_conv' distinct_update split: option.split)

lemma event_waits:
  assumes "waits_till i till s" "leaves_waiting i till e"
  shows "waits_till i till (wifi_event limit e s)"
proof (cases e)
  case (Read_line now m)
  show ?thesis
  proof (cases "\<exists>seq j ms. m = Accepted seq j ms")
    case True
    then obtain seq j ms where m: "m = Accepted seq j ms" by blast
    have frame: "ws_outstanding (s\<lparr>ws_down_since := None\<rparr>) = ws_outstanding s"
      "ws_outstanding (x\<lparr>ws_replies := r\<rparr>) = ws_outstanding x" for x :: wifi_state and r by simp_all
    have "waits_till i till (s\<lparr>ws_down_since := None\<rparr>)" using assms(1) by (simp only: waits_till_def frame)
    moreover have "i \<noteq> j" using assms(2) by (simp add: Read_line m)
    ultimately have "waits_till i till (book j (millis ms) now (s\<lparr>ws_down_since := None\<rparr>))"
      by (rule book_waits)
    then show ?thesis
      by (simp only: Read_line m read_one_def waits_till_def wifi_event.simps frame
        device_message.case Let_def)
  next
    case False
    then show ?thesis
      using assms Read_line by (cases m)
        (auto simp: read_one_def Let_def waits_till_def delete_conv' distinct_delete split: option.split)
  qed
next
  case (Asked_idle now)
  then show ?thesis
    using assms map_of_filter_kept [of "ws_outstanding s" i _ "\<lambda>d. \<not> d \<le> now"]
    by (auto simp: waits_till_def wifi_is_idle_outstanding distinct_map_filter_fst)
next
  case (Looked seq deadline now)
  then show ?thesis
    using assms by (auto simp: waits_till_def look_for_reply_def fail_link_def split: option.split)
next
  case (Link_failed reason now)
  then show ?thesis using assms by (auto simp: waits_till_def fail_link_def)
next
  case (Inferred_accept seq input now)
  then show ?thesis using assms book_waits by (simp add: accepted_inferred_def Let_def)
qed

lemma events_wait:
  "waits_till i till s \<Longrightarrow> list_all (leaves_waiting i till) es \<Longrightarrow>
    waits_till i till (fold (wifi_event limit) es s)"
  by (induction es arbitrary: s) (auto intro: event_waits)

lemma waiting_not_idle:
  assumes "waits_till i till s" "now < till"
  shows "fst (wifi_is_idle limit now s) \<noteq> Inr True"
proof -
  obtain d where "map_of (ws_outstanding s) i = Some d" "till \<le> d" "distinct (map fst (ws_outstanding s))"
    using assms(1) by (auto simp: waits_till_def)
  then have "(i, d) \<in> set (filter (\<lambda>(_, d). \<not> d \<le> now) (ws_outstanding s))"
    using assms(2) by (auto dest: map_of_SomeD)
  then have "filter (\<lambda>(_, d). \<not> d \<le> now) (ws_outstanding s) \<noteq> []"
    by (metis empty_iff empty_set)
  then show ?thesis by (auto simp: wifi_is_idle_def Let_def split: option.split)
qed

text \<open>From the moment a command is accepted the controller does not call itself idle, unless the
  device reports that command finished, before the command's own input time and the grace have
  passed, whatever else happens on the link.\<close>

lemma not_idle_while_playing:
  assumes "distinct (map fst (ws_outstanding s))"
    and "list_all (leaves_waiting i (t0 + input + FINISH_GRACE)) es"
    and "now < t0 + input + FINISH_GRACE"
  shows "fst (wifi_is_idle limit now (fold (wifi_event limit) es (book i input t0 s))) \<noteq> Inr True"
  using waiting_not_idle [OF events_wait [OF book_begins_waiting [OF assms(1)] assms(2)] assms(3)] .

text \<open>An accepted \<open>Neutral\<close> drops what was queued: only the \<open>Neutral\<close> itself can still be
  outstanding, and it is due at once.\<close>

lemma neutral_drops_outstanding:
  "wifi_accepted i input True now s = (r, s') \<Longrightarrow>
    ws_queue_end s' = None \<and>
    ws_outstanding s' = (if map_of (ws_outstanding s) i = None then [] else [(i, now + FINISH_GRACE)]) \<and>
    fst (wifi_is_idle limit (now + FINISH_GRACE) (s'\<lparr>ws_failure := None\<rparr>)) = Inr True"
  by (auto simp: wifi_accepted_def wifi_is_idle_def Let_def)

section \<open>A timed input is never sent twice\<close>

lemma execute_wifi_sent:
  "execute_wifi neutral input now as seq sent s = Some r \<Longrightarrow>
    \<exists>pre. (\<exists>post. as = pre @ post) \<and> run_sent r = sent + length (filter line_left pre)"
proof (induction as arbitrary: seq sent)
  case (Cons a as)
  have ih: "\<exists>pre. (\<exists>post. a # as = pre @ post) \<and> run_sent r = sent + length (filter line_left pre)"
    if e: "execute_wifi neutral input now as (seq + 1) (sent + length (filter line_left [a])) s = Some r"
  proof -
    obtain pre post where "as = pre @ post"
      "run_sent r = sent + length (filter line_left [a]) + length (filter line_left pre)"
      using Cons.IH [OF e] by blast
    then show ?thesis by (intro exI [of _ "a # pre"]) auto
  qed
  have done': "\<exists>pre. (\<exists>post. a # as = pre @ post) \<and> run_sent r = sent + length (filter line_left pre)"
    if "run_sent r = sent + length (filter line_left [a])"
    using that by (intro exI [of _ "[a]"]) simp
  show ?case
    using Cons.prems ih done' by (cases a) (auto split: if_splits prod.splits)
qed simp

lemma execute_timed:
  "execute_wifi False input now as seq sent s = Some r \<Longrightarrow>
    run_sent r \<le> Suc sent \<and> (\<forall>x. run_result r = Inr x \<longrightarrow> run_sent r = Suc sent)"
  by (induction as arbitrary: seq) (auto split: attempt.splits prod.splits)

text \<open>C25: whatever the link does, a timed command leaves this host at most once, and exactly once when
  \<open>execute\<close> returns a receipt for it.\<close>

theorem timed_input_sent_once:
  assumes "execute_wifi False input now attempts seq 0 s = Some r"
  shows "run_sent r \<le> 1 \<and> (run_result r = Inr receipt \<longrightarrow> run_sent r = 1) \<and>
    (\<exists>pre. (\<exists>post. attempts = pre @ post) \<and> run_sent r = length (filter line_left pre))"
  using execute_timed [OF assms] execute_wifi_sent [OF assms] by auto

theorem timed_input_sent_once_witness:
  "\<exists>r. execute_wifi False (millis 160) 0 [Not_sent, No_answer] 4 0 (fresh_state None) = Some r \<and> run_sent r = 1"
proof -
  obtain r where r: "execute_wifi False (millis 160) 0 [Not_sent, No_answer] 4 0 (fresh_state None) = Some r"
    "\<exists>x. run_result r = Inr x"
    by (auto simp: accepted_inferred_def Let_def)
  then show ?thesis using timed_input_sent_once [OF r(1)] by blast
qed

lemma bit_LOCAL_ID: "bit LOCAL_ID n \<longleftrightarrow> n = 63"
  using bit_or_push_bit_1 [of 63 "0 :: u64" n] unfolding LOCAL_ID_def by simp

lemma local_id_high: "bit (LOCAL_ID OR seq) 63"
  by (simp add: bit_or_iff bit_LOCAL_ID)

text \<open>The id of an inferred receipt is never one of the device's, which stay below bit 63, and
  different requests get different ones.\<close>

lemma local_ids_distinct:
  assumes "\<not> bit i 63"
  shows "LOCAL_ID OR seq \<noteq> i"
  using assms local_id_high by metis

lemma local_ids_inject:
  assumes "\<not> bit a 63" "\<not> bit b 63" "LOCAL_ID OR a = LOCAL_ID OR b"
  shows "a = b"
proof (rule bit_word_eqI)
  fix n
  assume n: "n < LENGTH(64)"
  have "bit (LOCAL_ID OR a) n = bit (LOCAL_ID OR b) n" using assms(3) by simp
  then show "bit a n = bit b n"
    using n assms(1,2) by (cases "n = 63") (auto simp: bit_or_iff bit_LOCAL_ID)
qed

section \<open>Reconnecting\<close>

lemma reconnect_pauses:
  assumes "reconnect limit backoff turns tries = Some (ok, n, pauses)" "backoff \<le> MAX_RECONNECT_BACKOFF"
  shows "list_all (\<lambda>p. p \<le> MAX_RECONNECT_BACKOFF) pauses \<and> tries \<le> n \<and> n \<le> tries + length turns \<and>
    (if ok then \<exists>t \<in> set turns. fst t < limit \<and> fst (snd t) = Restored
     else \<exists>t \<in> set turns. limit \<le> fst t)"
  using assms
proof (induction turns arbitrary: backoff tries pauses)
  case (Cons t turns)
  obtain trying outcome after where t: "t = (trying, outcome, after)" by (cases t) auto
  consider "limit \<le> trying" | "trying < limit" "outcome = Restored"
    | "trying < limit" "outcome \<noteq> Restored" by linarith
  then show ?case
  proof cases
    case 3
    show ?thesis
    proof (cases "limit - after = 0")
      case True
      then have "reconnect limit backoff turns (tries + 1) = Some (ok, n, pauses)"
        using Cons.prems(1) 3 by (simp add: t)
      from Cons.IH [OF this Cons.prems(2)] show ?thesis by (auto split: if_splits)
    next
      case False
      then obtain ps where "reconnect limit (min (backoff * 2) MAX_RECONNECT_BACKOFF) turns (tries + 1)
          = Some (ok, n, ps)" "pauses = min backoff (limit - after) # ps"
        using Cons.prems(1) 3 by (auto simp: t Let_def)
      with Cons.IH [OF this(1)] Cons.prems(2) show ?thesis by (auto split: if_splits)
    qed
  qed (use Cons.prems t in auto)
qed simp

text \<open>Reconnecting pauses at most four seconds between tries, gives up only at a try that would
  begin after the unreachable limit, and succeeds only within it, with a fresh connection whose
  \<open>Neutral\<close> was answered.\<close>

lemma reconnect_within_limit:
  assumes "reconnect limit backoff turns 0 = Some (ok, tries, pauses)" "backoff \<le> MAX_RECONNECT_BACKOFF"
  shows "list_all (\<lambda>p. p \<le> MAX_RECONNECT_BACKOFF) pauses" "tries \<le> length turns"
    and "ok \<Longrightarrow> \<exists>t \<in> set turns. fst t < limit \<and> fst (snd t) = Restored"
    and "\<not> ok \<Longrightarrow> \<exists>t \<in> set turns. limit \<le> fst t"
  using reconnect_pauses [OF assms] by (auto split: if_splits)

end
