(* ===== verification/Training.thy ===== *)
theory Training
  imports Prelude
begin

text \<open>
  Individual values, effort values and natures (crates/gamedata/src/training.rs): the stat
  formula, the effort values a defeat and a vitamin add, and the solver that intersects the
  readings of a summary screen over the natures. Values of \<open>u8\<close>, \<open>u16\<close> and \<open>u32\<close> are naturals
  here, with the truncating casts written out as \<open>mod 65536\<close> (\<open>stat_fits_u32\<close> shows that the
  \<open>u32\<close> arithmetic before the cast cannot wrap); masks of individual values are \<open>u32\<close> words.
  The lemmas show that the solver is exact: a nature or individual value stays in the estimate
  if and only if some individual with it prints every reading.
\<close>

section \<open>Constants and natures\<close>

definition HP :: nat where "HP = 0"
definition MAX_IV :: nat where "MAX_IV = 31"
definition MAX_STAT_EVS :: nat where "MAX_STAT_EVS = 255"
definition MAX_TOTAL_EVS :: nat where "MAX_TOTAL_EVS = 510"
definition VITAMIN_LIMIT :: nat where "VITAMIN_LIMIT = 100"

definition NATURES :: "string list" where
  "NATURES =
    [''HARDY'', ''LONELY'', ''BRAVE'', ''ADAMANT'', ''NAUGHTY'', ''BOLD'', ''DOCILE'',
     ''RELAXED'', ''IMPISH'', ''LAX'', ''TIMID'', ''HASTY'', ''SERIOUS'', ''JOLLY'', ''NAIVE'',
     ''MODEST'', ''MILD'', ''QUIET'', ''BASHFUL'', ''RASH'', ''CALM'', ''GENTLE'', ''SASSY'',
     ''CAREFUL'', ''QUIRKY'']"

definition ALL_NATURES :: u32 where "ALL_NATURES = push_bit 25 1 - 1"
definition ALL_IVS :: u32 where "ALL_IVS = - 1"

named_theorems training_consts \<open>the constants of the stat formulas\<close>

lemmas [training_consts] = HP_def MAX_IV_def MAX_STAT_EVS_def MAX_TOTAL_EVS_def VITAMIN_LIMIT_def

fun position :: "('a \<Rightarrow> bool) \<Rightarrow> 'a list \<Rightarrow> nat option" where
  "position p [] = None"
| "position p (x # xs) = (if p x then Some 0 else map_option Suc (position p xs))"

definition nature_named :: "string \<Rightarrow> nat option" where
  "nature_named name = position (\<lambda>n. n = name) NATURES"

text \<open>+1 if the nature raises the stat, -1 if it lowers it, 0 otherwise.\<close>

definition nature_effect :: "nat \<Rightarrow> nat \<Rightarrow> int" where
  "nature_effect nature index =
    (if index = HP \<or> nature \<ge> 25 then 0
     else let up = nature div 5 + 1; down = nature mod 5 + 1 in
       if up = down then 0
       else if index = up then 1
       else if index = down then - 1
       else 0)"

section \<open>One stat\<close>

definition stat :: "nat \<Rightarrow> nat \<Rightarrow> nat \<Rightarrow> nat \<Rightarrow> nat \<Rightarrow> nat \<Rightarrow> nat" where
  "stat base index level iv ev nature =
    (let core = (2 * base + iv + min ev MAX_STAT_EVS div 4) * level div 100 in
     if index = HP then (core + level + 10) mod 65536
     else let n = core + 5 in
       (if nature_effect nature index = 1 then n * 110 div 100
        else if nature_effect nature index = - 1 then n * 90 div 100
        else n) mod 65536)"

lemma stat_fits_u32:
  assumes "base < 65536" "level < 256" "iv < 256"
  shows "(2 * base + iv + min ev MAX_STAT_EVS div 4) * level < 2 ^ 32"
    and "((2 * base + iv + min ev MAX_STAT_EVS div 4) * level div 100 + 5) * 110 < 2 ^ 32"
proof -
  have "2 * base + iv + min ev MAX_STAT_EVS div 4 \<le> 131388"
    using assms by (simp add: training_consts)
  then have "(2 * base + iv + min ev MAX_STAT_EVS div 4) * level \<le> 131388 * 255"
    using assms by (intro mult_mono) auto
  then show "(2 * base + iv + min ev MAX_STAT_EVS div 4) * level < 2 ^ 32"
    and "((2 * base + iv + min ev MAX_STAT_EVS div 4) * level div 100 + 5) * 110 < 2 ^ 32"
    by simp_all
qed

section \<open>Effort values\<close>

definition one_gain :: "nat list \<Rightarrow> bool \<Rightarrow> bool \<Rightarrow> nat \<Rightarrow> nat list \<Rightarrow> nat \<Rightarrow> nat" where
  "one_gain yields pokerus macho_brace tot evs i =
    (let gain = yields ! i * (if pokerus then 2 else 1);
         gain = (if macho_brace then gain * 2 else gain)
     in min (min gain (MAX_TOTAL_EVS - tot)) (MAX_STAT_EVS - evs ! i))"

text \<open>The loop of \<open>gain_evs\<close> over the stats still to do; the break of a full total ends it.\<close>

primrec gain_loop :: "nat list \<Rightarrow> nat list \<Rightarrow> bool \<Rightarrow> bool \<Rightarrow> nat \<Rightarrow> nat list \<Rightarrow> nat list
    \<Rightarrow> nat list \<times> nat list" where
  "gain_loop [] yields pokerus macho_brace tot evs added = (evs, added)"
| "gain_loop (i # is) yields pokerus macho_brace tot evs added =
    (if tot \<ge> MAX_TOTAL_EVS then (evs, added)
     else let gain = one_gain yields pokerus macho_brace tot evs i in
       gain_loop is yields pokerus macho_brace (tot + gain)
         (evs[i := evs ! i + gain]) (added[i := gain]))"

definition gain_evs :: "nat list \<Rightarrow> nat list \<Rightarrow> bool \<Rightarrow> bool \<Rightarrow> nat list \<times> nat list" where
  "gain_evs evs yields pokerus macho_brace =
    gain_loop [0..<6] yields pokerus macho_brace (sum_list evs mod 65536) evs (replicate 6 0)"

definition vitamin :: "nat list \<Rightarrow> nat \<Rightarrow> nat list \<times> nat option" where
  "vitamin evs index =
    (let tot = sum_list evs mod 65536 in
     if tot \<ge> MAX_TOTAL_EVS \<or> evs ! index \<ge> VITAMIN_LIMIT then (evs, None)
     else let gain = min (min 10 (VITAMIN_LIMIT - evs ! index)) (MAX_TOTAL_EVS - tot) in
       (evs[index := evs ! index + gain], Some gain))"

section \<open>Samples and estimates\<close>

record sample =
  sample_base :: "nat list"
  sample_fixed_hp :: bool
  sample_level :: nat
  sample_stats :: "nat option list"
  sample_ev_low :: "nat list"
  sample_ev_high :: "nat list"

record estimate =
  est_natures :: u32
  est_ivs :: "u32 list"
  est_consistent :: bool

definition trailing_zeros :: "u32 \<Rightarrow> nat" where
  "trailing_zeros m = length (takeWhile (\<lambda>i. \<not> bit m i) [0..<32])"

definition leading_zeros :: "u32 \<Rightarrow> nat" where
  "leading_zeros m = length (takeWhile (\<lambda>i. \<not> bit m i) (rev [0..<32]))"

definition count_ones :: "u32 \<Rightarrow> nat" where
  "count_ones m = length (filter (bit m) [0..<32])"

definition iv_range :: "estimate \<Rightarrow> nat \<Rightarrow> (nat \<times> nat) option" where
  "iv_range e index =
    (let m = est_ivs e ! index in
     if m \<noteq> 0 then Some (trailing_zeros m, 31 - leading_zeros m) else None)"

definition estimate_nature :: "estimate \<Rightarrow> nat option" where
  "estimate_nature e =
    (if count_ones (est_natures e) = 1 then Some (trailing_zeros (est_natures e)) else None)"

definition nature_names :: "estimate \<Rightarrow> string list" where
  "nature_names e =
    map (\<lambda>n. NATURES ! n) (filter (\<lambda>n. est_natures e AND push_bit n 1 \<noteq> 0) [0..<25])"

section \<open>The solver\<close>

text \<open>The body of the loop over the individual values in \<open>fitting_ivs\<close>.\<close>

definition iv_fits :: "sample \<Rightarrow> nat \<Rightarrow> nat \<Rightarrow> nat \<Rightarrow> nat \<Rightarrow> bool" where
  "iv_fits s index v nature iv =
    (let low = min (sample_ev_low s ! index) MAX_STAT_EVS div 4;
         high = min (sample_ev_high s ! index) MAX_STAT_EVS div 4;
         l = sample_level s;
         core = (\<lambda>q. (2 * sample_base s ! index + iv + q) * l div 100);
         lo = core low; hi = core (max high low)
     in if index = HP then lo + l + 10 \<le> v \<and> v \<le> hi + l + 10
        else let lo = lo + 5; hi = hi + 5 in
          if nature_effect nature index = 1 then
            let n = (v * 100 + 109) div 110 in n * 110 div 100 = v \<and> lo \<le> n \<and> n \<le> hi
          else if nature_effect nature index = - 1 then
            lo * 90 div 100 \<le> v \<and> v \<le> hi * 90 div 100
          else lo \<le> v \<and> v \<le> hi)"

definition fitting_ivs :: "sample \<Rightarrow> nat \<Rightarrow> nat \<Rightarrow> nat \<Rightarrow> u32" where
  "fitting_ivs s index value nature =
    (if index = HP \<and> sample_fixed_hp s then ALL_IVS
     else mask_where (iv_fits s index value nature) 0 [0..<MAX_IV + 1])"

definition narrow_stat :: "nat \<Rightarrow> sample \<Rightarrow> u32 list \<Rightarrow> nat \<times> nat option \<Rightarrow> u32 list" where
  "narrow_stat nature s ivs = (\<lambda>(index, value).
    case value of None \<Rightarrow> ivs
    | Some v \<Rightarrow> ivs[index := ivs ! index AND fitting_ivs s index v nature])"

definition narrow_sample :: "nat \<Rightarrow> u32 list \<Rightarrow> sample \<Rightarrow> u32 list" where
  "narrow_sample nature ivs s = foldl (narrow_stat nature s) ivs (enumerate 0 (sample_stats s))"

definition solve_nature :: "sample list \<Rightarrow> nat \<Rightarrow> u32 list option" where
  "solve_nature samples nature =
    (let ivs = foldl (narrow_sample nature) (replicate 6 ALL_IVS) samples in
     if list_all (\<lambda>m. m \<noteq> 0) ivs then Some ivs else None)"

definition add_nature :: "sample list \<Rightarrow> estimate \<Rightarrow> nat \<Rightarrow> estimate" where
  "add_nature samples out n =
    (case solve_nature samples n of
       None \<Rightarrow> out
     | Some ivs \<Rightarrow> out\<lparr>est_natures := est_natures out OR push_bit n 1,
                       est_ivs := map2 (OR) (est_ivs out) ivs\<rparr>)"

definition solve_with :: "sample list \<Rightarrow> u32 \<Rightarrow> estimate option" where
  "solve_with samples natures =
    (let out = foldl (add_nature samples)
         \<lparr>est_natures = 0, est_ivs = replicate 6 0, est_consistent = True\<rparr>
         (filter (\<lambda>n. natures AND push_bit n 1 \<noteq> 0) [0..<25])
     in if est_natures out \<noteq> 0 then Some out else None)"

definition open_sample :: "sample \<Rightarrow> sample" where
  "open_sample s = s\<lparr>sample_ev_high := replicate 6 MAX_STAT_EVS\<rparr>"

definition solve :: "sample list \<Rightarrow> u32 \<Rightarrow> estimate option" where
  "solve samples natures =
    (case solve_with samples natures of
       Some e \<Rightarrow> Some e
     | None \<Rightarrow> map_option (est_consistent_update (\<lambda>_. False))
                 (solve_with (map open_sample samples) natures))"

section \<open>The solver keeps exactly what is possible\<close>

text \<open>What a run of quarters of effort values reaches: with a level of at most 100 the core
  value rises by at most one per quarter, so it takes every value between its ends.\<close>

lemma nat_reaches_between:
  fixes f :: "nat \<Rightarrow> nat"
  assumes step: "\<And>q. f (Suc q) \<le> Suc (f q)"
    and "a \<le> b" "f a \<le> v" "v \<le> f b"
  shows "\<exists>q. a \<le> q \<and> q \<le> b \<and> f q = v"
  using assms(2,4)
proof (induction b rule: dec_induct)
  case base
  then show ?case using \<open>f a \<le> v\<close> by auto
next
  case (step n)
  show ?case
  proof (cases "v \<le> f n")
    case True
    then show ?thesis using step.IH le_SucI by blast
  next
    case False
    then have "f (Suc n) = v"
      using step.prems \<open>\<And>q. f (Suc q) \<le> Suc (f q)\<close> [of n] by simp
    then show ?thesis using step.hyps by (intro exI [of _ "Suc n"]) simp
  qed
qed

lemma nat_between_iff:
  fixes f :: "nat \<Rightarrow> nat"
  assumes step: "\<And>q. f (Suc q) \<le> Suc (f q)" and mono: "\<And>q r. q \<le> r \<Longrightarrow> f q \<le> f r"
    and le: "a \<le> b"
  shows "f a \<le> v \<and> v \<le> f b \<longleftrightarrow> (\<exists>q. a \<le> q \<and> q \<le> b \<and> f q = v)"
  using nat_reaches_between [of f a b v] assms by auto

definition core_value :: "nat \<Rightarrow> nat \<Rightarrow> nat \<Rightarrow> nat \<Rightarrow> nat" where
  "core_value base iv l q = (2 * base + iv + q) * l div 100"

lemma core_value_step: "l \<le> 100 \<Longrightarrow> core_value base iv l (Suc q) \<le> Suc (core_value base iv l q)"
proof -
  assume "l \<le> 100"
  then have "(2 * base + iv + Suc q) * l \<le> (2 * base + iv + q) * l + 100"
    by simp
  then have "(2 * base + iv + Suc q) * l div 100 \<le> ((2 * base + iv + q) * l + 100) div 100"
    by (rule div_le_mono)
  then show ?thesis by (simp add: core_value_def)
qed

lemma core_value_mono: "q \<le> r \<Longrightarrow> core_value base iv l q \<le> core_value base iv l r"
  by (simp add: core_value_def div_le_mono)

lemma core_value_le: "base \<le> 255 \<Longrightarrow> iv \<le> 31 \<Longrightarrow> q \<le> 63 \<Longrightarrow> l \<le> 100
    \<Longrightarrow> core_value base iv l q \<le> 604"
proof -
  assume "base \<le> 255" "iv \<le> 31" "q \<le> 63" "l \<le> 100"
  then have "(2 * base + iv + q) * l \<le> 604 * 100" by (intro mult_mono) auto
  then show ?thesis by (simp add: core_value_def)
qed

lemma ten_percent_more:
  assumes "n * 110 div 100 = (v::nat)"
  shows "(v * 100 + 109) div 110 = n"
proof (rule div_nat_eqI)
  have "v * 100 \<le> n * 110" using assms by (simp add: div_times_less_eq_dividend flip: assms)
  moreover have "n * 110 < v * 100 + 100" using assms dividend_less_div_times [of 100 "n * 110"] by simp
  ultimately show "110 * n \<le> v * 100 + 109" "v * 100 + 109 < 110 * Suc n" by simp_all
qed

text \<open>What the printed value is as a function of the quarters, for a stat without truncation.\<close>

definition printed :: "nat \<Rightarrow> nat \<Rightarrow> nat \<Rightarrow> nat \<Rightarrow> nat" where
  "printed index l nature core =
    (if index = HP then core + l + 10
     else if nature_effect nature index = 1 then (core + 5) * 110 div 100
     else if nature_effect nature index = - 1 then (core + 5) * 90 div 100
     else core + 5)"

lemma ninety_percent_step: "(Suc m) * 90 div 100 \<le> Suc (m * 90 div (100::nat))"
proof -
  have "(Suc m) * 90 div 100 \<le> (m * 90 + 100) div (100::nat)"
    by (rule div_le_mono) simp
  then show ?thesis by simp
qed

lemma printed_HP: "index = HP \<Longrightarrow> printed index l nature c = c + l + 10"
  by (simp add: printed_def)

lemma printed_up: "index \<noteq> HP \<Longrightarrow> nature_effect nature index = 1 \<Longrightarrow>
    printed index l nature c = (c + 5) * 110 div 100"
  by (simp add: printed_def)

lemma printed_down: "index \<noteq> HP \<Longrightarrow> nature_effect nature index = - 1 \<Longrightarrow>
    printed index l nature c = (c + 5) * 90 div 100"
  by (simp add: printed_def)

lemma printed_same: "index \<noteq> HP \<Longrightarrow> nature_effect nature index \<noteq> 1 \<Longrightarrow>
    nature_effect nature index \<noteq> - 1 \<Longrightarrow> printed index l nature c = c + 5"
  by (simp add: printed_def)

lemmas printed_cases = printed_HP printed_up printed_down printed_same

lemma nature_cases:
  obtains "index = HP" | "index \<noteq> HP" "nature_effect nature index = 1"
    | "index \<noteq> HP" "nature_effect nature index = - 1" "nature_effect nature index \<noteq> 1"
    | "index \<noteq> HP" "nature_effect nature index \<noteq> 1" "nature_effect nature index \<noteq> - 1"
  by (cases "nature_effect nature index = - 1") auto

lemma stat_printed:
  assumes "base \<le> 255" "iv \<le> 31" "l \<le> 100"
  shows "stat base index l iv ev nature
    = printed index l nature (core_value base iv l (min ev MAX_STAT_EVS div 4))"
proof -
  let ?c = "core_value base iv l (min ev MAX_STAT_EVS div 4)"
  have c: "?c \<le> 604"
    using assms by (intro core_value_le) (auto simp: training_consts)
  have "(?c + 5) * 110 div 100 \<le> 609 * 110 div 100" "(?c + 5) * 90 div 100 \<le> 609 * 90 div 100"
    using c by (intro div_le_mono mult_le_mono1; simp)+
  then have "?c + l + 10 < 65536" "(?c + 5) * 110 div 100 < 65536" "(?c + 5) * 90 div 100 < 65536"
    "?c + 5 < 65536"
    using c assms by linarith+
  then have "printed index l nature ?c < 65536"
    by (cases rule: nature_cases [where index = index and nature = nature]) (simp_all only: printed_cases simp_thms)
  moreover have "stat base index l iv ev nature = printed index l nature ?c mod 65536"
    by (cases rule: nature_cases [where index = index and nature = nature])
      (simp_all only: printed_cases stat_def Let_def core_value_def if_True if_False simp_thms)
  ultimately show ?thesis by simp
qed

lemma printed_mono:
  assumes "c \<le> d"
  shows "printed index l nature c \<le> printed index l nature d"
proof -
  have m: "(c + 5) * k div 100 \<le> (d + 5) * k div 100" for k :: nat
    using assms by (intro div_le_mono mult_le_mono1 add_le_mono1)
  show ?thesis
    using assms by (cases rule: nature_cases [where index = index and nature = nature]) (simp_all only: printed_cases m add_le_mono1 simp_thms)
qed

lemma printed_step:
  assumes "index = HP \<or> nature_effect nature index \<noteq> 1"
  shows "printed index l nature (Suc c) \<le> Suc (printed index l nature c)"
  using assms ninety_percent_step [of "c + 5"]
  by (cases rule: nature_cases [where index = index and nature = nature])
    (simp_all only: printed_cases add_Suc simp_thms)

text \<open>The test of the solver asks whether some number of quarters in the range prints the value.\<close>

lemma iv_fits_quarters:
  fixes index iv :: nat
  assumes l: "sample_level s \<le> 100"
  defines "lo \<equiv> min (sample_ev_low s ! index) MAX_STAT_EVS div 4"
    and "hi \<equiv> max (min (sample_ev_high s ! index) MAX_STAT_EVS div 4)
              (min (sample_ev_low s ! index) MAX_STAT_EVS div 4)"
    and "c \<equiv> core_value (sample_base s ! index) iv (sample_level s)"
  shows "iv_fits s index v nature iv \<longleftrightarrow>
    (\<exists>q. lo \<le> q \<and> q \<le> hi \<and> printed index (sample_level s) nature (c q) = v)"
proof (cases "index = HP \<or> nature_effect nature index \<noteq> 1")
  case True
  let ?f = "\<lambda>q. printed index (sample_level s) nature (c q)"
  have lohi: "lo \<le> hi" by (simp add: lo_def hi_def)
  have mono: "q \<le> r \<Longrightarrow> ?f q \<le> ?f r" for q r
    unfolding c_def by (intro printed_mono core_value_mono)
  have step: "?f (Suc q) \<le> Suc (?f q)" for q
  proof -
    have "c (Suc q) = c q \<or> c (Suc q) = Suc (c q)"
      using core_value_step [OF l, of "sample_base s ! index" iv q]
        core_value_mono [of q "Suc q" "sample_base s ! index" iv "sample_level s"]
      unfolding c_def by linarith
    then show ?thesis using printed_step [OF True] by auto
  qed
  have "iv_fits s index v nature iv \<longleftrightarrow> ?f lo \<le> v \<and> v \<le> ?f hi"
    using True
    by (cases rule: nature_cases [where index = index and nature = nature])
      (simp_all only: iv_fits_def Let_def printed_cases c_def lo_def hi_def core_value_def
        if_True if_False simp_thms)
  also have "\<dots> \<longleftrightarrow> (\<exists>q. lo \<le> q \<and> q \<le> hi \<and> ?f q = v)"
    by (rule nat_between_iff [of ?f, OF step mono lohi])
  finally show ?thesis .
next
  case False
  let ?f = "\<lambda>q. c q + 5"
  let ?n = "(v * 100 + 109) div 110"
  have lohi: "lo \<le> hi" by (simp add: lo_def hi_def)
  have mono: "q \<le> r \<Longrightarrow> ?f q \<le> ?f r" for q r
    unfolding c_def by (simp add: core_value_mono)
  have step: "?f (Suc q) \<le> Suc (?f q)" for q
    using core_value_step [OF l] by (simp add: c_def)
  have "iv_fits s index v nature iv \<longleftrightarrow> ?n * 110 div 100 = v \<and> ?f lo \<le> ?n \<and> ?n \<le> ?f hi"
    using False
    by (cases rule: nature_cases [where index = index and nature = nature])
      (simp_all only: iv_fits_def Let_def c_def lo_def hi_def core_value_def
        if_True if_False simp_thms)
  also have "\<dots> \<longleftrightarrow> ?n * 110 div 100 = v \<and> (\<exists>q. lo \<le> q \<and> q \<le> hi \<and> ?f q = ?n)"
    by (simp only: nat_between_iff [of ?f, OF step mono lohi])
  also have "\<dots> \<longleftrightarrow> (\<exists>q. lo \<le> q \<and> q \<le> hi \<and> ?f q * 110 div 100 = v)"
  proof -
    have "?f q * 110 div 100 = v \<longleftrightarrow> ?n * 110 div 100 = v \<and> ?f q = ?n" for q
      using ten_percent_more [of "?f q" v] by auto
    then show ?thesis by blast
  qed
  also have "\<dots> \<longleftrightarrow> (\<exists>q. lo \<le> q \<and> q \<le> hi \<and> printed index (sample_level s) nature (c q) = v)"
    using False by (simp only: printed_up de_Morgan_disj not_not simp_thms)
  finally show ?thesis .
qed

lemma quarters_iff_evs:
  fixes a b :: nat
  shows "(\<exists>q. min a 255 div 4 \<le> q \<and> q \<le> max (min b 255 div 4) (min a 255 div 4) \<and> P q)
    \<longleftrightarrow> (\<exists>ev. a \<le> ev \<and> ev \<le> max a b \<and> P (min ev 255 div 4))"
proof
  assume "\<exists>q. min a 255 div 4 \<le> q \<and> q \<le> max (min b 255 div 4) (min a 255 div 4) \<and> P q"
  then obtain q where q: "min a 255 div 4 \<le> q"
    "q \<le> max (min b 255 div 4) (min a 255 div 4)" "P q" by blast
  show "\<exists>ev. a \<le> ev \<and> ev \<le> max a b \<and> P (min ev 255 div 4)"
  proof (cases "q = min a 255 div 4")
    case True
    then show ?thesis using q by (intro exI [of _ a]) simp
  next
    case False
    then have "min a 255 div 4 < q" "q \<le> min b 255 div 4" using q by linarith+
    then have "a \<le> 4 * q" "4 * q \<le> b" "min (4 * q) 255 div 4 = q" by auto
    then show ?thesis using q(3) by (intro exI [of _ "4 * q"]) auto
  qed
next
  assume "\<exists>ev. a \<le> ev \<and> ev \<le> max a b \<and> P (min ev 255 div 4)"
  then obtain ev where ev: "a \<le> ev" "ev \<le> max a b" "P (min ev 255 div 4)" by blast
  have "min ev 255 \<le> max (min a 255) (min b 255)" "min a 255 \<le> min ev 255"
    using ev(1,2) by auto
  then have "min ev 255 div 4 \<le> max (min a 255) (min b 255) div 4" "min a 255 div 4 \<le> min ev 255 div 4"
    by (auto intro!: div_le_mono simp del: min.bounded_iff)
  moreover have "max (min a 255) (min b 255) div 4 = max (min b 255 div 4) (min a 255 div 4)"
    by (auto simp: max_def dest: div_le_mono [of _ _ 4])
  ultimately show "\<exists>q. min a 255 div 4 \<le> q \<and> q \<le> max (min b 255 div 4) (min a 255 div 4) \<and> P q"
    using ev(3) by auto
qed

lemma bit_fitting_ivs:
  assumes l: "sample_level s \<le> 100" and b: "sample_base s ! index \<le> 255" and iv: "iv \<le> 31"
  shows "bit (fitting_ivs s index v nature) iv \<longleftrightarrow>
    index = HP \<and> sample_fixed_hp s \<or>
    (\<exists>ev. sample_ev_low s ! index \<le> ev \<and> ev \<le> max (sample_ev_low s ! index) (sample_ev_high s ! index)
      \<and> stat (sample_base s ! index) index (sample_level s) iv ev nature = v)"
proof (cases "index = HP \<and> sample_fixed_hp s")
  case True
  then show ?thesis using iv by (simp add: fitting_ivs_def ALL_IVS_def)
next
  case False
  then have "bit (fitting_ivs s index v nature) iv \<longleftrightarrow> iv_fits s index v nature iv"
    using iv by (auto simp: fitting_ivs_def bit_mask_where MAX_IV_def)
  also have "\<dots> \<longleftrightarrow> (\<exists>ev. sample_ev_low s ! index \<le> ev
      \<and> ev \<le> max (sample_ev_low s ! index) (sample_ev_high s ! index)
      \<and> printed index (sample_level s) nature (core_value (sample_base s ! index) iv
          (sample_level s) (min ev 255 div 4)) = v)"
    by (simp only: iv_fits_quarters [OF l] MAX_STAT_EVS_def quarters_iff_evs)
  finally show ?thesis
    unfolding stat_printed [OF b iv l] MAX_STAT_EVS_def using False by blast
qed

text \<open>What a reading means: an individual with nature \<open>n\<close> and individual values \<open>ivs\<close> prints every
  value that was read, with effort values in the sample's range.\<close>

definition explains :: "nat \<Rightarrow> nat list \<Rightarrow> sample \<Rightarrow> bool" where
  "explains n ivs s \<longleftrightarrow> (\<forall>j<6. \<forall>v. sample_stats s ! j = Some v \<longrightarrow>
    j = HP \<and> sample_fixed_hp s \<or>
    (\<exists>ev. sample_ev_low s ! j \<le> ev \<and> ev \<le> max (sample_ev_low s ! j) (sample_ev_high s ! j)
      \<and> stat (sample_base s ! j) j (sample_level s) (ivs ! j) ev n = v))"

definition explained :: "sample list \<Rightarrow> nat \<Rightarrow> nat list \<Rightarrow> bool" where
  "explained samples n ivs \<longleftrightarrow>
    length ivs = 6 \<and> list_all (\<lambda>i. i \<le> 31) ivs \<and> (\<forall>s\<in>set samples. explains n ivs s)"

definition sample_ok :: "sample \<Rightarrow> bool" where
  "sample_ok s \<longleftrightarrow> sample_level s \<le> 100 \<and> length (sample_base s) = 6 \<and>
    length (sample_stats s) = 6 \<and> length (sample_ev_low s) = 6 \<and> length (sample_ev_high s) = 6 \<and>
    list_all (\<lambda>b. b \<le> 255) (sample_base s)"

definition allows :: "nat \<Rightarrow> nat \<Rightarrow> nat \<Rightarrow> sample \<Rightarrow> bool" where
  "allows n j i s \<longleftrightarrow> (\<forall>v. sample_stats s ! j = Some v \<longrightarrow> bit (fitting_ivs s j v n) i)"

lemma explains_allows:
  assumes "sample_ok s" "length ivs = 6" "list_all (\<lambda>i. i \<le> 31) ivs"
  shows "explains n ivs s \<longleftrightarrow> (\<forall>j<6. allows n j (ivs ! j) s)"
proof -
  have "bit (fitting_ivs s j v n) (ivs ! j) \<longleftrightarrow> j = HP \<and> sample_fixed_hp s \<or>
      (\<exists>ev. sample_ev_low s ! j \<le> ev \<and> ev \<le> max (sample_ev_low s ! j) (sample_ev_high s ! j)
        \<and> stat (sample_base s ! j) j (sample_level s) (ivs ! j) ev n = v)" if "j < 6" for j v
    using that assms by (intro bit_fitting_ivs) (auto simp: sample_ok_def list_all_length)
  then show ?thesis unfolding explains_def allows_def by blast
qed

lemma length_narrow_fold [simp]: "length (foldl (narrow_stat n s) ivs ivals) = length ivs"
  by (induction ivals arbitrary: ivs) (auto simp: narrow_stat_def split: option.splits)

lemma length_narrow_sample [simp]: "length (narrow_sample n ivs s) = length ivs"
  by (simp add: narrow_sample_def)

lemma length_narrow_samples [simp]: "length (foldl (narrow_sample n) ivs ss) = length ivs"
  by (induction ss arbitrary: ivs) auto

lemma bit_narrow_fold:
  "k + length vs \<le> length ivs \<Longrightarrow> j < length ivs \<Longrightarrow>
    bit (foldl (narrow_stat n s) ivs (enumerate k vs) ! j) i \<longleftrightarrow>
    bit (ivs ! j) i \<and> (\<forall>v. k \<le> j \<and> j < k + length vs \<and> vs ! (j - k) = Some v
      \<longrightarrow> bit (fitting_ivs s j v n) i)"
proof (induction vs arbitrary: k ivs)
  case (Cons x xs)
  have "bit (narrow_stat n s ivs (k, x) ! j) i \<longleftrightarrow>
      bit (ivs ! j) i \<and> (\<forall>v. j = k \<and> x = Some v \<longrightarrow> bit (fitting_ivs s j v n) i)"
    using Cons.prems by (cases x; cases "j = k") (simp_all add: narrow_stat_def bit_and_iff)
  moreover have "length (narrow_stat n s ivs (k, x)) = length ivs"
    by (simp add: narrow_stat_def split: option.splits)
  moreover have "(k \<le> j \<and> j < k + length (x # xs) \<and> (x # xs) ! (j - k) = Some v) \<longleftrightarrow>
      (j = k \<and> x = Some v) \<or> (Suc k \<le> j \<and> j < Suc k + length xs \<and> xs ! (j - Suc k) = Some v)" for v
    by (cases "j = k"; cases "j < k") (auto simp: nth_Cons' le_Suc_eq)
  ultimately show ?case
    using Cons.IH [of "Suc k" "narrow_stat n s ivs (k, x)"] Cons.prems by (simp; blast)
qed auto

lemma bit_narrow_sample:
  assumes "length ivs = 6" "length (sample_stats s) = 6" "j < 6"
  shows "bit (narrow_sample n ivs s ! j) i \<longleftrightarrow> bit (ivs ! j) i \<and> allows n j i s"
  using assms by (simp add: narrow_sample_def bit_narrow_fold allows_def)

lemma bit_narrow_samples:
  assumes "length ivs = 6" "j < 6" "\<forall>s\<in>set ss. length (sample_stats s) = 6"
  shows "bit (foldl (narrow_sample n) ivs ss ! j) i \<longleftrightarrow> bit (ivs ! j) i \<and> (\<forall>s\<in>set ss. allows n j i s)"
  using assms by (induction ss arbitrary: ivs) (auto simp: bit_narrow_sample)

text \<open>Per nature, the masks hold exactly the individual values of the individuals that explain
  every sample, and there are none exactly when no individual does.\<close>

lemma solve_nature_exact:
  assumes ok: "\<forall>s\<in>set samples. sample_ok s"
  shows "case solve_nature samples n of
      None \<Rightarrow> \<nexists>ivs. explained samples n ivs
    | Some m \<Rightarrow> length m = 6 \<and> (\<exists>ivs. explained samples n ivs) \<and>
        (\<forall>j<6. \<forall>i. bit (m ! j) i \<longleftrightarrow> (\<exists>ivs. explained samples n ivs \<and> ivs ! j = i))"
proof -
  define m where "m = foldl (narrow_sample n) (replicate 6 ALL_IVS) samples"
  have len: "length m = 6" by (simp add: m_def)
  have bit_m: "bit (m ! j) i \<longleftrightarrow> i \<le> 31 \<and> (\<forall>s\<in>set samples. allows n j i s)" if "j < 6" for i j
    using that ok by (subst m_def, subst bit_narrow_samples)
      (auto simp: ALL_IVS_def sample_ok_def bit_simps)
  have explained_iff: "explained samples n ivs \<longleftrightarrow> length ivs = 6 \<and> (\<forall>j<6. bit (m ! j) (ivs ! j))"
    for ivs
  proof -
    have "explained samples n ivs \<longleftrightarrow> length ivs = 6 \<and> list_all (\<lambda>i. i \<le> 31) ivs \<and>
        (\<forall>s\<in>set samples. \<forall>j<6. allows n j (ivs ! j) s)"
      using ok explains_allows [of _ ivs n] unfolding explained_def by blast
    then show ?thesis by (auto simp: bit_m list_all_length)
  qed
  have none: "\<exists>ivs. explained samples n ivs" if "list_all (\<lambda>x. x \<noteq> 0) m"
  proof -
    have "\<forall>j<6. \<exists>i. bit (m ! j) i"
      using that len by (auto simp: list_all_length u32_neq_0_bit)
    then obtain f where "\<forall>j<6. bit (m ! j) (f j)" by metis
    then show ?thesis by (intro exI [of _ "map f [0..<6]"]) (simp add: explained_iff)
  qed
  have some: "list_all (\<lambda>x. x \<noteq> 0) m" if "explained samples n ivs" for ivs
    using that len by (auto simp: explained_iff list_all_length)
  have exact: "bit (m ! j) i \<longleftrightarrow> (\<exists>ivs'. explained samples n ivs' \<and> ivs' ! j = i)"
    if e: "explained samples n ivs" and j: "j < 6" for ivs i j
  proof
    assume "bit (m ! j) i"
    then show "\<exists>ivs'. explained samples n ivs' \<and> ivs' ! j = i"
      using e j by (intro exI [of _ "ivs[j := i]"]) (auto simp: explained_iff nth_list_update)
  qed (use j in \<open>auto simp: explained_iff\<close>)
  show ?thesis
    using len none some exact by (auto simp: solve_nature_def Let_def m_def [symmetric])
qed

lemma add_nature_exact:
  assumes ok: "\<forall>s\<in>set samples. sample_ok s" and len: "length (est_ivs out) = 6" and n: "n < 32"
  shows "length (est_ivs (add_nature samples out n)) = 6"
    and "est_consistent (add_nature samples out n) = est_consistent out"
    and "bit (est_natures (add_nature samples out n)) k \<longleftrightarrow>
      bit (est_natures out) k \<or> k = n \<and> (\<exists>ivs. explained samples n ivs)"
    and "j < 6 \<Longrightarrow> bit (est_ivs (add_nature samples out n) ! j) i \<longleftrightarrow>
      bit (est_ivs out ! j) i \<or> (\<exists>ivs. explained samples n ivs \<and> ivs ! j = i)"
  using solve_nature_exact [OF ok, of n] len n
  by (auto simp: add_nature_def bit_simps split: option.splits)

lemma add_natures_exact:
  assumes ok: "\<forall>s\<in>set samples. sample_ok s" and len: "length (est_ivs out) = 6"
    and ns: "\<forall>n\<in>set ns. n < 32"
  shows "length (est_ivs (foldl (add_nature samples) out ns)) = 6 \<and>
    est_consistent (foldl (add_nature samples) out ns) = est_consistent out \<and>
    (\<forall>k. bit (est_natures (foldl (add_nature samples) out ns)) k \<longleftrightarrow>
      bit (est_natures out) k \<or> k \<in> set ns \<and> (\<exists>ivs. explained samples k ivs)) \<and>
    (\<forall>j<6. \<forall>i. bit (est_ivs (foldl (add_nature samples) out ns) ! j) i \<longleftrightarrow>
      bit (est_ivs out ! j) i \<or> (\<exists>n\<in>set ns. \<exists>ivs. explained samples n ivs \<and> ivs ! j = i))"
  using len ns
proof (induction ns arbitrary: out)
  case (Cons n ns)
  note step = add_nature_exact [OF ok Cons.prems(1), of n]
  have n: "n < 32" using Cons.prems(2) by simp
  show ?case
    using Cons.IH [OF step(1) [OF n]] Cons.prems(2) n
    by (auto simp: step(2) [OF n] step(3) [OF n] step(4) [OF n])
qed auto

text \<open>The possible natures and individual values, under the allowed natures.\<close>

definition possible :: "sample list \<Rightarrow> u32 \<Rightarrow> nat \<Rightarrow> nat list \<Rightarrow> bool" where
  "possible samples natures n ivs \<longleftrightarrow> n < 25 \<and> bit natures n \<and> explained samples n ivs"

definition exact_estimate :: "sample list \<Rightarrow> u32 \<Rightarrow> estimate \<Rightarrow> bool" where
  "exact_estimate samples natures e \<longleftrightarrow>
    (\<exists>n ivs. possible samples natures n ivs) \<and> length (est_ivs e) = 6 \<and>
    (\<forall>n. bit (est_natures e) n \<longleftrightarrow> (\<exists>ivs. possible samples natures n ivs)) \<and>
    (\<forall>j<6. \<forall>i. bit (est_ivs e ! j) i \<longleftrightarrow> (\<exists>n ivs. possible samples natures n ivs \<and> ivs ! j = i))"

lemma solve_with_exact:
  assumes ok: "\<forall>s\<in>set samples. sample_ok s"
  shows "case solve_with samples natures of
      None \<Rightarrow> \<nexists>n ivs. possible samples natures n ivs
    | Some e \<Rightarrow> est_consistent e \<and> exact_estimate samples natures e"
proof -
  define ns where "ns = filter (\<lambda>n. natures AND push_bit n 1 \<noteq> 0) [0..<25]"
  define out where "out = foldl (add_nature samples)
    \<lparr>est_natures = 0, est_ivs = replicate 6 0, est_consistent = True\<rparr> ns"
  have ns: "n \<in> set ns \<longleftrightarrow> n < 25 \<and> bit natures n" for n
    using and_push_bit_1_iff [of natures n] by (auto simp: ns_def)
  have e: "length (est_ivs out) = 6" "est_consistent out"
    "\<And>k. bit (est_natures out) k \<longleftrightarrow> (\<exists>ivs. possible samples natures k ivs)"
    "\<And>j i. j < 6 \<Longrightarrow> bit (est_ivs out ! j) i \<longleftrightarrow> (\<exists>n ivs. possible samples natures n ivs \<and> ivs ! j = i)"
    using add_natures_exact [OF ok, of "\<lparr>est_natures = 0, est_ivs = replicate 6 0, est_consistent = True\<rparr>" ns]
    by (auto simp: out_def [symmetric] ns possible_def)
  have "est_natures out \<noteq> 0 \<longleftrightarrow> (\<exists>n ivs. possible samples natures n ivs)"
    by (auto simp: u32_neq_0_bit e(3)) (auto simp: possible_def intro!: exI)
  then show ?thesis
    using e unfolding solve_with_def Let_def ns_def [symmetric] out_def [symmetric] exact_estimate_def
    by auto
qed

lemma open_sample_ok: "sample_ok s \<Longrightarrow> sample_ok (open_sample s)"
  by (simp add: sample_ok_def open_sample_def)

text \<open>C8: the solver is exact. When some individual (a nature among the allowed ones and six
  individual values) explains every reading with the effort values as given, the estimate is
  consistent and holds exactly the natures and individual values of such individuals; otherwise
  the ranges are opened upwards and the estimate, marked inconsistent, is exact for those; and
  there is no estimate only when not even the opened ranges allow an individual.\<close>

theorem solve_exact:
  assumes "\<forall>s\<in>set samples. sample_ok s"
  shows "case solve samples natures of
      None \<Rightarrow> (\<nexists>n ivs. possible samples natures n ivs) \<and>
        (\<nexists>n ivs. possible (map open_sample samples) natures n ivs)
    | Some e \<Rightarrow> if est_consistent e then exact_estimate samples natures e
        else (\<nexists>n ivs. possible samples natures n ivs) \<and>
          exact_estimate (map open_sample samples) natures e"
proof -
  have "\<forall>s\<in>set (map open_sample samples). sample_ok s"
    using assms open_sample_ok by auto
  from solve_with_exact [OF this, of natures] solve_with_exact [OF assms, of natures]
  show ?thesis
    by (auto simp: solve_def exact_estimate_def split: option.splits)
qed

definition bulbasaur_sample :: sample where
  "bulbasaur_sample = \<lparr>sample_base = [45, 49, 49, 45, 65, 65], sample_fixed_hp = False,
    sample_level = 5, sample_stats = [Some 20, Some 10, None, None, Some 12, None],
    sample_ev_low = replicate 6 0, sample_ev_high = replicate 6 4\<rparr>"

theorem solve_exact_witness:
  "case solve [bulbasaur_sample] ALL_NATURES of
      None \<Rightarrow> (\<nexists>n ivs. possible [bulbasaur_sample] ALL_NATURES n ivs) \<and>
        (\<nexists>n ivs. possible (map open_sample [bulbasaur_sample]) ALL_NATURES n ivs)
    | Some e \<Rightarrow> if est_consistent e then exact_estimate [bulbasaur_sample] ALL_NATURES e
        else (\<nexists>n ivs. possible [bulbasaur_sample] ALL_NATURES n ivs) \<and>
          exact_estimate (map open_sample [bulbasaur_sample]) ALL_NATURES e"
  by (rule solve_exact) (simp add: sample_ok_def bulbasaur_sample_def)

section \<open>What an estimate shows\<close>

lemma trailing_zeros_least:
  assumes "bit m i" "i < 32"
  shows "bit m (trailing_zeros m) \<and> trailing_zeros m \<le> i"
proof -
  let ?t = "takeWhile (\<lambda>i. \<not> bit m i) [0..<32]"
  have nth: "?t ! k = k" if "k < length ?t" for k
    using takeWhile_nth [OF that] that length_takeWhile_le [of "\<lambda>i. \<not> bit m i" "[0..<32]"]
    by (simp add: less_le_trans)
  have le: "length ?t \<le> i"
  proof (rule ccontr)
    assume "\<not> length ?t \<le> i"
    then have "i \<in> set ?t" using nth [of i] by (metis not_le nth_mem)
    then show False using assms(1) by (auto dest: set_takeWhileD)
  qed
  then have "\<not> \<not> bit m ([0..<32] ! length ?t)"
    using assms(2) by (intro nth_length_takeWhile) simp
  then show ?thesis using le assms(2) by (simp add: trailing_zeros_def)
qed

lemma leading_zeros_greatest:
  assumes "bit m i" "i < 32"
  shows "bit m (31 - leading_zeros m) \<and> i \<le> 31 - leading_zeros m"
proof -
  let ?r = "rev [0..<32]"
  let ?t = "takeWhile (\<lambda>i. \<not> bit m i) ?r"
  have r: "k < 32 \<Longrightarrow> ?r ! k = 31 - k" for k by (simp add: rev_nth)
  have le: "length ?t \<le> 31 - i"
  proof (rule ccontr)
    assume "\<not> length ?t \<le> 31 - i"
    then have "?t ! (31 - i) \<in> set ?t" "?t ! (31 - i) = ?r ! (31 - i)"
      by (intro nth_mem takeWhile_nth; simp)+
    then show False using assms by (auto dest: set_takeWhileD simp: r)
  qed
  then have "\<not> \<not> bit m (?r ! length ?t)"
    using assms(2) by (intro nth_length_takeWhile) simp
  then show ?thesis using le assms(2) by (simp add: leading_zeros_def r)
qed

text \<open>The range printed for a stat is the least and the greatest individual value that is
  possible, and there is one exactly when any value is possible.\<close>

lemma iv_range_bounds:
  "case iv_range e j of
     None \<Rightarrow> \<forall>i. \<not> bit (est_ivs e ! j) i
   | Some (lo, hi) \<Rightarrow> bit (est_ivs e ! j) lo \<and> bit (est_ivs e ! j) hi \<and>
       (\<forall>i. bit (est_ivs e ! j) i \<longrightarrow> lo \<le> i \<and> i \<le> hi)"
proof (cases "est_ivs e ! j = 0")
  case False
  then obtain i where "bit (est_ivs e ! j) i" "i < 32" by (auto simp: u32_neq_0_bit)
  moreover have "i < 32" if "bit (est_ivs e ! j) i" for i
    using bit_imp_le_length [OF that] by simp
  ultimately show ?thesis
    using False trailing_zeros_least leading_zeros_greatest by (auto simp: iv_range_def Let_def)
qed (simp add: iv_range_def)

section \<open>Effort values stay within their caps\<close>

definition full_gain :: "nat list \<Rightarrow> bool \<Rightarrow> bool \<Rightarrow> nat \<Rightarrow> nat" where
  "full_gain yields pokerus macho_brace i =
    yields ! i * (if pokerus then 2 else 1) * (if macho_brace then 2 else 1)"

definition evs_ok :: "nat list \<Rightarrow> bool" where
  "evs_ok evs \<longleftrightarrow> length evs = 6 \<and> list_all (\<lambda>e. e \<le> 255) evs \<and> sum_list evs \<le> 510"

lemma evs_ok_add:
  assumes "evs_ok evs" "i < 6" "evs ! i + g \<le> 255" "sum_list evs + g \<le> 510"
  shows "evs_ok (evs[i := evs ! i + g])" "sum_list (evs[i := evs ! i + g]) = sum_list evs + g"
  using assms by (auto simp: evs_ok_def sum_list_update list_all_length nth_list_update)

lemma one_gain_bounds:
  assumes "evs_ok evs" "i < 6"
  shows "evs ! i + one_gain yields pk mb (sum_list evs) evs i \<le> 255"
    and "sum_list evs + one_gain yields pk mb (sum_list evs) evs i \<le> 510"
    and "one_gain yields pk mb (sum_list evs) evs i \<le> full_gain yields pk mb i"
    and "one_gain yields pk mb (sum_list evs) evs i = full_gain yields pk mb i \<or>
      evs ! i + one_gain yields pk mb (sum_list evs) evs i = 255 \<or>
      sum_list evs + one_gain yields pk mb (sum_list evs) evs i = 510"
proof -
  have "evs ! i \<le> 255" "sum_list evs \<le> 510" using assms by (auto simp: evs_ok_def list_all_length)
  moreover have "one_gain yields pk mb (sum_list evs) evs i
      = min (min (full_gain yields pk mb i) (510 - sum_list evs)) (255 - evs ! i)"
    by (simp add: one_gain_def full_gain_def Let_def training_consts)
  ultimately show "evs ! i + one_gain yields pk mb (sum_list evs) evs i \<le> 255"
    "sum_list evs + one_gain yields pk mb (sum_list evs) evs i \<le> 510"
    "one_gain yields pk mb (sum_list evs) evs i \<le> full_gain yields pk mb i"
    "one_gain yields pk mb (sum_list evs) evs i = full_gain yields pk mb i \<or>
      evs ! i + one_gain yields pk mb (sum_list evs) evs i = 255 \<or>
      sum_list evs + one_gain yields pk mb (sum_list evs) evs i = 510"
    by linarith+
qed

definition gained :: "nat list \<Rightarrow> bool \<Rightarrow> bool \<Rightarrow> nat list \<Rightarrow> nat list \<Rightarrow> nat list \<Rightarrow> nat \<Rightarrow> bool" where
  "gained yields pk mb evs evs' added i \<longleftrightarrow>
    evs' ! i = evs ! i + added ! i \<and> added ! i \<le> full_gain yields pk mb i \<and>
    (added ! i = full_gain yields pk mb i \<or> evs' ! i = 255 \<or> sum_list evs' = 510)"

lemma gain_loop_caps:
  assumes "evs_ok evs" "distinct is" "\<forall>i\<in>set is. i < 6 \<and> added ! i = 0" "length added = 6"
    and "gain_loop is yields pk mb (sum_list evs) evs added = (evs', added')"
  shows "evs_ok evs' \<and> length added' = 6 \<and> sum_list evs \<le> sum_list evs' \<and>
    (\<forall>i. i \<notin> set is \<longrightarrow> evs' ! i = evs ! i \<and> added' ! i = added ! i) \<and>
    (\<forall>i\<in>set is. gained yields pk mb evs evs' added' i)"
  using assms
proof (induction "is" arbitrary: evs added)
  case (Cons i "is")
  show ?case
  proof (cases "sum_list evs \<ge> MAX_TOTAL_EVS")
    case True
    then have "evs' = evs" "added' = added" "sum_list evs = 510"
      using Cons.prems by (auto simp: evs_ok_def training_consts)
    then show ?thesis using Cons.prems by (auto simp: gained_def)
  next
    case False
    let ?g = "one_gain yields pk mb (sum_list evs) evs i"
    let ?evs = "evs[i := evs ! i + ?g]"
    have i: "i < 6" "i \<notin> set is" using Cons.prems by auto
    note b = one_gain_bounds [OF Cons.prems(1) i(1), of yields pk mb]
    note ok = evs_ok_add [OF Cons.prems(1) i(1) b(1,2)]
    have len: "length evs = 6" using Cons.prems(1) by (simp add: evs_ok_def)
    have "gain_loop is yields pk mb (sum_list ?evs) ?evs (added[i := ?g]) = (evs', added')"
      using Cons.prems(5) False by (simp add: ok(2) Let_def)
    from Cons.IH [OF ok(1) _ _ _ this]
    have ih: "evs_ok evs' \<and> length added' = 6 \<and> sum_list ?evs \<le> sum_list evs' \<and>
      (\<forall>k. k \<notin> set is \<longrightarrow> evs' ! k = ?evs ! k \<and> added' ! k = added[i := ?g] ! k) \<and>
      (\<forall>k\<in>set is. gained yields pk mb ?evs evs' added' k)"
      using Cons.prems(2-4) i by (auto simp: nth_list_update)
    then have sum: "sum_list evs + ?g \<le> sum_list evs'" "sum_list evs' \<le> 510"
      by (simp_all add: ok(2) evs_ok_def)
    have "gained yields pk mb evs evs' added' i"
    proof -
      have "evs' ! i = evs ! i + ?g" "added' ! i = ?g"
        using ih i Cons.prems(4) len by auto
      then show ?thesis using b sum by (auto simp: gained_def)
    qed
    moreover have "gained yields pk mb evs evs' added' k" if "k \<in> set is" for k
    proof -
      have "k \<noteq> i" using that i by auto
      then show ?thesis using ih that by (auto simp: gained_def)
    qed
    ultimately show ?thesis using ih sum by auto
  qed
qed auto

lemma gain_evs_gained:
  assumes "evs_ok evs"
  shows "case gain_evs evs yields pokerus macho_brace of (evs', added) \<Rightarrow>
    evs_ok evs' \<and> length added = 6 \<and> (\<forall>i<6. gained yields pokerus macho_brace evs evs' added i)"
proof -
  have "sum_list evs mod 65536 = sum_list evs" using assms by (simp add: evs_ok_def)
  moreover obtain evs' added where
    "gain_loop [0..<6] yields pokerus macho_brace (sum_list evs) evs (replicate 6 0) = (evs', added)"
    by fastforce
  moreover from gain_loop_caps [OF assms _ _ _ this]
  have "evs_ok evs' \<and> length added = 6 \<and> (\<forall>i<6. gained yields pokerus macho_brace evs evs' added i)"
    by simp
  ultimately show ?thesis by (simp add: gain_evs_def)
qed

text \<open>A defeat's effort values stay under the caps of 255 per stat and 510 in all; each stat
  gains what is reported, at most its (doubled) yield, and less only when a cap is reached.\<close>

lemma gain_evs_caps:
  assumes "evs_ok evs"
  shows "case gain_evs evs yields pokerus macho_brace of (evs', added) \<Rightarrow>
    evs_ok evs' \<and> length added = 6 \<and> (\<forall>i<6. gained yields pokerus macho_brace evs evs' added i)"
  by (rule gain_evs_gained [OF assms])

text \<open>A vitamin is refused exactly when the stat has 100 effort values or the total 510;
  otherwise it adds 10, or what is left to those caps, to that stat alone.\<close>

lemma vitamin_effect:
  assumes "evs_ok evs" "i < 6"
  shows "vitamin evs i =
    (if sum_list evs = 510 \<or> 100 \<le> evs ! i then (evs, None)
     else let g = min 10 (min (100 - evs ! i) (510 - sum_list evs)) in
       (evs[i := evs ! i + g], Some g))"
    and "evs_ok (fst (vitamin evs i))"
proof -
  have s: "sum_list evs mod 65536 = sum_list evs" "sum_list evs \<ge> 510 \<longleftrightarrow> sum_list evs = 510"
    using assms by (auto simp: evs_ok_def)
  show v: "vitamin evs i =
    (if sum_list evs = 510 \<or> 100 \<le> evs ! i then (evs, None)
     else let g = min 10 (min (100 - evs ! i) (510 - sum_list evs)) in
       (evs[i := evs ! i + g], Some g))"
    using s by (simp add: vitamin_def Let_def training_consts min.assoc)
  have "evs ! i + min 10 (min (100 - evs ! i) (510 - sum_list evs)) \<le> 255"
    "sum_list evs + min 10 (min (100 - evs ! i) (510 - sum_list evs)) \<le> 510"
    if "evs ! i < 100" "sum_list evs \<noteq> 510"
    using that assms(1) by (auto simp: evs_ok_def min_def)
  then show "evs_ok (fst (vitamin evs i))"
    using assms evs_ok_add(1) [OF assms] unfolding v by (auto simp: Let_def)
qed

lemma nature_named_NATURES: "i < 25 \<Longrightarrow> nature_named (NATURES ! i) = Some i"
proof -
  have "list_all (\<lambda>i. nature_named (NATURES ! i) = Some i) [0..<25]"
    by code_simp
  then show "i < 25 \<Longrightarrow> nature_named (NATURES ! i) = Some i"
    by (simp add: list_all_length)
qed

end
