(* ===== verification/Rng.thy ===== *)
theory Rng
  imports Training "HOL-Library.Multiset"
begin

text \<open>
  The random numbers of the game and what they decide (crates/gamedata/src/rng.rs): the 32-bit
  generator and its jump by square-and-multiply, the Pokemon that method 1 makes at an advance,
  the search for every seed and advance that explains a summary screen, and the advances that
  make a shiny one. The states are \<open>u32\<close> words, as the arithmetic wraps. The thread count of
  \<open>search\<close> is an argument: it comes from \<open>std::thread::available_parallelism\<close>.
\<close>

section \<open>The generator\<close>

definition MULTIPLIER :: u32 where "MULTIPLIER = 0x41C64E6D"
definition INCREMENT :: u32 where "INCREMENT = 0x6073"
definition CYCLES_PER_FRAME :: int where "CYCLES_PER_FRAME = 280896"
definition SHINY_ODDS :: u16 where "SHINY_ODDS = 8"

definition rng_next :: "u32 \<Rightarrow> u32" where
  "rng_next state = state * MULTIPLIER + INCREMENT"

definition high :: "u32 \<Rightarrow> u16" where
  "high state = ucast (drop_bit 16 state)"

text \<open>The loop of \<open>jump\<close>: the affine map \<open>(m, c)\<close> is squared while the accumulator collects
  the factors of the set bits of \<open>n\<close>.\<close>

fun jump_loop :: "nat \<Rightarrow> u32 \<Rightarrow> u32 \<Rightarrow> u32 \<Rightarrow> u32 \<Rightarrow> u32 \<times> u32" where
  "jump_loop n m c acc_m acc_c =
    (if n = 0 then (acc_m, acc_c)
     else jump_loop (n div 2) (m * m) (c * m + c)
       (if odd n then acc_m * m else acc_m) (if odd n then acc_c * m + c else acc_c))"

declare jump_loop.simps [simp del]

definition jump :: "u32 \<Rightarrow> nat \<Rightarrow> u32" where
  "jump state steps =
    (case jump_loop steps MULTIPLIER INCREMENT 1 0 of (acc_m, acc_c) \<Rightarrow> acc_m * state + acc_c)"

text \<open>The arithmetic of \<open>seed_after_frames\<close> is of \<open>i64\<close>, whose wrap-around is a multiple of
  65536.\<close>

definition seed_after_frames :: "u16 \<Rightarrow> 64 word \<Rightarrow> u16" where
  "seed_after_frames seed frames =
    (let step = word_of_int (CYCLES_PER_FRAME mod 65536)
     in word_of_int (sint (ucast seed + frames * step :: 64 word) mod 65536))"

section \<open>A Pokemon of method 1\<close>

record method1_mon =
  mon_pid :: u32
  mon_ivs :: "nat list"

record trainer_ids =
  ids_tid :: u16
  ids_sid :: u16

record summary_reading =
  reading_nature :: nat
  reading_stats :: "nat list"

definition iv_of :: "u16 \<Rightarrow> nat \<Rightarrow> nat" where
  "iv_of word shift = unat (drop_bit shift word AND 31)"

definition from_calls :: "u16 \<Rightarrow> u16 \<Rightarrow> u16 \<Rightarrow> u16 \<Rightarrow> method1_mon" where
  "from_calls r0 r1 r2 r3 =
    \<lparr>mon_pid = ucast r0 OR push_bit 16 (ucast r1),
     mon_ivs = [iv_of r2 0, iv_of r2 5, iv_of r2 10, iv_of r3 0, iv_of r3 5, iv_of r3 10]\<rparr>"

definition from_state :: "u32 \<Rightarrow> method1_mon" where
  "from_state state =
    (let s1 = rng_next state; s2 = rng_next s1; s3 = rng_next s2; s4 = rng_next s3
     in from_calls (high s1) (high s2) (high s3) (high s4))"

definition mon_at :: "u16 \<Rightarrow> nat \<Rightarrow> method1_mon" where
  "mon_at seed advance = from_state (jump (ucast seed) advance)"

definition mon_nature :: "method1_mon \<Rightarrow> nat" where
  "mon_nature mon = unat (mon_pid mon) mod 25"

definition shiny_value :: "method1_mon \<Rightarrow> trainer_ids \<Rightarrow> u16" where
  "shiny_value mon ids =
    ids_tid ids XOR ids_sid ids XOR ucast (drop_bit 16 (mon_pid mon))
      XOR ucast (mon_pid mon AND 0xFFFF)"

definition is_shiny :: "method1_mon \<Rightarrow> trainer_ids \<Rightarrow> bool" where
  "is_shiny mon ids \<longleftrightarrow> shiny_value mon ids < SHINY_ODDS"

definition mon_reading :: "method1_mon \<Rightarrow> nat list \<Rightarrow> nat \<Rightarrow> summary_reading" where
  "mon_reading mon base level =
    \<lparr>reading_nature = mon_nature mon,
     reading_stats = map (\<lambda>i. stat (base ! i) i level (mon_ivs mon ! i) 0 (mon_nature mon)) [0..<6]\<rparr>"

section \<open>Searching the seeds\<close>

definition iv_masks :: "summary_reading \<Rightarrow> nat list \<Rightarrow> nat \<Rightarrow> u32 list option" where
  "iv_masks reading base level =
    (let masks = map (\<lambda>i. mask_where
         (\<lambda>iv. stat (base ! i) i level iv 0 (reading_nature reading) = reading_stats reading ! i)
         0 [0..<32]) [0..<6]
     in if list_ex (\<lambda>m. m = 0) masks then None else Some masks)"

text \<open>Hits are ordered by seed, then advance, as the derived \<open>Ord\<close> does.\<close>

datatype hit = Hit (hit_seed: u16) (hit_advance: nat)

instantiation hit :: linorder
begin

definition less_eq_hit :: "hit \<Rightarrow> hit \<Rightarrow> bool" where
  "a \<le> b \<longleftrightarrow> hit_seed a < hit_seed b \<or> hit_seed a = hit_seed b \<and> hit_advance a \<le> hit_advance b"

definition less_hit :: "hit \<Rightarrow> hit \<Rightarrow> bool" where
  "a < b \<longleftrightarrow> hit_seed a < hit_seed b \<or> hit_seed a = hit_seed b \<and> hit_advance a < hit_advance b"

instance
  by standard (auto simp: less_eq_hit_def less_hit_def intro: hit.expand)

end

definition word_fits :: "u32 list \<Rightarrow> u16 \<Rightarrow> nat \<Rightarrow> bool" where
  "word_fits masks word first =
    list_all (\<lambda>k. masks ! (first + k) AND push_bit (unat (drop_bit (5 * k) word AND 31)) 1 \<noteq> 0)
      [0..<3]"

text \<open>The scan of one seed: the state after the window, the window of the next four calls, and
  the hits so far.\<close>

primrec scan_loop :: "summary_reading \<Rightarrow> u32 list \<Rightarrow> u16 \<Rightarrow> nat list \<Rightarrow> u32
    \<Rightarrow> u16 \<Rightarrow> u16 \<Rightarrow> u16 \<Rightarrow> u16 \<Rightarrow> hit list \<Rightarrow> hit list" where
  "scan_loop reading masks seed [] s r0 r1 r2 r3 out = out"
| "scan_loop reading masks seed (advance # rest) s r0 r1 r2 r3 out =
    (let out = (if word_fits masks r2 0 \<and> word_fits masks r3 3 \<and>
                   unat (ucast r0 OR push_bit 16 (ucast r1) :: u32) mod 25 = reading_nature reading
                then out @ [Hit seed advance] else out);
         s = rng_next s
     in scan_loop reading masks seed rest s r1 r2 r3 (high s) out)"

definition scan :: "summary_reading \<Rightarrow> u32 list \<Rightarrow> nat \<Rightarrow> nat \<Rightarrow> hit list \<Rightarrow> u16 \<Rightarrow> hit list" where
  "scan reading masks start stop out seed =
    (let s0 = jump (ucast seed) start;
         s1 = rng_next s0; s2 = rng_next s1; s3 = rng_next s2; s4 = rng_next s3
     in scan_loop reading masks seed [start..<stop] s4 (high s1) (high s2) (high s3) (high s4) out)"

fun chunks :: "nat \<Rightarrow> 'a list \<Rightarrow> 'a list list" where
  "chunks n xs = (if xs = [] \<or> n = 0 then [] else take n xs # chunks n (drop n xs))"

declare chunks.simps [simp del]

definition div_ceil :: "nat \<Rightarrow> nat \<Rightarrow> nat" where
  "div_ceil a b = (a + b - 1) div b"

definition search :: "nat \<Rightarrow> summary_reading \<Rightarrow> nat list \<Rightarrow> nat \<Rightarrow> u16 list \<Rightarrow> nat \<Rightarrow> nat
    \<Rightarrow> hit list" where
  "search threads reading base level seeds start stop =
    (case iv_masks reading base level of
       None \<Rightarrow> []
     | Some masks \<Rightarrow>
         let chunk = max (div_ceil (length seeds) threads) 1;
             workers = map (\<lambda>part. foldl (scan reading masks start stop) [] part) (chunks chunk seeds)
         in sort (concat workers))"

definition all_seeds :: "u16 list" where
  "all_seeds = map word_of_nat [0..<65536]"

primrec shiny_loop :: "trainer_ids \<Rightarrow> nat list \<Rightarrow> u32 \<Rightarrow> u16 \<Rightarrow> u16 \<Rightarrow> nat list \<Rightarrow> nat list" where
  "shiny_loop ids [] t r0 r1 out = out"
| "shiny_loop ids (advance # rest) t r0 r1 out =
    (let out = (if ids_tid ids XOR ids_sid ids XOR r0 XOR r1 < SHINY_ODDS
                then out @ [advance] else out);
         t = rng_next t
     in shiny_loop ids rest t r1 (high t) out)"

definition shiny_advances :: "u16 \<Rightarrow> nat \<Rightarrow> nat \<Rightarrow> trainer_ids \<Rightarrow> nat list" where
  "shiny_advances seed start stop ids =
    (let t0 = jump (ucast seed) start; t1 = rng_next t0; t2 = rng_next t1
     in shiny_loop ids [start..<stop] t2 (high t1) (high t2) [])"

section \<open>Jumping\<close>

lemma jump_loop_affine:
  assumes "jump_loop n m c acc_m acc_c = (m', c')"
  shows "m' * s + c' = ((\<lambda>x. m * x + c) ^^ n) (acc_m * s + acc_c)"
  using assms
proof (induction n m c acc_m acc_c rule: jump_loop.induct)
  case (1 n m c acc_m acc_c)
  let ?f = "\<lambda>x. m * x + c" and ?acc = "acc_m * s + acc_c"
  show ?case
  proof (cases "n = 0")
    case True
    then show ?thesis using 1(2) by (simp add: jump_loop.simps)
  next
    case False
    have sq: "(\<lambda>x. (m * m) * x + (c * m + c)) = ?f ^^ 2"
      by (simp add: fun_eq_iff numeral_2_eq_2 algebra_simps)
    have step: "(if odd n then acc_m * m else acc_m) * s + (if odd n then acc_c * m + c else acc_c)
        = (?f ^^ (n mod 2)) ?acc"
      by (cases "odd n") (simp_all add: algebra_simps odd_iff_mod_2_eq_one even_iff_mod_2_eq_zero)
    have "jump_loop (n div 2) (m * m) (c * m + c)
        (if odd n then acc_m * m else acc_m) (if odd n then acc_c * m + c else acc_c) = (m', c')"
      using 1(2) False by (simp add: jump_loop.simps [of n])
    from 1(1) [OF False this]
    have "m' * s + c' = ((?f ^^ 2) ^^ (n div 2)) ((?f ^^ (n mod 2)) ?acc)"
      by (simp only: sq step)
    also have "\<dots> = (?f ^^ (2 * (n div 2) + n mod 2)) ?acc"
      by (simp only: funpow_mult funpow_add comp_apply)
    finally show ?thesis by simp
  qed
qed

lemma jump_iterates: "jump state steps = (rng_next ^^ steps) state"
proof -
  have "rng_next = (\<lambda>x. MULTIPLIER * x + INCREMENT)"
    by (simp add: fun_eq_iff rng_next_def)
  then show ?thesis
    using jump_loop_affine [of steps MULTIPLIER INCREMENT 1 0 _ _ state]
    by (auto simp: jump_def split: prod.split)
qed

text \<open>Jumping ahead by square-and-multiply is stepping the generator that many times.\<close>

lemma jump_is_stepping: "jump state steps = (rng_next ^^ steps) state"
  by (rule jump_iterates)

lemma jump_add: "jump (jump state a) b = jump state (a + b)"
  by (simp add: jump_iterates funpow_add add.commute [of a])

section \<open>The search finds exactly the advances that explain a reading\<close>

text \<open>The (i+1)-th call after advance \<open>a\<close>, and the Pokemon the next four calls make.\<close>

definition call :: "u16 \<Rightarrow> nat \<Rightarrow> u16" where
  "call seed i = high ((rng_next ^^ (i + 1)) (ucast seed))"

lemma mon_at_calls:
  "mon_at seed a = from_calls (call seed a) (call seed (a + 1)) (call seed (a + 2)) (call seed (a + 3))"
  by (simp add: mon_at_def from_state_def Let_def jump_iterates call_def numeral_2_eq_2 numeral_3_eq_3)

lemma iv_of_less: "iv_of w k < 32"
proof -
  have "drop_bit k w AND 31 \<le> 31" by (rule word_and_le1)
  then show ?thesis by (simp add: iv_of_def word_le_nat_alt)
qed

definition printing_ivs :: "summary_reading \<Rightarrow> nat list \<Rightarrow> nat \<Rightarrow> nat \<Rightarrow> nat \<Rightarrow> bool" where
  "printing_ivs reading base level i iv \<longleftrightarrow>
    stat (base ! i) i level iv 0 (reading_nature reading) = reading_stats reading ! i"

lemma upt6: "[0..<6] = [0, 1, 2, 3, 4, 5]"
  by (simp add: upt_rec)

lemma iv_masks_bits:
  "iv_masks reading base level = Some masks \<Longrightarrow> i < 6 \<Longrightarrow> iv < 32 \<Longrightarrow>
    bit (masks ! i) iv \<longleftrightarrow> printing_ivs reading base level i iv"
  by (auto simp: iv_masks_def Let_def bit_mask_where printing_ivs_def split: if_splits)

lemma iv_masks_None:
  "iv_masks reading base level = None \<longleftrightarrow>
    (\<exists>i<6. \<forall>iv<32. \<not> printing_ivs reading base level i iv)"
proof -
  have "mask_where (printing_ivs reading base level i) 0 [0..<32] = (0 :: u32) \<longleftrightarrow>
      (\<forall>iv<32. \<not> printing_ivs reading base level i iv)" for i
    using u32_neq_0_bit [of "mask_where (printing_ivs reading base level i) 0 [0..<32]"]
      bit_mask_where [where 'a = 32, of _ "printing_ivs reading base level i" 0 "[0..<32]"]
    by auto
  then show ?thesis
    unfolding iv_masks_def Let_def printing_ivs_def [symmetric] by (auto simp: list_ex_iff)
qed

lemma word_fits_iff:
  assumes "iv_masks reading base level = Some masks" "first \<le> 3"
  shows "word_fits masks w first \<longleftrightarrow>
    (\<forall>k<3. printing_ivs reading base level (first + k) (iv_of w (5 * k)))"
proof -
  have "masks ! (first + k) AND push_bit (unat (drop_bit (5 * k) w AND 31)) 1 \<noteq> 0 \<longleftrightarrow>
      printing_ivs reading base level (first + k) (iv_of w (5 * k))" if "k < 3" for k
    using iv_masks_bits [OF assms(1), of "first + k" "iv_of w (5 * k)"] that assms(2) iv_of_less [of w "5 * k"]
    unfolding and_push_bit_1_iff iv_of_def by simp
  then show ?thesis by (simp add: word_fits_def list_all_length del: push_bit_of_1 One_nat_def)
qed

lemma all_less_3: "(\<forall>k<3. P k) \<longleftrightarrow> P 0 \<and> P 1 \<and> P (2::nat)"
  by (auto simp: numeral_3_eq_3 numeral_2_eq_2 less_Suc_eq)

lemma mon_reading_eq_iff:
  assumes "length (reading_stats reading) = 6"
  shows "mon_reading (from_calls r0 r1 r2 r3) base level = reading \<longleftrightarrow>
    unat (ucast r0 OR push_bit 16 (ucast r1) :: u32) mod 25 = reading_nature reading \<and>
    (\<forall>k<3. printing_ivs reading base level (0 + k) (iv_of r2 (5 * k))) \<and>
    (\<forall>k<3. printing_ivs reading base level (3 + k) (iv_of r3 (5 * k)))"
proof -
  let ?m = "from_calls r0 r1 r2 r3"
  obtain a b c d e f where s: "reading_stats reading = [a, b, c, d, e, f]"
    using assms by (auto simp: length_Suc_conv numeral_eq_Suc)
  have "mon_reading ?m base level = reading \<longleftrightarrow> mon_nature ?m = reading_nature reading \<and>
    map (\<lambda>i. stat (base ! i) i level (mon_ivs ?m ! i) 0 (mon_nature ?m)) [0..<6] = reading_stats reading"
    by (cases reading) (auto simp: mon_reading_def)
  then show ?thesis
    by (auto simp: upt6 s all_less_3 printing_ivs_def from_calls_def mon_nature_def)
qed

text \<open>The advances of the range that explain the reading, one seed after the other.\<close>

definition explaining :: "summary_reading \<Rightarrow> nat list \<Rightarrow> nat \<Rightarrow> u16 \<Rightarrow> nat \<Rightarrow> bool" where
  "explaining reading base level seed a \<longleftrightarrow> mon_reading (mon_at seed a) base level = reading"

lemma scan_loop_hits:
  assumes m: "iv_masks reading base level = Some masks" and len: "length (reading_stats reading) = 6"
  shows "start \<le> stop \<Longrightarrow>
    scan_loop reading masks seed [start..<stop] ((rng_next ^^ (start + 4)) (ucast seed))
      (call seed start) (call seed (start + 1)) (call seed (start + 2)) (call seed (start + 3)) out
    = out @ map (Hit seed) (filter (explaining reading base level seed) [start..<stop])"
proof (induction "stop - start" arbitrary: start out)
  case (Suc n)
  then have split: "[start..<stop] = start # [Suc start..<stop]" by (simp add: upt_conv_Cons)
  have hit: "word_fits masks (call seed (start + 2)) 0 \<and> word_fits masks (call seed (start + 3)) 3 \<and>
      unat (ucast (call seed start) OR push_bit 16 (ucast (call seed (start + 1))) :: u32) mod 25
        = reading_nature reading \<longleftrightarrow> explaining reading base level seed start"
    unfolding explaining_def mon_at_calls mon_reading_eq_iff [OF len]
    using word_fits_iff [OF m, of 0] word_fits_iff [OF m, of 3] by simp blast
  have next': "rng_next ((rng_next ^^ (start + 4)) (ucast seed)) = (rng_next ^^ (Suc start + 4)) (ucast seed)"
    "high ((rng_next ^^ (Suc start + 4)) (ucast seed)) = call seed (Suc start + 3)"
    by (simp_all add: call_def numeral_eq_Suc)
  have ih: "scan_loop reading masks seed [Suc start..<stop] ((rng_next ^^ (Suc start + 4)) (ucast seed))
      (call seed (start + 1)) (call seed (start + 2)) (call seed (start + 3)) (call seed (Suc start + 3)) out'
    = out' @ map (Hit seed) (filter (explaining reading base level seed) [Suc start..<stop])" for out'
    using Suc.hyps(1) [of "Suc start" out'] Suc.hyps(2) Suc.prems by (simp add: numeral_eq_Suc)
  show ?case
    unfolding split scan_loop.simps Let_def hit next' ih by simp
qed simp

lemma scan_hits:
  assumes "iv_masks reading base level = Some masks" "length (reading_stats reading) = 6"
  shows "scan reading masks start stop out seed
    = out @ map (Hit seed) (filter (explaining reading base level seed) [start..<stop])"
proof (cases "start \<le> stop")
  case True
  have "rng_next (rng_next (rng_next (rng_next ((rng_next ^^ start) (ucast seed)))))
      = (rng_next ^^ (start + 4)) (ucast seed)"
    by (simp add: numeral_eq_Suc)
  moreover have "high (rng_next ((rng_next ^^ start) (ucast seed))) = call seed start"
    "high (rng_next (rng_next ((rng_next ^^ start) (ucast seed)))) = call seed (start + 1)"
    "high (rng_next (rng_next (rng_next ((rng_next ^^ start) (ucast seed))))) = call seed (start + 2)"
    by (simp_all add: call_def numeral_eq_Suc)
  moreover have "high ((rng_next ^^ (start + 4)) (ucast seed)) = call seed (start + 3)"
    by (simp add: call_def numeral_eq_Suc)
  ultimately show ?thesis
    using scan_loop_hits [OF assms True, of seed out]
    by (simp only: scan_def Let_def jump_iterates)
qed (simp add: scan_def)

definition hits_of :: "summary_reading \<Rightarrow> nat list \<Rightarrow> nat \<Rightarrow> nat \<Rightarrow> nat \<Rightarrow> u16 \<Rightarrow> hit list" where
  "hits_of reading base level start stop seed =
    map (Hit seed) (filter (explaining reading base level seed) [start..<stop])"

lemma scan_fold:
  assumes "iv_masks reading base level = Some masks" "length (reading_stats reading) = 6"
  shows "foldl (scan reading masks start stop) out seeds
    = out @ concat (map (hits_of reading base level start stop) seeds)"
  by (induction seeds arbitrary: out) (simp_all add: scan_hits [OF assms] hits_of_def)

lemma concat_chunks: "n > 0 \<Longrightarrow> concat (chunks n xs) = xs"
proof (induction n xs rule: chunks.induct)
  case (1 n xs)
  then show ?case by (subst chunks.simps) auto
qed

lemma workers_hits:
  assumes "iv_masks reading base level = Some masks" "length (reading_stats reading) = 6" "n > 0"
  shows "concat (map (foldl (scan reading masks start stop) []) (chunks n seeds))
    = concat (map (hits_of reading base level start stop) seeds)"
proof -
  have "concat (map (foldl (scan reading masks start stop) []) parts)
      = concat (map (hits_of reading base level start stop) (concat parts))" for parts
    by (induction parts) (simp_all add: scan_fold [OF assms(1,2)])
  then show ?thesis by (simp add: concat_chunks [OF assms(3)])
qed

lemma no_masks_no_hits:
  assumes "iv_masks reading base level = None" "length (reading_stats reading) = 6"
  shows "\<not> explaining reading base level seed a"
proof
  assume e: "explaining reading base level seed a"
  obtain i where i: "i < 6" "\<And>iv. iv < 32 \<Longrightarrow> \<not> printing_ivs reading base level i iv"
    using assms(1) by (auto simp: iv_masks_None)
  have "\<exists>k<3. i = 0 + k \<or> i = 3 + k"
    using i(1) by (intro exI [of _ "i mod 3"]) (auto, presburger)
  then show False
    using e i(2) iv_of_less unfolding explaining_def mon_at_calls mon_reading_eq_iff [OF assms(2)]
    by blast
qed

lemma concat_map_Nil: "concat (map (\<lambda>_. []) xs) = []"
  by (induction xs) auto

text \<open>C16: the search returns, in order and whatever the number of threads, every seed and advance
  whose Pokemon prints the reading, and nothing else, each once for each time its seed is given.\<close>

theorem search_exact:
  assumes "length (reading_stats reading) = 6"
  shows "sorted (search threads reading base level seeds start stop) \<and>
    mset (search threads reading base level seeds start stop) =
      mset (concat (map (\<lambda>seed. map (Hit seed)
        (filter (\<lambda>a. mon_reading (mon_at seed a) base level = reading) [start..<stop])) seeds))"
proof -
  have hits: "hits_of reading base level start stop = (\<lambda>seed. map (Hit seed)
      (filter (\<lambda>a. mon_reading (mon_at seed a) base level = reading) [start..<stop]))"
    by (simp add: fun_eq_iff hits_of_def explaining_def [abs_def])
  have "search threads reading base level seeds start stop
    = sort (concat (map (hits_of reading base level start stop) seeds))"
  proof (cases "iv_masks reading base level")
    case None
    then show ?thesis
      using no_masks_no_hits [OF None assms] by (simp add: search_def hits_of_def [abs_def] None concat_map_Nil)
  next
    case (Some masks)
    then show ?thesis
      by (simp add: search_def Let_def workers_hits [OF Some assms])
  qed
  then show ?thesis
    by (simp_all add: hits)
qed

theorem search_exact_witness:
  "sorted (search 4 (mon_reading (mon_at 0xC53A 1316) [39, 52, 43, 65, 60, 50] 5)
      [39, 52, 43, 65, 60, 50] 5 [0xC53A] 1316 1318)"
  by (rule search_exact [THEN conjunct1]) (simp add: mon_reading_def)

section \<open>Shiny advances\<close>

lemma ucast_halves:
  fixes r0 r1 :: u16
  shows "ucast (drop_bit 16 (ucast r0 OR push_bit 16 (ucast r1) :: u32)) = r1"
    and "ucast ((ucast r0 OR push_bit 16 (ucast r1) :: u32) AND 0xFFFF) = r0"
proof -
  have m: "(0xFFFF :: u32) = mask 16" by (simp add: mask_eq_exp_minus_1)
  have r: "\<not> bit r0 (16 + n)" for n using bit_imp_le_length [of r0 "16 + n"] by auto
  show "ucast (drop_bit 16 (ucast r0 OR push_bit 16 (ucast r1) :: u32)) = r1"
    by (rule bit_word_eqI) (auto simp: bit_simps r)
  show "ucast ((ucast r0 OR push_bit 16 (ucast r1) :: u32) AND 0xFFFF) = r0"
    unfolding m by (rule bit_word_eqI) (auto simp: bit_simps)
qed

lemma is_shiny_calls:
  "is_shiny (mon_at seed a) ids \<longleftrightarrow>
    ids_tid ids XOR ids_sid ids XOR call seed a XOR call seed (a + 1) < SHINY_ODDS"
  unfolding is_shiny_def shiny_value_def mon_at_calls from_calls_def method1_mon.simps ucast_halves
  by (simp add: ac_simps)

lemma shiny_loop_filter:
  "start \<le> stop \<Longrightarrow>
    shiny_loop ids [start..<stop] ((rng_next ^^ (start + 2)) (ucast seed))
      (call seed start) (call seed (start + 1)) out
    = out @ filter (\<lambda>a. is_shiny (mon_at seed a) ids) [start..<stop]"
proof (induction "stop - start" arbitrary: start out)
  case (Suc n)
  then have split: "[start..<stop] = start # [Suc start..<stop]" by (simp add: upt_conv_Cons)
  have next': "rng_next ((rng_next ^^ (start + 2)) (ucast seed)) = (rng_next ^^ (Suc start + 2)) (ucast seed)"
    "high ((rng_next ^^ (Suc start + 2)) (ucast seed)) = call seed (Suc start + 1)"
    by (simp_all add: call_def numeral_eq_Suc)
  have ih: "shiny_loop ids [Suc start..<stop] ((rng_next ^^ (Suc start + 2)) (ucast seed))
      (call seed (start + 1)) (call seed (Suc start + 1)) out'
    = out' @ filter (\<lambda>a. is_shiny (mon_at seed a) ids) [Suc start..<stop]" for out'
    using Suc.hyps(1) [of "Suc start" out'] Suc.hyps(2) Suc.prems by simp
  show ?case
    unfolding split shiny_loop.simps Let_def is_shiny_calls [symmetric] next' ih by simp
qed simp

text \<open>The advances listed for a seed are exactly those of the range at which the Pokemon is
  shiny for the trainer.\<close>

lemma shiny_advances_exact:
  "shiny_advances seed start stop ids = filter (\<lambda>a. is_shiny (mon_at seed a) ids) [start..<stop]"
proof (cases "start \<le> stop")
  case True
  have "rng_next (rng_next ((rng_next ^^ start) (ucast seed))) = (rng_next ^^ (start + 2)) (ucast seed)"
    "high (rng_next ((rng_next ^^ start) (ucast seed))) = call seed start"
    "high ((rng_next ^^ (start + 2)) (ucast seed)) = call seed (start + 1)"
    by (simp_all add: call_def numeral_eq_Suc)
  then show ?thesis
    using shiny_loop_filter [OF True, of ids seed "[]"]
    by (simp only: shiny_advances_def Let_def jump_iterates append_Nil)
qed (simp add: shiny_advances_def)

section \<open>The seed moves by a fixed step per frame\<close>

lemma mod_16_of_64: "x mod 65536 = (x mod 18446744073709551616) mod (65536::int)"
  by (simp add: mod_mod_cancel)

lemma low_half_add: "(ucast (a + b :: 64 word) :: u16) = ucast a + ucast b"
  by transfer (simp add: take_bit_eq_mod mod_mod_cancel, rule mod_add_cong; rule mod_16_of_64)

lemma low_half_mult: "(ucast (a * b :: 64 word) :: u16) = ucast a * ucast b"
  by transfer (simp add: take_bit_eq_mod mod_mod_cancel, rule mod_mult_cong; rule mod_16_of_64)

lemma low_half_minus: "(ucast (- a :: 64 word) :: u16) = - ucast a"
  using low_half_add [of "- a" a] by (simp add: eq_neg_iff_add_eq_0)

lemma seed_after_frames_word: "seed_after_frames seed frames = seed + ucast frames * 18752"
proof -
  let ?w = "ucast seed + frames * 18752 :: 64 word"
  have "word_of_int (sint ?w mod 65536) = (word_of_int (sint ?w) :: u16)"
    by (rule word_of_int_eq_iff [THEN iffD2]) (simp add: take_bit_eq_mod)
  also have "\<dots> = ucast ?w"
    by (rule bit_word_eqI) (auto simp: bit_simps bit_sint_iff)
  also have "\<dots> = ucast (ucast seed :: 64 word) + ucast frames * ucast (18752 :: 64 word)"
    by (simp only: low_half_add low_half_mult)
  also have "ucast (ucast seed :: 64 word) = seed"
    by (rule bit_word_eqI) (auto simp: bit_simps)
  finally show ?thesis by (simp add: seed_after_frames_def Let_def CYCLES_PER_FRAME_def)
qed

text \<open>A press later by \<open>a\<close> frames and then by \<open>b\<close> more gives the seed of \<open>a + b\<close> frames,
  and as many frames earlier gives the seed back, whatever the wrap-around.\<close>

lemma seed_after_frames_additive:
  "seed_after_frames (seed_after_frames seed a) b = seed_after_frames seed (a + b)"
  "seed_after_frames (seed_after_frames seed a) (- a) = seed"
  by (simp_all add: seed_after_frames_word low_half_add low_half_minus algebra_simps)

end
