(* ===== verification/Sav.thy ===== *)
theory Sav
  imports Rng
begin

text \<open>
  Reading the trainer's identifiers out of a cartridge save (crates/gamedata/src/sav.rs): the
  sector layout, the folded checksum, and the choice of the newest valid sector. A slice index
  out of range, which would be a panic, cannot happen: \<open>trainer_ids\<close> checks the length first
  (\<open>sector_in_range\<close>).
\<close>

definition SECTOR_SIZE :: nat where "SECTOR_SIZE = 0x1000"
definition SECTORS_PER_SLOT :: nat where "SECTORS_PER_SLOT = 14"
definition DATA_SIZE :: nat where "DATA_SIZE = 3968"
definition SIGNATURE :: u32 where "SIGNATURE = 0x08012025"
definition SAVEBLOCK2_SIZE :: nat where "SAVEBLOCK2_SIZE = 0xF24"

definition u16_at :: "bytes \<Rightarrow> nat \<Rightarrow> u16" where
  "u16_at data at = u16_from_le (data ! at) (data ! (at + 1))"

definition u32_at :: "bytes \<Rightarrow> nat \<Rightarrow> u32" where
  "u32_at data at =
    u32_from_le (data ! at) (data ! (at + 1)) (data ! (at + 2)) (data ! (at + 3))"

text \<open>\<open>chunks_exact(4)\<close> drops an incomplete last chunk.\<close>

fun words_le :: "bytes \<Rightarrow> u32 list" where
  "words_le (a # b # c # d # rest) = u32_from_le a b c d # words_le rest"
| "words_le _ = []"

definition checksum :: "bytes \<Rightarrow> u16" where
  "checksum data =
    (let sum = foldl (+) 0 (words_le data) in ucast (drop_bit 16 sum) + ucast sum)"

definition sector_at :: "bytes \<Rightarrow> nat \<Rightarrow> bytes" where
  "sector_at sav k = take SECTOR_SIZE (drop (k * SECTOR_SIZE) sav)"

text \<open>The tests and the reading of one sector in the loop of \<open>trainer_ids\<close>: the counter and the
  identifiers, unless the sector is skipped.\<close>

definition read_sector :: "bytes \<Rightarrow> (u32 \<times> trainer_ids) option" where
  "read_sector sector =
    (if u32_at sector 0xFF8 \<noteq> SIGNATURE \<or> u16_at sector 0xFF4 \<noteq> 0 then None
     else if checksum (take (min SAVEBLOCK2_SIZE DATA_SIZE) sector) \<noteq> u16_at sector 0xFF6 then None
     else Some (u32_at sector 0xFFC,
            \<lparr>ids_tid = u16_at sector 0x0A, ids_sid = u16_at sector 0x0C\<rparr>))"

definition keep_newest :: "bytes \<Rightarrow> (u32 \<times> trainer_ids) option \<Rightarrow> nat
    \<Rightarrow> (u32 \<times> trainer_ids) option" where
  "keep_newest sav best k =
    (case read_sector (sector_at sav k) of
       None \<Rightarrow> best
     | Some (counter, ids) \<Rightarrow>
         (case best of
            None \<Rightarrow> Some (counter, ids)
          | Some (c, _) \<Rightarrow> if counter > c then Some (counter, ids) else best))"

datatype sav_error = TooSmall nat | NoTrainerSector

definition sectors :: "nat list" where
  "sectors = concat (map (\<lambda>slot. map (\<lambda>i. slot * SECTORS_PER_SLOT + i) [0..<SECTORS_PER_SLOT]) [0..<2])"

definition trainer_ids_of :: "bytes \<Rightarrow> sav_error + trainer_ids" where
  "trainer_ids_of sav =
    (if length sav < 2 * SECTORS_PER_SLOT * SECTOR_SIZE then Inl (TooSmall (length sav))
     else case foldl (keep_newest sav) None sectors of
       None \<Rightarrow> Inl NoTrainerSector
     | Some (_, ids) \<Rightarrow> Inr ids)"

lemma sectors_eq: "sectors = [0..<28]"
  by (simp add: sectors_def SECTORS_PER_SLOT_def upt_rec)

lemma sector_in_range:
  assumes "2 * SECTORS_PER_SLOT * SECTOR_SIZE \<le> length sav" "k \<in> set sectors"
  shows "length (sector_at sav k) = SECTOR_SIZE"
  using assms by (auto simp: sectors_eq sector_at_def SECTORS_PER_SLOT_def SECTOR_SIZE_def)

text \<open>The fold keeps a valid sector with the greatest counter.\<close>

lemma keep_newest_cases:
  obtains "keep_newest sav best k = best"
      "read_sector (sector_at sav k) = None \<or>
       (\<exists>c ids c0 ids0. read_sector (sector_at sav k) = Some (c, ids) \<and> best = Some (c0, ids0) \<and> c \<le> c0)"
  | c ids where "keep_newest sav best k = Some (c, ids)"
      "read_sector (sector_at sav k) = Some (c, ids)"
      "\<And>c' ids'. best = Some (c', ids') \<Longrightarrow> c' \<le> c"
proof (cases "read_sector (sector_at sav k)")
  case None
  then show ?thesis using that(1) by (simp add: keep_newest_def)
next
  case (Some a)
  then obtain c ids where r: "read_sector (sector_at sav k) = Some (c, ids)" by (cases a) auto
  show ?thesis
  proof (cases best)
    case None
    then show ?thesis using that(2) [of c ids] r by (simp add: keep_newest_def)
  next
    case best: (Some b)
    then obtain c0 ids0 where b: "best = Some (c0, ids0)" by (cases b) auto
    show ?thesis
    proof (cases "c > c0")
      case True
      then show ?thesis using that(2) [of c ids] r b by (simp add: keep_newest_def)
    next
      case False
      then show ?thesis using that(1) r b by (simp add: keep_newest_def)
    qed
  qed
qed

definition newest :: "bytes \<Rightarrow> (u32 \<times> trainer_ids) option \<Rightarrow> nat list
    \<Rightarrow> (u32 \<times> trainer_ids) option \<Rightarrow> bool" where
  "newest sav best ks r \<longleftrightarrow>
    (case r of
       None \<Rightarrow> best = None \<and> (\<forall>k\<in>set ks. read_sector (sector_at sav k) = None)
     | Some (c, ids) \<Rightarrow>
         (best = Some (c, ids) \<or> (\<exists>k\<in>set ks. read_sector (sector_at sav k) = Some (c, ids))) \<and>
         (\<forall>c' ids'. best = Some (c', ids') \<longrightarrow> c' \<le> c) \<and>
         (\<forall>k\<in>set ks. \<forall>c' ids'. read_sector (sector_at sav k) = Some (c', ids') \<longrightarrow> c' \<le> c))"

lemma keep_newest_fold: "newest sav best ks (foldl (keep_newest sav) best ks)"
proof (induction ks arbitrary: best)
  case Nil
  then show ?case by (cases best) (auto simp: newest_def)
next
  case (Cons k ks)
  note ih = Cons.IH [of "keep_newest sav best k"]
  show ?case
  proof (cases rule: keep_newest_cases [where sav = sav and best = best and k = k])
    case 1
    then show ?thesis using ih by (auto simp: newest_def split: option.splits)
  next
    case (2 c ids)
    then show ?thesis using ih by (auto simp: newest_def split: option.splits)
  qed
qed

lemma newest_of_all:
  assumes "\<not> length sav < 28 * 4096"
  shows "newest sav None [0..<28] (foldl (keep_newest sav) None [0..<28])"
    and "trainer_ids_of sav = (case foldl (keep_newest sav) None [0..<28] of
      None \<Rightarrow> Inl NoTrainerSector | Some (_, ids) \<Rightarrow> Inr ids)"
  using assms keep_newest_fold
  by (auto simp: trainer_ids_of_def sectors_eq SECTORS_PER_SLOT_def SECTOR_SIZE_def)

text \<open>The save counter and the identifiers of every valid trainer sector.\<close>

definition trainer_sectors :: "bytes \<Rightarrow> (u32 \<times> trainer_ids) set" where
  "trainer_sectors sav = {s. \<exists>k<28. read_sector (sector_at sav k) = Some s}"

text \<open>The identifiers read from a save are those of a valid trainer sector with the greatest
  save counter; it is an error exactly when the save is too small or has no valid sector.\<close>

lemma newest_sector_wins:
  "case trainer_ids_of sav of
     Inr ids \<Rightarrow> 28 * 4096 \<le> length sav \<and>
       (Max (fst ` trainer_sectors sav), ids) \<in> trainer_sectors sav
   | Inl (TooSmall n) \<Rightarrow> n = length sav \<and> n < 28 * 4096
   | Inl NoTrainerSector \<Rightarrow> 28 * 4096 \<le> length sav \<and> trainer_sectors sav = {}"
proof (cases "length sav < 28 * 4096")
  case True
  then show ?thesis by (simp add: trainer_ids_of_def SECTORS_PER_SLOT_def SECTOR_SIZE_def)
next
  case False
  note all = newest_of_all [OF False]
  show ?thesis
  proof (cases "foldl (keep_newest sav) None [0..<28]")
    case None
    then show ?thesis using all False by (auto simp: newest_def trainer_sectors_def)
  next
    case (Some s)
    obtain c ids where s: "s = (c, ids)" by (cases s)
    have mem: "(c, ids) \<in> trainer_sectors sav"
      and ge: "\<And>x. x \<in> fst ` trainer_sectors sav \<Longrightarrow> x \<le> c"
      using all(1) Some s by (auto simp: newest_def trainer_sectors_def)
    have "fst ` trainer_sectors sav \<subseteq> (\<lambda>k. fst (the (read_sector (sector_at sav k)))) ` {..<28}"
      by (force simp: trainer_sectors_def)
    then have "finite (fst ` trainer_sectors sav)" by (rule finite_subset) simp
    then have "Max (fst ` trainer_sectors sav) = c"
      using mem ge by (intro Max_eqI) force+
    then show ?thesis using all(2) Some s mem False by simp
  qed
qed

end
