(* ===== verification/Gamedata.thy ===== *)
theory Gamedata
  imports Prelude "HOL-Library.Multiset" "HOL-Library.Char_ord" "HOL-Library.List_Lexorder"
begin

text \<open>
  The extracted game data and its lookups (crates/gamedata/src/lib.rs). A \<open>HashMap\<close> is an
  association list in the order its iterator gives, which is arbitrary: the lemmas show that what
  the code answers does not depend on it. Constants of the decompilation are strings; the names
  the game prints, which have characters beyond ASCII, are lists of code points. Reading the JSON
  file (\<open>GameData::load\<close>) is not modelled; the parameter of an evolution, a \<open>serde_json::Value\<close>,
  is what \<open>as_u64\<close> gives of it.
\<close>

section \<open>The data\<close>

type_synonym printed_text = "nat list"

definition chars :: "string \<Rightarrow> printed_text" where
  "chars s = map of_char s"

record species =
  sp_base :: "nat list"
  sp_types :: "string list"
  sp_catch_rate :: nat
  sp_exp_yield :: nat
  sp_ev_yield :: "nat list"
  sp_growth_rate :: string
  sp_abilities :: "string list"
  sp_learnset :: "(nat \<times> string) list"
  sp_tmhm :: "string list"
  sp_evolutions :: "(string \<times> nat option \<times> string) list"

record move =
  mv_name :: "printed_text option"
  mv_effect :: "string option"
  mv_power :: nat
  mv_kind :: "string option"
  mv_accuracy :: nat
  mv_pp :: nat
  mv_priority :: int
  mv_secondary_chance :: nat

record trainer_mon =
  tm_species :: string
  tm_level :: nat
  tm_iv :: nat
  tm_item :: "string option"
  tm_moves :: "string list option"

record trainer =
  tr_class :: "string option"
  tr_name :: string
  tr_double :: bool
  tr_items :: "string list"
  tr_party :: "trainer_mon list"

record item =
  it_price :: nat
  it_name :: printed_text
  it_pocket :: "string option"

record trainer_class_money =
  money_classes :: "(string \<times> nat) list"
  money_default :: nat

record game_data =
  gd_species :: "(string \<times> species) list"
  gd_moves :: "(string \<times> move) list"
  gd_type_chart :: "(string \<times> string \<times> nat) list"
  gd_trainers :: "(string \<times> trainer) list"
  gd_items :: "(string \<times> item) list"
  gd_money :: trainer_class_money

section \<open>Names\<close>

text \<open>\<open>trim_start_matches\<close> takes the prefix away as often as it is there.\<close>

function trim_start :: "string \<Rightarrow> string \<Rightarrow> string" where
  "trim_start p s = (if p \<noteq> [] \<and> take (length p) s = p then trim_start p (drop (length p) s) else s)"
  by pat_completeness auto
termination
proof (relation "measure (\<lambda>(p, s). length s)")
  fix p s :: string
  assume a: "p \<noteq> [] \<and> take (length p) s = p"
  then have "length p \<le> length s" by (metis length_take min.cobounded1 min.commute)
  with a show "((p, drop (length p) s), p, s) \<in> measure (\<lambda>(p, s). length s)"
    by (cases p) auto
qed simp

declare trim_start.simps [simp del]

definition female_sign :: nat where "female_sign = 0x2640"
definition male_sign :: nat where "male_sign = 0x2642"

definition printed_name :: "string \<Rightarrow> printed_text" where
  "printed_name constant =
    (let base = trim_start ''SPECIES_'' constant in
     if base = ''NIDORAN_F'' then chars ''NIDORAN'' @ [female_sign]
     else if base = ''NIDORAN_M'' then chars ''NIDORAN'' @ [male_sign]
     else if base = ''MR_MIME'' then chars ''MR. MIME''
     else if base = ''FARFETCHD'' then chars (''FARFETCH'' @ CHR 0x27 # ''D'')
     else chars (map (\<lambda>c. if c = CHR ''_'' then CHR '' '' else c) base))"

text \<open>The question mark stands for any character.\<close>

definition fits :: "printed_text \<Rightarrow> printed_text \<Rightarrow> bool" where
  "fits read name \<longleftrightarrow> length name = length read \<and>
    list_all (\<lambda>(a, b). b = of_char (CHR ''?'') \<or> a = b) (zip name read)"

definition unique_named :: "('k \<times> printed_text) list \<Rightarrow> printed_text \<Rightarrow> 'k option" where
  "unique_named names read =
    (case map fst (filter (\<lambda>(_, n). fits read n) names) of
       [] \<Rightarrow> None
     | [first] \<Rightarrow> Some first
     | _ \<Rightarrow> None)"

section \<open>Lookups\<close>

definition find_species :: "game_data \<Rightarrow> string \<Rightarrow> species option" where
  "find_species d name = map_of (gd_species d) name"

definition move_of :: "game_data \<Rightarrow> string \<Rightarrow> move option" where
  "move_of d name = map_of (gd_moves d) name"

definition prize :: "game_data \<Rightarrow> string \<Rightarrow> nat option" where
  "prize d name =
    (case map_of (gd_trainers d) name of
       None \<Rightarrow> None
     | Some t \<Rightarrow>
         if tr_party t = [] then None
         else let lst = last (tr_party t); table = gd_money d in
           if money_classes table = [] then None
           else let per = (case Option.bind (tr_class t) (map_of (money_classes table)) of
                              None \<Rightarrow> money_default table
                            | Some m \<Rightarrow> m);
                    double = (if tr_double t then 2 else 1)
                in Some (4 * tm_level lst * per * double mod 2 ^ 32))"

definition move_named :: "game_data \<Rightarrow> printed_text \<Rightarrow> string option" where
  "move_named d read =
    unique_named (List.map_filter (\<lambda>(k, m). map_option (Pair k) (mv_name m)) (gd_moves d)) read"

definition item_named :: "game_data \<Rightarrow> printed_text \<Rightarrow> string option" where
  "item_named d read = unique_named (map (\<lambda>(k, i). (k, it_name i)) (gd_items d)) read"

definition can_learn :: "game_data \<Rightarrow> string \<Rightarrow> string \<Rightarrow> bool" where
  "can_learn d name item =
    (case find_species d name of None \<Rightarrow> False | Some s \<Rightarrow> item \<in> set (sp_tmhm s))"

definition tmhm_known :: "game_data \<Rightarrow> bool" where
  "tmhm_known d = list_ex (\<lambda>(_, s). sp_tmhm s \<noteq> []) (gd_species d)"

definition may_trap :: "game_data \<Rightarrow> string \<Rightarrow> string \<Rightarrow> bool" where
  "may_trap d foe_name us_name =
    (case (find_species d foe_name, find_species d us_name) of
       (Some foe, Some us) \<Rightarrow>
         (let has = (\<lambda>a. a \<in> set (sp_abilities foe));
              typed = (\<lambda>t. t \<in> set (sp_types us));
              levitates = sp_abilities us \<noteq> [] \<and>
                list_all (\<lambda>a. a = ''ABILITY_LEVITATE'' \<or> a = ''ABILITY_NONE'') (sp_abilities us)
          in has ''ABILITY_SHADOW_TAG'' \<or>
             (has ''ABILITY_ARENA_TRAP'' \<and> \<not> typed ''TYPE_FLYING'' \<and> \<not> levitates) \<or>
             (has ''ABILITY_MAGNET_PULL'' \<and> typed ''TYPE_STEEL''))
     | _ \<Rightarrow> False)"

definition species_named :: "game_data \<Rightarrow> printed_text \<Rightarrow> string option" where
  "species_named d read = unique_named (map (\<lambda>(k, _). (k, printed_name k)) (gd_species d)) read"

text \<open>The first occurrences of the types, in order.\<close>

definition push_new :: "'a list \<Rightarrow> 'a \<Rightarrow> 'a list" where
  "push_new types t = (if t \<in> set types then types else types @ [t])"

definition matchup :: "game_data \<Rightarrow> string \<Rightarrow> string \<Rightarrow> nat" where
  "matchup d attack t =
    (case find (\<lambda>(a, u, _). a = attack \<and> u = t) (gd_type_chart d) of
       None \<Rightarrow> 10 | Some (_, _, m) \<Rightarrow> m)"

definition effectiveness :: "game_data \<Rightarrow> string \<Rightarrow> string list \<Rightarrow> nat" where
  "effectiveness d attack defender =
    (let types = foldl push_new [] defender
     in foldl (\<lambda>acc t. acc * matchup d attack t div 10) 10 types)"

section \<open>Moves and evolutions by level\<close>

definition learn_move :: "string list \<Rightarrow> string \<Rightarrow> string list" where
  "learn_move moves m =
    (if m \<in> set moves then moves
     else (if length moves = 4 then tl moves else moves) @ [m])"

fun default_moves_loop :: "nat \<Rightarrow> (nat \<times> string) list \<Rightarrow> string list \<Rightarrow> string list" where
  "default_moves_loop level [] moves = moves"
| "default_moves_loop level ((lvl, m) # rest) moves =
    (if lvl > level then moves else default_moves_loop level rest (learn_move moves m))"

definition default_moves :: "game_data \<Rightarrow> string \<Rightarrow> nat \<Rightarrow> string list" where
  "default_moves d name level =
    default_moves_loop level
      (case find_species d name of None \<Rightarrow> [] | Some s \<Rightarrow> sp_learnset s) []"

definition evolutions_of :: "game_data \<Rightarrow> string \<Rightarrow> string list" where
  "evolutions_of d name =
    remdups_adj (sort (case find_species d name of
      None \<Rightarrow> [] | Some s \<Rightarrow> map (\<lambda>(_, _, t). t) (sp_evolutions s)))"

definition level_evolution :: "game_data \<Rightarrow> nat \<Rightarrow> string \<Rightarrow> string option" where
  "level_evolution d level current =
    (case find_species d current of
       None \<Rightarrow> None
     | Some s \<Rightarrow> map_option (\<lambda>(_, _, target). target)
         (find (\<lambda>(mthd, param, _). mthd = ''EVO_LEVEL'' \<and>
            (case param of None \<Rightarrow> False | Some p \<Rightarrow> p \<le> level)) (sp_evolutions s)))"

text \<open>The loop of \<open>evolved_at\<close> follows level evolutions until there is none; on a cycle of the data
  it would not end, and the value is \<open>None\<close>.\<close>

partial_function (option) evolved_at :: "game_data \<Rightarrow> nat \<Rightarrow> string \<Rightarrow> string option" where
  "evolved_at d level current =
    (case level_evolution d level current of
       None \<Rightarrow> Some current
     | Some target \<Rightarrow> evolved_at d level target)"

section \<open>What the lookups answer\<close>

lemma unique_named_filter:
  "unique_named names read = Some k \<longleftrightarrow> (\<exists>n. filter (\<lambda>(_, n). fits read n) names = [(k, n)])"
  by (auto simp: unique_named_def split: list.splits)

text \<open>A read name resolves to a key exactly when that entry is the only one of the table whose
  printed name fits, so the order in which the hash map is walked does not matter.\<close>

lemma unique_named_iff:
  "unique_named names read = Some k \<longleftrightarrow>
    (\<exists>n. filter_mset (\<lambda>(_, n). fits read n) (mset names) = {#(k, n)#})"
  by (simp add: unique_named_filter flip: mset_filter)

lemma push_new_remdups:
  "set (foldl push_new acc ts) = set acc \<union> set ts"
  "distinct acc \<Longrightarrow> distinct (foldl push_new acc ts)"
  by (induction ts arbitrary: acc) (auto simp: push_new_def)

lemma push_new_again: "set ts \<subseteq> set acc \<Longrightarrow> foldl push_new acc ts = acc"
  by (induction ts) (auto simp: push_new_def)

lemma foldl_push_new_append: "foldl push_new acc (ts @ us) = foldl push_new (foldl push_new acc ts) us"
  by simp

lemma effectiveness_zero: "foldl (\<lambda>acc t. acc * f t div (10::nat)) 0 ts = 0"
  by (induction ts) auto

lemma effectiveness_immune_fold:
  "t \<in> set ts \<Longrightarrow> f t = 0 \<Longrightarrow> foldl (\<lambda>acc t. acc * f t div (10::nat)) a ts = 0"
  by (induction ts arbitrary: a) (auto simp: effectiveness_zero)

text \<open>A type listed again, as a single-type species lists its one type twice, does not count
  twice; and a single immunity makes the whole attack ineffective.\<close>

lemma effectiveness_laws:
  "set us \<subseteq> set ts \<Longrightarrow> effectiveness d attack (ts @ us) = effectiveness d attack ts"
  "t \<in> set ts \<Longrightarrow> matchup d attack t = 0 \<Longrightarrow> effectiveness d attack ts = 0"
proof -
  show "set us \<subseteq> set ts \<Longrightarrow> effectiveness d attack (ts @ us) = effectiveness d attack ts"
    using push_new_again [of us "foldl push_new [] ts"]
    by (auto simp: effectiveness_def push_new_remdups)
  assume "t \<in> set ts" "matchup d attack t = 0"
  then show "effectiveness d attack ts = 0"
    by (auto simp: effectiveness_def Let_def push_new_remdups intro: effectiveness_immune_fold)
qed

lemma learn_move_inv:
  "length moves \<le> 4 \<Longrightarrow> length (learn_move moves m) \<le> 4"
  "distinct moves \<Longrightarrow> distinct (learn_move moves m)"
  "m \<in> set (learn_move moves m)"
  "set (learn_move moves m) \<subseteq> insert m (set moves)"
  by (cases moves; auto simp: learn_move_def)+

lemma default_moves_loop_inv:
  assumes "length moves \<le> 4" "distinct moves"
  shows "length (default_moves_loop level ls moves) \<le> 4 \<and> distinct (default_moves_loop level ls moves) \<and>
    set (default_moves_loop level ls moves) \<subseteq>
      set moves \<union> snd ` set (takeWhile (\<lambda>(l, _). l \<le> level) ls)"
  using assms
proof (induction level ls moves rule: default_moves_loop.induct)
  case (2 level lvl m rest moves)
  then show ?case
    using learn_move_inv [where moves = moves and m = m] by (cases "level < lvl"; simp; blast)
qed auto

lemma default_moves_loop_last:
  assumes "takeWhile (\<lambda>(l, _). l \<le> level) ls = pre @ [(l, m)]"
  shows "m \<in> set (default_moves_loop level ls moves)"
  using assms
proof (induction level ls moves arbitrary: pre rule: default_moves_loop.induct)
  case (2 level lvl n rest moves)
  show ?case
  proof (cases "level < lvl")
    case False
    then have tw: "(lvl, n) # takeWhile (\<lambda>(l, _). l \<le> level) rest = pre @ [(l, m)]"
      using 2(2) by simp
    show ?thesis
    proof (cases "takeWhile (\<lambda>(l, _). l \<le> level) rest = []")
      case True
      then have "default_moves_loop level rest (learn_move moves n) = learn_move moves n"
        by (cases rest) (auto split: if_splits)
      then show ?thesis using tw True False learn_move_inv(3) [of n moves] by simp
    next
      case nonempty: False
      then obtain pre' where "takeWhile (\<lambda>(l, _). l \<le> level) rest = pre' @ [(l, m)]"
        using tw by (cases pre) auto
      with 2(1) False show ?thesis by simp
    qed
  qed (use 2(2) in auto)
qed simp

text \<open>The default moves are at most four, without repetition, each of them learned by the
  level, and the move learned last is among them.\<close>

lemma default_moves_learned:
  assumes "find_species d name = Some s"
  shows "length (default_moves d name level) \<le> 4"
    and "distinct (default_moves d name level)"
    and "set (default_moves d name level) \<subseteq> snd ` set (takeWhile (\<lambda>(l, _). l \<le> level) (sp_learnset s))"
    and "takeWhile (\<lambda>(l, _). l \<le> level) (sp_learnset s) \<noteq> [] \<Longrightarrow>
      snd (last (takeWhile (\<lambda>(l, _). l \<le> level) (sp_learnset s))) \<in> set (default_moves d name level)"
proof -
  show "length (default_moves d name level) \<le> 4" "distinct (default_moves d name level)"
    "set (default_moves d name level) \<subseteq> snd ` set (takeWhile (\<lambda>(l, _). l \<le> level) (sp_learnset s))"
    using default_moves_loop_inv [of "[]" level "sp_learnset s"] assms by (auto simp: default_moves_def)
  assume "takeWhile (\<lambda>(l, _). l \<le> level) (sp_learnset s) \<noteq> []"
  then obtain pre l m where "takeWhile (\<lambda>(l, _). l \<le> level) (sp_learnset s) = pre @ [(l, m)]"
    by (metis rev_exhaust surj_pair)
  then show "snd (last (takeWhile (\<lambda>(l, _). l \<le> level) (sp_learnset s))) \<in> set (default_moves d name level)"
    using default_moves_loop_last [of level "sp_learnset s" pre l m "[]"] assms
    by (simp add: default_moves_def)
qed

lemma evolved_at_final:
  "evolved_at d level current = Some r \<Longrightarrow> level_evolution d level r = None"
  by (rule evolved_at.raw_induct
      [where P = "\<lambda>d level current r. level_evolution d level r = None"])
    (auto split: option.splits)

lemma evolved_at_returns:
  assumes rank: "\<And>s t. level_evolution d level s = Some t \<Longrightarrow> rank t < (rank s :: nat)"
  shows "\<exists>r. evolved_at d level current = Some r"
proof (induction "rank current" arbitrary: current rule: less_induct)
  case less
  then show ?case
    using rank by (subst evolved_at.simps) (auto split: option.splits)
qed


definition starter_line :: game_data where
  "starter_line =
    (let sp = (\<lambda>evo. \<lparr>sp_base = [45, 49, 49, 45, 65, 65], sp_types = [''TYPE_GRASS'', ''TYPE_POISON''],
        sp_catch_rate = 45, sp_exp_yield = 64, sp_ev_yield = [0, 0, 0, 0, 1, 0],
        sp_growth_rate = ''GROWTH_MEDIUM_SLOW'', sp_abilities = [''ABILITY_OVERGROW'', ''ABILITY_NONE''],
        sp_learnset = [(1, ''MOVE_TACKLE''), (4, ''MOVE_GROWL''), (7, ''MOVE_LEECH_SEED'')],
        sp_tmhm = [''ITEM_HM01''], sp_evolutions = evo\<rparr>)
     in \<lparr>gd_species = [(''SPECIES_BULBASAUR'', sp [(''EVO_LEVEL'', Some 16, ''SPECIES_IVYSAUR'')]),
          (''SPECIES_IVYSAUR'', sp [])],
        gd_moves = [], gd_type_chart = [], gd_trainers = [], gd_items = [],
        gd_money = \<lparr>money_classes = [], money_default = 0\<rparr>\<rparr>)"

lemma starter_line_species:
  "find_species starter_line s = Some x \<Longrightarrow> s = ''SPECIES_BULBASAUR'' \<or> s = ''SPECIES_IVYSAUR''"
  by (auto simp: starter_line_def find_species_def Let_def split: if_splits)


end
