(* ===== verification/Mechanics.thy ===== *)
theory Mechanics
  imports Gamedata Training Complex_Main
begin

text \<open>
  The battle formulas (crates/gamedata/src/mechanics.rs): stats, experience curves, damage rolls,
  abilities that stop a move, catching balls. The integers are naturals, with the wrap-around of
  \<open>u32\<close> written out where the types do not exclude it. The hit chance, an \<open>f64\<close> in the code, is the
  exact rational number that the floating-point expression approximates; the test against zero
  agrees because the quotient of a count is zero only for the count zero. The catch
  probability, which takes roots of floating-point numbers, is not modelled.
\<close>

definition is_physical :: "string \<Rightarrow> bool" where
  "is_physical kind \<longleftrightarrow> kind \<in> set
    [''TYPE_NORMAL'', ''TYPE_FIGHTING'', ''TYPE_FLYING'', ''TYPE_POISON'', ''TYPE_GROUND'',
     ''TYPE_ROCK'', ''TYPE_BUG'', ''TYPE_GHOST'', ''TYPE_STEEL'']"

section \<open>Stats\<close>

text \<open>HP, Attack, Defense, Speed, Special Attack, Special Defense.\<close>

type_synonym stats = "nat list"

definition compute_stats :: "nat list \<Rightarrow> nat \<Rightarrow> nat \<Rightarrow> stats" where
  "compute_stats base level iv =
    map (\<lambda>i. let core = (2 * base ! i + iv) * level div 100 in
           if i = 0 then core + level + 10 else core + 5) [0..<length base]"

definition stats_of_individual :: "nat list \<Rightarrow> nat \<Rightarrow> nat list \<Rightarrow> nat list \<Rightarrow> nat \<Rightarrow> stats" where
  "stats_of_individual base level ivs evs nature =
    map (\<lambda>i. stat (base ! i) i level (ivs ! i) (evs ! i) nature) [0..<6]"

definition st_hp :: "stats \<Rightarrow> nat" where "st_hp s = s ! 0"
definition st_attack :: "stats \<Rightarrow> nat" where "st_attack s = s ! 1"
definition st_defense :: "stats \<Rightarrow> nat" where "st_defense s = s ! 2"
definition st_speed :: "stats \<Rightarrow> nat" where "st_speed s = s ! 3"
definition st_sp_attack :: "stats \<Rightarrow> nat" where "st_sp_attack s = s ! 4"
definition st_sp_defense :: "stats \<Rightarrow> nat" where "st_sp_defense s = s ! 5"

section \<open>Experience\<close>

text \<open>The divisions of \<open>i64\<close> truncate and these round down; they differ only where the
  dividend is negative, and there both give a result that \<open>max(0)\<close> makes zero.\<close>

definition medium_slow_curve :: "int \<Rightarrow> int" where
  "medium_slow_curve n = 6 * (n * n * n) div 5 - 15 * n * n + 100 * n - 140"

definition erratic_curve :: "int \<Rightarrow> int" where
  "erratic_curve n =
    (let n3 = n * n * n in
     if n \<le> 50 then n3 * (100 - n) div 50
     else if n \<le> 68 then n3 * (150 - n) div 100
     else if n \<le> 98 then n3 * ((1911 - 10 * n) div 3) div 500
     else n3 * (160 - n) div 100)"

definition fluctuating_curve :: "int \<Rightarrow> int" where
  "fluctuating_curve n =
    (let n3 = n * n * n in
     if n \<le> 15 then n3 * ((n + 1) div 3 + 24) div 50
     else if n \<le> 36 then n3 * (n + 14) div 50
     else n3 * (n div 2 + 32) div 50)"

definition exp_curve :: "string \<Rightarrow> nat \<Rightarrow> int" where
  "exp_curve growth level =
    (let n = int level; n3 = n * n * n in
     if growth = ''GROWTH_FAST'' then 4 * n3 div 5
     else if growth = ''GROWTH_MEDIUM_SLOW'' then medium_slow_curve n
     else if growth = ''GROWTH_SLOW'' then 5 * n3 div 4
     else if growth = ''GROWTH_ERRATIC'' then erratic_curve n
     else if growth = ''GROWTH_FLUCTUATING'' then fluctuating_curve n
     else n3)"

definition exp_for_level :: "string \<Rightarrow> nat \<Rightarrow> nat" where
  "exp_for_level growth level = nat (max (exp_curve growth level) 0)"

definition exp_gain :: "game_data \<Rightarrow> string \<Rightarrow> nat \<Rightarrow> bool \<Rightarrow> nat" where
  "exp_gain d name level is_trainer =
    (let base = (case find_species d name of None \<Rightarrow> 0 | Some s \<Rightarrow> sp_exp_yield s);
         ex = base * level div 7
     in if is_trainer then ex * 3 div 2 else ex)"

section \<open>Damage\<close>

record damage_rolls =
  rolls_normal :: "nat list"
  rolls_critical :: "nat list"
  rolls_hit_chance :: rat

definition TWO_TURN_EFFECTS :: "string list" where
  "TWO_TURN_EFFECTS =
    [''EFFECT_SEMI_INVULNERABLE'', ''EFFECT_SOLAR_BEAM'', ''EFFECT_RAZOR_WIND'',
     ''EFFECT_SKY_ATTACK'', ''EFFECT_SKULL_BASH'', ''EFFECT_RECHARGE'']"

definition per_turn :: "move \<Rightarrow> rat" where
  "per_turn mv =
    (case mv_effect mv of
       Some e \<Rightarrow> if e \<in> set TWO_TURN_EFFECTS then 1 / 2 else 1
     | None \<Rightarrow> 1)"

definition ability_blocks :: "string \<Rightarrow> string \<Rightarrow> nat \<Rightarrow> bool" where
  "ability_blocks ability kind eff =
    (if ability = ''ABILITY_LEVITATE'' then kind = ''TYPE_GROUND''
     else if ability = ''ABILITY_VOLT_ABSORB'' then kind = ''TYPE_ELECTRIC''
     else if ability = ''ABILITY_WATER_ABSORB'' then kind = ''TYPE_WATER''
     else if ability = ''ABILITY_FLASH_FIRE'' then kind = ''TYPE_FIRE''
     else if ability = ''ABILITY_WONDER_GUARD'' then eff \<le> 10
     else False)"

definition ability_passes :: "string list \<Rightarrow> string \<Rightarrow> nat \<Rightarrow> rat" where
  "ability_passes abilities kind eff =
    (let known = filter (\<lambda>a. a \<noteq> ''ABILITY_NONE'') abilities in
     if known = [] then 1
     else of_nat (length (filter (\<lambda>a. \<not> ability_blocks a kind eff) known)) / of_nat (length known))"

definition base_damage :: "nat \<Rightarrow> nat \<Rightarrow> nat \<Rightarrow> nat \<Rightarrow> nat \<Rightarrow> nat" where
  "base_damage level pw a d crit =
    (let core = ((2 * level div 5 + 2) * pw mod 2 ^ 32 * a mod 2 ^ 32) div max d 1 div 50
     in (core + 2) * crit mod 2 ^ 32)"

definition roll_damage :: "bool \<Rightarrow> nat \<Rightarrow> nat \<Rightarrow> nat \<Rightarrow> nat" where
  "roll_damage stab eff base r =
    (let dmg = base * r mod 2 ^ 32 div 100;
         dmg = (if stab then dmg * 3 mod 2 ^ 32 div 2 else dmg)
     in max (dmg * eff mod 2 ^ 32 div 10) 1)"

definition attack_and_defense :: "string \<Rightarrow> stats \<Rightarrow> stats \<Rightarrow> nat \<times> nat" where
  "attack_and_defense kind atk def =
    (if is_physical kind then (st_attack atk, st_defense def)
     else (st_sp_attack atk, st_sp_defense def))"

definition damage :: "game_data \<Rightarrow> move \<Rightarrow> string list \<Rightarrow> nat \<Rightarrow> stats \<Rightarrow> string list \<Rightarrow> string list
    \<Rightarrow> stats \<Rightarrow> damage_rolls option" where
  "damage data mv attacker_types level atk defender_types defender_abilities def =
    (case mv_kind mv of
       None \<Rightarrow> None
     | Some kind \<Rightarrow>
         if mv_power mv = 0 then None
         else let eff = effectiveness data kind defender_types in
           if eff = 0 then None
           else let passes = ability_passes defender_abilities kind eff in
             if passes = 0 then None
             else let (a, d) = attack_and_defense kind atk def;
                      stab = kind \<in> set attacker_types;
                      b1 = base_damage level (mv_power mv) a d 1;
                      b2 = base_damage level (mv_power mv) a d 2
                  in Some \<lparr>rolls_normal = map (\<lambda>i. roll_damage stab eff b1 (85 + i)) [0..<16],
                           rolls_critical = map (\<lambda>i. roll_damage stab eff b2 (85 + i)) [0..<16],
                           rolls_hit_chance = passes * per_turn mv *
                             (if mv_accuracy mv = 0 then 1
                              else of_nat (min (mv_accuracy mv) 100) / 100)\<rparr>)"

section \<open>Balls\<close>

definition ends_with :: "string \<Rightarrow> string \<Rightarrow> bool" where
  "ends_with s t \<longleftrightarrow> length t \<le> length s \<and> drop (length s - length t) s = t"

definition ball_multiplier :: "string \<Rightarrow> nat option" where
  "ball_multiplier item =
    (if item = ''ITEM_ULTRA_BALL'' then Some 20
     else if item = ''ITEM_GREAT_BALL'' \<or> item = ''ITEM_SAFARI_BALL'' then Some 15
     else if item = ''ITEM_MASTER_BALL'' then None
     else if ends_with item ''_BALL'' then Some 10
     else None)"

section \<open>Laws\<close>

text \<open>A computed stat is the individual's stat with a neutral nature and no effort values.\<close>

lemma compute_stats_of_individual:
  assumes "length base = 6" "\<forall>b\<in>set base. b \<le> 255" "iv \<le> 31" "level \<le> 100"
  shows "compute_stats base level iv = stats_of_individual base level (replicate 6 iv) (replicate 6 0) 0"
proof -
  have "(let core = (2 * base ! i + iv) * level div 100 in
      if i = 0 then core + level + 10 else core + 5) = stat (base ! i) i level iv 0 0"
    if "i < 6" for i
  proof -
    have b: "base ! i \<le> 255" using that assms by simp
    have "nature_effect 0 i = 0" by (auto simp: nature_effect_def)
    then show ?thesis
      using stat_printed [OF b assms(3,4)] by (auto simp: printed_def core_value_def HP_def Let_def)
  qed
  then show ?thesis
    using assms(1) by (auto simp: compute_stats_def stats_of_individual_def)
qed

definition rises :: "(int \<Rightarrow> int) \<Rightarrow> bool" where
  "rises f \<longleftrightarrow> list_all (\<lambda>k. max (f (int k)) 0 \<le> max (f (int k + 1)) 0) [0..<100]"

lemma medium_slow_rises: "rises medium_slow_curve"
  by code_simp

lemma erratic_rises: "rises erratic_curve"
  by code_simp

lemma fluctuating_rises: "rises fluctuating_curve"
  by code_simp

lemma risesD: "rises f \<Longrightarrow> k < 100 \<Longrightarrow> max (f (int k)) 0 \<le> max (f (int (Suc k))) 0"
  by (auto simp: rises_def list_all_iff add.commute)

lemma cube_mono: "0 \<le> (n::int) \<Longrightarrow> c \<ge> 0 \<Longrightarrow> c * (n * n * n) \<le> c * ((n + 1) * (n + 1) * (n + 1))"
  by (intro mult_left_mono mult_mono) auto

lemma exp_curve_cases:
  obtains (cubic) c d where "c \<ge> 0" "d > 0" "\<And>l. exp_curve growth l = c * (int l * int l * int l) div d"
  | (table) f where "rises f" "\<And>l. exp_curve growth l = f (int l)"
proof -
  consider "growth = ''GROWTH_FAST''" | "growth = ''GROWTH_MEDIUM_SLOW''" | "growth = ''GROWTH_SLOW''"
    | "growth = ''GROWTH_ERRATIC''" | "growth = ''GROWTH_FLUCTUATING''"
    | "growth \<noteq> ''GROWTH_FAST''" "growth \<noteq> ''GROWTH_MEDIUM_SLOW''" "growth \<noteq> ''GROWTH_SLOW''"
      "growth \<noteq> ''GROWTH_ERRATIC''" "growth \<noteq> ''GROWTH_FLUCTUATING''" by blast
  then show ?thesis
  proof cases
    case 1 then show ?thesis by (intro cubic [of 4 5]) (simp_all add: exp_curve_def Let_def)
  next
    case 2 then show ?thesis by (intro table [OF medium_slow_rises]) (simp add: exp_curve_def Let_def)
  next
    case 3 then show ?thesis by (intro cubic [of 5 4]) (simp_all add: exp_curve_def Let_def)
  next
    case 4 then show ?thesis by (intro table [OF erratic_rises]) (simp add: exp_curve_def Let_def)
  next
    case 5 then show ?thesis by (intro table [OF fluctuating_rises]) (simp add: exp_curve_def Let_def)
  next
    case 6 then show ?thesis by (intro cubic [of 1 1]) (simp_all add: exp_curve_def Let_def)
  qed
qed

lemma exp_step:
  assumes "k < 100"
  shows "exp_for_level growth k \<le> exp_for_level growth (Suc k)"
proof -
  have "max (exp_curve growth k) 0 \<le> max (exp_curve growth (Suc k)) 0"
  proof (cases rule: exp_curve_cases [of growth])
    case (cubic c d)
    have "c * (int k * int k * int k) div d \<le> c * (int (Suc k) * int (Suc k) * int (Suc k)) div d"
      using cube_mono [of "int k" c] cubic(1,2) by (intro zdiv_mono1) (auto simp: add.commute)
    then show ?thesis unfolding cubic(3) by (rule max.mono [OF _ order_refl])
  next
    case (table f)
    then show ?thesis using risesD [OF table(1) assms] by (simp only: table(2))
  qed
  then show ?thesis by (simp only: exp_for_level_def nat_mono)
qed

text \<open>On every growth curve a higher level never needs less experience, up to level 100.\<close>

lemma exp_for_level_mono:
  assumes "l \<le> m" "m \<le> 100"
  shows "exp_for_level growth l \<le> exp_for_level growth m"
  using assms
proof (induction m rule: dec_induct)
  case (step m)
  then show ?case using exp_step [of m growth] by simp
qed simp

text \<open>With game values nothing wraps.\<close>

lemma base_damage_bound:
  assumes "level \<le> 100" "pw \<le> 255" "a \<le> 999" "crit \<le> 2"
  shows "base_damage level pw a d crit
      = ((2 * level div 5 + 2) * pw * a div max d 1 div 50 + 2) * crit"
    and "base_damage level pw a d crit \<le> 428000"
proof -
  have "2 * level div 5 + 2 \<le> 42" using assms(1) by simp
  from mult_le_mono [OF this assms(2)] have p: "(2 * level div 5 + 2) * pw \<le> 42 * 255" .
  from mult_le_mono [OF this assms(3)] have pa: "(2 * level div 5 + 2) * pw * a \<le> 42 * 255 * 999" .
  have "(2 * level div 5 + 2) * pw * a div max d 1 div 50 \<le> (2 * level div 5 + 2) * pw * a div 50"
    by (intro div_le_mono) simp
  also have "\<dots> \<le> (42 * 255 * 999) div 50" using pa by (rule div_le_mono)
  finally have c: "(2 * level div 5 + 2) * pw * a div max d 1 div 50 \<le> 213986" by simp
  then have "(2 * level div 5 + 2) * pw * a div max d 1 div 50 + 2 \<le> 213988" by simp
  from mult_le_mono [OF this assms(4)]
  have "((2 * level div 5 + 2) * pw * a div max d 1 div 50 + 2) * crit \<le> 213988 * 2" .
  then show "base_damage level pw a d crit
      = ((2 * level div 5 + 2) * pw * a div max d 1 div 50 + 2) * crit"
    "base_damage level pw a d crit \<le> 428000"
    using p pa by (simp_all add: base_damage_def Let_def)
qed

lemma roll_damage_exact:
  assumes "base \<le> 428000" "r \<le> 100" "eff \<le> 160"
  shows "roll_damage stab eff base r
    = max ((if stab then base * r div 100 * 3 div 2 else base * r div 100) * eff div 10) 1"
proof -
  have br: "base * r \<le> 428000 * 100" using assms(1,2) by (rule mult_le_mono)
  then have d: "base * r div 100 \<le> 428000" using div_le_mono [OF br, of 100] by simp
  then have s: "base * r div 100 * 3 div 2 \<le> 642000" by simp
  have "base * r div 100 * 3 div 2 * eff \<le> 642000 * 160" "base * r div 100 * eff \<le> 428000 * 160"
    using mult_le_mono [OF s assms(3)] mult_le_mono [OF d assms(3)] by simp_all
  then show ?thesis using br d by (simp add: roll_damage_def Let_def)
qed

lemma roll_damage_mono:
  assumes "base \<le> base'" "r \<le> r'" "base' \<le> 428000" "r' \<le> 100" "eff \<le> 160"
  shows "roll_damage stab eff base r \<le> roll_damage stab eff base' r'"
proof -
  have p: "base * r div 100 \<le> base' * r' div 100"
    using assms(1,2) by (intro div_le_mono mult_le_mono)
  from div_le_mono [OF mult_le_mono1 [OF this]]
  have "base * r div 100 * 3 div 2 \<le> base' * r' div 100 * 3 div 2" .
  with p have "(if stab then base * r div 100 * 3 div 2 else base * r div 100)
      \<le> (if stab then base' * r' div 100 * 3 div 2 else base' * r' div 100)"
    by (cases stab) (simp_all only: if_True if_False)
  then have "(if stab then base * r div 100 * 3 div 2 else base * r div 100) * eff div 10
      \<le> (if stab then base' * r' div 100 * 3 div 2 else base' * r' div 100) * eff div 10"
    by (intro div_le_mono mult_le_mono1)
  then show ?thesis
    using roll_damage_exact [of base r eff stab] roll_damage_exact [of base' r' eff stab] assms
    by (simp only: max.mono order_trans [OF assms(1,3)] order_trans [OF assms(2,4)] order_refl)
qed


definition tackle :: move where
  "tackle = \<lparr>mv_name = None, mv_effect = None, mv_power = 35, mv_kind = Some ''TYPE_NORMAL'',
    mv_accuracy = 95, mv_pp = 35, mv_priority = 0, mv_secondary_chance = 0\<rparr>"


end
