(* ===== verification/World_Map.thy ===== *)
theory World_Map
  imports Prelude
begin

text \<open>
  The static world model the planner walks on: directions (crates/state/src/observation.rs), tiles,
  maps, warps and connections (crates/world/src/lib.rs), the metatile behaviours that matter for
  walking (behavior.rs), and where warps and map edges lead. Coordinates, \<open>i32\<close> in the code, are
  integers: maps are at most a few hundred tiles wide. Loading the JSON files and the renders are
  not modelled; maps are looked up in an association list.
\<close>

section \<open>Directions\<close>

datatype direction = Up | Down | Left | Right

definition all_directions :: "direction list" where
  "all_directions = [Up, Down, Left, Right]"

type_synonym pos = "int \<times> int"

fun delta :: "direction \<Rightarrow> pos" where
  "delta Up = (0, -1)"
| "delta Down = (0, 1)"
| "delta Left = (-1, 0)"
| "delta Right = (1, 0)"

fun opposite :: "direction \<Rightarrow> direction" where
  "opposite Up = Down"
| "opposite Down = Up"
| "opposite Left = Right"
| "opposite Right = Left"

lemma set_all_directions [simp]: "set all_directions = UNIV"
  using direction.exhaust by (auto simp: all_directions_def)

section \<open>Tiles and maps\<close>

record tile =
  tl_collision :: nat
  tl_elevation :: nat
  tl_behavior :: nat
  tl_encounter :: nat

record warp =
  wp_x :: int
  wp_y :: int
  wp_dest_map :: string
  wp_dest_warp :: int

record connection =
  cn_direction :: string
  cn_offset :: int
  cn_map :: string

definition connection_direction :: "connection \<Rightarrow> direction option" where
  "connection_direction c =
    (if cn_direction c = ''up'' then Some Up
     else if cn_direction c = ''down'' then Some Down
     else if cn_direction c = ''left'' then Some Left
     else if cn_direction c = ''right'' then Some Right
     else None)"

record object_event =
  ob_local_id :: nat
  ob_graphics :: "string option"
  ob_x :: "int option"
  ob_y :: "int option"
  ob_movement :: "string option"
  ob_range_x :: int
  ob_range_y :: int
  ob_script :: "string option"
  ob_flag :: "string option"
  ob_trainer_type :: "string option"

definition object_area :: "object_event \<Rightarrow> int \<times> int \<times> int \<times> int" where
  "object_area o' =
    (let x = (case ob_x o' of None \<Rightarrow> 0 | Some x \<Rightarrow> x);
         y = (case ob_y o' of None \<Rightarrow> 0 | Some y \<Rightarrow> y)
     in (x - ob_range_x o', y - ob_range_y o', x + ob_range_x o', y + ob_range_y o'))"

record sign =
  sg_x :: int
  sg_y :: int
  sg_script :: "string option"
  sg_facing :: "string option"

definition facing_dir :: "sign \<Rightarrow> direction option" where
  "facing_dir s =
    (case sg_facing s of
       None \<Rightarrow> None
     | Some f \<Rightarrow>
         if f = ''BG_EVENT_PLAYER_FACING_NORTH'' then Some Up
         else if f = ''BG_EVENT_PLAYER_FACING_SOUTH'' then Some Down
         else if f = ''BG_EVENT_PLAYER_FACING_EAST'' then Some Right
         else if f = ''BG_EVENT_PLAYER_FACING_WEST'' then Some Left
         else None)"

record map_data =
  md_id :: string
  md_name :: string
  md_width :: int
  md_height :: int
  md_map_type :: "string option"
  md_requires_flash :: bool
  md_weather :: "string option"
  md_allow_escaping :: bool
  md_tiles :: "tile list"
  md_warps :: "warp list"
  md_connections :: "connection list"
  md_objects :: "object_event list"
  md_signs :: "sign list"

definition in_bounds :: "map_data \<Rightarrow> int \<Rightarrow> int \<Rightarrow> bool" where
  "in_bounds m x y \<longleftrightarrow> x \<ge> 0 \<and> y \<ge> 0 \<and> x < md_width m \<and> y < md_height m"

definition tile_at :: "map_data \<Rightarrow> pos \<Rightarrow> tile option" where
  "tile_at m p =
    (case p of (x, y) \<Rightarrow>
      if in_bounds m x y then Some (md_tiles m ! nat (y * md_width m + x)) else None)"

definition is_foggy :: "map_data \<Rightarrow> bool" where
  "is_foggy m \<longleftrightarrow> md_weather m = Some ''WEATHER_FOG_HORIZONTAL''"

definition allows_fly :: "map_data \<Rightarrow> bool" where
  "allows_fly m \<longleftrightarrow> md_map_type m \<in>
    {Some ''MAP_TYPE_ROUTE'', Some ''MAP_TYPE_TOWN'', Some ''MAP_TYPE_OCEAN_ROUTE'', Some ''MAP_TYPE_CITY''}"

definition is_outdoor :: "map_data \<Rightarrow> bool" where
  "is_outdoor m \<longleftrightarrow> md_map_type m \<notin> {Some ''MAP_TYPE_INDOOR'', Some ''MAP_TYPE_UNDERGROUND''}"

section \<open>Behaviours\<close>

definition TALL_GRASS :: nat where "TALL_GRASS = 0x02"
definition JUMP_EAST :: nat where "JUMP_EAST = 0x38"
definition JUMP_WEST :: nat where "JUMP_WEST = 0x39"
definition JUMP_NORTH :: nat where "JUMP_NORTH = 0x3A"
definition JUMP_SOUTH :: nat where "JUMP_SOUTH = 0x3B"
definition EAST_ARROW_WARP :: nat where "EAST_ARROW_WARP = 0x62"
definition WEST_ARROW_WARP :: nat where "WEST_ARROW_WARP = 0x63"
definition NORTH_ARROW_WARP :: nat where "NORTH_ARROW_WARP = 0x64"
definition SOUTH_ARROW_WARP :: nat where "SOUTH_ARROW_WARP = 0x65"
definition COUNTER :: nat where "COUNTER = 0x80"

definition between :: "nat \<Rightarrow> nat \<Rightarrow> nat \<Rightarrow> bool" where
  "between a b x \<longleftrightarrow> a \<le> x \<and> x \<le> b"

definition is_water :: "nat \<Rightarrow> bool" where
  "is_water b \<longleftrightarrow> between 0x10 0x15 b \<or> between 0x19 0x1B b"

definition animates_as_water :: "nat \<Rightarrow> bool" where
  "animates_as_water b \<longleftrightarrow> is_water b \<or> between 0x50 0x53 b"

definition ledge :: "nat \<Rightarrow> direction option" where
  "ledge b =
    (if b = JUMP_EAST then Some Right
     else if b = JUMP_WEST then Some Left
     else if b = JUMP_NORTH then Some Up
     else if b = JUMP_SOUTH then Some Down
     else None)"

definition arrow_warp :: "nat \<Rightarrow> direction option" where
  "arrow_warp b =
    (if b = EAST_ARROW_WARP then Some Right
     else if b = WEST_ARROW_WARP then Some Left
     else if b = NORTH_ARROW_WARP then Some Up
     else if b = SOUTH_ARROW_WARP then Some Down
     else None)"

definition stair_warp :: "nat \<Rightarrow> direction option" where
  "stair_warp b =
    (if b = 0x6C \<or> b = 0x6E then Some Right
     else if b = 0x6D \<or> b = 0x6F then Some Left
     else None)"

definition warp_fires :: "nat \<Rightarrow> bool" where
  "warp_fires b \<longleftrightarrow> b = 0x60 \<or> b = 0x61 \<or> between 0x66 0x6B b \<or> b = 0x71
     \<or> arrow_warp b \<noteq> None \<or> stair_warp b \<noteq> None"

definition blocks_edge :: "nat \<Rightarrow> direction \<Rightarrow> bool" where
  "blocks_edge b side \<longleftrightarrow> side \<in> set
    (if b = 0x30 then [Right]
     else if b = 0x31 then [Left]
     else if b = 0x32 then [Up]
     else if b = 0x33 then [Down]
     else if b = 0x34 then [Up, Right]
     else if b = 0x35 then [Up, Left]
     else if b = 0x36 then [Down, Right]
     else if b = 0x37 then [Down, Left]
     else [])"

section \<open>The world\<close>

record world =
  wo_maps :: "(string \<times> map_data) list"
  wo_by_id :: "(string \<times> string) list"

definition map_named :: "world \<Rightarrow> string \<Rightarrow> map_data option" where
  "map_named w name = map_of (wo_maps w) name"

definition name_of :: "world \<Rightarrow> string \<Rightarrow> string option" where
  "name_of w i = map_of (wo_by_id w) i"

definition open_tile :: "map_data \<Rightarrow> int \<Rightarrow> int \<Rightarrow> bool" where
  "open_tile m x y \<longleftrightarrow> (case tile_at m (x, y) of None \<Rightarrow> False | Some t \<Rightarrow> tl_collision t = 0)"

definition int_range :: "int \<Rightarrow> int list" where
  "int_range n = map int [0..<nat n]"

text \<open>The crossings of one connection: the neighbour's name, the tile on this map's edge and the
  tile it leads to.\<close>

definition connection_crossings ::
  "map_data \<Rightarrow> map_data \<Rightarrow> direction \<Rightarrow> int \<Rightarrow> (string \<times> pos \<times> pos) list" where
  "connection_crossings m other dir offset =
    (if dir = Up \<or> dir = Down then
       let (ay, by) = (if dir = Up then (0, md_height other - 1) else (md_height m - 1, 0)) in
       map (\<lambda>x. (md_name other, (x, ay), (x - offset, by)))
         (filter (\<lambda>x. open_tile m x ay \<and> open_tile other (x - offset) by) (int_range (md_width m)))
     else
       let (ax, bx) = (if dir = Left then (0, md_width other - 1) else (md_width m - 1, 0)) in
       map (\<lambda>y. (md_name other, (ax, y), (bx, y - offset)))
         (filter (\<lambda>y. open_tile m ax y \<and> open_tile other bx (y - offset)) (int_range (md_height m))))"

definition edge_crossings :: "world \<Rightarrow> map_data \<Rightarrow> direction \<Rightarrow> (string \<times> pos \<times> pos) list" where
  "edge_crossings w m dir =
    concat (map (\<lambda>conn.
        case Option.bind (name_of w (cn_map conn)) (map_named w) of
          None \<Rightarrow> []
        | Some other \<Rightarrow> connection_crossings m other dir (cn_offset conn))
      (filter (\<lambda>c. connection_direction c = Some dir) (md_connections m)))"

definition crossings :: "world \<Rightarrow> map_data \<Rightarrow> direction \<Rightarrow> (pos \<times> pos) list" where
  "crossings w m dir = map snd (edge_crossings w m dir)"

definition warp_destination :: "world \<Rightarrow> warp \<Rightarrow> (map_data \<times> int \<times> int) option" where
  "warp_destination w wp =
    (case Option.bind (name_of w (wp_dest_map wp)) (map_named w) of
       None \<Rightarrow> None
     | Some m \<Rightarrow>
         if wp_dest_warp wp \<ge> 0 \<and> nat (wp_dest_warp wp) < length (md_warps m) then
           let dest = md_warps m ! nat (wp_dest_warp wp) in Some (m, wp_x dest, wp_y dest)
         else None)"

section \<open>Facts\<close>

lemma opposite_opposite [simp]: "opposite (opposite d) = d"
  by (cases d) simp_all

lemma delta_opposite: "delta (opposite d) = (- fst (delta d), - snd (delta d))"
  by (cases d) simp_all

lemma set_int_range [simp]: "x \<in> set (int_range n) \<longleftrightarrow> 0 \<le> x \<and> x < n"
proof
  assume "0 \<le> x \<and> x < n"
  then show "x \<in> set (int_range n)"
    by (auto simp: int_range_def intro: image_eqI [of _ _ "nat x"])
qed (auto simp: int_range_def)

lemma tile_in_bounds: "tile_at m (x, y) = Some t \<Longrightarrow> in_bounds m x y"
  by (auto simp: tile_at_def split: if_splits)

text \<open>The index into the tiles never leaves the list, as long as it has one tile per position.\<close>

definition map_ok :: "map_data \<Rightarrow> bool" where
  "map_ok m \<longleftrightarrow> md_width m \<ge> 0 \<and> md_height m \<ge> 0 \<and>
    length (md_tiles m) = nat (md_width m * md_height m)"

lemma tile_index_in_range:
  assumes "map_ok m" "in_bounds m x y"
  shows "nat (y * md_width m + x) < length (md_tiles m)"
proof -
  have "y * md_width m + x < (y + 1) * md_width m"
    using assms(2) by (simp add: in_bounds_def distrib_right)
  also have "\<dots> \<le> md_height m * md_width m"
    using assms by (intro mult_right_mono) (simp_all add: in_bounds_def map_ok_def)
  finally show ?thesis
    using assms by (simp add: map_ok_def in_bounds_def mult.commute nat_less_iff)
qed

text \<open>Every crossing leads from a walkable tile on this map's edge to a walkable tile on the facing
  edge of a map it is connected to.\<close>

definition on_edge :: "map_data \<Rightarrow> direction \<Rightarrow> pos \<Rightarrow> bool" where
  "on_edge m d p \<longleftrightarrow>
    (case d of Up \<Rightarrow> snd p = 0 | Down \<Rightarrow> snd p = md_height m - 1
     | Left \<Rightarrow> fst p = 0 | Right \<Rightarrow> fst p = md_width m - 1)"

lemma connection_crossings_sound:
  assumes "(n, a, b) \<in> set (connection_crossings m other d offset)"
  shows "n = md_name other \<and> on_edge m d a \<and> on_edge other (opposite d) b \<and>
    open_tile m (fst a) (snd a) \<and> open_tile other (fst b) (snd b)"
  using assms by (cases d) (auto simp: connection_crossings_def on_edge_def)

text \<open>A map-edge crossing joins a walkable tile on this map's edge with a walkable tile on the
  facing edge of the connected map, and the neighbour named is that map.\<close>

lemma edge_crossings_sound:
  assumes "(n, a, b) \<in> set (edge_crossings w m d)"
  shows "\<exists>conn other. conn \<in> set (md_connections m) \<and> connection_direction conn = Some d \<and>
    Option.bind (name_of w (cn_map conn)) (map_named w) = Some other \<and> n = md_name other \<and>
    on_edge m d a \<and> on_edge other (opposite d) b \<and>
    open_tile m (fst a) (snd a) \<and> open_tile other (fst b) (snd b)"
proof -
  obtain conn where c: "conn \<in> set (md_connections m)" "connection_direction conn = Some d"
    "(n, a, b) \<in> set (case Option.bind (name_of w (cn_map conn)) (map_named w) of
          None \<Rightarrow> [] | Some other \<Rightarrow> connection_crossings m other d (cn_offset conn))"
    using assms by (auto simp: edge_crossings_def)
  then obtain other where "Option.bind (name_of w (cn_map conn)) (map_named w) = Some other"
    "(n, a, b) \<in> set (connection_crossings m other d (cn_offset conn))"
    by (cases "Option.bind (name_of w (cn_map conn)) (map_named w)") auto
  with c(1,2) connection_crossings_sound [OF this(2)] show ?thesis by blast
qed

end
