(* ===== verification/Walk_Path.thy ===== *)
theory Walk_Path
  imports World_Map
begin

text \<open>
  Walking rules and the search over a map's tile grid (crates/world/src/path.rs): what one press
  does (edges, ledges, water, doors, the slides of spin tiles), the A* search with its heap and
  its table of costs and predecessors, and the paths read back from it. The heap of the standard
  library is a list from which the least entry is taken; a \<open>HashMap\<close> is a map. The search loop may
  not end for arbitrary costs, and is then \<open>None\<close>; the locale \<open>weighted_moves\<close> shows that it always
  ends when costs are not negative, that what it finds is cheapest, and that what it does not find
  cannot be reached.
\<close>

section \<open>Walking rules\<close>

record path_step =
  sp_dir :: direction
  sp_to :: pos

record walk =
  wk_obstacles :: "pos set"
  wk_surf :: bool
  wk_opened :: "pos set option"

definition walkable_elevation :: "nat \<Rightarrow> nat \<Rightarrow> bool" where
  "walkable_elevation a b \<longleftrightarrow>
    (let any = (\<lambda>e. e = 0 \<or> e = 15) in any a \<or> any b \<or> a = b)"

definition MAX_SLIDE :: nat where "MAX_SLIDE = 128"
definition STOP_SPINNING :: nat where "STOP_SPINNING = 0x58"

definition spin_dir :: "nat \<Rightarrow> direction option" where
  "spin_dir b =
    (if b = 0x54 then Some Right
     else if b = 0x55 then Some Left
     else if b = 0x56 then Some Up
     else if b = 0x57 then Some Down
     else None)"

definition shift :: "pos \<Rightarrow> direction \<Rightarrow> pos" where
  "shift p d = (fst p + fst (delta d), snd p + snd (delta d))"

text \<open>One press's move without forced movement.\<close>

definition plain_step :: "map_data \<Rightarrow> pos \<Rightarrow> direction \<Rightarrow> walk \<Rightarrow> path_step option" where
  "plain_step m src dir walk =
    (case tile_at m src of
       None \<Rightarrow> None
     | Some here \<Rightarrow>
         let to = shift src dir in
         (case tile_at m to of
            None \<Rightarrow> None
          | Some target \<Rightarrow>
              (case ledge (tl_behavior target) of
                 Some jump \<Rightarrow>
                   if jump \<noteq> dir then None
                   else let land = shift to dir in
                     (case tile_at m land of
                        None \<Rightarrow> None
                      | Some landing \<Rightarrow>
                          if tl_collision landing = 0 \<and> land \<notin> wk_obstacles walk
                          then Some \<lparr>sp_dir = dir, sp_to = land\<rparr> else None)
               | None \<Rightarrow>
                   let shore = wk_surf walk \<and> (is_water (tl_behavior here) \<or> is_water (tl_behavior target));
                       opened = (case wk_opened walk of None \<Rightarrow> False | Some doors \<Rightarrow> to \<in> doors);
                       blocked = (tl_collision target \<noteq> 0 \<and> \<not> opened)
                         \<or> tl_behavior target = COUNTER
                         \<or> (is_water (tl_behavior target) \<and> \<not> wk_surf walk)
                         \<or> to \<in> wk_obstacles walk
                         \<or> blocks_edge (tl_behavior here) dir
                         \<or> blocks_edge (tl_behavior target) (opposite dir)
                         \<or> \<not> (shore \<or> walkable_elevation (tl_elevation here) (tl_elevation target))
                   in if blocked then None else Some \<lparr>sp_dir = dir, sp_to = to\<rparr>)))"

definition behavior_at :: "map_data \<Rightarrow> pos \<Rightarrow> nat" where
  "behavior_at m p = (case tile_at m p of None \<Rightarrow> 0 | Some t \<Rightarrow> tl_behavior t)"

text \<open>The slide a spin tile starts, in the arrow's direction, for at most so many tiles.\<close>

primrec slide :: "nat \<Rightarrow> map_data \<Rightarrow> walk \<Rightarrow> pos \<Rightarrow> direction \<Rightarrow> pos" where
  "slide 0 m walk p spin = p"
| "slide (Suc n) m walk p spin =
    (case plain_step m p spin walk of
       None \<Rightarrow> p
     | Some next' \<Rightarrow>
         let q = sp_to next'; b = behavior_at m q in
         if b = STOP_SPINNING then q
         else slide n m walk q (case spin_dir b of None \<Rightarrow> spin | Some turn \<Rightarrow> turn))"

definition step_with :: "map_data \<Rightarrow> pos \<Rightarrow> direction \<Rightarrow> walk \<Rightarrow> path_step option" where
  "step_with m src dir walk =
    (case plain_step m src dir walk of
       None \<Rightarrow> None
     | Some first \<Rightarrow>
         (case Option.bind (tile_at m (sp_to first)) (\<lambda>t. spin_dir (tl_behavior t)) of
            None \<Rightarrow> Some first
          | Some spin \<Rightarrow> Some \<lparr>sp_dir = dir, sp_to = slide MAX_SLIDE m walk (sp_to first) spin\<rparr>))"

definition on_foot :: "pos set \<Rightarrow> walk" where
  "on_foot obstacles = \<lparr>wk_obstacles = obstacles, wk_surf = False, wk_opened = None\<rparr>"

definition step_on_foot :: "map_data \<Rightarrow> pos \<Rightarrow> direction \<Rightarrow> pos set \<Rightarrow> path_step option" where
  "step_on_foot m src dir obstacles = step_with m src dir (on_foot obstacles)"

section \<open>The search\<close>

definition GRASS_PENALTY :: int where "GRASS_PENALTY = 4"

definition step_cost :: "map_data \<Rightarrow> (pos \<Rightarrow> int) \<Rightarrow> pos \<Rightarrow> pos \<Rightarrow> int" where
  "step_cost m extra p q =
    \<bar>fst q - fst p\<bar> + \<bar>snd q - snd p\<bar>
      + (case tile_at m q of
           None \<Rightarrow> 0 | Some t \<Rightarrow> if tl_behavior t = TALL_GRASS then GRASS_PENALTY else 0)
      + extra q"

text \<open>The legal moves from a tile with their costs, in the order the directions are tried.\<close>

definition moves :: "map_data \<Rightarrow> walk \<Rightarrow> (pos \<Rightarrow> int) \<Rightarrow> pos \<Rightarrow> (path_step \<times> int) list" where
  "moves m walk extra p =
    List.map_filter (\<lambda>dir. map_option (\<lambda>s. (s, step_cost m extra p (sp_to s))) (step_with m p dir walk))
      all_directions"

record reach =
  rc_start :: pos
  rc_came :: "pos \<rightharpoonup> pos \<times> path_step"
  rc_cost :: "pos \<rightharpoonup> int"

text \<open>An entry of the heap: the estimate, the insertion counter, the tile.\<close>

type_synonym entry = "int \<times> nat \<times> pos"

definition entry_before :: "entry \<Rightarrow> entry \<Rightarrow> bool" where
  "entry_before a b \<longleftrightarrow> fst a < fst b \<or> fst a = fst b \<and> fst (snd a) < fst (snd b)"

fun least_entry :: "entry \<Rightarrow> entry list \<Rightarrow> entry" where
  "least_entry e [] = e"
| "least_entry e (x # xs) = least_entry (if entry_before x e then x else e) xs"

record searching =
  se_reach :: reach
  se_open :: "entry list"
  se_counter :: nat

definition relax :: "(pos \<Rightarrow> int) \<Rightarrow> pos \<Rightarrow> int \<Rightarrow> path_step \<times> int \<Rightarrow> searching \<Rightarrow> searching" where
  "relax heuristic p g = (\<lambda>(s, w) st.
    let ng = g + w; r = se_reach st in
    if (case rc_cost r (sp_to s) of None \<Rightarrow> True | Some old \<Rightarrow> ng < old) then
      \<lparr>se_reach = r\<lparr>rc_cost := (rc_cost r)(sp_to s \<mapsto> ng), rc_came := (rc_came r)(sp_to s \<mapsto> (p, s))\<rparr>,
       se_open = (ng + heuristic (sp_to s), se_counter st + 1, sp_to s) # se_open st,
       se_counter = se_counter st + 1\<rparr>
    else st)"

text \<open>\<open>reach.cost[&pos]\<close>, which would panic for a tile without a cost; the heap never holds one.\<close>

definition cost_of :: "reach \<Rightarrow> pos \<Rightarrow> int" where
  "cost_of r p = (case rc_cost r p of Some c \<Rightarrow> c | None \<Rightarrow> 0)"

partial_function (option) search_loop :: "(pos \<Rightarrow> (path_step \<times> int) list) \<Rightarrow> (pos \<Rightarrow> bool)
    \<Rightarrow> (pos \<Rightarrow> int) \<Rightarrow> searching \<Rightarrow> (reach \<times> pos option) option" where
  "search_loop mv goal heuristic st =
    (case se_open st of
       [] \<Rightarrow> Some (se_reach st, None)
     | e # es \<Rightarrow>
         let top = least_entry e es; p = snd (snd top);
             st' = st\<lparr>se_open := remove1 top (e # es)\<rparr> in
         if goal p then Some (se_reach st', Some p)
         else search_loop mv goal heuristic
           (fold (relax heuristic p (cost_of (se_reach st') p)) (mv p) st'))"

definition begin_search :: "(pos \<Rightarrow> int) \<Rightarrow> pos \<Rightarrow> searching" where
  "begin_search heuristic start =
    \<lparr>se_reach = \<lparr>rc_start = start, rc_came = Map.empty, rc_cost = [start \<mapsto> 0]\<rparr>,
     se_open = [(heuristic start, 0, start)], se_counter = 0\<rparr>"

definition search :: "map_data \<Rightarrow> pos \<Rightarrow> walk \<Rightarrow> (pos \<Rightarrow> int) \<Rightarrow> (pos \<Rightarrow> bool) \<Rightarrow> (pos \<Rightarrow> int)
    \<Rightarrow> (reach \<times> pos option) option" where
  "search m start walk extra goal heuristic =
    search_loop (moves m walk extra) goal heuristic (begin_search heuristic start)"

section \<open>Paths\<close>

partial_function (option) path_back :: "(pos \<rightharpoonup> pos \<times> path_step) \<Rightarrow> pos \<Rightarrow> path_step list
    \<Rightarrow> path_step list option" where
  "path_back came p steps =
    (case came p of
       None \<Rightarrow> Some steps
     | Some (prev, s) \<Rightarrow> path_back came prev (s # steps))"

text \<open>\<open>Reach::path\<close>: the inner option is the code's, the outer one whether the loop ends.\<close>

definition reach_path :: "reach \<Rightarrow> pos \<Rightarrow> path_step list option option" where
  "reach_path r to =
    (if to \<noteq> rc_start r \<and> rc_came r to = None then Some None
     else map_option Some (path_back (rc_came r) to []))"

definition reach_cost :: "reach \<Rightarrow> pos \<Rightarrow> int option" where
  "reach_cost r to = rc_cost r to"

definition reach_from :: "map_data \<Rightarrow> pos \<Rightarrow> walk \<Rightarrow> (pos \<Rightarrow> int) \<Rightarrow> reach option" where
  "reach_from m start walk extra =
    map_option fst (search m start walk extra (\<lambda>_. False) (\<lambda>_. 0))"

definition find_path_with :: "map_data \<Rightarrow> pos \<Rightarrow> walk \<Rightarrow> (pos \<Rightarrow> int) \<Rightarrow> (pos \<Rightarrow> bool) \<Rightarrow> (pos \<Rightarrow> int)
    \<Rightarrow> path_step list option option" where
  "find_path_with m start walk extra goal heuristic =
    (case search m start walk extra goal heuristic of
       None \<Rightarrow> None
     | Some (r, None) \<Rightarrow> Some None
     | Some (r, Some q) \<Rightarrow> reach_path r q)"

definition find_path :: "map_data \<Rightarrow> pos \<Rightarrow> pos set \<Rightarrow> (pos \<Rightarrow> bool) \<Rightarrow> (pos \<Rightarrow> int)
    \<Rightarrow> path_step list option option" where
  "find_path m start obstacles goal heuristic =
    find_path_with m start (on_foot obstacles) (\<lambda>_. 0) goal heuristic"

definition manhattan :: "pos \<Rightarrow> pos \<Rightarrow> int" where
  "manhattan target p = \<bar>fst p - fst target\<bar> + \<bar>snd p - snd target\<bar>"

definition path_to :: "map_data \<Rightarrow> pos \<Rightarrow> pos \<Rightarrow> pos set \<Rightarrow> path_step list option option" where
  "path_to m start target obstacles =
    find_path m start obstacles (\<lambda>p. p = target) (manhattan target)"

lemma least_entry_in: "least_entry e es \<in> insert e (set es)"
  by (induction e es rule: least_entry.induct) (auto split: if_splits)

lemma least_entry_head: "fst (least_entry e es) \<le> fst e"
proof (induction e es rule: least_entry.induct)
  case (2 e x xs)
  then show ?case by (auto simp: entry_before_def intro: order_trans split: if_splits)
qed simp

lemma least_entry_le: "x \<in> insert e (set es) \<Longrightarrow> fst (least_entry e es) \<le> fst x"
proof (induction e es rule: least_entry.induct)
  case (2 e y ys)
  let ?m = "if entry_before y e then y else e"
  have m: "fst ?m \<le> fst y" "fst ?m \<le> fst e" by (auto simp: entry_before_def)
  show ?case
  proof (cases "x \<in> set ys")
    case True
    then show ?thesis using "2.IH" by simp
  next
    case False
    then have "fst ?m \<le> fst x" using 2(2) m by auto
    then show ?thesis using least_entry_head [of ?m ys] by simp
  qed
qed simp

section \<open>The contract of the moves\<close>

declare split_paired_All [simp del] split_paired_Ex [simp del]

inductive walks :: "(pos \<Rightarrow> (path_step \<times> int) list) \<Rightarrow> pos \<Rightarrow> path_step list \<Rightarrow> pos \<Rightarrow> int \<Rightarrow> bool"
  for mv where
  walks_nil: "walks mv p [] p 0"
| walks_step: "(s, w) \<in> set (mv p) \<Longrightarrow> walks mv (sp_to s) ss q c \<Longrightarrow> walks mv p (s # ss) q (w + c)"

inductive_cases walks_nilE: "walks mv p [] q c"
inductive_cases walks_consE: "walks mv p (s # ss) q c"

inductive_simps walks_nil_iff [simp]: "walks mv p [] q c"

lemma walks_snoc:
  "walks mv p ss q c \<Longrightarrow> (s, w) \<in> set (mv q) \<Longrightarrow> walks mv p (ss @ [s]) (sp_to s) (c + w)"
proof (induction rule: walks.induct)
  case (walks_nil p)
  then show ?case using walks_step [OF _ walks.walks_nil, of s w mv p] by simp
next
  case (walks_step s' w' p ss q c)
  then show ?case using walks.walks_step [OF walks_step.hyps(1) walks_step.IH] by (simp add: add.assoc)
qed

lemma walks_append:
  "walks mv p ss q c \<Longrightarrow> walks mv q ts r d \<Longrightarrow> walks mv p (ss @ ts) r (c + d)"
  by (induction rule: walks.induct) (auto simp: add.assoc intro: walks_step)

text \<open>An estimate that never exceeds the cost of a walk to a goal.\<close>

definition admissible :: "(pos \<Rightarrow> (path_step \<times> int) list) \<Rightarrow> (pos \<Rightarrow> bool) \<Rightarrow> (pos \<Rightarrow> int) \<Rightarrow> bool" where
  "admissible mv goal h \<longleftrightarrow>
    (\<forall>p. 0 \<le> h p) \<and> (\<forall>p ss q c. walks mv p ss q c \<longrightarrow> goal q \<longrightarrow> h p \<le> c)"

text \<open>The steps walk to a goal, and no walk to a goal is cheaper.\<close>

definition cheapest :: "(pos \<Rightarrow> (path_step \<times> int) list) \<Rightarrow> pos \<Rightarrow> (pos \<Rightarrow> bool) \<Rightarrow> path_step list \<Rightarrow> bool" where
  "cheapest mv start goal ss \<longleftrightarrow> (\<exists>q c. goal q \<and> walks mv start ss q c \<and>
    (\<forall>ss' q' c'. walks mv start ss' q' c' \<longrightarrow> goal q' \<longrightarrow> c \<le> c'))"

definition unreachable :: "(pos \<Rightarrow> (path_step \<times> int) list) \<Rightarrow> pos \<Rightarrow> (pos \<Rightarrow> bool) \<Rightarrow> bool" where
  "unreachable mv start goal \<longleftrightarrow> \<not> (\<exists>ss q c. goal q \<and> walks mv start ss q c)"

text \<open>Moves within a finite set of tiles, none of negative cost, and none free that goes anywhere.\<close>

locale weighted_moves =
  fixes mv :: "pos \<Rightarrow> (path_step \<times> int) list" and V :: "pos set"
  assumes finite_V: "finite V"
    and stays: "p \<in> V \<Longrightarrow> (s, w) \<in> set (mv p) \<Longrightarrow> sp_to s \<in> V"
    and nonneg: "(s, w) \<in> set (mv p) \<Longrightarrow> 0 \<le> w"
    and positive: "(s, w) \<in> set (mv p) \<Longrightarrow> sp_to s \<noteq> p \<Longrightarrow> 0 < w"
begin

text \<open>A tile is settled when it was expanded with its present cost.\<close>

definition settled :: "(pos \<Rightarrow> bool) \<Rightarrow> searching \<Rightarrow> pos \<Rightarrow> int \<Rightarrow> bool" where
  "settled goal st p c \<longleftrightarrow> \<not> goal p \<and>
    (\<forall>(s, w) \<in> set (mv p). \<exists>c'. rc_cost (se_reach st) (sp_to s) = Some c' \<and> c' \<le> c + w)"

definition waiting :: "(pos \<Rightarrow> int) \<Rightarrow> searching \<Rightarrow> pos \<Rightarrow> int \<Rightarrow> bool" where
  "waiting h st p c \<longleftrightarrow> (\<exists>k. (c + h p, k, p) \<in> set (se_open st))"

text \<open>What holds of the table of costs whatever the heap holds.\<close>

definition table_ok :: "pos \<Rightarrow> reach \<Rightarrow> bool" where
  "table_ok start r \<longleftrightarrow> rc_start r = start \<and> rc_cost r start = Some 0 \<and> rc_came r start = None \<and>
    (\<forall>p c. rc_cost r p = Some c \<longrightarrow> p \<in> V \<and> 0 \<le> c \<and> (\<exists>ss. walks mv start ss p c) \<and>
      (p \<noteq> start \<longrightarrow> rc_came r p \<noteq> None)) \<and>
    (\<forall>p q s. rc_came r p = Some (q, s) \<longrightarrow> sp_to s = p \<and>
      (\<exists>w cq cp. (s, w) \<in> set (mv q) \<and> 0 < w \<and> rc_cost r q = Some cq \<and> rc_cost r p = Some cp \<and> cq + w \<le> cp))"

definition heap_ok :: "(pos \<Rightarrow> int) \<Rightarrow> searching \<Rightarrow> bool" where
  "heap_ok h st \<longleftrightarrow> (\<forall>(f, k, p) \<in> set (se_open st). \<exists>c. rc_cost (se_reach st) p = Some c \<and> c + h p \<le> f)"

definition inv :: "pos \<Rightarrow> (pos \<Rightarrow> bool) \<Rightarrow> (pos \<Rightarrow> int) \<Rightarrow> searching \<Rightarrow> bool" where
  "inv start goal h st \<longleftrightarrow> table_ok start (se_reach st) \<and> heap_ok h st \<and>
    (\<forall>p c. rc_cost (se_reach st) p = Some c \<longrightarrow> settled goal st p c \<or> waiting h st p c)"

lemma table_okD:
  assumes "table_ok start r"
  shows "rc_start r = start" "rc_cost r start = Some 0" "rc_came r start = None"
    "rc_cost r p = Some c \<Longrightarrow> p \<in> V"
    "rc_cost r p = Some c \<Longrightarrow> 0 \<le> c"
    "rc_cost r p = Some c \<Longrightarrow> \<exists>ss. walks mv start ss p c"
    "rc_cost r p = Some c \<Longrightarrow> p \<noteq> start \<Longrightarrow> rc_came r p \<noteq> None"
    "rc_came r p = Some (q, s) \<Longrightarrow> sp_to s = p \<and>
      (\<exists>w cq cp. (s, w) \<in> set (mv q) \<and> 0 < w \<and> rc_cost r q = Some cq \<and> rc_cost r p = Some cp \<and> cq + w \<le> cp)"
  using assms unfolding table_ok_def by blast+

lemma table_okI:
  assumes "rc_start r = start" "rc_cost r start = Some 0" "rc_came r start = None"
    and "\<And>p c. rc_cost r p = Some c \<Longrightarrow> p \<in> V"
    and "\<And>p c. rc_cost r p = Some c \<Longrightarrow> 0 \<le> c"
    and "\<And>p c. rc_cost r p = Some c \<Longrightarrow> \<exists>ss. walks mv start ss p c"
    and "\<And>p c. rc_cost r p = Some c \<Longrightarrow> p \<noteq> start \<Longrightarrow> rc_came r p \<noteq> None"
    and "\<And>p q s. rc_came r p = Some (q, s) \<Longrightarrow> sp_to s = p \<and>
      (\<exists>w cq cp. (s, w) \<in> set (mv q) \<and> 0 < w \<and> rc_cost r q = Some cq \<and> rc_cost r p = Some cp \<and> cq + w \<le> cp)"
  shows "table_ok start r"
  unfolding table_ok_def using assms by blast

lemma begin_inv:
  assumes "start \<in> V"
  shows "inv start goal h (begin_search h start)"
  using assms
  by (auto simp: inv_def table_ok_def heap_ok_def waiting_def begin_search_def intro: walks_nil)

text \<open>One relaxation of a move of \<open>p\<close>, whose cost is \<open>g\<close>.\<close>

definition improves :: "reach \<Rightarrow> path_step \<Rightarrow> int \<Rightarrow> bool" where
  "improves r s ng \<longleftrightarrow> (case rc_cost r (sp_to s) of None \<Rightarrow> True | Some old \<Rightarrow> ng < old)"

lemma relax_table:
  assumes ok: "table_ok start (se_reach st)" and g: "rc_cost (se_reach st) p = Some g"
    and edge: "(s, w) \<in> set (mv p)" and better: "improves (se_reach st) s (g + w)"
  shows "sp_to s \<noteq> p" "sp_to s \<noteq> start"
    and "table_ok start (se_reach (relax h p g (s, w) st))"
proof -
  let ?t = "sp_to s"
  let ?r = "se_reach st"
  have w: "0 \<le> w" using nonneg [OF edge] .
  show tp: "?t \<noteq> p" using better g w by (auto simp: improves_def)
  show ts: "?t \<noteq> start"
    using better w table_okD(2) [OF ok] table_okD(5) [OF ok g] by (auto simp: improves_def)
  have wpos: "0 < w" using positive [OF edge tp] .
  define r' where "r' = ?r\<lparr>rc_cost := (rc_cost ?r)(?t \<mapsto> g + w), rc_came := (rc_came ?r)(?t \<mapsto> (p, s))\<rparr>"
  have r': "se_reach (relax h p g (s, w) st) = r'"
    using better by (simp add: relax_def improves_def r'_def Let_def)
  have cost: "rc_cost r' q = (if q = ?t then Some (g + w) else rc_cost ?r q)" for q
    by (simp add: r'_def)
  have came: "rc_came r' q = (if q = ?t then Some (p, s) else rc_came ?r q)" for q
    by (simp add: r'_def)
  have lower: "\<exists>c'. rc_cost r' q = Some c' \<and> c' \<le> c" if "rc_cost ?r q = Some c" for q c
    using that better by (auto simp: cost improves_def)
  obtain ss where "walks mv start ss p g" using table_okD(6) [OF ok g] by blast
  then have new: "\<exists>ss. walks mv start ss ?t (g + w)" using walks_snoc [where mv = mv, OF _ edge] by blast
  have backs: "sp_to s' = q \<and> (\<exists>w cq cp. (s', w) \<in> set (mv q') \<and> 0 < w \<and> rc_cost r' q' = Some cq
      \<and> rc_cost r' q = Some cp \<and> cq + w \<le> cp)" if e: "rc_came r' q = Some (q', s')" for q q' s'
  proof (cases "q = ?t")
    case True
    then have "q' = p" "s' = s" using e by (simp_all add: came)
    moreover have "rc_cost r' p = Some g" "rc_cost r' q = Some (g + w)" using tp True g by (simp_all add: cost)
    ultimately show ?thesis using True edge wpos by (metis order_refl)
  next
    case False
    then have "rc_came ?r q = Some (q', s')" using e by (simp add: came)
    from table_okD(8) [OF ok this] obtain w' cq cp where
      *: "sp_to s' = q" "(s', w') \<in> set (mv q')" "0 < w'" "rc_cost ?r q' = Some cq"
        "rc_cost ?r q = Some cp" "cq + w' \<le> cp" by blast
    obtain cq' where q': "rc_cost r' q' = Some cq'" "cq' \<le> cq" using lower [OF *(4)] by blast
    have "rc_cost r' q = Some cp" using False *(5) by (simp add: cost)
    moreover have "cq' + w' \<le> cp" using q'(2) *(6) by linarith
    ultimately show ?thesis using * q'(1) by metis
  qed
  have old: "rc_cost ?r q = Some c" if "rc_cost r' q = Some c" "q \<noteq> ?t" for q c
    using that by (simp add: cost)
  show "table_ok start (se_reach (relax h p g (s, w) st))"
    unfolding r'
  proof (rule table_okI)
    show "rc_start r' = start" using table_okD(1) [OF ok] by (simp add: r'_def)
    show "rc_cost r' start = Some 0" using table_okD(2) [OF ok] ts by (simp add: cost)
    show "rc_came r' start = None" using table_okD(3) [OF ok] ts by (simp add: came)
    show "q \<in> V" if "rc_cost r' q = Some c" for q c
      using stays [OF table_okD(4) [OF ok g] edge] table_okD(4) [OF ok old [OF that]] by blast
    show "0 \<le> c" if "rc_cost r' q = Some c" for q c
      using that w table_okD(5) [OF ok g] table_okD(5) [OF ok old [OF that]] by (cases "q = ?t") (simp_all add: cost)
    show "\<exists>ss. walks mv start ss q c" if "rc_cost r' q = Some c" for q c
    proof (cases "q = ?t")
      case True
      then show ?thesis using new that by (simp add: cost)
    qed (rule table_okD(6) [OF ok old [OF that]])
    show "rc_came r' q \<noteq> None" if "rc_cost r' q = Some c" "q \<noteq> start" for q c
      using table_okD(7) [OF ok old [OF that(1)] that(2)] by (cases "q = ?t") (simp_all add: came)
  qed (rule backs)
qed

lemma relax_keeps:
  assumes "(s, w) \<in> set (mv p)" "rc_cost (se_reach st) q = Some c"
  shows "\<exists>c'. rc_cost (se_reach (relax h p g (s, w) st)) q = Some c' \<and> c' \<le> c"
  using assms by (auto simp: relax_def Let_def split: option.split)

lemma relax_settles:
  "\<exists>c'. rc_cost (se_reach (relax h p g (s, w) st)) (sp_to s) = Some c' \<and> c' \<le> g + w"
  by (auto simp: relax_def Let_def split: option.split)

lemma relax_open: "set (se_open st) \<subseteq> set (se_open (relax h p g (s, w) st))"
  by (auto simp: relax_def Let_def)

text \<open>The invariant while the moves of \<open>p\<close> are relaxed: \<open>p\<close> itself is being settled.\<close>

definition expanding :: "pos \<Rightarrow> (pos \<Rightarrow> bool) \<Rightarrow> (pos \<Rightarrow> int) \<Rightarrow> pos \<Rightarrow> int \<Rightarrow> (path_step \<times> int) set
    \<Rightarrow> searching \<Rightarrow> bool" where
  "expanding start goal h p g ds st \<longleftrightarrow> table_ok start (se_reach st) \<and> heap_ok h st \<and>
    rc_cost (se_reach st) p = Some g \<and>
    (\<forall>q c. q \<noteq> p \<longrightarrow> rc_cost (se_reach st) q = Some c \<longrightarrow> settled goal st q c \<or> waiting h st q c) \<and>
    (\<forall>(s, w) \<in> ds. \<exists>c'. rc_cost (se_reach st) (sp_to s) = Some c' \<and> c' \<le> g + w)"

lemma settled_mono:
  assumes "settled goal st q c"
    and "\<And>x c. rc_cost (se_reach st) x = Some c \<Longrightarrow> \<exists>c'. rc_cost (se_reach st') x = Some c' \<and> c' \<le> c"
  shows "settled goal st' q c"
  using assms unfolding settled_def by (fastforce intro: order_trans)

lemma relax_expanding:
  assumes e: "expanding start goal h p g ds st" and edge: "(s, w) \<in> set (mv p)"
  shows "expanding start goal h p g (insert (s, w) ds) (relax h p g (s, w) st)"
proof -
  let ?st = "relax h p g (s, w) st"
  let ?t = "sp_to s"
  have ok: "table_ok start (se_reach st)" and g: "rc_cost (se_reach st) p = Some g"
    and heap: "heap_ok h st" using e by (simp_all add: expanding_def)
  have keeps: "rc_cost (se_reach st) x = Some c \<Longrightarrow> \<exists>c'. rc_cost (se_reach ?st) x = Some c' \<and> c' \<le> c" for x c
    using relax_keeps [where st = st, OF edge] by blast
  have ds: "\<forall>(s', w') \<in> insert (s, w) ds. \<exists>c'. rc_cost (se_reach ?st) (sp_to s') = Some c' \<and> c' \<le> g + w'"
    using e keeps relax_settles [of h p g s w st] unfolding expanding_def by (fastforce intro: order_trans)
  show ?thesis
  proof (cases "improves (se_reach st) s (g + w)")
    case False
    then have "?st = st" by (simp add: relax_def improves_def Let_def)
    then show ?thesis using e ds by (simp add: expanding_def)
  next
    case True
    note table = relax_table [OF ok g edge True]
    have cost: "rc_cost (se_reach ?st) q = (if q = ?t then Some (g + w) else rc_cost (se_reach st) q)" for q
      using True by (simp add: relax_def improves_def Let_def)
    have opn: "se_open ?st = (g + w + h ?t, se_counter st + 1, ?t) # se_open st"
      using True by (simp add: relax_def improves_def Let_def)
    have "heap_ok h ?st"
      using heap True unfolding heap_ok_def opn
      by (fastforce simp: cost improves_def split: option.splits)
    moreover have "settled goal ?st q c \<or> waiting h ?st q c"
      if "q \<noteq> p" "rc_cost (se_reach ?st) q = Some c" for q c
    proof (cases "q = ?t")
      case True
      then show ?thesis using that by (auto simp: waiting_def opn cost)
    next
      case False
      then have "settled goal st q c \<or> waiting h st q c"
        using that e by (simp add: cost expanding_def)
      moreover have "settled goal st q c \<Longrightarrow> settled goal ?st q c" by (erule settled_mono) (rule keeps)
      moreover have "waiting h st q c \<Longrightarrow> waiting h ?st q c" by (auto simp: waiting_def opn)
      ultimately show ?thesis by blast
    qed
    ultimately show ?thesis
      using table ds g by (simp add: expanding_def cost)
  qed
qed

lemma fold_relax_expanding:
  "expanding start goal h p g ds st \<Longrightarrow> set ms \<subseteq> set (mv p) \<Longrightarrow>
    expanding start goal h p g (ds \<union> set ms) (fold (relax h p g) ms st)"
proof (induction ms arbitrary: ds st)
  case (Cons m ms)
  obtain s w where m: "m = (s, w)" by (cases m)
  have "expanding start goal h p g (insert (s, w) ds) (relax h p g (s, w) st)"
    using relax_expanding [OF Cons.prems(1)] Cons.prems(2) m by simp
  from Cons.IH [OF this] Cons.prems(2) show ?case by (simp add: m)
qed simp

text \<open>The loop ends: every expansion lowers the table of costs or shortens the heap.\<close>

definition missing :: "reach \<Rightarrow> nat" where
  "missing r = card {p \<in> V. rc_cost r p = None}"

definition spent :: "reach \<Rightarrow> nat" where
  "spent r = (\<Sum>p\<in>V. case rc_cost r p of None \<Rightarrow> 0 | Some c \<Rightarrow> nat c)"

definition lower_table :: "reach \<Rightarrow> reach \<Rightarrow> bool" where
  "lower_table r' r \<longleftrightarrow> missing r' < missing r \<or> missing r' = missing r \<and> spent r' < spent r"

lemma lower_table_trans: "lower_table a b \<Longrightarrow> lower_table b c \<Longrightarrow> lower_table a c"
  by (auto simp: lower_table_def)

lemma relax_lowers:
  assumes ok: "table_ok start (se_reach st)" and g: "rc_cost (se_reach st) p = Some g"
    and edge: "(s, w) \<in> set (mv p)" and better: "improves (se_reach st) s (g + w)"
  shows "lower_table (se_reach (relax h p g (s, w) st)) (se_reach st)"
proof -
  let ?t = "sp_to s"
  let ?r = "se_reach st"
  let ?r' = "se_reach (relax h p g (s, w) st)"
  have cost: "rc_cost ?r' q = (if q = ?t then Some (g + w) else rc_cost ?r q)" for q
    using better by (simp add: relax_def improves_def Let_def)
  have tV: "?t \<in> V" using stays [OF table_okD(4) [OF ok g] edge] .
  show ?thesis
  proof (cases "rc_cost ?r ?t")
    case None
    then have "{p \<in> V. rc_cost ?r' p = None} \<subset> {p \<in> V. rc_cost ?r p = None}"
      using tV by (auto simp: cost)
    then show ?thesis unfolding lower_table_def missing_def by (simp add: psubset_card_mono finite_V)
  next
    case (Some old)
    have lt: "g + w < old" using better Some by (simp add: improves_def)
    have ge: "0 \<le> g + w" using nonneg [OF edge] table_okD(5) [OF ok g] by simp
    have "missing ?r' = missing ?r"
      unfolding missing_def by (rule arg_cong [where f = card]) (use Some in \<open>auto simp: cost\<close>)
    moreover have "spent ?r' < spent ?r"
      unfolding spent_def
    proof (rule sum_strict_mono_ex1 [OF finite_V])
      show "\<forall>p\<in>V. (case rc_cost ?r' p of None \<Rightarrow> 0 | Some c \<Rightarrow> nat c)
          \<le> (case rc_cost ?r p of None \<Rightarrow> 0 | Some c \<Rightarrow> nat c)"
        using Some lt ge by (simp add: cost nat_le_iff)
      show "\<exists>p\<in>V. (case rc_cost ?r' p of None \<Rightarrow> 0 | Some c \<Rightarrow> nat c)
          < (case rc_cost ?r p of None \<Rightarrow> 0 | Some c \<Rightarrow> nat c)"
        using tV Some lt ge by (intro bexI [of _ ?t]) (simp_all add: cost)
    qed
    ultimately show ?thesis by (simp add: lower_table_def)
  qed
qed

lemma relax_no_better: "\<not> improves (se_reach st) s (g + w) \<Longrightarrow> relax h p g (s, w) st = st"
  by (simp add: relax_def improves_def Let_def)

lemma fold_relax_lowers:
  "expanding start goal h p g ds st \<Longrightarrow> set ms \<subseteq> set (mv p) \<Longrightarrow>
    fold (relax h p g) ms st = st
    \<or> lower_table (se_reach (fold (relax h p g) ms st)) (se_reach st)"
proof (induction ms arbitrary: ds st)
  case (Cons m ms)
  obtain s w where m: "m = (s, w)" by (cases m)
  have edge: "(s, w) \<in> set (mv p)" using Cons.prems(2) m by simp
  let ?st = "relax h p g (s, w) st"
  have "expanding start goal h p g (insert (s, w) ds) ?st"
    using relax_expanding [OF Cons.prems(1) edge] .
  from Cons.IH [OF this] Cons.prems(2)
  have rest: "fold (relax h p g) ms ?st = ?st
      \<or> lower_table (se_reach (fold (relax h p g) ms ?st)) (se_reach ?st)" by simp
  show ?case
  proof (cases "improves (se_reach st) s (g + w)")
    case True
    have "lower_table (se_reach ?st) (se_reach st)"
      using Cons.prems(1) relax_lowers [where start = start, OF _ _ edge True] by (auto simp: expanding_def)
    then show ?thesis using rest by (auto simp: m intro: lower_table_trans)
  next
    case False
    then show ?thesis using rest by (simp add: m relax_no_better)
  qed
qed simp

lemma expand_start:
  assumes i: "inv start goal h st" and top: "(f, k, p) \<in> set (se_open st)"
    and st': "st' = st\<lparr>se_open := remove1 (f, k, p) (se_open st)\<rparr>"
  obtains g where "cost_of (se_reach st') p = g" "expanding start goal h p g {} st'"
proof -
  obtain g where g: "rc_cost (se_reach st) p = Some g"
    using i top by (fastforce simp: inv_def heap_ok_def)
  then have co: "cost_of (se_reach st') p = g" by (simp add: cost_of_def st')
  have "waiting h st' q c" if "waiting h st q c" "q \<noteq> p" for q c
    using that by (auto simp: waiting_def st' in_set_remove1)
  then have "expanding start goal h p g {} st'"
    using i g set_remove1_subset [of "(f, k, p)" "se_open st"]
    unfolding expanding_def inv_def heap_ok_def settled_def
    by (simp add: st') blast
  then show ?thesis using co that by blast
qed

lemma expand_inv:
  assumes i: "inv start goal h st" and top: "(f, k, p) \<in> set (se_open st)" and ng: "\<not> goal p"
    and st': "st' = st\<lparr>se_open := remove1 (f, k, p) (se_open st)\<rparr>"
    and next_st: "next_st = fold (relax h p (cost_of (se_reach st') p)) (mv p) st'"
  shows "inv start goal h next_st"
    and "next_st = st' \<or> lower_table (se_reach next_st) (se_reach st)"
proof -
  obtain g where co: "cost_of (se_reach st') p = g" and ex: "expanding start goal h p g {} st'"
    using expand_start [OF i top st'] .
  from fold_relax_expanding [OF ex subset_refl]
  have e: "expanding start goal h p g (set (mv p)) next_st" by (simp add: next_st co)
  then have "settled goal next_st p g" using ng by (auto simp: expanding_def settled_def)
  then show "inv start goal h next_st" using e unfolding inv_def expanding_def by (metis option.inject)
  show "next_st = st' \<or> lower_table (se_reach next_st) (se_reach st)"
    using fold_relax_lowers [OF ex subset_refl] unfolding next_st co by (simp add: st')
qed

text \<open>How the loop ends: with an empty heap, or with a goal on top of it.\<close>

definition ended :: "pos \<Rightarrow> (pos \<Rightarrow> bool) \<Rightarrow> (pos \<Rightarrow> int) \<Rightarrow> reach \<Rightarrow> pos option \<Rightarrow> bool" where
  "ended start goal h r res \<longleftrightarrow> (\<exists>st. inv start goal h st \<and> se_reach st = r \<and>
    (case res of
       None \<Rightarrow> se_open st = []
     | Some q \<Rightarrow> goal q \<and> (\<exists>e es. se_open st = e # es \<and> q = snd (snd (least_entry e es)))))"

definition measures3 :: "searching \<Rightarrow> nat \<times> nat \<times> nat" where
  "measures3 st = (missing (se_reach st), spent (se_reach st), length (se_open st))"

lemma search_loop_ends:
  "inv start goal h st \<Longrightarrow> \<exists>r res. search_loop mv goal h st = Some (r, res) \<and> ended start goal h r res"
proof (induction "measures3 st" arbitrary: st
    rule: wf_induct_rule [OF wf_lex_prod [OF wf_less_than wf_lex_prod [OF wf_less_than wf_less_than]]])
  case (1 st)
  show ?case
  proof (cases "se_open st")
    case Nil
    then have "search_loop mv goal h st = Some (se_reach st, None)" by (simp add: search_loop.simps)
    moreover have "ended start goal h (se_reach st) None" using Nil 1(2) by (auto simp: ended_def)
    ultimately show ?thesis by blast
  next
    case (Cons e es)
    obtain f k p where top: "least_entry e es = (f, k, p)" by (cases "least_entry e es")
    have mem: "(f, k, p) \<in> set (se_open st)" using least_entry_in [of e es] Cons top by simp
    define st' where "st' = st\<lparr>se_open := remove1 (f, k, p) (se_open st)\<rparr>"
    show ?thesis
    proof (cases "goal p")
      case True
      then have "search_loop mv goal h st = Some (se_reach st, Some p)"
        using Cons top by (simp add: search_loop.simps)
      moreover have "ended start goal h (se_reach st) (Some p)"
        using 1(2) True Cons top unfolding ended_def by (intro exI [of _ st]) simp
      ultimately show ?thesis by blast
    next
      case False
      define next_st where "next_st = fold (relax h p (cost_of (se_reach st') p)) (mv p) st'"
      note steps = expand_inv [OF 1(2) mem False st'_def next_st_def]
      have "length (se_open st') < length (se_open st)"
        using mem length_pos_if_in_set [OF mem] by (simp add: st'_def length_remove1)
      then have "(measures3 next_st, measures3 st) \<in> less_than <*lex*> less_than <*lex*> less_than"
        using steps(2) by (auto simp: measures3_def lower_table_def st'_def)
      moreover have "search_loop mv goal h st = search_loop mv goal h next_st"
        using False by (simp add: search_loop.simps [of mv goal h st] Cons top next_st_def st'_def Let_def
            del: remove1.simps)
      ultimately show ?thesis using 1(1) [OF _ steps(1)] by simp
    qed
  qed
qed

text \<open>What an empty heap says: every tile a walk reaches has a cost no greater, and none is a goal.\<close>

lemma exhausted_covers:
  assumes "inv start goal h st" "se_open st = []"
  shows "walks mv p ss q c \<Longrightarrow> rc_cost (se_reach st) p = Some c0 \<Longrightarrow>
    (\<exists>c'. rc_cost (se_reach st) q = Some c' \<and> c' \<le> c0 + c) \<and> \<not> goal q"
proof (induction arbitrary: c0 rule: walks.induct)
  case (walks_nil p)
  then have "settled goal st p c0" using assms by (auto simp: inv_def waiting_def)
  then show ?case using walks_nil by (auto simp: settled_def)
next
  case (walks_step s w p ss q c)
  have "settled goal st p c0" using assms walks_step.prems by (auto simp: inv_def waiting_def)
  then obtain c1 where c1: "rc_cost (se_reach st) (sp_to s) = Some c1" "c1 \<le> c0 + w"
    using walks_step.hyps(1) by (auto simp: settled_def)
  from walks_step.IH [OF c1(1)] c1(2) show ?case by fastforce
qed

text \<open>While a goal can be reached, a tile on the way waits in the heap with its present cost.\<close>

lemma waiting_on_the_way:
  assumes "inv start goal h st"
  shows "walks mv p ss q c \<Longrightarrow> rc_cost (se_reach st) p = Some c0 \<Longrightarrow> goal q \<Longrightarrow>
    \<exists>u cu ts d. waiting h st u cu \<and> walks mv u ts q d \<and> cu + d \<le> c0 + c"
proof (induction arbitrary: c0 rule: walks.induct)
  case (walks_nil p)
  then have "waiting h st p c0" using assms by (auto simp: inv_def settled_def)
  then show ?case using walks.walks_nil by fastforce
next
  case (walks_step s w p ss q c)
  show ?case
  proof (cases "waiting h st p c0")
    case True
    then show ?thesis using walks.walks_step [OF walks_step.hyps] by fastforce
  next
    case False
    then have "settled goal st p c0" using assms walks_step.prems by (auto simp: inv_def)
    then obtain c1 where c1: "rc_cost (se_reach st) (sp_to s) = Some c1" "c1 \<le> c0 + w"
      using walks_step.hyps(1) by (auto simp: settled_def)
    from walks_step.IH [OF c1(1) walks_step.prems(2)] obtain u cu ts d where
      "waiting h st u cu" "walks mv u ts q d" "cu + d \<le> c1 + c" by blast
    moreover have "c1 + c \<le> c0 + (w + c)" using c1(2) by simp
    ultimately show ?thesis by (meson order_trans)
  qed
qed

lemma goal_on_top_cheapest:
  assumes i: "inv start goal h st" and adm: "admissible mv goal h"
    and opn: "se_open st = e # es" and q: "q = snd (snd (least_entry e es))"
    and walk: "walks mv start ss q' c" and goal: "goal q'"
  shows "\<exists>cq. rc_cost (se_reach st) q = Some cq \<and> cq \<le> c"
proof -
  obtain f k where top: "least_entry e es = (f, k, q)" using q by (cases "least_entry e es") auto
  then have "(f, k, q) \<in> set (se_open st)" using least_entry_in [of e es] opn by simp
  then obtain cq where cq: "rc_cost (se_reach st) q = Some cq" "cq + h q \<le> f"
    using i by (fastforce simp: inv_def heap_ok_def)
  have "rc_cost (se_reach st) start = Some 0" using i table_okD(2) by (simp add: inv_def)
  from waiting_on_the_way [OF i walk this goal] obtain u cu ts d k' where
    u: "(cu + h u, k', u) \<in> set (se_open st)" "walks mv u ts q' d" "cu + d \<le> 0 + c"
    unfolding waiting_def by blast
  have "f \<le> cu + h u" using least_entry_le [of "(cu + h u, k', u)" e es] u(1) opn top by simp
  moreover have "h u \<le> d" "0 \<le> h q" using adm u(2) goal unfolding admissible_def by blast+
  ultimately show ?thesis using cq u(3) by (intro exI [of _ cq]) simp
qed

text \<open>Reading a path back from the table ends, and gives a walk no costlier than the table says.\<close>

lemma path_back_walks:
  assumes ok: "table_ok start r"
  shows "rc_cost r p = Some c \<Longrightarrow>
    \<exists>ss c'. path_back (rc_came r) p acc = Some (ss @ acc) \<and> walks mv start ss p c' \<and> c' \<le> c"
proof (induction "nat c" arbitrary: p c acc rule: less_induct)
  case less
  show ?case
  proof (cases "rc_came r p")
    case None
    then have "p = start" using table_okD(7) [OF ok less.prems] by blast
    moreover from this have "c = 0" using table_okD(2) [OF ok] less.prems by simp
    ultimately show ?thesis using None walks_nil by (intro exI [of _ "[]"] exI [of _ 0]) (simp add: path_back.simps)
  next
    case (Some qs)
    obtain q s where qs: "qs = (q, s)" by (cases qs)
    from table_okD(8) [OF ok] Some qs obtain w cq cp where
      *: "sp_to s = p" "(s, w) \<in> set (mv q)" "0 < w" "rc_cost r q = Some cq" "rc_cost r p = Some cp" "cq + w \<le> cp"
      by blast
    have "nat cq < nat c" using * less.prems table_okD(5) [OF ok *(4)] by simp
    from less.hyps [OF this *(4)] obtain ss c' where
      "path_back (rc_came r) q (s # acc) = Some (ss @ s # acc)" "walks mv start ss q c'" "c' \<le> cq" by blast
    moreover have "walks mv start (ss @ [s]) p (c' + w)"
      using walks_snoc [OF \<open>walks mv start ss q c'\<close> *(2)] *(1) by simp
    ultimately show ?thesis
      using Some qs * less.prems
      by (intro exI [of _ "ss @ [s]"] exI [of _ "c' + w"]) (simp add: path_back.simps [of _ p])
  qed
qed

lemma reach_path_walks:
  assumes ok: "table_ok start r" and c: "rc_cost r p = Some c"
  shows "\<exists>ss c'. reach_path r p = Some (Some ss) \<and> walks mv start ss p c' \<and> c' \<le> c"
  using path_back_walks [OF ok c, of "[]"] table_okD(1) [OF ok] table_okD(7) [OF ok c]
  by (auto simp: reach_path_def)

lemma search_loop_cheapest:
  assumes start: "start \<in> V" and adm: "admissible mv goal h"
  obtains r where "search_loop mv goal h (begin_search h start) = Some (r, None)"
      "unreachable mv start goal"
  | r q ss where "search_loop mv goal h (begin_search h start) = Some (r, Some q)"
      "reach_path r q = Some (Some ss)" "cheapest mv start goal ss"
proof -
  obtain r res where run: "search_loop mv goal h (begin_search h start) = Some (r, res)"
    and e: "ended start goal h r res"
    using search_loop_ends [OF begin_inv [OF start]] by blast
  then obtain st where i: "inv start goal h st" "se_reach st = r" by (auto simp: ended_def)
  show ?thesis
  proof (cases res)
    case None
    then obtain st where st: "inv start goal h st" "se_open st = []" using e by (auto simp: ended_def)
    then have "rc_cost (se_reach st) start = Some 0" by (simp add: inv_def table_okD(2))
    then have "unreachable mv start goal"
      unfolding unreachable_def using exhausted_covers [OF st] by blast
    then show ?thesis using run None that(1) by blast
  next
    case (Some q)
    then obtain st x xs where st: "inv start goal h st" "se_reach st = r" "goal q"
      "se_open st = x # xs" "q = snd (snd (least_entry x xs))"
      using e by (auto simp: ended_def)
    have least: "\<exists>cq. rc_cost r q = Some cq \<and> cq \<le> c" if "walks mv start ss' q' c" "goal q'" for ss' q' c
      using goal_on_top_cheapest [OF st(1) adm st(4,5) that] st(2) by simp
    have ok: "table_ok start r" using st(1,2) by (auto simp: inv_def)
    have "least_entry x xs \<in> set (se_open st)" using least_entry_in [of x xs] st(4) by simp
    then obtain cq where cq: "rc_cost r q = Some cq"
      using st(1,2,5) unfolding inv_def heap_ok_def by fastforce
    from reach_path_walks [OF ok cq] obtain ss c' where
      ss: "reach_path r q = Some (Some ss)" "walks mv start ss q c'" "c' \<le> cq" by blast
    have "c' \<le> c" if "walks mv start ss' q' c" "goal q'" for ss' q' c
      using least [OF that] cq ss(3) by simp
    then have "cheapest mv start goal ss" unfolding cheapest_def using ss(2) st(3) by blast
    then show ?thesis using run Some ss(1) that(2) by blast
  qed
qed

lemma search_loop_exact:
  assumes start: "start \<in> V"
  obtains r where "search_loop mv (\<lambda>_. False) h (begin_search h start) = Some (r, None)"
    "\<And>q. rc_cost r q = None \<Longrightarrow> unreachable mv start (\<lambda>p. p = q)"
    "\<And>q c. rc_cost r q = Some c \<Longrightarrow> \<exists>ss. reach_path r q = Some (Some ss) \<and>
      walks mv start ss q c \<and> cheapest mv start (\<lambda>p. p = q) ss"
proof -
  obtain r res where run: "search_loop mv (\<lambda>_. False) h (begin_search h start) = Some (r, res)"
    and e: "ended start (\<lambda>_. False) h r res"
    using search_loop_ends [OF begin_inv [OF start]] by blast
  have none: "res = None" using e by (auto simp: ended_def split: option.splits)
  then obtain st where st: "inv start (\<lambda>_. False) h st" "se_open st = []" "se_reach st = r"
    using e by (auto simp: ended_def)
  have ok: "table_ok start r" using st by (auto simp: inv_def)
  have covers: "\<exists>c'. rc_cost r q = Some c' \<and> c' \<le> c" if "walks mv start ss q c" for ss q c
    using exhausted_covers [OF st(1,2) that] table_okD(2) [OF ok] st(3) by auto
  have exact: "\<exists>ss. reach_path r q = Some (Some ss) \<and> walks mv start ss q c \<and> cheapest mv start (\<lambda>p. p = q) ss"
    if c: "rc_cost r q = Some c" for q c
  proof -
    obtain ss c' where ss: "reach_path r q = Some (Some ss)" "walks mv start ss q c'" "c' \<le> c"
      using reach_path_walks [OF ok c] by blast
    have "c' = c" using covers [OF ss(2)] c ss(3) by auto
    moreover have "c \<le> d" if "walks mv start ts q d" for ts d using covers [OF that] c by auto
    ultimately show ?thesis using ss unfolding cheapest_def by blast
  qed
  show ?thesis
    by (rule that [OF run [unfolded none] _ exact]) (use covers in \<open>force simp: unreachable_def\<close>)
qed

end

section \<open>The moves of a map satisfy the contract\<close>

lemma plain_step_tile: "plain_step m p d walk = Some s \<Longrightarrow> tile_at m (sp_to s) \<noteq> None"
  by (auto simp: plain_step_def Let_def split: option.splits if_splits)

lemma slide_tile: "tile_at m p \<noteq> None \<Longrightarrow> tile_at m (slide n m walk p spin) \<noteq> None"
proof (induction n arbitrary: p spin)
  case (Suc n)
  show ?case
  proof (cases "plain_step m p spin walk")
    case (Some s)
    then have "tile_at m (sp_to s) \<noteq> None" by (rule plain_step_tile)
    then show ?thesis using Suc.IH [of "sp_to s"] Some by (simp add: Let_def del: not_None_eq)
  qed (use Suc.prems in simp)
qed simp

lemma step_with_tile: "step_with m p d walk = Some s \<Longrightarrow> tile_at m (sp_to s) \<noteq> None"
  using slide_tile plain_step_tile
  by (fastforce simp: step_with_def split: option.splits)

lemma in_moves:
  "(s, w) \<in> set (moves m walk extra p) \<Longrightarrow>
    (\<exists>d. step_with m p d walk = Some s) \<and> w = step_cost m extra p (sp_to s)"
  by (auto simp: moves_def List.map_filter_def)

lemma finite_tiles: "finite {p. tile_at m p \<noteq> None}"
proof (rule finite_subset)
  show "{p. tile_at m p \<noteq> None} \<subseteq> {0..md_width m} \<times> {0..md_height m}"
    by (auto simp: tile_at_def in_bounds_def split: if_splits)
qed simp

lemma step_cost_distance:
  "0 \<le> extra q \<Longrightarrow> manhattan q p \<le> step_cost m extra p q"
  unfolding manhattan_def step_cost_def GRASS_PENALTY_def
  by (cases "tile_at m q") (auto simp: abs_minus_commute)

interpretation tiles: weighted_moves "moves m walk (\<lambda>p. max 0 (extra p))"
    "insert start {p. tile_at m p \<noteq> None}" for m walk extra start
proof
  fix p s w
  assume "(s, w) \<in> set (moves m walk (\<lambda>p. max 0 (extra p)) p)"
  then have s: "\<exists>d. step_with m p d walk = Some s"
    and "w = step_cost m (\<lambda>p. max 0 (extra p)) p (sp_to s)" using in_moves by blast+
  then have w: "manhattan (sp_to s) p \<le> w" using step_cost_distance [of "\<lambda>p. max 0 (extra p)"] by simp
  then show "0 \<le> w" unfolding manhattan_def by linarith
  show "0 < w" if "sp_to s \<noteq> p"
    using w that unfolding manhattan_def by (auto simp: prod_eq_iff)
  show "sp_to s \<in> insert start {p. tile_at m p \<noteq> None}" using s step_with_tile by blast
qed (simp add: finite_tiles del: not_None_eq)

lemma walks_no_shorter:
  "walks (moves m walk (\<lambda>_. 0)) p ss q c \<Longrightarrow> manhattan q p \<le> c"
proof (induction rule: walks.induct)
  case (walks_step s w p ss q c)
  have "manhattan (sp_to s) p \<le> w"
    using in_moves [OF walks_step.hyps(1)] step_cost_distance [of "\<lambda>_. 0"] by simp
  then show ?case using walks_step.IH unfolding manhattan_def by linarith
qed (simp add: manhattan_def)

lemma manhattan_admissible:
  "admissible (moves m walk (\<lambda>_. 0)) (\<lambda>p. p = target) (manhattan target)"
  using walks_no_shorter by (auto simp: admissible_def manhattan_def)

lemma max_0_nonneg: "\<forall>p. 0 \<le> extra p \<Longrightarrow> (\<lambda>p. max 0 (extra p)) = (extra :: pos \<Rightarrow> int)"
  by (simp add: max_def)

lemma find_path_with_cheapest:
  assumes "\<forall>p. 0 \<le> extra p" "admissible (moves m walk extra) goal h"
  shows "\<exists>res. find_path_with m start walk extra goal h = Some res \<and>
    (case res of
       None \<Rightarrow> unreachable (moves m walk extra) start goal
     | Some ss \<Rightarrow> cheapest (moves m walk extra) start goal ss)"
proof -
  have adm: "admissible (moves m walk (\<lambda>p. max 0 (extra p))) goal h"
    using assms by (simp add: max_0_nonneg)
  show ?thesis
    by (rule tiles.search_loop_cheapest [OF insertI1 adm, of start])
      (simp_all add: find_path_with_def search_def max_0_nonneg [OF assms(1)])
qed

section \<open>Correctness\<close>

text \<open>C6: @path_to@ always returns. If it finds a path, the path is a legal walk to the target
  and no legal walk to it is cheaper (the Manhattan estimate never exceeds the true cost, although
  ledges jump two tiles and spin tiles slide many); if it finds none, no legal walk reaches the
  target.\<close>

theorem path_to_cheapest:
  "\<exists>res. path_to m start target obstacles = Some res \<and>
    (case res of
       None \<Rightarrow> unreachable (moves m (on_foot obstacles) (\<lambda>_. 0)) start (\<lambda>p. p = target)
     | Some ss \<Rightarrow> cheapest (moves m (on_foot obstacles) (\<lambda>_. 0)) start (\<lambda>p. p = target) ss)"
  unfolding path_to_def find_path_def
  by (rule find_path_with_cheapest) (simp_all add: manhattan_admissible)

lemma reach_from_exact:
  assumes "\<forall>p. 0 \<le> extra p"
  shows "\<exists>r. reach_from m start walk extra = Some r \<and>
    (\<forall>q. case reach_cost r q of
       None \<Rightarrow> unreachable (moves m walk extra) start (\<lambda>p. p = q)
     | Some c \<Rightarrow> \<exists>ss. reach_path r q = Some (Some ss) \<and> walks (moves m walk extra) start ss q c \<and>
         cheapest (moves m walk extra) start (\<lambda>p. p = q) ss)"
proof -
  obtain r where r: "search_loop (moves m walk extra) (\<lambda>_. False) (\<lambda>_. 0) (begin_search (\<lambda>_. 0) start)
      = Some (r, None)"
    "\<And>q. rc_cost r q = None \<Longrightarrow> unreachable (moves m walk extra) start (\<lambda>p. p = q)"
    "\<And>q c. rc_cost r q = Some c \<Longrightarrow> \<exists>ss. reach_path r q = Some (Some ss) \<and>
      walks (moves m walk extra) start ss q c \<and> cheapest (moves m walk extra) start (\<lambda>p. p = q) ss"
    using tiles.search_loop_exact [OF insertI1, where m = m and walk = walk and extra = extra
      and start = start and h = "\<lambda>_. 0"]
    unfolding max_0_nonneg [OF assms] by blast
  then show ?thesis
    by (auto simp: reach_from_def search_def reach_cost_def split: option.split)
qed

text \<open>C17: @reach_from@ with extra costs that are not negative always returns, and its table is
  exact: a tile has a cost exactly when a legal walk reaches it, the cost is that of a cheapest
  walk, and @path@ returns such a walk.\<close>

theorem reach_exact:
  assumes "\<forall>p. 0 \<le> extra p"
  shows "\<exists>r. reach_from m start walk extra = Some r \<and>
    (\<forall>q. case reach_cost r q of
       None \<Rightarrow> unreachable (moves m walk extra) start (\<lambda>p. p = q)
     | Some c \<Rightarrow> \<exists>ss. reach_path r q = Some (Some ss) \<and> walks (moves m walk extra) start ss q c \<and>
         cheapest (moves m walk extra) start (\<lambda>p. p = q) ss)"
  by (rule reach_from_exact [OF assms])

text \<open>Whatever the goal and the estimate, even one that misleads, the search over a map ends,
  as long as no extra cost is negative.\<close>

lemma search_ends:
  assumes "\<forall>p. 0 \<le> extra p"
  shows "\<exists>r res. search m start walk extra goal heuristic = Some (r, res)"
  using tiles.search_loop_ends [OF tiles.begin_inv [OF insertI1], where m = m and walk = walk and extra = extra
      and start = start and goal = goal and h = heuristic]
  unfolding max_0_nonneg [OF assms] search_def by blast

text \<open>A map of one row, the middle tile of which is tall grass.\<close>

definition row_map :: map_data where
  "row_map = \<lparr>md_id = ''ROW'', md_name = ''Row'', md_width = 3, md_height = 1, md_map_type = None, md_requires_flash = False,
     md_weather = None, md_allow_escaping = False,
     md_tiles = map (\<lambda>b. \<lparr>tl_collision = 0, tl_elevation = 3, tl_behavior = b, tl_encounter = 0\<rparr>) [0, TALL_GRASS, 0],
     md_warps = [], md_connections = [], md_objects = [], md_signs = []\<rparr>"

lemma row_walk:
  "walks (moves row_map (on_foot {}) (\<lambda>_. 0)) (0, 0)
    [\<lparr>sp_dir = Right, sp_to = (1, 0)\<rparr>, \<lparr>sp_dir = Right, sp_to = (2, 0)\<rparr>] (2, 0) (5 + (1 + 0))"
proof (rule walks_step)
  show "(\<lparr>sp_dir = Right, sp_to = (1, 0)\<rparr>, 5) \<in> set (moves row_map (on_foot {}) (\<lambda>_. 0) (0, 0))"
    by code_simp
  have "(\<lparr>sp_dir = Right, sp_to = (2, 0)\<rparr>, 1) \<in> set (moves row_map (on_foot {}) (\<lambda>_. 0) (1, 0))"
    by code_simp
  then show "walks (moves row_map (on_foot {}) (\<lambda>_. 0)) (sp_to \<lparr>sp_dir = Right, sp_to = (1, 0)\<rparr>)
      [\<lparr>sp_dir = Right, sp_to = (2, 0)\<rparr>] (2, 0) (1 + 0)"
    by (intro walks_step) simp_all
qed

theorem reach_exact_witness:
  "\<exists>r c ss. reach_from row_map (0, 0) (on_foot {}) (\<lambda>_. 0) = Some r \<and> reach_cost r (2, 0) = Some c \<and>
    reach_path r (2, 0) = Some (Some ss)"
proof -
  have "\<forall>p. 0 \<le> (\<lambda>_ :: pos. 0 :: int) p" by simp
  from reach_exact [OF this, of row_map "(0, 0)" "on_foot {}"] obtain r where
    r: "reach_from row_map (0, 0) (on_foot {}) (\<lambda>_. 0) = Some r"
    "\<forall>q. case reach_cost r q of
       None \<Rightarrow> unreachable (moves row_map (on_foot {}) (\<lambda>_. 0)) (0, 0) (\<lambda>p. p = q)
     | Some c \<Rightarrow> \<exists>ss. reach_path r q = Some (Some ss) \<and> walks (moves row_map (on_foot {}) (\<lambda>_. 0)) (0, 0) ss q c \<and>
         cheapest (moves row_map (on_foot {}) (\<lambda>_. 0)) (0, 0) (\<lambda>p. p = q) ss" by blast
  have "\<not> unreachable (moves row_map (on_foot {}) (\<lambda>_. 0)) (0, 0) (\<lambda>p. p = (2, 0))"
    using row_walk unfolding unreachable_def by blast
  then show ?thesis using r(1) r(2) [THEN spec, of "(2, 0)"] by (auto split: option.splits)
qed

end
