(* ===== verification/Exploration.thy ===== *)
theory Exploration
  imports Main
begin

text \<open>
  The contract of a breadth-first exploration with a set of states seen and a queue of states still
  to expand, each queued with the labels that lead to it. A component that searches this way
  interprets the locale on its own successor function; the lemmas say that what is queued was
  reached, that a search which empties its queue has seen everything that can be reached, and that
  it must end.
\<close>

inductive labelled_run :: "('s \<Rightarrow> ('l \<times> 's) list) \<Rightarrow> 's \<Rightarrow> 'l list \<Rightarrow> 's \<Rightarrow> bool"
  for succ and start where
  run_nil: "labelled_run succ start [] start"
| run_snoc: "labelled_run succ start ls t \<Longrightarrow> (l, u) \<in> set (succ t) \<Longrightarrow> labelled_run succ start (ls @ [l]) u"

text \<open>One successor: queued, with its labels, unless it was seen.\<close>

definition visit :: "'l list \<Rightarrow> 'l \<times> 's \<Rightarrow> 's set \<times> ('s \<times> 'l list) list \<Rightarrow> 's set \<times> ('s \<times> 'l list) list" where
  "visit ls = (\<lambda>(l, u) (seen, queue).
    if u \<in> seen then (seen, queue) else (insert u seen, queue @ [(u, ls @ [l])]))"

lemma visit_Pair:
  "visit ls (l, u) (seen, queue) =
    (if u \<in> seen then (seen, queue) else (insert u seen, queue @ [(u, ls @ [l])]))"
  by (simp add: visit_def)

lemma fold_visit_seen: "fst (fold (visit ls) ms (seen, queue)) = seen \<union> snd ` set ms"
proof (induction ms arbitrary: seen queue)
  case (Cons m ms)
  then show ?case by (cases m) (auto simp: visit_Pair)
qed simp

locale exploration =
  fixes succ :: "'s \<Rightarrow> ('l \<times> 's) list" and universe :: "'s set" and start :: 's
  assumes finite_universe: "finite universe"
    and start_in: "start \<in> universe"
    and succ_in: "s \<in> universe \<Longrightarrow> (l, u) \<in> set (succ s) \<Longrightarrow> u \<in> universe"
begin

text \<open>Every queued state was reached by its labels; every state seen is queued or was expanded.\<close>

definition explored :: "('s \<Rightarrow> bool) \<Rightarrow> 's set \<Rightarrow> ('s \<times> 'l list) list \<Rightarrow> bool" where
  "explored goal seen queue \<longleftrightarrow> seen \<subseteq> universe \<and> start \<in> seen \<and>
    (\<forall>(s, ls) \<in> set queue. s \<in> seen \<and> labelled_run succ start ls s) \<and>
    (\<forall>s\<in>seen. s \<in> fst ` set queue \<or> \<not> goal s \<and> snd ` set (succ s) \<subseteq> seen)"

lemma explored_begin: "explored goal {start} [(start, [])]"
  by (simp add: explored_def start_in run_nil)

lemma fold_visit_queue:
  "s \<in> seen \<Longrightarrow> labelled_run succ start ls s \<Longrightarrow> set ms \<subseteq> set (succ s) \<Longrightarrow>
    \<exists>more. snd (fold (visit ls) ms (seen, queue)) = queue @ more \<and>
      (\<forall>(u, ks) \<in> set more. u \<in> snd ` set ms \<and> labelled_run succ start ks u) \<and>
      snd ` set ms - seen \<subseteq> fst ` set more \<and>
      (more = [] \<longrightarrow> fst (fold (visit ls) ms (seen, queue)) = seen) \<and>
      (more \<noteq> [] \<longrightarrow> seen \<subset> fst (fold (visit ls) ms (seen, queue)))"
proof (induction ms arbitrary: seen queue)
  case (Cons m ms)
  obtain l u where m: "m = (l, u)" by (cases m)
  show ?case
  proof (cases "u \<in> seen")
    case True
    then have v: "visit ls m (seen, queue) = (seen, queue)" by (simp add: visit_Pair m)
    from Cons.IH [of seen queue] Cons.prems obtain more where
      "snd (fold (visit ls) ms (seen, queue)) = queue @ more"
      "\<forall>(u, ks) \<in> set more. u \<in> snd ` set ms \<and> labelled_run succ start ks u"
      "snd ` set ms - seen \<subseteq> fst ` set more"
      "more = [] \<longrightarrow> fst (fold (visit ls) ms (seen, queue)) = seen"
      "more \<noteq> [] \<longrightarrow> seen \<subset> fst (fold (visit ls) ms (seen, queue))" by auto
    then show ?thesis using True unfolding fold_simps v by (intro exI [of _ more]) (auto simp: m)
  next
    case False
    let ?seen = "insert u seen" and ?queue = "queue @ [(u, ls @ [l])]"
    have v: "visit ls m (seen, queue) = (?seen, ?queue)" using False by (simp add: visit_Pair m)
    from Cons.IH [of ?seen ?queue] Cons.prems obtain more where more:
      "snd (fold (visit ls) ms (?seen, ?queue)) = ?queue @ more"
      "\<forall>(u, ks) \<in> set more. u \<in> snd ` set ms \<and> labelled_run succ start ks u"
      "snd ` set ms - ?seen \<subseteq> fst ` set more" by auto
    have new: "labelled_run succ start (ls @ [l]) u"
      using run_snoc [OF Cons.prems(2)] Cons.prems(3) m by simp
    have "seen \<subset> fst (fold (visit ls) ms (?seen, ?queue))"
      using False by (auto simp: fold_visit_seen)
    then show ?thesis
      unfolding fold_simps v using more new by (intro exI [of _ "(u, ls @ [l]) # more"]) (auto simp: m)
  qed
qed simp

lemma explored_expand:
  assumes e: "explored goal seen ((s, ls) # rest)" and ng: "\<not> goal s"
    and step: "fold (visit ls) (succ s) (seen, rest) = (seen', queue')"
  shows "explored goal seen' queue'"
    and "seen' = seen \<and> queue' = rest \<or> seen \<subset> seen'"
proof -
  have s: "s \<in> seen" "labelled_run succ start ls s" "s \<in> universe"
    using e by (auto simp: explored_def)
  obtain more where more: "queue' = rest @ more"
    "\<forall>(u, ks) \<in> set more. u \<in> snd ` set (succ s) \<and> labelled_run succ start ks u"
    "snd ` set (succ s) - seen \<subseteq> fst ` set more"
    "more = [] \<longrightarrow> seen' = seen" "more \<noteq> [] \<longrightarrow> seen \<subset> seen'"
    using fold_visit_queue [OF s(1,2) subset_refl, of rest] step by auto
  have seen': "seen' = seen \<union> snd ` set (succ s)"
    using fold_visit_seen [of ls "succ s" seen rest] step by simp
  show "seen' = seen \<and> queue' = rest \<or> seen \<subset> seen'" using more by auto
  show "explored goal seen' queue'"
    unfolding explored_def
  proof (intro conjI)
    show "seen' \<subseteq> universe" using e s(3) succ_in by (auto simp: explored_def seen')
    show "start \<in> seen'" using e by (simp add: explored_def seen')
    show "\<forall>(t, ks) \<in> set queue'. t \<in> seen' \<and> labelled_run succ start ks t"
      using e more(2) by (auto simp: explored_def seen' more(1))
    show "\<forall>t\<in>seen'. t \<in> fst ` set queue' \<or> \<not> goal t \<and> snd ` set (succ t) \<subseteq> seen'"
    proof
      fix t
      assume "t \<in> seen'"
      then consider "t \<in> seen" "t \<in> fst ` set ((s, ls) # rest)"
        | "t \<in> seen" "\<not> goal t" "snd ` set (succ t) \<subseteq> seen" | "t \<notin> seen" "t \<in> snd ` set (succ s)"
        using e unfolding explored_def seen' by blast
      then show "t \<in> fst ` set queue' \<or> \<not> goal t \<and> snd ` set (succ t) \<subseteq> seen'"
        by cases (use ng more(3) in \<open>auto simp: seen' more(1)\<close>)
    qed
  qed
qed

lemma explored_reaches:
  "explored goal seen ((s, ls) # rest) \<Longrightarrow> labelled_run succ start ls s"
  by (simp add: explored_def)

lemma explored_complete:
  assumes "explored goal seen []"
  shows "labelled_run succ start ls t \<Longrightarrow> t \<in> seen \<and> \<not> goal t"
proof (induction rule: labelled_run.induct)
  case run_nil
  then show ?case using assms by (auto simp: explored_def)
next
  case (run_snoc ls t l u)
  then have "u \<in> seen" using assms by (force simp: explored_def)
  then show ?case using assms by (auto simp: explored_def)
qed

lemma explored_bounded: "explored goal seen queue \<Longrightarrow> card seen \<le> card universe"
  by (simp add: explored_def card_mono finite_universe)

definition unexplored :: "'s set \<Rightarrow> nat" where
  "unexplored seen = card universe - card seen"

lemma explored_shrinks:
  assumes "explored goal seen' queue'" "seen \<subset> seen'"
  shows "unexplored seen' < unexplored seen"
proof -
  have "seen' \<subseteq> universe" using assms(1) by (simp add: explored_def)
  then have "card seen' \<le> card universe" "card seen < card seen'"
    using finite_universe assms(2) by (auto intro: card_mono psubset_card_mono finite_subset)
  then show ?thesis unfolding unexplored_def by linarith
qed

end

end
