(* ===== verification/Boulders.thy ===== *)
theory Boulders
  imports Walk_Path Exploration
begin

text \<open>
  Strength boulders (crates/world/src/boulders.rs): which objects are boulders and what their flags
  are, the holes of a map, the search for the pushes that take a boulder onto a tile, and the
  boulders that can land on one. The search expands states of a boulder's and the player's tile with
  a flood of the walking search each; the scripts it adds to the compiled events are not modelled.
\<close>

section \<open>Boulders and holes\<close>

definition GRAPHICS :: string where "GRAPHICS = ''OBJ_EVENT_GFX_PUSHABLE_BOULDER''"
definition FALL_WARP :: nat where "FALL_WARP = 0x66"
definition MAX_STATES :: nat where "MAX_STATES = 200000"

definition is_boulder :: "object_event \<Rightarrow> bool" where
  "is_boulder ob \<longleftrightarrow> ob_graphics ob = Some GRAPHICS"

definition is_flag :: "string \<Rightarrow> bool" where
  "is_flag f \<longleftrightarrow> take 5 f = ''FLAG_''"

definition keep_if :: "('a \<Rightarrow> bool) \<Rightarrow> 'a option \<Rightarrow> 'a option" where
  "keep_if ok x = (case x of None \<Rightarrow> None | Some a \<Rightarrow> if ok a then Some a else None)"

definition reveal_flag :: "object_event \<Rightarrow> string option" where
  "reveal_flag ob = keep_if is_flag (if is_boulder ob then ob_trainer_type ob else None)"

definition hide_flag :: "object_event \<Rightarrow> string option" where
  "hide_flag ob = keep_if is_flag (ob_flag ob)"

definition holes :: "map_data \<Rightarrow> pos list" where
  "holes m = concat (map (\<lambda>y. filter (\<lambda>p. case tile_at m p of None \<Rightarrow> False | Some t \<Rightarrow> tl_behavior t = FALL_WARP)
      (map (\<lambda>x. (x, y)) (int_range (md_width m)))) (int_range (md_height m)))"

section \<open>The search for pushes\<close>

definition level :: "map_data \<Rightarrow> pos \<Rightarrow> pos \<Rightarrow> bool" where
  "level m p q \<longleftrightarrow> (case (tile_at m p, tile_at m q) of
     (Some a, Some b) \<Rightarrow> walkable_elevation (tl_elevation a) (tl_elevation b)
   | _ \<Rightarrow> False)"

definition floor_at :: "map_data \<Rightarrow> pos set \<Rightarrow> pos set \<Rightarrow> pos \<Rightarrow> bool" where
  "floor_at m blocked others t \<longleftrightarrow>
    (case tile_at m t of
       None \<Rightarrow> False
     | Some tile \<Rightarrow> tl_collision tile = 0 \<and> \<not> is_water (tl_behavior tile) \<and> ledge (tl_behavior tile) = None)
    \<and> t \<notin> blocked \<and> t \<notin> others"

text \<open>The way the player walks while the boulder lies on \<open>b\<close>, and the flood from the player's tile.\<close>

definition around :: "pos set \<Rightarrow> pos set \<Rightarrow> pos \<Rightarrow> walk" where
  "around blocked others b = on_foot (insert b (blocked \<union> others))"

definition behind :: "pos \<Rightarrow> direction \<Rightarrow> pos" where
  "behind b dir = (fst b - fst (delta dir), snd b - snd (delta dir))"

definition push_allowed :: "map_data \<Rightarrow> pos set \<Rightarrow> pos set \<Rightarrow> reach \<Rightarrow> pos \<times> pos \<Rightarrow> direction \<Rightarrow> bool" where
  "push_allowed m blocked others reached = (\<lambda>(b, p) dir.
    \<not> (behind b dir \<noteq> p \<and> reach_cost reached (behind b dir) = None) \<and>
    floor_at m blocked others (shift b dir) \<and> level m (behind b dir) b \<and> level m b (shift b dir))"

text \<open>The pushes from a state: the boulder moves on, the player ends where the boulder was.\<close>

definition allowed_pushes :: "map_data \<Rightarrow> pos set \<Rightarrow> pos set \<Rightarrow> reach \<Rightarrow> pos \<times> pos \<Rightarrow> (direction \<times> pos \<times> pos) list" where
  "allowed_pushes m blocked others reached = (\<lambda>(b, p).
    map (\<lambda>dir. (dir, shift b dir, b)) (filter (push_allowed m blocked others reached (b, p)) all_directions))"

type_synonym push_state = "(pos \<times> pos) \<times> direction list"

partial_function (option) push_search :: "map_data \<Rightarrow> pos set \<Rightarrow> pos set \<Rightarrow> pos list
    \<Rightarrow> (pos \<times> pos) set \<Rightarrow> push_state list \<Rightarrow> direction list option option" where
  "push_search m blocked others targets seen queue =
    (case queue of
       [] \<Rightarrow> Some None
     | ((b, p), did) # rest \<Rightarrow>
         if b \<in> set targets then Some (Some did)
         else if card seen > MAX_STATES then Some None
         else (case reach_from m p (around blocked others b) (\<lambda>_. 0) of
            None \<Rightarrow> None
          | Some reached \<Rightarrow>
              let next_states = fold (visit did) (allowed_pushes m blocked others reached (b, p)) (seen, rest) in
              push_search m blocked others targets (fst next_states) (snd next_states)))"

text \<open>The boulders are tried in order; the outer option is whether the searches end.\<close>

fun push_each :: "map_data \<Rightarrow> pos list \<Rightarrow> pos set \<Rightarrow> pos \<Rightarrow> pos list \<Rightarrow> pos list
    \<Rightarrow> (pos \<times> direction list) option option" where
  "push_each m boulders blocked player targets [] = Some None"
| "push_each m boulders blocked player targets (start # rest) =
    (case push_search m blocked (set (filter (\<lambda>b. b \<noteq> start) boulders)) targets
        {(start, player)} [((start, player), [])] of
       None \<Rightarrow> None
     | Some (Some did) \<Rightarrow> Some (Some (start, did))
     | Some None \<Rightarrow> push_each m boulders blocked player targets rest)"

definition pushes :: "map_data \<Rightarrow> pos list \<Rightarrow> pos set \<Rightarrow> pos \<Rightarrow> pos list
    \<Rightarrow> (pos \<times> direction list) option option" where
  "pushes m boulders blocked player targets = push_each m boulders blocked player targets boulders"

section \<open>What can land on a tile\<close>

definition spawn_of :: "object_event \<Rightarrow> pos option" where
  "spawn_of ob = (case (ob_x ob, ob_y ob) of (Some x, Some y) \<Rightarrow> Some (x, y) | _ \<Rightarrow> None)"

text \<open>Whether a boulder can be pushed onto the target by a player beside it.\<close>

definition solves :: "map_data \<Rightarrow> object_event list \<Rightarrow> pos \<Rightarrow> object_event \<Rightarrow> bool" where
  "solves m all target ob =
    (case spawn_of ob of
       None \<Rightarrow> False
     | Some at' \<Rightarrow>
         let blocked = set (List.map_filter spawn_of (filter (\<lambda>b. ob_local_id b \<noteq> ob_local_id ob) all)) in
         list_ex (\<lambda>d.
           let beside = shift at' d in
           (case tile_at m beside of
              None \<Rightarrow> False | Some t \<Rightarrow> tl_collision t = 0 \<and> \<not> is_water (tl_behavior t)) \<and>
           (case pushes m [at'] blocked beside [target] of Some (Some _) \<Rightarrow> True | _ \<Rightarrow> False)) all_directions)"

definition solvers :: "map_data \<Rightarrow> pos \<Rightarrow> object_event list" where
  "solvers m target =
    (let all = filter is_boulder (md_objects m) in filter (solves m all target) all)"

declare split_paired_All [simp del] split_paired_Ex [simp del]

section \<open>What a push is\<close>

text \<open>The contract of a push, without the flood: the player can walk to the tile behind the boulder
  round everything that blocks, the boulder's next tile is free floor, and both steps keep to one
  elevation.\<close>

definition can_push :: "map_data \<Rightarrow> pos set \<Rightarrow> pos set \<Rightarrow> pos \<times> pos \<Rightarrow> direction \<Rightarrow> bool" where
  "can_push m blocked others = (\<lambda>(b, p) dir.
    (\<exists>ss c. walks (moves m (around blocked others b) (\<lambda>_. 0)) p ss (behind b dir) c) \<and>
    floor_at m blocked others (shift b dir) \<and> level m (behind b dir) b \<and> level m b (shift b dir))"

definition pushes_of :: "map_data \<Rightarrow> pos set \<Rightarrow> pos set \<Rightarrow> pos \<times> pos \<Rightarrow> (direction \<times> pos \<times> pos) list" where
  "pushes_of m blocked others = (\<lambda>(b, p).
    map (\<lambda>dir. (dir, shift b dir, b)) (filter (can_push m blocked others (b, p)) all_directions))"

lemma flood_allows_pushes:
  obtains reached where "reach_from m p (around blocked others b) (\<lambda>_. 0) = Some reached"
    "allowed_pushes m blocked others reached (b, p) = pushes_of m blocked others (b, p)"
proof -
  let ?mv = "moves m (around blocked others b) (\<lambda>_. 0)"
  obtain reached where r: "reach_from m p (around blocked others b) (\<lambda>_. 0) = Some reached"
    and e: "\<forall>q. case reach_cost reached q of
       None \<Rightarrow> unreachable ?mv p (\<lambda>x. x = q)
     | Some c \<Rightarrow> \<exists>ss. reach_path reached q = Some (Some ss) \<and> walks ?mv p ss q c \<and> cheapest ?mv p (\<lambda>x. x = q) ss"
    using reach_from_exact [of "\<lambda>_. 0"] by fastforce
  have reaches: "reach_cost reached q = None \<longleftrightarrow> \<not> (\<exists>ss c. walks ?mv p ss q c)" for q
    using e [THEN spec, of q] by (auto simp: unreachable_def split: option.splits)
  have "\<exists>ss c. walks ?mv p ss p c" using walks_nil by blast
  then have "push_allowed m blocked others reached (b, p) = can_push m blocked others (b, p)"
    unfolding push_allowed_def can_push_def prod.case reaches by blast
  then show ?thesis using that [OF r] by (simp add: allowed_pushes_def pushes_of_def)
qed

definition push_universe :: "map_data \<Rightarrow> pos \<times> pos \<Rightarrow> (pos \<times> pos) set" where
  "push_universe m s = insert s ((\<lambda>(b, d). (shift b d, b)) ` ({p. tile_at m p \<noteq> None} \<times> set all_directions))"

lemma level_tiles: "level m p q \<Longrightarrow> tile_at m p \<noteq> None \<and> tile_at m q \<noteq> None"
  by (auto simp: level_def split: option.splits)

lemma in_pushes_of:
  "(dir, s') \<in> set (pushes_of m blocked others (b, p)) \<longleftrightarrow>
    s' = (shift b dir, b) \<and> can_push m blocked others (b, p) dir"
  by (auto simp: pushes_of_def set_all_directions)

interpretation boulder: exploration "pushes_of m blocked others" "push_universe m s" s
  for m blocked others s
proof
  show "finite (push_universe m s)"
    by (simp add: push_universe_def finite_tiles del: not_None_eq set_all_directions)
  show "s \<in> push_universe m s" by (simp add: push_universe_def)
  fix t dir u
  assume "(dir, u) \<in> set (pushes_of m blocked others t)"
  then have "u = (shift (fst t) dir, fst t)" "level m (fst t) (shift (fst t) dir)"
    using in_pushes_of [of dir u m blocked others "fst t" "snd t"] by (auto simp: can_push_def)
  then have "u = (\<lambda>(b, d). (shift b d, b)) (fst t, dir)" "tile_at m (fst t) \<noteq> None"
    using level_tiles [of m "fst t" "shift (fst t) dir"] by simp_all
  then show "u \<in> push_universe m s" unfolding push_universe_def
    by (intro insertI2 image_eqI [of _ _ "(fst t, dir)"]) (simp_all del: not_None_eq)
qed

lemma card_tiles: "card {p. tile_at m p \<noteq> None} \<le> nat (md_width m) * nat (md_height m)"
proof -
  have "{p. tile_at m p \<noteq> None} \<subseteq> {0..<md_width m} \<times> {0..<md_height m}"
    by (auto simp: tile_at_def in_bounds_def split: if_splits)
  from card_mono [OF _ this] show ?thesis by (simp add: card_cartesian_product del: not_None_eq)
qed

lemma card_push_universe: "card (push_universe m s) \<le> 1 + 4 * (nat (md_width m) * nat (md_height m))"
proof -
  let ?A = "{p. tile_at m p \<noteq> None} \<times> set all_directions"
  have four: "card (set all_directions) \<le> 4"
    using card_length [of all_directions] by (simp add: all_directions_def)
  have "card ((\<lambda>(b, d). (shift b d, b)) ` ?A) \<le> card ?A"
    by (rule card_image_le) (simp add: finite_tiles del: not_None_eq set_all_directions)
  also have "\<dots> = card {p. tile_at m p \<noteq> None} * card (set all_directions)" by (rule card_cartesian_product)
  also have "\<dots> \<le> (nat (md_width m) * nat (md_height m)) * 4" by (rule mult_le_mono [OF card_tiles four])
  finally show ?thesis unfolding push_universe_def by (intro card_insert_le_m1) simp_all
qed

section \<open>The search is exact\<close>

lemma push_search_ends:
  assumes "\<And>b' p'. goal (b', p') = (b' \<in> set targets)"
  shows "boulder.explored m blocked others s goal seen queue \<Longrightarrow>
    \<exists>res. push_search m blocked others targets seen queue = Some res \<and>
      (case res of
         None \<Rightarrow> card (push_universe m s) \<le> MAX_STATES \<longrightarrow>
           (\<forall>did b p. labelled_run (pushes_of m blocked others) s did (b, p) \<longrightarrow> b \<notin> set targets)
       | Some did \<Rightarrow> \<exists>b p. labelled_run (pushes_of m blocked others) s did (b, p) \<and> b \<in> set targets)"
proof (induction "(boulder.unexplored m s seen, length queue)" arbitrary: seen queue
    rule: wf_induct_rule [OF wf_lex_prod [OF wf_less_than wf_less_than]])
  case (1 seen queue)
  show ?case
  proof (cases queue)
    case Nil
    then have "push_search m blocked others targets seen queue = Some None" by (simp add: push_search.simps)
    moreover have "b \<notin> set targets" if "labelled_run (pushes_of m blocked others) s did (b, p)" for did b p
      using boulder.explored_complete [OF _ that] 1(2) Nil assms by blast
    ultimately show ?thesis by auto
  next
    case (Cons e rest)
    obtain b p did where e: "e = ((b, p), did)" by (cases e) auto
    have here: "boulder.explored m blocked others s goal seen (((b, p), did) # rest)" using 1(2) Cons e by simp
    show ?thesis
    proof (cases "b \<in> set targets")
      case True
      then have "push_search m blocked others targets seen queue = Some (Some did)"
        using Cons e by (simp add: push_search.simps)
      then show ?thesis using boulder.explored_reaches [OF here] True by auto
    next
      case False
      then have ng: "\<not> goal (b, p)" using assms by simp
      show ?thesis
      proof (cases "card seen > MAX_STATES")
        case True
        then have "push_search m blocked others targets seen queue = Some None"
          using Cons e False by (simp add: push_search.simps)
        then show ?thesis using boulder.explored_bounded [OF here] True by simp
      next
        case small: False
        obtain reached where r: "reach_from m p (around blocked others b) (\<lambda>_. 0) = Some reached"
          "allowed_pushes m blocked others reached (b, p) = pushes_of m blocked others (b, p)"
          by (rule flood_allows_pushes)
        obtain seen' queue' where next_states:
          "fold (visit did) (pushes_of m blocked others (b, p)) (seen, rest) = (seen', queue')" by fastforce
        note expand = boulder.explored_expand [OF here ng next_states]
        have "((boulder.unexplored m s seen', length queue'), (boulder.unexplored m s seen, length queue))
            \<in> less_than <*lex*> less_than"
          using expand(2) boulder.explored_shrinks [OF expand(1)] Cons by auto
        moreover have "push_search m blocked others targets seen queue
            = push_search m blocked others targets seen' queue'"
          using False small r next_states by (subst push_search.simps) (simp add: Cons e)
        ultimately show ?thesis using 1(1) [OF _ expand(1)] by simp
      qed
    qed
  qed
qed

text \<open>Some sequence of pushes takes the boulder at \<open>b0\<close> onto a target.\<close>

definition movable :: "map_data \<Rightarrow> pos list \<Rightarrow> pos set \<Rightarrow> pos \<Rightarrow> pos list \<Rightarrow> pos \<Rightarrow> direction list \<Rightarrow> bool" where
  "movable m boulders blocked player targets b0 did \<longleftrightarrow> (\<exists>b p.
    labelled_run (pushes_of m blocked (set boulders - {b0})) (b0, player) did (b, p) \<and> b \<in> set targets)"

lemma push_each_ends:
  "\<exists>res. push_each m boulders blocked player targets bs = Some res \<and>
    (case res of
       None \<Rightarrow> 1 + 4 * (nat (md_width m) * nat (md_height m)) \<le> MAX_STATES \<longrightarrow>
         (\<forall>b0\<in>set bs. \<forall>did. \<not> movable m boulders blocked player targets b0 did)
     | Some (b0, did) \<Rightarrow> b0 \<in> set bs \<and> movable m boulders blocked player targets b0 did)"
proof (induction bs)
  case (Cons b0 bs)
  have others: "set (filter (\<lambda>b. b \<noteq> b0) boulders) = set boulders - {b0}" by auto
  obtain res where r: "push_search m blocked (set boulders - {b0}) targets {(b0, player)} [((b0, player), [])]
      = Some res"
    "case res of
       None \<Rightarrow> card (push_universe m (b0, player)) \<le> MAX_STATES \<longrightarrow>
         (\<forall>did. \<not> movable m boulders blocked player targets b0 did)
     | Some did \<Rightarrow> movable m boulders blocked player targets b0 did"
    using push_search_ends [OF _ boulder.explored_begin, of "\<lambda>s. fst s \<in> set targets" targets m
        blocked "set boulders - {b0}" "(b0, player)"]
    unfolding movable_def by (auto split: option.splits)
  show ?case
  proof (cases res)
    case None
    obtain res' where r': "push_each m boulders blocked player targets bs = Some res'"
      "case res' of
       None \<Rightarrow> 1 + 4 * (nat (md_width m) * nat (md_height m)) \<le> MAX_STATES \<longrightarrow>
         (\<forall>b0\<in>set bs. \<forall>did. \<not> movable m boulders blocked player targets b0 did)
       | Some (b0, did) \<Rightarrow> b0 \<in> set bs \<and> movable m boulders blocked player targets b0 did"
      using Cons.IH by blast
    have "push_each m boulders blocked player targets (b0 # bs) = Some res'"
      using r(1) None r'(1) by (simp add: others [simplified])
    moreover have "1 + 4 * (nat (md_width m) * nat (md_height m)) \<le> MAX_STATES \<Longrightarrow>
        \<not> movable m boulders blocked player targets b0 did" for did
      using r(2) None order_trans [OF card_push_universe] by auto
    ultimately show ?thesis using r'(2) by (auto split: option.splits)
  next
    case (Some did)
    then have "push_each m boulders blocked player targets (b0 # bs) = Some (Some (b0, did))"
      using r(1) by (simp add: others [simplified])
    then show ?thesis using r(2) Some by simp
  qed
qed simp

text \<open>C14: \<open>pushes\<close> always returns. What it returns are legal pushes of one of the boulders, each
  from a tile the player can walk to, that take it onto a target; and when it returns nothing, on a
  map small enough for the limit on states (about fifty thousand tiles), no legal pushes take any of
  the boulders onto a target.\<close>

theorem pushes_exact:
  assumes "1 + 4 * (nat (md_width m) * nat (md_height m)) \<le> MAX_STATES"
  shows "\<exists>res. pushes m boulders blocked player targets = Some res \<and>
    (case res of
       None \<Rightarrow> \<not> (\<exists>b0 did. b0 \<in> set boulders \<and> movable m boulders blocked player targets b0 did)
     | Some (b0, did) \<Rightarrow> b0 \<in> set boulders \<and> movable m boulders blocked player targets b0 did)"
  using push_each_ends [of m boulders blocked player targets boulders] assms
  by (auto simp: pushes_def split: option.splits)

lemma row_movable: "movable row_map [(1, 0)] {} (0, 0) [(2, 0)] (1, 0) [Right]"
proof -
  have "can_push row_map {} {} ((1, 0), (0, 0)) Right"
    unfolding can_push_def prod.case
  proof (intro conjI)
    have "walks (moves row_map (around {} {} (1, 0)) (\<lambda>_. 0)) (0, 0) [] (behind (1, 0) Right) 0"
      by (simp add: behind_def)
    then show "\<exists>ss c. walks (moves row_map (around {} {} (1, 0)) (\<lambda>_. 0)) (0, 0) ss (behind (1, 0) Right) c"
      by blast
  qed code_simp+
  then have "(Right, (2, 0), (1, 0)) \<in> set (pushes_of row_map {} {} ((1, 0), (0, 0)))"
    by (simp add: in_pushes_of shift_def)
  from run_snoc [where succ = "pushes_of row_map {} {}", OF run_nil this]
  have "labelled_run (pushes_of row_map {} (set [(1, 0)] - {(1, 0)})) ((1, 0), (0, 0)) [Right] ((2, 0), (1, 0))"
    by simp
  then show ?thesis unfolding movable_def by (intro exI conjI) simp_all
qed

theorem pushes_exact_witness:
  "\<exists>did. pushes row_map [(1, 0)] {} (0, 0) [(2, 0)] = Some (Some ((1, 0), did)) \<and>
    movable row_map [(1, 0)] {} (0, 0) [(2, 0)] (1, 0) did"
proof -
  have "1 + 4 * (nat (md_width row_map) * nat (md_height row_map)) \<le> MAX_STATES"
    by (simp add: row_map_def MAX_STATES_def)
  from pushes_exact [OF this, of "[(1, 0)]" "{}" "(0, 0)" "[(2, 0)]"] show ?thesis
    using row_movable by (auto split: option.splits)
qed

end
