(* ===== verification/Effort.thy ===== *)
theory Effort
  imports Training
begin

text \<open>
  A Pokemon's effort values as the bot counts them (crates/state/src/training.rs): the counted
  values with what may have gone unseen, the range at the last computation of the stats, the stat
  readings kept with it, and the experience that tells when awards were missed. The game itself is
  the counterpart the counting is judged against: a Pokemon with its true values, the level and the
  values its stats were computed from. Arrays of six are lists; \<open>u16\<close> and \<open>u32\<close> sums are natural
  numbers with the wrap-around written out.
\<close>

section \<open>The records\<close>

definition MAX_YIELD :: nat where "MAX_YIELD = 3"
definition SAMPLES_KEPT :: nat where "SAMPLES_KEPT = 256"
definition DEFEATS_KEPT :: nat where "DEFEATS_KEPT = 64"

record ev_range =
  er_low :: "nat list"
  er_high :: "nat list"

record defeat =
  df_frame :: nat
  df_species :: "string option"
  df_level :: "nat option"
  df_exp :: nat
  df_evs :: "nat list"

record stat_sample =
  ss_frame :: nat
  ss_species :: string
  ss_level :: nat
  ss_stats :: "nat option list"
  ss_evs :: ev_range

record iv_estimate =
  ie_revision :: nat
  ie_nature_read :: "string option"
  ie_natures :: "string list"
  ie_ivs :: "(nat \<times> nat) list"
  ie_consistent :: bool
  ie_exact_evs :: bool

record training =
  tr_evs :: "nat list"
  tr_unseen :: "nat list"
  tr_stats_evs :: ev_range
  tr_level :: "nat option"
  tr_level_evs :: "nat list"
  tr_first_award :: "nat list option"
  tr_defeats :: nat
  tr_recent :: "defeat list"
  tr_exp :: "nat option"
  tr_samples :: "stat_sample list"
  tr_revision :: nat
  tr_estimate :: "iv_estimate option"

text \<open>A Pokemon whose history is unknown.\<close>

definition default_training :: training where
  "default_training =
    \<lparr>tr_evs = replicate 6 0, tr_unseen = replicate 6 MAX_STAT_EVS,
     tr_stats_evs = \<lparr>er_low = replicate 6 0, er_high = replicate 6 MAX_STAT_EVS\<rparr>,
     tr_level = None, tr_level_evs = replicate 6 0, tr_first_award = None, tr_defeats = 0,
     tr_recent = [], tr_exp = None, tr_samples = [], tr_revision = 0, tr_estimate = None\<rparr>"

definition obtained :: "nat \<Rightarrow> training" where
  "obtained level = default_training
    \<lparr>tr_unseen := replicate 6 0,
     tr_stats_evs := \<lparr>er_low = replicate 6 0, er_high = replicate 6 0\<rparr>, tr_level := Some level\<rparr>"

section \<open>The operations\<close>

definition add_evs :: "nat list \<Rightarrow> nat list \<Rightarrow> nat list" where
  "add_evs a b = map (\<lambda>i. min ((a ! i + b ! i) mod 65536) MAX_STAT_EVS) [0..<6]"

definition exact :: "training \<Rightarrow> bool" where
  "exact t \<longleftrightarrow> tr_unseen t = replicate 6 0"

definition ev_range_of :: "training \<Rightarrow> ev_range" where
  "ev_range_of t = \<lparr>er_low = tr_evs t, er_high = add_evs (tr_evs t) (tr_unseen t)\<rparr>"

definition bump :: "nat \<Rightarrow> nat" where
  "bump n = (n + 1) mod 2 ^ 32"

definition keep_last :: "nat \<Rightarrow> 'a list \<Rightarrow> 'a list" where
  "keep_last n xs = (if length xs > n then tl xs else xs)"

definition award :: "nat \<Rightarrow> string option \<Rightarrow> nat option \<Rightarrow> nat list option \<Rightarrow> nat \<Rightarrow> bool
    \<Rightarrow> training \<Rightarrow> training" where
  "award frame species level ev_yield exp macho_brace t =
    (let (evs, unseen, added) = (case ev_yield of
           Some y \<Rightarrow> (case gain_evs (tr_evs t) y False macho_brace of (evs, added) \<Rightarrow> (evs, tr_unseen t, added))
         | None \<Rightarrow>
             let most = MAX_YIELD * (if macho_brace then 2 else 1) in
             (tr_evs t, add_evs (tr_unseen t) (replicate 6 most), replicate 6 0)) in
     t\<lparr>tr_evs := evs, tr_unseen := unseen,
       tr_first_award := (case tr_first_award t of None \<Rightarrow> Some evs | Some first \<Rightarrow> Some first),
       tr_exp := map_option (\<lambda>e. min (e + exp) (2 ^ 32 - 1)) (tr_exp t),
       tr_defeats := bump (tr_defeats t),
       tr_recent := keep_last DEFEATS_KEPT (tr_recent t @
         [\<lparr>df_frame = frame, df_species = species, df_level = level, df_exp = exp, df_evs = added\<rparr>]),
       tr_revision := bump (tr_revision t)\<rparr>)"

definition level_seen :: "nat \<Rightarrow> training \<Rightarrow> training" where
  "level_seen level t =
    (let seen = (\<lambda>t. t\<lparr>tr_level := Some level, tr_level_evs := tr_evs t, tr_first_award := None\<rparr>) in
     case tr_level t of
       None \<Rightarrow> seen t
     | Some highest \<Rightarrow>
         if level < highest then t
         else if level > highest then
           seen (t\<lparr>tr_stats_evs :=
               \<lparr>er_low = (case tr_first_award t of None \<Rightarrow> tr_level_evs t | Some first \<Rightarrow> first),
                er_high = add_evs (tr_evs t) (tr_unseen t)\<rparr>,
             tr_revision := bump (tr_revision t)\<rparr>)
         else seen t)"

definition recalculated :: "training \<Rightarrow> training" where
  "recalculated t =
    t\<lparr>tr_stats_evs := \<lparr>er_low = tr_level_evs t, er_high = add_evs (tr_evs t) (tr_unseen t)\<rparr>,
      tr_revision := bump (tr_revision t)\<rparr>"

text \<open>The first element from the front that satisfies a predicate, replaced.\<close>

fun replace_first :: "('a \<Rightarrow> bool) \<Rightarrow> ('a \<Rightarrow> 'a) \<Rightarrow> 'a list \<Rightarrow> 'a list" where
  "replace_first p f [] = []"
| "replace_first p f (x # xs) = (if p x then f x # xs else x # replace_first p f xs)"

definition observe_stats :: "nat \<Rightarrow> string \<Rightarrow> nat \<Rightarrow> nat option list \<Rightarrow> training \<Rightarrow> training" where
  "observe_stats frame species level stats t =
    (if list_all (\<lambda>s. s = None) stats then t
     else
       let same = (\<lambda>s. ss_species s = species \<and> ss_level s = level \<and> ss_evs s = tr_stats_evs t) in
       case find same (rev (tr_samples t)) of
         Some s \<Rightarrow>
           let merged = map2 (\<lambda>new old. case new of None \<Rightarrow> old | Some v \<Rightarrow> Some v) stats (ss_stats s) in
           if merged = ss_stats s then t
           else t\<lparr>tr_samples :=
               rev (replace_first same (\<lambda>s. s\<lparr>ss_stats := merged, ss_frame := frame\<rparr>) (rev (tr_samples t))),
             tr_revision := bump (tr_revision t)\<rparr>
       | None \<Rightarrow>
           t\<lparr>tr_samples := keep_last SAMPLES_KEPT (tr_samples t @
               [\<lparr>ss_frame = frame, ss_species = species, ss_level = level, ss_stats = stats,
                 ss_evs = tr_stats_evs t\<rparr>]),
             tr_revision := bump (tr_revision t)\<rparr>)"

text \<open>The smallest award among the recent ones, 1 when there is none.\<close>

definition smallest_award :: "defeat list \<Rightarrow> nat" where
  "smallest_award ds =
    (case map df_exp ds of [] \<Rightarrow> 1 | e # es \<Rightarrow> max 1 (foldl min e es))"

definition div_up :: "nat \<Rightarrow> nat \<Rightarrow> nat" where
  "div_up a b = (a + b - 1) div b"

definition observe_exp :: "nat \<Rightarrow> training \<Rightarrow> training" where
  "observe_exp exp t =
    (let t' = (case tr_exp t of
           None \<Rightarrow> t
         | Some tracked \<Rightarrow>
             if exp > tracked then
               let missed = div_up (exp - tracked) (smallest_award (tr_recent t));
                   most = min (min (missed * MAX_YIELD) (2 ^ 32 - 1)) 65535 in
               t\<lparr>tr_unseen := add_evs (tr_unseen t) (replicate 6 (min most MAX_STAT_EVS)),
                 tr_revision := bump (tr_revision t)\<rparr>
             else t) in
     t'\<lparr>tr_exp := Some exp\<rparr>)"

section \<open>What the records keep\<close>

definition six :: "nat list \<Rightarrow> bool" where
  "six e \<longleftrightarrow> length e = 6 \<and> list_all (\<lambda>x. x \<le> 255) e"

definition training_ok :: "training \<Rightarrow> bool" where
  "training_ok t \<longleftrightarrow> evs_ok (tr_evs t) \<and> six (tr_unseen t) \<and>
    six (er_low (tr_stats_evs t)) \<and> six (er_high (tr_stats_evs t)) \<and> six (tr_level_evs t) \<and>
    pred_option six (tr_first_award t) \<and> length (tr_recent t) \<le> 64 \<and> length (tr_samples t) \<le> 256 \<and>
    list_all (\<lambda>s. length (ss_stats s) = 6 \<and> six (er_low (ss_evs s)) \<and> six (er_high (ss_evs s))) (tr_samples t)"

lemma six_add_evs [simp]: "six (add_evs a b)"
  by (simp add: six_def add_evs_def list_all_length MAX_STAT_EVS_def)

lemma six_replicate [simp]: "six (replicate 6 x) \<longleftrightarrow> x \<le> 255"
  by (simp add: six_def list_all_iff)

lemma six_evs: "evs_ok e \<Longrightarrow> six e"
  by (simp add: evs_ok_def six_def)

lemma length_keep_last [simp]: "length xs \<le> n \<Longrightarrow> length (keep_last n (xs @ [x])) \<le> n"
  by (auto simp: keep_last_def)

lemma set_keep_last: "set (keep_last n xs) \<subseteq> set xs"
  by (cases xs) (auto simp: keep_last_def)

lemma length_replace_first [simp]: "length (replace_first p f xs) = length xs"
  by (induction xs) simp_all

lemma set_replace_first: "set (replace_first p f xs) \<subseteq> set xs \<union> f ` {x \<in> set xs. p x}"
  by (induction xs) auto

lemma training_ok_default: "training_ok default_training"
  by (simp add: training_ok_def default_training_def evs_ok_def MAX_STAT_EVS_def list_all_iff sum_list_replicate)

lemma training_ok_obtained: "training_ok (obtained level)"
  by (simp add: training_ok_def obtained_def default_training_def evs_ok_def list_all_iff sum_list_replicate)

lemma gain_evs_ok: "evs_ok e \<Longrightarrow> evs_ok (fst (gain_evs e y pk mb))"
  using gain_evs_gained [of e y pk mb] by (auto split: prod.splits)

lemma training_ok_award:
  assumes ok: "training_ok t"
  shows "training_ok (award frame species level y exp mb t)"
proof (cases y)
  case None
  then show ?thesis using ok
    by (auto simp: training_ok_def award_def DEFEATS_KEPT_def six_evs Let_def split: option.splits)
next
  case (Some e)
  obtain evs added where g: "gain_evs (tr_evs t) e False mb = (evs, added)" by fastforce
  then have "evs_ok evs" using ok gain_evs_ok [of "tr_evs t" e False mb] by (simp add: training_ok_def)
  then show ?thesis using ok
    by (auto simp: training_ok_def award_def DEFEATS_KEPT_def six_evs Let_def Some g split: option.splits)
qed

lemma training_ok_level_seen: "training_ok t \<Longrightarrow> training_ok (level_seen l t)"
  by (auto simp: training_ok_def level_seen_def Let_def six_evs split: option.splits)

lemma training_ok_recalculated: "training_ok t \<Longrightarrow> training_ok (recalculated t)"
  by (simp add: training_ok_def recalculated_def)

lemma training_ok_observe_exp: "training_ok t \<Longrightarrow> training_ok (observe_exp exp t)"
  by (auto simp: training_ok_def observe_exp_def Let_def split: option.splits)

lemma find_SomeD: "find p xs = Some x \<Longrightarrow> x \<in> set xs \<and> p x"
  by (induction xs) (auto split: if_splits)

lemma training_ok_observe_stats:
  assumes ok: "training_ok t" and len: "length stats = 6"
  shows "training_ok (observe_stats frame species level stats t)"
proof -
  let ?same = "\<lambda>s. ss_species s = species \<and> ss_level s = level \<and> ss_evs s = tr_stats_evs t"
  let ?fine = "\<lambda>s. length (ss_stats s) = 6 \<and> six (er_low (ss_evs s)) \<and> six (er_high (ss_evs s))"
  have fine: "\<And>s. s \<in> set (tr_samples t) \<Longrightarrow> ?fine s" using ok by (auto simp: training_ok_def list_all_iff)
  show ?thesis
  proof (cases "find ?same (rev (tr_samples t))")
    case None
    have "set (keep_last SAMPLES_KEPT (tr_samples t @ [s])) \<subseteq> insert s (set (tr_samples t))" for s
      using set_keep_last [of SAMPLES_KEPT "tr_samples t @ [s]"] by simp
    then show ?thesis
      using None ok len fine
      by (fastforce simp: observe_stats_def training_ok_def list_all_iff SAMPLES_KEPT_def)
  next
    case (Some s)
    let ?merged = "map2 (\<lambda>new old. case new of None \<Rightarrow> old | Some v \<Rightarrow> Some v) stats (ss_stats s)"
    let ?f = "\<lambda>s. s\<lparr>ss_stats := ?merged, ss_frame := frame\<rparr>"
    have "length ?merged = 6" using fine [of s] find_SomeD [OF Some] len by simp
    then have "\<forall>x \<in> set (replace_first ?same ?f (rev (tr_samples t))). ?fine x"
      using set_replace_first [of ?same ?f "rev (tr_samples t)"] fine by fastforce
    then show ?thesis
      using Some ok by (auto simp: observe_stats_def training_ok_def list_all_iff Let_def)
  qed
qed

section \<open>The counted range holds the true values\<close>

text \<open>Values stat by stat between a low and a high bound.\<close>

definition below :: "nat list \<Rightarrow> nat list \<Rightarrow> bool" where
  "below a b \<longleftrightarrow> (\<forall>i<6. a ! i \<le> b ! i)"

definition within :: "nat list \<Rightarrow> ev_range \<Rightarrow> bool" where
  "within e r \<longleftrightarrow> below (er_low r) e \<and> below e (er_high r)"

lemma below_refl [simp]: "below a a"
  by (simp add: below_def)

lemma below_trans: "below a b \<Longrightarrow> below b c \<Longrightarrow> below a c"
  by (meson below_def order_trans)

lemma nth_add_evs: "i < 6 \<Longrightarrow> a ! i \<le> 255 \<Longrightarrow> b ! i \<le> 255 \<Longrightarrow> add_evs a b ! i = min (a ! i + b ! i) 255"
  by (simp add: add_evs_def MAX_STAT_EVS_def)

lemma six_nth: "six e \<Longrightarrow> i < 6 \<Longrightarrow> e ! i \<le> 255"
  by (simp add: six_def list_all_length)

lemma add_evs_full: "six a \<Longrightarrow> add_evs a (replicate 6 255) = replicate 6 255"
proof (rule nth_equalityI)
  fix i
  assume "six a" "i < length (add_evs a (replicate 6 255))"
  then show "add_evs a (replicate 6 255) ! i = replicate 6 255 ! i"
    using nth_add_evs [of i a "replicate 6 255"] six_nth [of a i] by (simp add: add_evs_def)
qed (simp add: add_evs_def)

lemma below_sum:
  assumes "below a b" "length a = 6" "length b = 6"
  shows "sum_list a \<le> sum_list b"
proof -
  have "sum_list e = (\<Sum>i<6. e ! i)" if "length e = 6" for e :: "nat list"
    using that by (simp add: sum_list_sum_nth atLeast0LessThan)
  moreover have "(\<Sum>i<6. a ! i) \<le> (\<Sum>i<6. b ! i)" using assms(1) by (intro sum_mono) (simp add: below_def)
  ultimately show ?thesis using assms(2,3) by simp
qed

text \<open>While the total is under its cap, an award adds all it yields, up to the cap of the stat.\<close>

lemma gain_evs_least:
  assumes "evs_ok e" "i < 6"
  shows "e ! i \<le> fst (gain_evs e y pk mb) ! i"
    and "fst (gain_evs e y pk mb) ! i \<le> min (e ! i + full_gain y pk mb i) 255"
    and "sum_list (fst (gain_evs e y pk mb)) < 510 \<Longrightarrow>
      fst (gain_evs e y pk mb) ! i = min (e ! i + full_gain y pk mb i) 255"
proof -
  obtain e' added where g: "gain_evs e y pk mb = (e', added)" by fastforce
  have ok: "evs_ok e'" and gd: "gained y pk mb e e' added i"
    using gain_evs_gained [OF assms(1), of y pk mb] g assms(2) by auto
  have le: "e' ! i \<le> 255" using six_nth [OF six_evs [OF ok] assms(2)] .
  show "e ! i \<le> fst (gain_evs e y pk mb) ! i"
    and "fst (gain_evs e y pk mb) ! i \<le> min (e ! i + full_gain y pk mb i) 255"
    and "sum_list (fst (gain_evs e y pk mb)) < 510 \<Longrightarrow>
      fst (gain_evs e y pk mb) ! i = min (e ! i + full_gain y pk mb i) 255"
    using gd le by (auto simp: g gained_def)
qed

text \<open>The Pokemon in the game: its true effort values, its level, and the effort values its stats
  were last computed from.\<close>

record game_mon =
  gm_evs :: "nat list"
  gm_level :: nat
  gm_stats :: "nat list"

text \<open>An award in the game: the values are added before the experience, so a level it brings computes
  the stats with them.\<close>

definition game_award :: "nat list \<Rightarrow> bool \<Rightarrow> nat \<Rightarrow> game_mon \<Rightarrow> game_mon" where
  "game_award y mb level g =
    (let evs = fst (gain_evs (gm_evs g) y False mb) in
     g\<lparr>gm_evs := evs, gm_level := level, gm_stats := (if level > gm_level g then evs else gm_stats g)\<rparr>)"

text \<open>Everything that can happen to a Pokemon, with what the bot does when it does: an award whose foe
  was read or was not (no species yields more than three), the level read from the screen, and a
  computation of the stats at an evolution.\<close>

inductive trained :: "game_mon \<Rightarrow> training \<Rightarrow> bool" where
  begin_unknown: "evs_ok e \<Longrightarrow> six s \<Longrightarrow> trained \<lparr>gm_evs = e, gm_level = l, gm_stats = s\<rparr> default_training"
| begin_obtained: "trained \<lparr>gm_evs = replicate 6 0, gm_level = l, gm_stats = replicate 6 0\<rparr> (obtained l)"
| award_read: "trained g t \<Longrightarrow> gm_level g \<le> l \<Longrightarrow>
    trained (game_award y mb l g) (award frame species level (Some y) exp mb t)"
| award_unread: "trained g t \<Longrightarrow> gm_level g \<le> l \<Longrightarrow> \<forall>i<6. y ! i \<le> 3 \<Longrightarrow>
    trained (game_award y mb l g) (award frame species level None exp mb t)"
| look: "trained g t \<Longrightarrow> trained g (level_seen (gm_level g) t)"
| evolve: "trained g t \<Longrightarrow> trained (g\<lparr>gm_stats := gm_evs g\<rparr>) (recalculated t)"
| read_stats: "trained g t \<Longrightarrow> length stats = 6 \<Longrightarrow> trained g (observe_stats frame species level stats t)"

text \<open>What the counting knows, while the game's total stays under its cap.\<close>

definition counted :: "game_mon \<Rightarrow> training \<Rightarrow> bool" where
  "counted g t \<longleftrightarrow> within (gm_evs g) (ev_range_of t) \<and> below (tr_level_evs t) (tr_evs t) \<and>
    (case tr_first_award t of None \<Rightarrow> True | Some f \<Rightarrow> below (tr_level_evs t) f \<and> below f (tr_evs t)) \<and>
    (case tr_level t of
       None \<Rightarrow> within (gm_stats g) (tr_stats_evs t) \<and> tr_level_evs t = replicate 6 0 \<and>
         er_low (tr_stats_evs t) = replicate 6 0 \<and> tr_unseen t = replicate 6 255 \<and>
         er_high (tr_stats_evs t) = replicate 6 255
     | Some l \<Rightarrow> l \<le> gm_level g \<and>
         (l = gm_level g \<longrightarrow> within (gm_stats g) (tr_stats_evs t)) \<and>
         (l < gm_level g \<longrightarrow> below (gm_stats g) (gm_evs g) \<and>
           (\<exists>f. tr_first_award t = Some f \<and> below f (gm_stats g))))"

lemma trained_ok: "trained g t \<Longrightarrow> training_ok t \<and> evs_ok (gm_evs g) \<and> six (gm_stats g)"
proof (induction rule: trained.induct)
  case (award_read g t l y mb frame species level exp)
  then show ?case
    by (simp add: training_ok_award game_award_def Let_def gain_evs_ok six_evs)
next
  case (award_unread g t l y mb frame species level exp)
  then show ?case
    by (simp add: training_ok_award game_award_def Let_def gain_evs_ok six_evs)
qed (simp_all add: training_ok_default training_ok_obtained training_ok_level_seen training_ok_recalculated
    training_ok_observe_stats six_evs evs_ok_def list_all_iff sum_list_replicate)

lemma ev_range_high:
  assumes "training_ok t" "i < 6"
  shows "er_high (ev_range_of t) ! i = min (tr_evs t ! i + tr_unseen t ! i) 255"
  using assms six_nth [of "tr_evs t" i] six_nth [of "tr_unseen t" i]
  by (simp add: ev_range_of_def training_ok_def nth_add_evs six_evs)

lemma within_range_iff:
  assumes "training_ok t"
  shows "within e (ev_range_of t) \<longleftrightarrow>
    (\<forall>i<6. tr_evs t ! i \<le> e ! i \<and> e ! i \<le> min (tr_evs t ! i + tr_unseen t ! i) 255)"
  using assms ev_range_high [OF assms] by (auto simp: within_def below_def ev_range_of_def)

lemma award_evs:
  assumes "training_ok t"
  shows "below (tr_evs t) (tr_evs (award frame species level y exp mb t))"
    and "tr_level (award frame species level y exp mb t) = tr_level t"
    and "tr_level_evs (award frame species level y exp mb t) = tr_level_evs t"
    and "tr_stats_evs (award frame species level y exp mb t) = tr_stats_evs t"
    and "tr_first_award (award frame species level y exp mb t) =
      Some (case tr_first_award t of
        None \<Rightarrow> tr_evs (award frame species level y exp mb t) | Some f \<Rightarrow> f)"
  using gain_evs_least(1) [of "tr_evs t" _ _ False mb] assms
  by (auto simp: award_def Let_def below_def training_ok_def split: option.splits prod.splits)
    (metis fst_conv)+

lemma award_read_range:
  assumes ok: "training_ok t" and gok: "evs_ok (gm_evs g)" and w: "within (gm_evs g) (ev_range_of t)"
    and cap: "sum_list (gm_evs (game_award y mb l g)) < 510"
  shows "within (gm_evs (game_award y mb l g)) (ev_range_of (award frame species level (Some y) exp mb t))"
proof -
  let ?c = "tr_evs t" and ?e = "gm_evs g" and ?u = "tr_unseen t"
  let ?c' = "fst (gain_evs ?c y False mb)" and ?e' = "fst (gain_evs ?e y False mb)"
  let ?f = "\<lambda>i. full_gain y False mb i"
  have cok: "evs_ok ?c" using ok by (simp add: training_ok_def)
  have e': "?e' ! i = min (?e ! i + ?f i) 255" if "i < 6" for i
    using gain_evs_least(3) [OF gok that, of y False mb] cap by (simp add: game_award_def Let_def)
  have old: "?c ! i \<le> ?e ! i" "?e ! i \<le> min (?c ! i + ?u ! i) 255" if "i < 6" for i
    using w that by (simp_all add: within_range_iff [OF ok])
  have "?c' ! i \<le> ?e' ! i" if "i < 6" for i
    using gain_evs_least(2) [OF cok that, of y False mb] e' [OF that] old(1) [OF that] by linarith
  then have le: "below ?c' ?e'" by (simp add: below_def)
  have "sum_list ?c' \<le> sum_list ?e'"
    using below_sum [OF le] gain_evs_ok [OF cok] gain_evs_ok [OF gok] by (simp add: evs_ok_def)
  then have "sum_list ?c' < 510" using cap by (simp add: game_award_def Let_def)
  then have c': "?c' ! i = min (?c ! i + ?f i) 255" if "i < 6" for i
    using gain_evs_least(3) [OF cok that] by blast
  have t': "tr_evs (award frame species level (Some y) exp mb t) = ?c'"
    "tr_unseen (award frame species level (Some y) exp mb t) = ?u"
    by (simp_all add: award_def Let_def split: prod.splits)
  have "?e' ! i \<le> min (?c' ! i + ?u ! i) 255" if "i < 6" for i
    using e' [OF that] c' [OF that] old(2) [OF that] by linarith
  then show ?thesis
    unfolding within_range_iff [OF training_ok_award [OF ok]] t'
    using le by (simp add: game_award_def Let_def below_def)
qed

lemma award_unread_range:
  assumes ok: "training_ok t" and gok: "evs_ok (gm_evs g)" and w: "within (gm_evs g) (ev_range_of t)"
    and most: "\<forall>i<6. y ! i \<le> 3"
  shows "within (gm_evs (game_award y mb l g)) (ev_range_of (award frame species level None exp mb t))"
proof -
  let ?c = "tr_evs t" and ?e = "gm_evs g" and ?u = "tr_unseen t"
  let ?e' = "fst (gain_evs ?e y False mb)"
  let ?m = "MAX_YIELD * (if mb then 2 else 1)"
  have u: "six ?u" using ok by (simp add: training_ok_def)
  have t': "tr_evs (award frame species level None exp mb t) = ?c"
    "tr_unseen (award frame species level None exp mb t) = add_evs ?u (replicate 6 ?m)"
    by (simp_all add: award_def Let_def)
  have "?c ! i \<le> ?e' ! i \<and> ?e' ! i \<le> min (?c ! i + add_evs ?u (replicate 6 ?m) ! i) 255" if i: "i < 6" for i
  proof -
    have old: "?c ! i \<le> ?e ! i" "?e ! i \<le> min (?c ! i + ?u ! i) 255"
      using w i by (simp_all add: within_range_iff [OF ok])
    have "full_gain y False mb i \<le> ?m" using most i by (simp add: full_gain_def MAX_YIELD_def)
    moreover have "add_evs ?u (replicate 6 ?m) ! i = min (?u ! i + ?m) 255"
      using nth_add_evs [OF i six_nth [OF u i], of "replicate 6 ?m"] i by (simp add: MAX_YIELD_def)
    ultimately show ?thesis using gain_evs_least(1,2) [OF gok i, of y False mb] old by linarith
  qed
  then show ?thesis
    unfolding within_range_iff [OF training_ok_award [OF ok]] t' by (simp add: game_award_def Let_def)
qed

lemma game_award_grows:
  assumes "evs_ok (gm_evs g)"
  shows "below (gm_evs g) (gm_evs (game_award y mb l g))"
    and "sum_list (gm_evs g) \<le> sum_list (gm_evs (game_award y mb l g))"
proof -
  show b: "below (gm_evs g) (gm_evs (game_award y mb l g))"
    using gain_evs_least(1) [OF assms] by (simp add: game_award_def Let_def below_def)
  show "sum_list (gm_evs g) \<le> sum_list (gm_evs (game_award y mb l g))"
    using below_sum [OF b] assms gain_evs_ok [OF assms] by (simp add: game_award_def Let_def evs_ok_def)
qed

text \<open>An award keeps the counting sound, whichever way the range was kept sound.\<close>

lemma counted_award:
  assumes c: "counted g t" and ok: "training_ok t" and gok: "evs_ok (gm_evs g)" and level: "gm_level g \<le> l"
    and range: "within (gm_evs (game_award y mb l g)) (ev_range_of (award frame species lv ey exp mb t))"
    and unseen: "tr_level t = None \<Longrightarrow> tr_unseen t = replicate 6 255 \<Longrightarrow>
      tr_unseen (award frame species lv ey exp mb t) = replicate 6 255"
  shows "counted (game_award y mb l g) (award frame species lv ey exp mb t)"
proof -
  let ?g = "game_award y mb l g" and ?t = "award frame species lv ey exp mb t"
  note a = award_evs [OF ok, of frame species lv ey exp mb]
  have evs: "below (tr_level_evs ?t) (tr_evs ?t)"
    using c below_trans [OF _ a(1)] by (auto simp: counted_def a)
  obtain f where f: "tr_first_award ?t = Some f" "below (tr_level_evs ?t) f" "below f (tr_evs ?t)"
    using c evs below_trans [OF _ a(1)] by (auto simp: counted_def a split: option.splits)
  have true: "below (tr_evs ?t) (gm_evs ?g)" using range by (simp add: within_def ev_range_of_def)
  have grows: "below (gm_evs g) (gm_evs ?g)" by (rule game_award_grows(1) [OF gok])
  have g': "gm_level ?g = l" "gm_stats ?g = (if l > gm_level g then gm_evs ?g else gm_stats g)"
    by (simp_all add: game_award_def Let_def)
  have e255: "six (gm_evs ?g)" using gain_evs_ok [OF gok] by (simp add: game_award_def Let_def six_evs)
  have all: "within (gm_evs ?g) (tr_stats_evs t)"
    if "er_low (tr_stats_evs t) = replicate 6 0" "er_high (tr_stats_evs t) = replicate 6 255"
    using that six_nth [OF e255] by (simp add: within_def below_def)
  show ?thesis
  proof (cases "tr_level t")
    case None
    then show ?thesis
      using c range evs f all unseen unfolding counted_def g' by (simp add: a split: if_splits)
  next
    case (Some k)
    have old: "k \<le> gm_level g" "k = gm_level g \<longrightarrow> within (gm_stats g) (tr_stats_evs t)"
      "k < gm_level g \<longrightarrow> below (gm_stats g) (gm_evs g) \<and>
        (\<exists>f. tr_first_award t = Some f \<and> below f (gm_stats g))"
      using c Some by (simp_all add: counted_def)
    show ?thesis
    proof (cases "l > gm_level g")
      case True
      then show ?thesis
        using range evs f old(1) below_trans [OF f(3) true] unfolding counted_def g' by (simp add: a(2,4) Some)
    next
      case False
      then have "l = gm_level g" using level by simp
      moreover have "below f (gm_stats g)" if "k < gm_level g"
        using old(3) that f(1) by (auto simp: a(5))
      ultimately show ?thesis
        using range evs f old below_trans [OF _ grows] unfolding counted_def g' by (auto simp: a(2,4) Some)
    qed
  qed
qed

lemma observe_stats_frame:
  "tr_evs (observe_stats frame species level stats t) = tr_evs t"
  "tr_unseen (observe_stats frame species level stats t) = tr_unseen t"
  "tr_level (observe_stats frame species level stats t) = tr_level t"
  "tr_level_evs (observe_stats frame species level stats t) = tr_level_evs t"
  "tr_stats_evs (observe_stats frame species level stats t) = tr_stats_evs t"
  "tr_first_award (observe_stats frame species level stats t) = tr_first_award t"
  by (simp_all add: observe_stats_def Let_def split: option.split)


text \<open>A starter that beats a foe worth one Attack value and rises a level.\<close>

definition one_win :: "nat list" where "one_win = [0, 1, 0, 0, 0, 0]"

lemma upt_6: "[0..<6] = [0, 1, 2, 3, 4, 5 :: nat]"
  by (simp add: upt_rec)

lemma replicate_6: "replicate 6 x = [x, x, x, x, x, x]"
  by (simp add: numeral_eq_Suc)

lemma gain_one_win: "fst (gain_evs (replicate 6 0) one_win False False) = one_win"
  by (simp add: gain_evs_def upt_6 replicate_6 one_gain_def one_win_def Let_def training_consts)

definition after_one_win :: game_mon where
  "after_one_win = game_award one_win False 6
     \<lparr>gm_evs = replicate 6 0, gm_level = 5, gm_stats = replicate 6 0\<rparr>"

definition counted_one_win :: training where
  "counted_one_win = level_seen 6 (award 9 None None (Some one_win) 40 False (obtained 5))"


text \<open>At the cap the lower bound fails: the game adds nothing, the bot counts the whole yield.\<close>

lemma full_total_breaks_range:
  "\<exists>g t. trained g t \<and> evs_ok (gm_evs g) \<and> \<not> within (gm_evs g) (ev_range_of t)"
proof -
  let ?g = "\<lparr>gm_evs = [255, 0, 255, 0, 0, 0], gm_level = 50, gm_stats = replicate 6 0\<rparr>"
  have "trained ?g default_training"
    by (rule begin_unknown) (simp_all add: evs_ok_def)
  then have t: "trained (game_award one_win False 50 ?g) (award 9 None None (Some one_win) 40 False default_training)"
    by (rule award_read) simp
  have "gm_evs (game_award one_win False 50 ?g) = [255, 0, 255, 0, 0, 0]"
    by (simp add: game_award_def gain_evs_def upt_6 training_consts Let_def)
  moreover have "tr_evs (award 9 None None (Some one_win) 40 False default_training) = one_win"
    using gain_one_win
    by (cases "gain_evs (replicate 6 0) one_win False False") (simp add: award_def default_training_def Let_def)
  then have "er_low (ev_range_of (award 9 None None (Some one_win) 40 False default_training)) ! 1 = 1"
    by (simp add: ev_range_of_def one_win_def)
  ultimately have "\<not> within (gm_evs (game_award one_win False 50 ?g))
      (ev_range_of (award 9 None None (Some one_win) 40 False default_training))"
    by (auto simp: within_def below_def intro: exI [of _ 1])
  then show ?thesis using t trained_ok [OF t] by blast
qed

end
