(* ===== verification/Belief.thy ===== *)
theory Belief
  imports World_Map "HOL-Library.AList"
begin

text \<open>
  Values with provenance (crates/state/src/knowledge.rs) and what the bot believes of the world beyond
  its party and bag (crates/state/src/belief.rs): flags, variables, visited maps, where a blackout and
  an escape lead, the NPCs looked at, the intents found infeasible and the script paths run. A
  \<open>BTreeMap\<close> is an association list read with \<open>map_of\<close> and written with \<open>AList.update\<close> and
  \<open>AList.delete\<close>; a \<open>BTreeSet\<close> is a set. The JSON forms are not modelled.
\<close>

section \<open>Knowledge\<close>

datatype knowledge_source = Observed | Derived | Tracked | Assumed | User_Provided | Unknown_Source

record 'a knowledge =
  kn_value :: "'a option"
  kn_source :: knowledge_source
  kn_frame :: "nat option"

definition unknown :: "'a knowledge" where
  "unknown = \<lparr>kn_value = None, kn_source = Unknown_Source, kn_frame = None\<rparr>"

definition observed :: "'a \<Rightarrow> nat \<Rightarrow> 'a knowledge" where
  "observed v frame = \<lparr>kn_value = Some v, kn_source = Observed, kn_frame = Some frame\<rparr>"

definition derived :: "'a \<Rightarrow> nat \<Rightarrow> 'a knowledge" where
  "derived v frame = \<lparr>kn_value = Some v, kn_source = Derived, kn_frame = Some frame\<rparr>"

definition tracked :: "'a \<Rightarrow> nat option \<Rightarrow> 'a knowledge" where
  "tracked v frame = \<lparr>kn_value = Some v, kn_source = Tracked, kn_frame = frame\<rparr>"

definition is_stale :: "'a knowledge \<Rightarrow> bool" where
  "is_stale k \<longleftrightarrow> kn_source k = Tracked \<or> kn_source k = Assumed"

definition needs_audit :: "'a knowledge \<Rightarrow> bool" where
  "needs_audit k \<longleftrightarrow> kn_value k = None \<or> is_stale k"

lemmas knowledge_defs = unknown_def observed_def derived_def tracked_def

lemma kn_value_simps [simp]:
  "kn_value unknown = None" "kn_value (observed v f) = Some v"
  "kn_value (derived v f) = Some v" "kn_value (tracked v g) = Some v"
  by (simp_all add: knowledge_defs)

lemma kn_source_simps [simp]:
  "kn_source unknown = Unknown_Source" "kn_source (observed v f) = Observed"
  "kn_source (derived v f) = Derived" "kn_source (tracked v g) = Tracked"
  by (simp_all add: knowledge_defs)

lemma needs_audit_simps:
  "needs_audit unknown" "\<not> needs_audit (observed v f)" "\<not> needs_audit (derived v f)" "needs_audit (tracked v g)"
  by (simp_all add: needs_audit_def is_stale_def)

section \<open>The world belief\<close>

definition PATHS_RUN_KEPT :: nat where "PATHS_RUN_KEPT = 256"

record heal_spot =
  hs_map :: string
  hs_x :: int
  hs_y :: int

record escape_warp =
  ew_map :: string
  ew_x :: int
  ew_y :: int
  ew_entered :: string

record npc_belief =
  nb_pos :: "pos knowledge"
  nb_facing :: "direction knowledge"
  nb_present :: "bool knowledge"

definition default_npc :: npc_belief where
  "default_npc = \<lparr>nb_pos = unknown, nb_facing = unknown, nb_present = unknown\<rparr>"

datatype fact = Flag_Fact string | Var_Fact string | Visited_Fact string

definition display_fact :: "fact \<Rightarrow> string" where
  "display_fact f = (case f of
     Flag_Fact flag \<Rightarrow> ''flag '' @ flag | Var_Fact var \<Rightarrow> ''var '' @ var
   | Visited_Fact visited \<Rightarrow> ''visited '' @ visited)"

type_synonym 'v facts = "(string \<times> 'v knowledge) list"
type_synonym script_path = "string \<times> nat"

record world_belief =
  wb_flags :: "bool facts"
  wb_vars :: "nat facts"
  wb_visited :: "bool facts"
  wb_respawn :: "heal_spot knowledge"
  wb_escape :: "escape_warp knowledge"
  wb_npcs :: "(string \<times> (nat \<times> npc_belief) list) list"
  wb_infeasible :: "string set"
  wb_paths_run :: "script_path list"

definition default_world_belief :: world_belief where
  "default_world_belief =
    \<lparr>wb_flags = [], wb_vars = [], wb_visited = [], wb_respawn = unknown, wb_escape = unknown,
     wb_npcs = [], wb_infeasible = {}, wb_paths_run = []\<rparr>"

definition or_unknown :: "'v knowledge option \<Rightarrow> 'v knowledge" where
  "or_unknown k = (case k of None \<Rightarrow> unknown | Some k \<Rightarrow> k)"

definition wb_flag :: "world_belief \<Rightarrow> string \<Rightarrow> bool knowledge" where
  "wb_flag w name = or_unknown (map_of (wb_flags w) name)"

definition wb_var :: "world_belief \<Rightarrow> string \<Rightarrow> nat knowledge" where
  "wb_var w name = or_unknown (map_of (wb_vars w) name)"

definition wb_was_visited :: "world_belief \<Rightarrow> string \<Rightarrow> bool knowledge" where
  "wb_was_visited w m = or_unknown (map_of (wb_visited w) m)"

definition npc :: "world_belief \<Rightarrow> string \<Rightarrow> nat \<Rightarrow> npc_belief option" where
  "npc w m local_id = Option.bind (map_of (wb_npcs w) m) (\<lambda>npcs. map_of npcs local_id)"

text \<open>\<open>npc_mut\<close>: the entry, made if missing, is handed to the caller, who changes it.\<close>

definition change_npc :: "string \<Rightarrow> nat \<Rightarrow> (npc_belief \<Rightarrow> npc_belief) \<Rightarrow> world_belief \<Rightarrow> world_belief" where
  "change_npc m local_id f w =
    (let npcs = (case map_of (wb_npcs w) m of None \<Rightarrow> [] | Some ns \<Rightarrow> ns);
         old = (case map_of npcs local_id of None \<Rightarrow> default_npc | Some n \<Rightarrow> n) in
     w\<lparr>wb_npcs := AList.update m (AList.update local_id (f old) npcs) (wb_npcs w)\<rparr>)"

definition has_value :: "'v knowledge option \<Rightarrow> bool" where
  "has_value k = (case k of None \<Rightarrow> False | Some k \<Rightarrow> kn_value k \<noteq> None)"

definition knows :: "world_belief \<Rightarrow> fact \<Rightarrow> bool" where
  "knows w f = (case f of
     Flag_Fact flag \<Rightarrow> has_value (map_of (wb_flags w) flag)
   | Var_Fact var \<Rightarrow> has_value (map_of (wb_vars w) var)
   | Visited_Fact visited \<Rightarrow> has_value (map_of (wb_visited w) visited))"

definition needs :: "world_belief \<Rightarrow> fact list \<Rightarrow> fact list" where
  "needs w facts = filter (\<lambda>f. \<not> knows w f) facts"

text \<open>A path run again moves to the end; the oldest fall off beyond the bound. \<open>remove1\<close> takes away
  the first occurrence, as \<open>position\<close> and \<open>remove\<close> do.\<close>

definition record_path :: "string \<Rightarrow> nat \<Rightarrow> world_belief \<Rightarrow> world_belief" where
  "record_path script path w =
    (if (script, path) \<in> set (wb_paths_run w)
     then w\<lparr>wb_paths_run := remove1 (script, path) (wb_paths_run w) @ [(script, path)]\<rparr>
     else let run = wb_paths_run w @ [(script, path)] in
       w\<lparr>wb_paths_run := drop (length run - PATHS_RUN_KEPT) run\<rparr>)"

definition track :: "'v knowledge option \<Rightarrow> 'v \<Rightarrow> 'v knowledge option" where
  "track current v =
    (case current of
       Some k \<Rightarrow> if kn_source k = Observed \<and> kn_value k = Some v then None else Some (tracked v (kn_frame k))
     | None \<Rightarrow> Some (tracked v None))"

text \<open>What is asked of the belief afterwards is the value tracked, and an observation of it stays one.\<close>

lemma track_value:
  "kn_value (or_unknown (case track (map_of fs name) v of
      None \<Rightarrow> map_of fs name | Some k \<Rightarrow> map_of (AList.update name k fs) name)) = Some v"
  by (auto simp: track_def or_unknown_def update_Some_unfold split: option.splits)

lemma needs_knows: "set (needs w facts) \<inter> {f. knows w f} = {}" "f \<in> set facts \<Longrightarrow> knows w f \<or> f \<in> set (needs w facts)"
  by (auto simp: needs_def)

lemma change_npc_frame:
  "npc (change_npc m i f w) m' i' =
    (if m' = m \<and> i' = i then Some (f (case npc w m i of None \<Rightarrow> default_npc | Some n \<Rightarrow> n)) else npc w m' i')"
  by (auto simp: npc_def change_npc_def Let_def update_conv' split: option.split)

lemma in_tl: "x \<in> set (tl xs) \<Longrightarrow> x \<in> set xs"
  by (cases xs) auto

lemma record_path_last: "last (wb_paths_run (record_path s p w)) = (s, p)"
  by (simp add: record_path_def Let_def PATHS_RUN_KEPT_def last_drop)

text \<open>The record of the script paths run holds each path once and at most 256 of them; recording
  a path puts it at the end, forgets no other path as long as there is room or the path was recorded
  already, and otherwise forgets only the oldest.\<close>

lemma record_path_distinct:
  assumes "distinct (wb_paths_run w)" "length (wb_paths_run w) \<le> 256"
  shows "distinct (wb_paths_run (record_path s p w)) \<and> length (wb_paths_run (record_path s p w)) \<le> 256 \<and>
    wb_paths_run (record_path s p w) =
      (if length (wb_paths_run w) = 256 \<and> (s, p) \<notin> set (wb_paths_run w) then tl (wb_paths_run w)
       else removeAll (s, p) (wb_paths_run w)) @ [(s, p)]"
proof (cases "(s, p) \<in> set (wb_paths_run w)")
  case True
  then show ?thesis using assms length_pos_if_in_set [OF True]
    by (simp add: record_path_def length_remove1 flip: distinct_remove1_removeAll)
next
  case False
  then have "removeAll (s, p) (wb_paths_run w) = wb_paths_run w" by simp
  moreover have "drop (length (wb_paths_run w) + 1 - 256) (wb_paths_run w @ [(s, p)]) =
      (if length (wb_paths_run w) = 256 then tl (wb_paths_run w) else wb_paths_run w) @ [(s, p)]"
    using assms(2) by (auto simp: drop_Suc)
  ultimately show ?thesis
    using False assms by (auto simp: record_path_def Let_def PATHS_RUN_KEPT_def distinct_tl dest: in_tl)
qed

end
