(* ===== verification/Decimal.thy ===== *)
theory Decimal
  imports Main
begin

text \<open>
  Decimal numerals as Rust's \<open>to_string\<close>, \<open>format!\<close> and \<open>str::parse\<close> treat them: printing a natural
  number, printing it padded with zeros, and parsing an unsigned integer of bounded value, with the
  optional plus sign \<open>parse\<close> admits.
\<close>

definition digit :: "nat \<Rightarrow> char" where
  "digit d = char_of (48 + d)"

definition digit_value :: "char \<Rightarrow> nat option" where
  "digit_value c = (let v = (of_char c :: nat) in if 48 \<le> v \<and> v \<le> 57 then Some (v - 48) else None)"

fun decimal :: "nat \<Rightarrow> string" where
  "decimal n = (if n < 10 then [digit n] else decimal (n div 10) @ [digit (n mod 10)])"

declare decimal.simps [simp del]

definition decimal_padded :: "nat \<Rightarrow> nat \<Rightarrow> string" where
  "decimal_padded width n = replicate (width - length (decimal n)) (CHR ''0'') @ decimal n"

fun parse_digits :: "nat \<Rightarrow> string \<Rightarrow> nat option" where
  "parse_digits acc [] = Some acc"
| "parse_digits acc (c # cs) = (case digit_value c of None \<Rightarrow> None | Some d \<Rightarrow> parse_digits (acc * 10 + d) cs)"

text \<open>\<open>s.parse()\<close> into an unsigned type with the given greatest value.\<close>

definition parse_unsigned :: "nat \<Rightarrow> string \<Rightarrow> nat option" where
  "parse_unsigned greatest s =
    (let ds = (case s of c # cs \<Rightarrow> if c = CHR ''+'' then cs else s | [] \<Rightarrow> s) in
     if ds = [] then None
     else case parse_digits 0 ds of None \<Rightarrow> None | Some n \<Rightarrow> if n \<le> greatest then Some n else None)"

lemma digit_value_digit [simp]: "d < 10 \<Longrightarrow> digit_value (digit d) = Some d"
  by (simp add: digit_value_def digit_def)

lemma parse_digits_append:
  "parse_digits acc (xs @ ys) = (case parse_digits acc xs of None \<Rightarrow> None | Some n \<Rightarrow> parse_digits n ys)"
  by (induction acc xs rule: parse_digits.induct) (auto split: option.split)

lemma parse_digits_zeros: "parse_digits 0 (replicate k (CHR ''0'') @ ds) = parse_digits 0 ds"
  by (induction k) (simp_all add: digit_value_def)

lemma parse_digits_decimal: "parse_digits 0 (decimal n) = Some n"
proof (induction n rule: decimal.induct)
  case (1 n)
  then show ?case by (subst decimal.simps) (simp add: parse_digits_append)
qed

lemma decimal_nonempty [simp]: "decimal n \<noteq> []"
  by (subst decimal.simps) simp

lemma digit_not_plus: "d < 10 \<Longrightarrow> digit d \<noteq> CHR ''+''"
  using digit_value_digit [of d] by (auto simp: digit_value_def)

lemma decimal_head: "\<exists>d ds. decimal n = digit d # ds \<and> d < 10"
proof (induction n rule: decimal.induct)
  case (1 n)
  show ?case
  proof (cases "n < 10")
    case True
    then show ?thesis by (subst decimal.simps) auto
  next
    case False
    with 1 obtain d ds where "decimal (n div 10) = digit d # ds" "d < 10" by blast
    then show ?thesis using False by (subst decimal.simps) auto
  qed
qed

lemma parse_decimal: "n \<le> greatest \<Longrightarrow> parse_unsigned greatest (decimal n) = Some n"
  using parse_digits_decimal [of n] decimal_head [of n] digit_not_plus
  by (auto simp: parse_unsigned_def Let_def)

lemma parse_decimal_padded: "n \<le> greatest \<Longrightarrow> parse_unsigned greatest (decimal_padded w n) = Some n"
proof -
  assume n: "n \<le> greatest"
  have "decimal_padded w n \<noteq> []" by (simp add: decimal_padded_def)
  moreover have "hd (decimal_padded w n) \<noteq> CHR ''+''"
    using decimal_head [of n] digit_not_plus by (cases "w - length (decimal n)") (auto simp: decimal_padded_def)
  moreover have "parse_digits 0 (decimal_padded w n) = Some n"
    by (simp add: decimal_padded_def parse_digits_zeros parse_digits_decimal)
  ultimately show ?thesis
    using n by (cases "decimal_padded w n") (auto simp: parse_unsigned_def Let_def)
qed

end
