(* ===== verification/Game_State.thy ===== *)
theory Game_State
  imports Belief Effort Controller Decimal
begin

text \<open>
  Everything the bot believes about the game (crates/state/src/state.rs) and its parts: the members of
  the party and the details read on their summary pages (party.rs), the bag, the PC boxes and the
  Pokedex (inventory.rs), what the screen shows (view.rs, screen.rs), and the knowledge stored with a
  save.
\<close>

section \<open>The party\<close>

datatype status = Healthy | Poisoned | Badly_Poisoned | Burned | Paralyzed | Asleep | Frozen | Fainted

record move_slot =
  ms_mv :: "string knowledge"
  ms_pp :: "(nat \<times> nat) knowledge"

record summary_details =
  sd_trainer_id :: "string option"
  sd_original_trainer :: "string option"
  sd_attack :: "nat option"
  sd_defense :: "nat option"
  sd_sp_attack :: "nat option"
  sd_sp_defense :: "nat option"
  sd_speed :: "nat option"
  sd_exp_points :: "nat option"
  sd_next_level :: "nat option"
  sd_ability :: "string option"
  sd_nature :: "string option"

record pokemon_details =
  pd_trainer_id :: "string knowledge"
  pd_original_trainer :: "string knowledge"
  pd_attack :: "nat knowledge"
  pd_defense :: "nat knowledge"
  pd_sp_attack :: "nat knowledge"
  pd_sp_defense :: "nat knowledge"
  pd_speed :: "nat knowledge"
  pd_exp_points :: "nat knowledge"
  pd_next_level :: "nat knowledge"
  pd_ability :: "string knowledge"
  pd_nature :: "string knowledge"

record party_detail_change =
  dc_frame :: nat
  dc_level :: "nat option"
  dc_field :: string
  dc_from :: "string option"
  dc_to :: string

record party_mon =
  pm_species :: "string knowledge"
  pm_nickname :: "string knowledge"
  pm_level :: "nat knowledge"
  pm_hp :: "(nat \<times> nat) knowledge"
  pm_status :: "status knowledge"
  pm_moves :: "move_slot option list"
  pm_held_item :: "string option knowledge"
  pm_shiny :: "bool knowledge"
  pm_details :: pokemon_details
  pm_history :: "party_detail_change list"
  pm_training :: training

definition default_details :: pokemon_details where
  "default_details =
    \<lparr>pd_trainer_id = unknown, pd_original_trainer = unknown, pd_attack = unknown, pd_defense = unknown,
     pd_sp_attack = unknown, pd_sp_defense = unknown, pd_speed = unknown, pd_exp_points = unknown,
     pd_next_level = unknown, pd_ability = unknown, pd_nature = unknown\<rparr>"

definition default_reading :: summary_details where
  "default_reading =
    \<lparr>sd_trainer_id = None, sd_original_trainer = None, sd_attack = None, sd_defense = None,
     sd_sp_attack = None, sd_sp_defense = None, sd_speed = None, sd_exp_points = None,
     sd_next_level = None, sd_ability = None, sd_nature = None\<rparr>"

definition default_mon :: party_mon where
  "default_mon =
    \<lparr>pm_species = unknown, pm_nickname = unknown, pm_level = unknown, pm_hp = unknown,
     pm_status = unknown, pm_moves = replicate 4 None, pm_held_item = unknown, pm_shiny = unknown,
     pm_details = default_details, pm_history = [], pm_training = default_training\<rparr>"

definition reading_of :: "pokemon_details \<Rightarrow> summary_details" where
  "reading_of d =
    \<lparr>sd_trainer_id = kn_value (pd_trainer_id d), sd_original_trainer = kn_value (pd_original_trainer d),
     sd_attack = kn_value (pd_attack d), sd_defense = kn_value (pd_defense d),
     sd_sp_attack = kn_value (pd_sp_attack d), sd_sp_defense = kn_value (pd_sp_defense d),
     sd_speed = kn_value (pd_speed d), sd_exp_points = kn_value (pd_exp_points d),
     sd_next_level = kn_value (pd_next_level d), sd_ability = kn_value (pd_ability d),
     sd_nature = kn_value (pd_nature d)\<rparr>"

definition reading_values :: "summary_details \<Rightarrow> (string \<times> string option) list" where
  "reading_values d =
    [(''trainer_id'', sd_trainer_id d), (''original_trainer'', sd_original_trainer d),
     (''attack'', map_option decimal (sd_attack d)), (''defense'', map_option decimal (sd_defense d)),
     (''sp_attack'', map_option decimal (sd_sp_attack d)), (''sp_defense'', map_option decimal (sd_sp_defense d)),
     (''speed'', map_option decimal (sd_speed d)), (''exp_points'', map_option decimal (sd_exp_points d)),
     (''next_level'', map_option decimal (sd_next_level d)), (''ability'', sd_ability d),
     (''nature'', sd_nature d)]"

text \<open>The \<open>observe!\<close> macro for one field: what is known of it afterwards, and the history.\<close>

definition observe_field :: "nat \<Rightarrow> nat option \<Rightarrow> string \<Rightarrow> ('a \<Rightarrow> string) \<Rightarrow> 'a option
    \<Rightarrow> 'a knowledge \<times> party_detail_change list \<Rightarrow> 'a knowledge \<times> party_detail_change list" where
  "observe_field frame level field show reading = (\<lambda>(known, history).
    case reading of
      None \<Rightarrow> (known, history)
    | Some v \<Rightarrow>
        (observed v frame,
         if kn_value known \<noteq> Some v
         then history @ [\<lparr>dc_frame = frame, dc_level = level, dc_field = field,
           dc_from = map_option show (kn_value known), dc_to = show v\<rparr>]
         else history))"

definition HISTORY_KEPT :: nat where "HISTORY_KEPT = 512"

definition observe_details :: "summary_details \<Rightarrow> nat \<Rightarrow> party_mon \<Rightarrow> party_mon" where
  "observe_details r frame m =
    (let d = pm_details m; level = kn_value (pm_level m); text = (\<lambda>s. s);
         (trainer_id, h) = observe_field frame level ''trainer_id'' text (sd_trainer_id r) (pd_trainer_id d, pm_history m);
         (original, h) = observe_field frame level ''original_trainer'' text (sd_original_trainer r) (pd_original_trainer d, h);
         (attack, h) = observe_field frame level ''attack'' decimal (sd_attack r) (pd_attack d, h);
         (defense, h) = observe_field frame level ''defense'' decimal (sd_defense r) (pd_defense d, h);
         (sp_attack, h) = observe_field frame level ''sp_attack'' decimal (sd_sp_attack r) (pd_sp_attack d, h);
         (sp_defense, h) = observe_field frame level ''sp_defense'' decimal (sd_sp_defense r) (pd_sp_defense d, h);
         (speed, h) = observe_field frame level ''speed'' decimal (sd_speed r) (pd_speed d, h);
         (exp_points, h) = observe_field frame level ''exp_points'' decimal (sd_exp_points r) (pd_exp_points d, h);
         (next_level, h) = observe_field frame level ''next_level'' decimal (sd_next_level r) (pd_next_level d, h);
         (ability, h) = observe_field frame level ''ability'' text (sd_ability r) (pd_ability d, h);
         (nature, h) = observe_field frame level ''nature'' text (sd_nature r) (pd_nature d, h) in
     m\<lparr>pm_details := \<lparr>pd_trainer_id = trainer_id, pd_original_trainer = original, pd_attack = attack,
         pd_defense = defense, pd_sp_attack = sp_attack, pd_sp_defense = sp_defense, pd_speed = speed,
         pd_exp_points = exp_points, pd_next_level = next_level, pd_ability = ability, pd_nature = nature\<rparr>,
       pm_history := drop (length h - HISTORY_KEPT) h\<rparr>)"

text \<open>Two readings of an identity agree unless both are known and differ.\<close>

definition may_agree :: "'a knowledge \<Rightarrow> 'a knowledge \<Rightarrow> bool" where
  "may_agree a b \<longleftrightarrow> kn_value a = None \<or> kn_value b = None \<or> kn_value a = kn_value b"

definition matches_member :: "party_mon \<Rightarrow> party_mon \<Rightarrow> bool" where
  "matches_member m other \<longleftrightarrow>
    kn_value (pm_nickname m) \<noteq> None \<and> kn_value (pm_nickname m) = kn_value (pm_nickname other) \<and>
    kn_value (pm_species m) = kn_value (pm_species other) \<and>
    may_agree (pd_trainer_id (pm_details m)) (pd_trainer_id (pm_details other)) \<and>
    may_agree (pd_original_trainer (pm_details m)) (pd_original_trainer (pm_details other))"

section \<open>Bag, PC and Pokedex\<close>

definition BOXES :: nat where "BOXES = 14"

datatype pocket = Items | Key_Items | Poke_Balls | Tm_Case | Berry_Pouch

definition all_pockets :: "pocket list" where
  "all_pockets = [Items, Key_Items, Poke_Balls, Tm_Case, Berry_Pouch]"

definition pocket_from_decomp :: "string \<Rightarrow> pocket option" where
  "pocket_from_decomp name =
    (if name = ''POCKET_ITEMS'' then Some Items
     else if name = ''POCKET_KEY_ITEMS'' then Some Key_Items
     else if name = ''POCKET_POKE_BALLS'' then Some Poke_Balls
     else if name = ''POCKET_TM_CASE'' then Some Tm_Case
     else if name = ''POCKET_BERRY_POUCH'' then Some Berry_Pouch
     else None)"

type_synonym item_list = "(string \<times> nat) list"
type_synonym bag = "(pocket \<times> item_list knowledge) list"

definition default_bag :: bag where
  "default_bag = map (\<lambda>p. (p, unknown)) all_pockets"

record box_mon =
  bx_slot :: nat
  bx_species :: "string knowledge"
  bx_level :: "nat knowledge"
  bx_nickname :: "string knowledge"
  bx_training :: training

record pc_storage =
  pc_boxes :: "box_mon list knowledge list"
  pc_items :: "item_list knowledge"

definition default_pc :: pc_storage where
  "default_pc = \<lparr>pc_boxes = replicate BOXES unknown, pc_items = unknown\<rparr>"

record pokedex_counts =
  px_seen :: "nat option"
  px_caught :: nat

record pokedex =
  dx_caught_species :: "bool facts"
  dx_seen_species :: "bool facts"
  dx_counts :: "pokedex_counts knowledge"

section \<open>The state\<close>

datatype gender = Boy | Girl

record progression =
  pr_gender :: "gender knowledge"
  pr_player_name :: "string knowledge"
  pr_rival_name :: "string knowledge"
  pr_in_control :: "bool knowledge"
  pr_badges :: "string list knowledge"
  pr_badge_count :: "nat knowledge"
  pr_badge_inference :: "string list knowledge"

definition default_progression :: progression where
  "default_progression =
    \<lparr>pr_gender = unknown, pr_player_name = unknown, pr_rival_name = unknown, pr_in_control = unknown,
     pr_badges = unknown, pr_badge_count = unknown, pr_badge_inference = unknown\<rparr>"

record saved_knowledge =
  sk_progression :: progression
  sk_party :: "party_mon list knowledge"
  sk_bag :: bag
  sk_money :: "nat knowledge"
  sk_pc :: pc_storage
  sk_pokedex :: pokedex
  sk_world :: world_belief
  sk_handicaps :: "(string \<times> nat) list"

datatype screen_state =
  Title_Screen | Main_Menu | Info_Page | Menu_Screen | Overworld | Dialogue_Screen | Start_Menu | Bag_Screen
| Party_Menu | Pokemon_Summary | Pokemon_Moves | Pc_Screen | Shop_Screen | Pokemon_Center
| Daycare_Dialogue | Battle_Intro | Battle_Text | Battle_Command | Battle_Move_Selection
| Battle_Pokemon_Selection | Battle_Bag | Evolution_Screen | Learn_Move | Egg_Hatching | Naming_Screen
| Save_Menu | Transition_Screen | Intro_Screen | Quest_Log | Whiteout_Screen | Unknown_Screen

record player_pose =
  pp_map :: string
  pp_x :: int
  pp_y :: int

datatype synchronization_state = Unsynchronized | Synchronized | Desynchronized

record input_state =
  is_commands_issued :: nat
  is_last_command :: "controller_command option"
  is_last_command_frame :: "nat option"

record goal_status =
  gs_goal :: string
  gs_phase :: string
  gs_detail :: string

record player_state =
  pl_pose :: "player_pose knowledge"
  pl_candidates :: "player_pose list"

record menu_view =
  mv_rows :: "string list"
  mv_cursor :: nat

text \<open>The reading of a shiny (a colour measure of the vision crate) is a parameter type.\<close>

record 'shiny opponent_view =
  ov_species :: "string option"
  ov_name :: string
  ov_level :: "nat option"
  ov_hp :: "nat option"
  ov_caught :: "bool option"
  ov_shiny :: "'shiny option"

record visible_npc =
  vn_map :: string
  vn_x :: int
  vn_y :: int
  vn_local_id :: "nat option"
  vn_facing :: "direction option"

definition same_npc :: "visible_npc \<Rightarrow> visible_npc \<Rightarrow> bool" where
  "same_npc a b \<longleftrightarrow> vn_local_id a \<noteq> None \<and> vn_local_id a = vn_local_id b \<and> vn_map a = vn_map b"

definition near_npc :: "visible_npc \<Rightarrow> visible_npc \<Rightarrow> bool" where
  "near_npc a b \<longleftrightarrow> vn_map a = vn_map b \<and> \<bar>vn_x a - vn_x b\<bar> + \<bar>vn_y a - vn_y b\<bar> \<le> 1"

record 'shiny view_state =
  vs_text :: "string list option"
  vs_menu :: "menu_view option"
  vs_opponent :: "'shiny opponent_view option"
  vs_npcs :: "visible_npc list"
  vs_map_popup :: "string option"

record 'shiny game_state =
  st_screen :: "screen_state knowledge"
  st_synchronization :: synchronization_state
  st_input :: input_state
  st_dropped_by_card :: nat
  st_dropped_by_processing :: nat
  st_progression :: progression
  st_player :: player_state
  st_in_battle :: bool
  st_active_goal :: "goal_status option"
  st_party :: "party_mon list knowledge"
  st_bag :: bag
  st_money :: "nat knowledge"
  st_pc :: pc_storage
  st_pokedex :: pokedex
  st_world :: world_belief
  st_view :: "'shiny view_state"

definition default_state :: "'shiny game_state" where
  "default_state =
    \<lparr>st_screen = unknown, st_synchronization = Unsynchronized,
     st_input = \<lparr>is_commands_issued = 0, is_last_command = None, is_last_command_frame = None\<rparr>,
     st_dropped_by_card = 0, st_dropped_by_processing = 0, st_progression = default_progression,
     st_player = \<lparr>pl_pose = unknown, pl_candidates = []\<rparr>, st_in_battle = False, st_active_goal = None,
     st_party = unknown, st_bag = default_bag, st_money = unknown, st_pc = default_pc,
     st_pokedex = \<lparr>dx_caught_species = [], dx_seen_species = [], dx_counts = unknown\<rparr>,
     st_world = default_world_belief,
     st_view = \<lparr>vs_text = None, vs_menu = None, vs_opponent = None, vs_npcs = [], vs_map_popup = None\<rparr>\<rparr>"

definition saved_knowledge_of :: "'shiny game_state \<Rightarrow> saved_knowledge" where
  "saved_knowledge_of s =
    \<lparr>sk_progression = (st_progression s)\<lparr>pr_in_control := unknown\<rparr>, sk_party = st_party s,
     sk_bag = st_bag s, sk_money = st_money s, sk_pc = st_pc s, sk_pokedex = st_pokedex s,
     sk_world = (st_world s)\<lparr>wb_infeasible := {}\<rparr>, sk_handicaps = []\<rparr>"

end
