(* ===== verification/Badges.thy ===== *)
theory Badges
  imports Game_State
begin

text \<open>
  The gym badges (crates/state/src/badges.rs): the list shown to the viewer kept in agreement with the
  eight event flags the planner asks, and what the total printed on the save panel says about them.
\<close>

definition BADGES :: "(string \<times> string) list" where
  "BADGES =
    [(''FLAG_BADGE01_GET'', ''BOULDERBADGE''), (''FLAG_BADGE02_GET'', ''CASCADEBADGE''),
     (''FLAG_BADGE03_GET'', ''THUNDERBADGE''), (''FLAG_BADGE04_GET'', ''RAINBOWBADGE''),
     (''FLAG_BADGE05_GET'', ''SOULBADGE''), (''FLAG_BADGE06_GET'', ''MARSHBADGE''),
     (''FLAG_BADGE07_GET'', ''VOLCANOBADGE''), (''FLAG_BADGE08_GET'', ''EARTHBADGE'')]"

type_synonym 'shiny state = "'shiny game_state"

definition change_progression :: "(progression \<Rightarrow> progression) \<Rightarrow> 'shiny state \<Rightarrow> 'shiny state" where
  "change_progression f s = s\<lparr>st_progression := f (st_progression s)\<rparr>"

definition change_world :: "(world_belief \<Rightarrow> world_belief) \<Rightarrow> 'shiny state \<Rightarrow> 'shiny state" where
  "change_world f s = s\<lparr>st_world := f (st_world s)\<rparr>"

definition flag_knowledge :: "'shiny state \<Rightarrow> string \<Rightarrow> bool knowledge option" where
  "flag_knowledge s flag = map_of (wb_flags (st_world s)) flag"

text \<open>The names of the badges whose flag is known to be set, in the order of the trainer card.\<close>

definition earned :: "'shiny state \<Rightarrow> string list" where
  "earned s = map snd (filter (\<lambda>(flag, name).
    case flag_knowledge s flag of None \<Rightarrow> False | Some k \<Rightarrow> kn_value k = Some True) BADGES)"

definition sync_badges :: "nat \<Rightarrow> 'shiny state \<Rightarrow> 'shiny state" where
  "sync_badges frame s =
    (let flags = map (\<lambda>(flag, _). flag_knowledge s flag) BADGES in
     if list_all (\<lambda>k. \<not> has_value k) flags then s
     else
       let badges = earned s;
           source = (if list_all (\<lambda>k. kn_source k = Observed) (List.map_filter (\<lambda>k. k) flags)
             then Observed else Derived);
           s1 = change_progression (\<lambda>p. p\<lparr>pr_badges :=
               \<lparr>kn_value = Some badges, kn_source = source, kn_frame = Some frame\<rparr>\<rparr>) s in
       if list_all has_value flags
       then change_progression (\<lambda>p. p\<lparr>pr_badge_count := derived (length badges) frame,
              pr_badge_inference := unknown\<rparr>) s1
       else s1)"

definition remove_flags :: "string list \<Rightarrow> 'shiny state \<Rightarrow> 'shiny state" where
  "remove_flags flags s = change_world (\<lambda>w. w\<lparr>wb_flags := fold AList.delete flags (wb_flags w)\<rparr>) s"

definition insert_flag :: "string \<Rightarrow> bool knowledge \<Rightarrow> 'shiny state \<Rightarrow> 'shiny state" where
  "insert_flag flag k s = change_world (\<lambda>w. w\<lparr>wb_flags := AList.update flag k (wb_flags w)\<rparr>) s"

definition confirmed_badges :: "'shiny state \<Rightarrow> string list" where
  "confirmed_badges s = (case kn_value (pr_badges (st_progression s)) of None \<Rightarrow> [] | Some bs \<Rightarrow> bs)"

text \<open>The flags that contradict a total: all of them when it is smaller than what was confirmed, the
  negative ones when it is larger.\<close>

definition drop_stale :: "nat \<Rightarrow> 'shiny state \<Rightarrow> 'shiny state" where
  "drop_stale count s =
    (let confirmed = length (confirmed_badges s) in
     if count < confirmed then
       change_progression (\<lambda>p. p\<lparr>pr_badges := unknown\<rparr>) (remove_flags (map fst BADGES) s)
     else if count > confirmed then
       remove_flags (filter (\<lambda>flag. case flag_knowledge s flag of
           None \<Rightarrow> False | Some k \<Rightarrow> kn_value k = Some False) (map fst BADGES)) s
     else s)"

definition settle_total :: "nat \<Rightarrow> nat \<Rightarrow> 'shiny state \<Rightarrow> 'shiny state" where
  "settle_total count frame s =
    (if count = 0 \<or> count = 8
     then sync_badges frame (fold (\<lambda>(flag, _). insert_flag flag (derived (count = 8) frame)) BADGES s)
     else s)"

definition infer_first :: "nat \<Rightarrow> nat \<Rightarrow> 'shiny state \<Rightarrow> 'shiny state" where
  "infer_first count frame s =
    (if count = 1 \<or> count = 7 then
       let inferred = map snd (take count BADGES); confirmed = confirmed_badges s in
       if length confirmed < count \<and> list_all (\<lambda>b. b \<in> set inferred) confirmed
       then change_progression (\<lambda>p. p\<lparr>pr_badge_inference :=
              \<lparr>kn_value = Some inferred, kn_source = Assumed, kn_frame = Some frame\<rparr>\<rparr>) s
       else s
     else s)"

definition observe_count :: "nat \<Rightarrow> nat \<Rightarrow> 'shiny state \<Rightarrow> 'shiny state" where
  "observe_count count frame s =
    (if count > 8 then s
     else infer_first count frame
       (change_progression (\<lambda>p. p\<lparr>pr_badge_count := observed count frame, pr_badge_inference := unknown\<rparr>)
         (settle_total count frame (drop_stale count s))))"

section \<open>The list agrees with the flags\<close>

text \<open>While any of the eight flags is known, the list holds exactly the badges known to be set.\<close>

definition badges_agree :: "'shiny state \<Rightarrow> bool" where
  "badges_agree s \<longleftrightarrow> ((\<exists>flag \<in> fst ` set BADGES. has_value (flag_knowledge s flag)) \<longrightarrow>
    kn_value (pr_badges (st_progression s)) = Some (earned s))"

lemma change_simps [simp]:
  "st_progression (change_progression f s) = f (st_progression s)"
  "st_world (change_progression f s) = st_world s"
  "st_world (change_world g s) = g (st_world s)"
  "st_progression (change_world g s) = st_progression s"
  by (simp_all add: change_progression_def change_world_def)

lemma flag_knowledge_change [simp]:
  "flag_knowledge (change_progression f s) = flag_knowledge s"
  "flag_knowledge (insert_flag flag k s) = (flag_knowledge s)(flag \<mapsto> k)"
  by (simp_all add: flag_knowledge_def insert_flag_def fun_eq_iff update_conv')

lemma earned_local:
  assumes "\<And>f. f \<in> fst ` set BADGES \<Longrightarrow> flag_knowledge s f = flag_knowledge s' f"
  shows "earned s = earned s'"
proof -
  have "flag_knowledge s (fst b) = flag_knowledge s' (fst b)" if "b \<in> set BADGES" for b
    using assms that by blast
  then have "filter (\<lambda>b. case flag_knowledge s (fst b) of None \<Rightarrow> False | Some k \<Rightarrow> kn_value k = Some True) BADGES =
    filter (\<lambda>b. case flag_knowledge s' (fst b) of None \<Rightarrow> False | Some k \<Rightarrow> kn_value k = Some True) BADGES"
    by (intro filter_cong) simp_all
  then show ?thesis by (simp add: earned_def case_prod_unfold)
qed

lemma earned_cong: "flag_knowledge s = flag_knowledge s' \<Longrightarrow> earned s = earned s'"
  by (rule earned_local) simp

lemma sync_flags [simp]: "flag_knowledge (sync_badges frame s) = flag_knowledge s"
  by (simp add: sync_badges_def Let_def)

lemma sync_agrees: "badges_agree (sync_badges frame s)"
proof (cases "list_all (\<lambda>k. \<not> has_value k) (map (\<lambda>(flag, _). flag_knowledge s flag) BADGES)")
  case True
  then have "\<not> (\<exists>flag \<in> fst ` set BADGES. has_value (flag_knowledge s flag))"
    by (auto simp: list_all_iff)
  then show ?thesis by (simp add: badges_agree_def)
next
  case False
  then have "kn_value (pr_badges (st_progression (sync_badges frame s))) = Some (earned s)"
    by (simp add: sync_badges_def Let_def)
  then show ?thesis using earned_cong [of "sync_badges frame s" s] by (simp add: badges_agree_def)
qed

lemma agree_cong:
  assumes "badges_agree s" "flag_knowledge s' = flag_knowledge s"
    "pr_badges (st_progression s') = pr_badges (st_progression s)"
  shows "badges_agree s'"
  using assms earned_cong [of s' s] by (simp add: badges_agree_def)

lemma insert_other_flag:
  assumes "badges_agree s" "flag \<notin> fst ` set BADGES"
  shows "badges_agree (insert_flag flag k s)"
proof -
  have k: "flag_knowledge (insert_flag flag k s) f = flag_knowledge s f" if "f \<in> fst ` set BADGES" for f
    using assms(2) that by auto
  then have "earned (insert_flag flag k s) = earned s" by (rule earned_local)
  moreover have "st_progression (insert_flag flag k s) = st_progression s" by (simp add: insert_flag_def)
  ultimately show ?thesis
    using assms(1) k unfolding badges_agree_def by (metis (no_types, lifting))
qed

lemma map_of_fold_delete:
  "map_of (fold AList.delete ks al) k = (if k \<in> set ks then None else map_of al k)"
  by (induction ks arbitrary: al) (auto simp: delete_conv')

lemma flag_knowledge_remove:
  "flag_knowledge (remove_flags flags s) f = (if f \<in> set flags then None else flag_knowledge s f)"
  by (simp add: flag_knowledge_def remove_flags_def map_of_fold_delete)

lemma remove_flags_progression [simp]: "st_progression (remove_flags flags s) = st_progression s"
  by (simp add: remove_flags_def)

text \<open>Taking away flags that are not set keeps the agreement.\<close>

lemma remove_unset_agrees:
  assumes "badges_agree s"
    and "\<And>f. f \<in> set flags \<Longrightarrow> f \<in> fst ` set BADGES \<Longrightarrow>
      (case flag_knowledge s f of None \<Rightarrow> True | Some k \<Rightarrow> kn_value k \<noteq> Some True)"
  shows "badges_agree (remove_flags flags s)"
proof -
  have "(case flag_knowledge (remove_flags flags s) (fst b) of None \<Rightarrow> False | Some k \<Rightarrow> kn_value k = Some True) =
    (case flag_knowledge s (fst b) of None \<Rightarrow> False | Some k \<Rightarrow> kn_value k = Some True)" if "b \<in> set BADGES" for b
    using assms(2) [of "fst b"] that by (auto simp: flag_knowledge_remove split: option.splits)
  then have "earned (remove_flags flags s) = earned s"
    unfolding earned_def case_prod_unfold by (intro arg_cong [where f = "map snd"] filter_cong) simp_all
  then show ?thesis using assms(1) by (auto simp: badges_agree_def flag_knowledge_remove has_value_def)
qed

lemma drop_stale_agrees:
  assumes "badges_agree s"
  shows "badges_agree (drop_stale count s)"
proof -
  have "badges_agree (change_progression f (remove_flags (map fst BADGES) s))" for f
    by (auto simp: badges_agree_def flag_knowledge_remove has_value_def)
  moreover have "badges_agree (remove_flags (filter (\<lambda>flag. case flag_knowledge s flag of
      None \<Rightarrow> False | Some k \<Rightarrow> kn_value k = Some False) (map fst BADGES)) s)"
    by (rule remove_unset_agrees [OF assms]) (auto split: option.splits)
  ultimately show ?thesis using assms by (simp add: drop_stale_def Let_def)
qed

lemma settle_total_agrees: "badges_agree s \<Longrightarrow> badges_agree (settle_total count frame s)"
  by (simp add: settle_total_def sync_agrees)

lemma infer_first_agrees: "badges_agree s \<Longrightarrow> badges_agree (infer_first count frame s)"
  by (auto simp: infer_first_def Let_def intro: agree_cong)

lemma observe_count_agrees:
  assumes "badges_agree s"
  shows "badges_agree (observe_count count frame s)"
proof -
  let ?s = "settle_total count frame (drop_stale count s)"
  have "badges_agree ?s" by (intro settle_total_agrees drop_stale_agrees assms)
  then have "badges_agree (change_progression
      (\<lambda>p. p\<lparr>pr_badge_count := observed count frame, pr_badge_inference := unknown\<rparr>) ?s)"
    by (rule agree_cong) simp_all
  then show ?thesis using assms by (simp add: observe_count_def infer_first_agrees)
qed

end
