(* ===== verification/Reducer.thy ===== *)
theory Reducer
  imports Badges
begin

text \<open>
  The reducer (crates/state/src/reducer.rs and reduce_knowledge.rs): events are the only input of the
  belief, and each changes it in one way. The events are those of crates/state/src/events.rs, in the
  order of the code. Indexing that Rust would refuse (a move slot over 3, a box over 13) is refused
  here the same way; sums of \<open>u16\<close>, \<open>u8\<close> and \<open>u64\<close> values are written with the wrap-around.
\<close>

section \<open>Events\<close>

datatype (plugins only:) 'shiny game_event =
  Screen_Changed screen_state screen_state string
| Input_Issued nat controller_command
| Goal_Progress string string string
| Goal_Finished string bool string
| Gender_Chosen gender
| Player_Named string
| Rival_Named string
| Control_Confirmed
| Game_Saved
| Battle_Started
| Battle_Ended
| Player_Located player_pose
| Player_Moved player_pose player_pose
| Map_Changed player_pose player_pose
| Player_Inferred player_pose "player_pose list"
| Location_Ambiguous "player_pose list"
| Frames_Dropped_By_Card nat nat nat
| Frames_Dropped_By_Processing nat nat nat
| Party_Mon_Derived nat party_mon
| Party_Audited "party_mon list"
| Party_Observed nat "string option" "string option" "nat option" "(nat \<times> nat) option" "status option"
    "string option option"
| Party_Details_Observed nat summary_details
| Badge_Count_Observed nat
| Party_Reordered "nat list"
| Moves_Observed nat "string list"
| Move_Pp_Observed nat nat nat nat
| Move_Used nat nat
| Move_Learned nat nat string nat
| Move_Replaced nat nat string string nat
| Move_Out_Of_Pp nat nat
| Evolved nat string
| Effort_Gained nat "string option" "nat option" "nat list option" nat
| Level_Up_Stats_Observed nat "nat list"
| Ivs_Estimated nat iv_estimate
| Healed
| Items_Changed pocket string int string
| Pocket_Observed pocket item_list
| Pocket_Rows_Observed pocket item_list
| Party_Size_Observed nat
| Money_Observed nat
| Money_Changed int string
| Box_Observed nat "box_mon list"
| Pc_Items_Observed item_list
| Sent_To_Pc "nat option" box_mon
| Mon_Deposited nat nat
| Mon_Withdrawn nat nat
| Species_Seen string
| Species_Caught string
| Pokedex_Count_Observed "nat option" nat
| Shiny_Seen string
| Badge_Earned string
| Checkpoint_Restored saved_knowledge
| Flag_Observed string bool
| Flag_Tracked string bool
| Var_Observed string nat
| Var_Tracked string nat
| Map_Visited string
| Respawn_Set string int int
| Escape_Warp_Set "escape_warp option"
| Npc_Seen string nat int int "direction option"
| Npc_Absent string nat
| Script_Path_Run string nat
| Script_Path_Retracted string nat "string list" "string list"
| Intent_Infeasible string
| Tile_Blocked string int int
| Tile_Unblocked string int int
| Whited_Out
| View_Observed "'shiny view_state"

record 'shiny event_record =
  ev_frame :: nat
  ev_event :: "'shiny game_event"

section \<open>Members and move slots\<close>

definition MAX_MONEY :: nat where "MAX_MONEY = 999999"

text \<open>\<open>member\<close>: the party becomes known, with the given provenance, and long enough for the slot; the
  member there is handed to the caller, who changes it.\<close>

definition grow_party :: "nat \<Rightarrow> party_mon list \<Rightarrow> party_mon list" where
  "grow_party slot ms = ms @ replicate (slot + 1 - length ms) default_mon"

definition known_party :: "knowledge_source \<Rightarrow> nat \<Rightarrow> party_mon list knowledge \<Rightarrow> party_mon list knowledge" where
  "known_party source frame k =
    (if kn_value k = None then \<lparr>kn_value = Some [], kn_source = source, kn_frame = Some frame\<rparr> else k)"

definition change_member :: "nat \<Rightarrow> knowledge_source \<Rightarrow> nat \<Rightarrow> (party_mon \<Rightarrow> party_mon)
    \<Rightarrow> 'shiny state \<Rightarrow> 'shiny state" where
  "change_member slot source frame f s =
    (let k = known_party source frame (st_party s);
         ms = grow_party slot (case kn_value k of None \<Rightarrow> [] | Some ms \<Rightarrow> ms) in
     s\<lparr>st_party := k\<lparr>kn_value := Some (ms[slot := f (ms ! slot)])\<rparr>\<rparr>)"

text \<open>\<open>move_slot_mut\<close>: nothing happens when the party, the member, the slot or its move is not known.\<close>

definition change_move :: "nat \<Rightarrow> nat \<Rightarrow> (move_slot \<Rightarrow> move_slot) \<Rightarrow> 'shiny state \<Rightarrow> 'shiny state" where
  "change_move slot move_slot f s =
    (case kn_value (st_party s) of
       None \<Rightarrow> s
     | Some ms \<Rightarrow>
         if slot < length ms \<and> move_slot < length (pm_moves (ms ! slot)) then
           (case pm_moves (ms ! slot) ! move_slot of
              None \<Rightarrow> s
            | Some mv \<Rightarrow>
                let m = (ms ! slot)\<lparr>pm_moves := (pm_moves (ms ! slot))[move_slot := Some (f mv)]\<rparr> in
                s\<lparr>st_party := (st_party s)\<lparr>kn_value := Some (ms[slot := m])\<rparr>\<rparr>)
         else s)"

definition change_training :: "(training \<Rightarrow> training) \<Rightarrow> party_mon \<Rightarrow> party_mon" where
  "change_training f m = m\<lparr>pm_training := f (pm_training m)\<rparr>"

definition stats_level :: "party_mon \<Rightarrow> nat option" where
  "stats_level m = (case tr_level (pm_training m) of Some l \<Rightarrow> Some l | None \<Rightarrow> kn_value (pm_level m))"

definition observe_stat :: "nat \<Rightarrow> nat \<Rightarrow> nat \<Rightarrow> party_mon \<Rightarrow> party_mon" where
  "observe_stat index v frame m =
    (case (kn_value (pm_species m), stats_level m) of
       (Some species, Some level) \<Rightarrow>
         change_training (observe_stats frame species level ((replicate 6 None)[index := Some v])) m
     | _ \<Rightarrow> m)"

definition observe_summary_stats :: "summary_details \<Rightarrow> nat \<Rightarrow> party_mon \<Rightarrow> party_mon" where
  "observe_summary_stats d frame m =
    (let m1 = (case (kn_value (pm_species m), stats_level m) of
           (Some species, Some level) \<Rightarrow>
             change_training (observe_stats frame species level
               [None, sd_attack d, sd_defense d, sd_speed d, sd_sp_attack d, sd_sp_defense d]) m
         | _ \<Rightarrow> m) in
     case sd_exp_points d of None \<Rightarrow> m1 | Some e \<Rightarrow> change_training (observe_exp e) m1)"

section \<open>Single events\<close>

text \<open>A member read through the summary pages keeps what was known of the one member it matches.\<close>

definition audit_member :: "party_mon list \<Rightarrow> party_mon list \<Rightarrow> nat \<Rightarrow> party_mon \<Rightarrow> party_mon" where
  "audit_member old members frame mon =
    (let matches = filter (\<lambda>m. matches_member m mon) old;
         reading = reading_of (pm_details mon);
         mon1 =
           (if length matches = 1 \<and> length (filter (\<lambda>m. matches_member m mon) members) = 1 then
              let before = hd matches;
                  m = observe_details reading frame
                    (mon\<lparr>pm_details := pm_details before, pm_history := pm_history before,
                      pm_training := pm_training before\<rparr>);
                  m = (case kn_value (pm_level m) of
                      None \<Rightarrow> m | Some level \<Rightarrow> change_training (level_seen level) m) in
              if kn_value (pm_species m) \<noteq> kn_value (pm_species before)
              then change_training recalculated m else m
            else mon);
         mon2 = observe_summary_stats reading frame mon1 in
     case kn_value (pm_hp mon2) of
       None \<Rightarrow> mon2
     | Some (_, most) \<Rightarrow> observe_stat 0 most frame mon2)"

definition observe_member :: "string option \<Rightarrow> string option \<Rightarrow> nat option \<Rightarrow> (nat \<times> nat) option
    \<Rightarrow> status option \<Rightarrow> string option option \<Rightarrow> nat \<Rightarrow> party_mon \<Rightarrow> party_mon" where
  "observe_member species nickname level hp status held_item frame m =
    (let m = (case species of None \<Rightarrow> m | Some v \<Rightarrow> m\<lparr>pm_species := observed v frame\<rparr>);
         m = (case nickname of None \<Rightarrow> m | Some v \<Rightarrow> m\<lparr>pm_nickname := observed v frame\<rparr>);
         m = (case level of None \<Rightarrow> m
           | Some v \<Rightarrow> (change_training (level_seen v) m)\<lparr>pm_level := observed v frame\<rparr>);
         m = (case hp of None \<Rightarrow> m
           | Some v \<Rightarrow> observe_stat 0 (snd v) frame (m\<lparr>pm_hp := observed v frame\<rparr>));
         m = (case status of None \<Rightarrow> m | Some v \<Rightarrow> m\<lparr>pm_status := observed v frame\<rparr>) in
     case held_item of None \<Rightarrow> m | Some v \<Rightarrow> m\<lparr>pm_held_item := observed v frame\<rparr>)"

text \<open>A complete move list: a move that stays in its slot keeps its PP.\<close>

definition observe_moves :: "string list \<Rightarrow> nat \<Rightarrow> party_mon \<Rightarrow> party_mon" where
  "observe_moves moves frame m =
    m\<lparr>pm_moves := map (\<lambda>i.
      if i < length moves then
        Some \<lparr>ms_mv = observed (moves ! i) frame,
          ms_pp = (case pm_moves m ! i of
              Some before \<Rightarrow> if kn_value (ms_mv before) = Some (moves ! i) then ms_pp before else unknown
            | None \<Rightarrow> unknown)\<rparr>
      else None) [0..<4]\<rparr>"

definition learn :: "nat \<Rightarrow> string \<Rightarrow> nat \<Rightarrow> nat \<Rightarrow> party_mon \<Rightarrow> party_mon" where
  "learn move_slot mv max_pp frame m =
    (if move_slot < length (pm_moves m)
     then m\<lparr>pm_moves := (pm_moves m)[move_slot :=
         Some \<lparr>ms_mv = observed mv frame, ms_pp = derived (max_pp, max_pp) frame\<rparr>]\<rparr>
     else m)"

definition level_up :: "nat list \<Rightarrow> nat \<Rightarrow> party_mon \<Rightarrow> party_mon" where
  "level_up stats frame m =
    (let m = fold (\<lambda>i. observe_stat i (stats ! i) frame) [0..<6] m;
         m = observe_details (default_reading
           \<lparr>sd_attack := Some (stats ! 1), sd_defense := Some (stats ! 2), sd_speed := Some (stats ! 3),
             sd_sp_attack := Some (stats ! 4), sd_sp_defense := Some (stats ! 5)\<rparr>) frame m in
     case kn_value (pm_hp m) of
       None \<Rightarrow> m
     | Some (cur, most) \<Rightarrow>
         let cur = min ((cur + (stats ! 0 - most)) mod 65536) (stats ! 0) in
         m\<lparr>pm_hp := tracked (cur, stats ! 0) (kn_frame (pm_hp m))\<rparr>)"

definition heal :: "nat \<Rightarrow> party_mon \<Rightarrow> party_mon" where
  "heal frame m =
    (let m = (case kn_value (pm_hp m) of None \<Rightarrow> m | Some (_, most) \<Rightarrow> m\<lparr>pm_hp := derived (most, most) frame\<rparr>) in
     m\<lparr>pm_status := derived Healthy frame,
       pm_moves := map (map_option (\<lambda>slot. case kn_value (ms_pp slot) of
           None \<Rightarrow> slot | Some (_, most) \<Rightarrow> slot\<lparr>ms_pp := derived (most, most) frame\<rparr>)) (pm_moves m)\<rparr>)"

definition add_items :: "item_list \<Rightarrow> string \<Rightarrow> int \<Rightarrow> item_list" where
  "add_items xs item change =
    (case map_of xs item of
       Some count \<Rightarrow>
         let n = nat (max (int count + change) 0) mod 65536 in
         if n = 0 then remove1 (item, count) xs
         else replace_first (\<lambda>e. fst e = item) (\<lambda>e. (item, n)) xs
     | None \<Rightarrow> if change > 0 then xs @ [(item, nat (min change 65535))] else xs)"

definition set_row :: "string \<times> nat \<Rightarrow> item_list \<Rightarrow> item_list" where
  "set_row = (\<lambda>(item, count) xs.
    if map_of xs item = None then xs @ [(item, count)]
    else replace_first (\<lambda>e. fst e = item) (\<lambda>e. (item, count)) xs)"

definition change_pocket :: "pocket \<Rightarrow> (item_list knowledge \<Rightarrow> item_list knowledge) \<Rightarrow> bag \<Rightarrow> bag" where
  "change_pocket p f bag = (case map_of bag p of None \<Rightarrow> bag | Some k \<Rightarrow> AList.update p (f k) bag)"

definition change_box :: "nat \<Rightarrow> (box_mon list knowledge \<Rightarrow> box_mon list knowledge) \<Rightarrow> pc_storage \<Rightarrow> pc_storage" where
  "change_box i f pc =
    (if i < length (pc_boxes pc) then pc\<lparr>pc_boxes := (pc_boxes pc)[i := f (pc_boxes pc ! i)]\<rparr> else pc)"

text \<open>A box read again: the same Pokemon in the same place keeps what was known of its training.\<close>

definition same_box_mon :: "box_mon \<Rightarrow> box_mon \<Rightarrow> bool" where
  "same_box_mon a b \<longleftrightarrow> bx_slot a = bx_slot b \<and> kn_value (bx_species a) = kn_value (bx_species b) \<and>
    kn_value (bx_level a) = kn_value (bx_level b) \<and> kn_value (bx_nickname a) = kn_value (bx_nickname b)"

definition observe_box :: "box_mon list \<Rightarrow> nat \<Rightarrow> box_mon list knowledge \<Rightarrow> box_mon list knowledge" where
  "observe_box mons frame b =
    observed (map (\<lambda>m.
      case find (\<lambda>before. same_box_mon before m) (case kn_value b of None \<Rightarrow> [] | Some ms \<Rightarrow> ms) of
        None \<Rightarrow> m | Some before \<Rightarrow> m\<lparr>bx_training := bx_training before\<rparr>) mons) frame"

definition store_in_box :: "box_mon \<Rightarrow> box_mon list knowledge \<Rightarrow> box_mon list knowledge" where
  "store_in_box mon b =
    (case kn_value b of None \<Rightarrow> b | Some ms \<Rightarrow> tracked (ms @ [mon]) (kn_frame b))"

definition free_slot :: "box_mon list \<Rightarrow> nat" where
  "free_slot ms =
    (case find (\<lambda>k. k \<notin> bx_slot ` set ms) [0..<30] of None \<Rightarrow> 0 | Some k \<Rightarrow> k)"

definition drop_nth :: "nat \<Rightarrow> 'a list \<Rightarrow> 'a list" where
  "drop_nth i xs = take i xs @ drop (Suc i) xs"

definition deposit :: "nat \<Rightarrow> nat \<Rightarrow> 'shiny state \<Rightarrow> 'shiny state" where
  "deposit party_slot box_index s =
    (case kn_value (st_party s) of
       None \<Rightarrow> s
     | Some ms \<Rightarrow>
         if party_slot < length ms then
           let mon = ms ! party_slot;
               s = s\<lparr>st_party := (st_party s)\<lparr>kn_value := Some (drop_nth party_slot ms), kn_source := Tracked\<rparr>\<rparr> in
           s\<lparr>st_pc := change_box box_index (\<lambda>b. case kn_value b of None \<Rightarrow> b
             | Some xs \<Rightarrow> store_in_box \<lparr>bx_slot = free_slot xs, bx_species = pm_species mon,
                 bx_level = pm_level mon, bx_nickname = pm_nickname mon, bx_training = pm_training mon\<rparr> b)
               (st_pc s)\<rparr>
         else s\<lparr>st_party := (st_party s)\<lparr>kn_source := Tracked\<rparr>\<rparr>)"

definition withdraw :: "nat \<Rightarrow> nat \<Rightarrow> nat \<Rightarrow> 'shiny state \<Rightarrow> 'shiny state" where
  "withdraw box_index box_slot frame s =
    (if box_index < length (pc_boxes (st_pc s)) then
       let b = pc_boxes (st_pc s) ! box_index in
       case kn_value b of
         None \<Rightarrow> s
       | Some ms \<Rightarrow>
           (case find (\<lambda>m. bx_slot m = box_slot) ms of
              None \<Rightarrow> s
            | Some mon \<Rightarrow>
                let s = s\<lparr>st_pc := change_box box_index
                      (\<lambda>b. b\<lparr>kn_value := Some (remove1 mon ms), kn_source := Tracked\<rparr>) (st_pc s)\<rparr>;
                    slot = (case kn_value (st_party s) of None \<Rightarrow> 0 | Some ms \<Rightarrow> length ms) mod 256 in
                change_member slot Tracked frame (\<lambda>m.
                  m\<lparr>pm_species := bx_species mon, pm_level := bx_level mon, pm_nickname := bx_nickname mon,
                    pm_training := recalculated ((bx_training mon)\<lparr>tr_level_evs := tr_evs (bx_training mon)\<rparr>)\<rparr>) s)
     else s)"

definition is_marked :: "string \<Rightarrow> bool facts \<Rightarrow> bool" where
  "is_marked species m = (case map_of m species of None \<Rightarrow> False | Some k \<Rightarrow> kn_value k = Some True)"

definition mark :: "string \<Rightarrow> nat \<Rightarrow> bool facts \<Rightarrow> bool facts" where
  "mark species frame m = AList.update species (observed True frame) m"

text \<open>A read total moves with a species' first marks.\<close>

definition count_marks :: "bool \<Rightarrow> bool \<Rightarrow> pokedex_counts knowledge \<Rightarrow> pokedex_counts knowledge" where
  "count_marks newly_seen newly_caught k =
    (case kn_value k of
       None \<Rightarrow> k
     | Some c \<Rightarrow>
         let c = (if newly_seen then c\<lparr>px_seen := map_option (\<lambda>n. (n + 1) mod 65536) (px_seen c)\<rparr> else c);
             c = (if newly_caught then c\<lparr>px_caught := (px_caught c + 1) mod 65536\<rparr> else c) in
         k\<lparr>kn_value := Some c, kn_source := (if newly_seen \<or> newly_caught then Tracked else kn_source k)\<rparr>)"

definition see_species :: "string \<Rightarrow> nat \<Rightarrow> pokedex \<Rightarrow> pokedex" where
  "see_species species frame d =
    (let new = \<not> is_marked species (dx_seen_species d) in
     d\<lparr>dx_seen_species := mark species frame (dx_seen_species d),
       dx_counts := count_marks new False (dx_counts d)\<rparr>)"

definition catch_species :: "string \<Rightarrow> nat \<Rightarrow> pokedex \<Rightarrow> pokedex" where
  "catch_species species frame d =
    (let newly_seen = \<not> is_marked species (dx_seen_species d);
         newly_caught = \<not> is_marked species (dx_caught_species d) in
     d\<lparr>dx_seen_species := mark species frame (dx_seen_species d),
       dx_caught_species := mark species frame (dx_caught_species d),
       dx_counts := count_marks newly_seen newly_caught (dx_counts d)\<rparr>)"

definition restore :: "saved_knowledge \<Rightarrow> nat \<Rightarrow> 'shiny state \<Rightarrow> 'shiny state" where
  "restore k frame s =
    (let s = s\<lparr>st_progression := (sk_progression k)\<lparr>pr_in_control := pr_in_control (st_progression s)\<rparr>,
           st_party := sk_party k, st_bag := sk_bag k, st_money := sk_money k, st_pc := sk_pc k,
           st_pokedex := sk_pokedex k, st_world := sk_world k\<rparr>;
         s = (if kn_value (pr_badges (st_progression s)) = None then sync_badges frame s else s) in
     change_world (\<lambda>w. w\<lparr>wb_infeasible := {}\<rparr>) s)"

definition is_badge_flag :: "string \<Rightarrow> bool" where
  "is_badge_flag flag \<longleftrightarrow> flag \<in> fst ` set BADGES"

definition observe_flag :: "string \<Rightarrow> bool \<Rightarrow> nat \<Rightarrow> 'shiny state \<Rightarrow> 'shiny state" where
  "observe_flag flag v frame s =
    (let overturned = (case flag_knowledge s flag of None \<Rightarrow> False | Some k \<Rightarrow> kn_value k = Some (\<not> v));
         s = (if overturned then change_world (\<lambda>w. w\<lparr>wb_infeasible := {}\<rparr>) s else s);
         s = insert_flag flag (observed v frame) s in
     if is_badge_flag flag then sync_badges frame s else s)"

definition track_flag :: "string \<Rightarrow> bool \<Rightarrow> nat \<Rightarrow> 'shiny state \<Rightarrow> 'shiny state" where
  "track_flag flag v frame s =
    (case track (flag_knowledge s flag) v of
       None \<Rightarrow> s
     | Some k \<Rightarrow>
         let s = insert_flag flag k s in if is_badge_flag flag then sync_badges frame s else s)"

text \<open>A path recorded as run that the screen contradicts: its last occurrence is forgotten, and what it
  tracked becomes unknown.\<close>

definition remove_last :: "'a \<Rightarrow> 'a list \<Rightarrow> 'a list" where
  "remove_last x xs = rev (remove1 x (rev xs))"

definition forget_tracked :: "string list \<Rightarrow> 'v facts \<Rightarrow> 'v facts" where
  "forget_tracked names m = fold (\<lambda>name m. case map_of m name of
      None \<Rightarrow> m | Some k \<Rightarrow> if kn_source k = Tracked then AList.delete name m else m) names m"

definition retract_path :: "string \<Rightarrow> nat \<Rightarrow> string list \<Rightarrow> string list \<Rightarrow> world_belief \<Rightarrow> world_belief" where
  "retract_path script path flags vars w =
    w\<lparr>wb_paths_run := remove_last (script, path) (wb_paths_run w),
      wb_flags := forget_tracked flags (wb_flags w), wb_vars := forget_tracked vars (wb_vars w)\<rparr>"

definition reorder_party :: "nat list \<Rightarrow> nat \<Rightarrow> 'shiny state \<Rightarrow> 'shiny state" where
  "reorder_party order frame s =
    (case kn_value (st_party s) of
       None \<Rightarrow> s
     | Some ms \<Rightarrow>
         if sort order = [0..<length ms mod 256]
         then s\<lparr>st_party := observed (map (\<lambda>i. ms ! i) order) frame\<rparr> else s)"

definition party_size :: "nat \<Rightarrow> nat \<Rightarrow> 'shiny state \<Rightarrow> 'shiny state" where
  "party_size listed frame s =
    (let s = (if listed > 0 then change_member (listed - 1) Observed frame (\<lambda>m. m) s else s) in
     case kn_value (st_party s) of
       None \<Rightarrow> s | Some ms \<Rightarrow> s\<lparr>st_party := (st_party s)\<lparr>kn_value := Some (take listed ms)\<rparr>\<rparr>)"

definition earn_badge :: "string \<Rightarrow> nat \<Rightarrow> 'shiny state \<Rightarrow> 'shiny state" where
  "earn_badge badge frame s =
    (let badges = confirmed_badges s;
         badges = (if badge \<in> set badges then badges else badges @ [badge]);
         s = change_progression (\<lambda>p. p\<lparr>pr_badges := observed badges frame\<rparr>) s in
     case find (\<lambda>b. snd b = badge) BADGES of
       None \<Rightarrow> s
     | Some (flag, _) \<Rightarrow> sync_badges frame (insert_flag flag (observed True frame) s))"

section \<open>The reducer\<close>

text \<open>\<open>reduce_knowledge::apply\<close> and the rest of \<open>reduce\<close> in one case distinction: the second handles
  exactly the events the first leaves to it, so their order does not matter.\<close>

definition change_pose :: "player_pose knowledge \<Rightarrow> player_pose list \<Rightarrow> 'shiny state \<Rightarrow> 'shiny state" where
  "change_pose pose candidates s = s\<lparr>st_player := \<lparr>pl_pose = pose, pl_candidates = candidates\<rparr>\<rparr>"

definition apply_knowledge :: "nat \<Rightarrow> 'shiny game_event \<Rightarrow> 'shiny state \<Rightarrow> 'shiny state option" where
  "apply_knowledge frame event s = (case event of
     Party_Audited members \<Rightarrow>
       let old = (case kn_value (st_party s) of None \<Rightarrow> [] | Some ms \<Rightarrow> ms) in
       Some (s\<lparr>st_party := observed (map (audit_member old members frame) members) frame\<rparr>)
   | Party_Details_Observed slot details \<Rightarrow>
       Some (change_member slot Observed frame
         (\<lambda>m. observe_summary_stats details frame (observe_details details frame m)) s)
   | Badge_Count_Observed count \<Rightarrow> Some (observe_count count frame s)
   | Party_Reordered order \<Rightarrow> Some (reorder_party order frame s)
   | Party_Mon_Derived slot mon \<Rightarrow> Some (change_member slot Derived frame (\<lambda>m. mon) s)
   | Party_Observed slot species nickname level hp status held_item \<Rightarrow>
       Some (change_member slot Observed frame
         (observe_member species nickname level hp status held_item frame) s)
   | Moves_Observed slot moves \<Rightarrow> Some (change_member slot Observed frame (observe_moves moves frame) s)
   | Move_Pp_Observed slot move_slot cur most \<Rightarrow>
       Some (change_move slot move_slot (\<lambda>mv. mv\<lparr>ms_pp := observed (cur, most) frame\<rparr>) s)
   | Move_Used slot move_slot \<Rightarrow>
       Some (change_move slot move_slot (\<lambda>mv. case kn_value (ms_pp mv) of
           None \<Rightarrow> mv
         | Some (cur, most) \<Rightarrow> mv\<lparr>ms_pp := tracked (cur - 1, most) (kn_frame (ms_pp mv))\<rparr>) s)
   | Move_Out_Of_Pp slot move_slot \<Rightarrow>
       Some (change_move slot move_slot (\<lambda>mv. mv\<lparr>ms_pp := observed
         (0, case kn_value (ms_pp mv) of None \<Rightarrow> 0 | Some (_, most) \<Rightarrow> most) frame\<rparr>) s)
   | Move_Learned slot move_slot mv max_pp \<Rightarrow>
       Some (change_member slot Observed frame (learn move_slot mv max_pp frame) s)
   | Move_Replaced slot move_slot _ mv max_pp \<Rightarrow>
       Some (change_member slot Observed frame (learn move_slot mv max_pp frame) s)
   | Evolved slot species \<Rightarrow>
       Some (change_member slot Observed frame (\<lambda>m.
         (if kn_value (pm_species m) \<noteq> Some species then change_training recalculated m else m)
           \<lparr>pm_species := observed species frame\<rparr>) s)
   | Effort_Gained slot species level ev_yield exp \<Rightarrow>
       Some (change_member slot Observed frame (\<lambda>m.
         change_training (award frame species level ev_yield exp
           (kn_value (pm_held_item m) = Some (Some ''ITEM_MACHO_BRACE''))) m) s)
   | Level_Up_Stats_Observed slot stats \<Rightarrow> Some (change_member slot Observed frame (level_up stats frame) s)
   | Ivs_Estimated slot estimate \<Rightarrow>
       Some (change_member slot Derived frame (change_training (\<lambda>t. t\<lparr>tr_estimate := Some estimate\<rparr>)) s)
   | Healed \<Rightarrow>
       Some (s\<lparr>st_party := (st_party s)\<lparr>kn_value := map_option (map (heal frame)) (kn_value (st_party s))\<rparr>\<rparr>)
   | Items_Changed pocket item change _ \<Rightarrow>
       Some (s\<lparr>st_bag := change_pocket pocket (\<lambda>k. case kn_value k of
           None \<Rightarrow> k | Some xs \<Rightarrow> tracked (add_items xs item change) (kn_frame k)) (st_bag s)\<rparr>)
   | Pocket_Observed pocket items \<Rightarrow>
       Some (s\<lparr>st_bag := AList.update pocket (observed items frame) (st_bag s)\<rparr>)
   | Pocket_Rows_Observed pocket items \<Rightarrow>
       Some (s\<lparr>st_bag := change_pocket pocket (\<lambda>k.
         let xs = fold set_row items (case kn_value k of None \<Rightarrow> [] | Some xs \<Rightarrow> xs) in
         if kn_source k = Observed then observed xs frame
         else tracked xs (case kn_frame k of None \<Rightarrow> Some frame | Some f \<Rightarrow> Some f)) (st_bag s)\<rparr>)
   | Party_Size_Observed listed \<Rightarrow> Some (party_size listed frame s)
   | Money_Observed amount \<Rightarrow> Some (s\<lparr>st_money := observed amount frame\<rparr>)
   | Money_Changed change _ \<Rightarrow>
       Some (case kn_value (st_money s) of
         None \<Rightarrow> s
       | Some m \<Rightarrow> s\<lparr>st_money :=
           tracked (nat (min (max (int m + change) 0) (int MAX_MONEY))) (kn_frame (st_money s))\<rparr>)
   | Box_Observed box_index mons \<Rightarrow>
       Some (s\<lparr>st_pc := change_box box_index (observe_box mons frame) (st_pc s)\<rparr>)
   | Pc_Items_Observed items \<Rightarrow> Some (s\<lparr>st_pc := (st_pc s)\<lparr>pc_items := observed items frame\<rparr>\<rparr>)
   | Sent_To_Pc box_index mon \<Rightarrow>
       Some (case box_index of
         None \<Rightarrow> s | Some i \<Rightarrow> s\<lparr>st_pc := change_box i (store_in_box mon) (st_pc s)\<rparr>)
   | Shiny_Seen _ \<Rightarrow> Some s
   | Mon_Deposited party_slot box_index \<Rightarrow> Some (deposit party_slot box_index s)
   | Mon_Withdrawn box_index box_slot \<Rightarrow> Some (withdraw box_index box_slot frame s)
   | Species_Seen species \<Rightarrow> Some (s\<lparr>st_pokedex := see_species species frame (st_pokedex s)\<rparr>)
   | Species_Caught species \<Rightarrow> Some (s\<lparr>st_pokedex := catch_species species frame (st_pokedex s)\<rparr>)
   | Pokedex_Count_Observed seen caught \<Rightarrow>
       Some (s\<lparr>st_pokedex := (st_pokedex s)\<lparr>dx_counts := observed \<lparr>px_seen = seen, px_caught = caught\<rparr> frame\<rparr>\<rparr>)
   | Checkpoint_Restored knowledge \<Rightarrow> Some (restore knowledge frame s)
   | Flag_Observed flag v \<Rightarrow> Some (observe_flag flag v frame s)
   | Flag_Tracked flag v \<Rightarrow> Some (track_flag flag v frame s)
   | Var_Observed var v \<Rightarrow>
       Some (change_world (\<lambda>w. w\<lparr>wb_vars := AList.update var (observed v frame) (wb_vars w)\<rparr>) s)
   | Var_Tracked var v \<Rightarrow>
       Some (change_world (\<lambda>w. case track (map_of (wb_vars w) var) v of
           None \<Rightarrow> w | Some k \<Rightarrow> w\<lparr>wb_vars := AList.update var k (wb_vars w)\<rparr>) s)
   | Map_Visited m \<Rightarrow>
       Some (change_world (\<lambda>w. w\<lparr>wb_visited := AList.update m (observed True frame) (wb_visited w)\<rparr>) s)
   | Respawn_Set m x y \<Rightarrow>
       Some (change_world (\<lambda>w. w\<lparr>wb_respawn := observed \<lparr>hs_map = m, hs_x = x, hs_y = y\<rparr> frame\<rparr>) s)
   | Escape_Warp_Set escape \<Rightarrow>
       Some (change_world (\<lambda>w. w\<lparr>wb_escape := (case escape of
           None \<Rightarrow> unknown | Some e \<Rightarrow> observed e frame)\<rparr>) s)
   | Npc_Seen m local_id x y facing \<Rightarrow>
       Some (change_world (change_npc m local_id (\<lambda>n. n\<lparr>nb_pos := observed (x, y) frame,
         nb_facing := (case facing of None \<Rightarrow> nb_facing n | Some d \<Rightarrow> observed d frame),
         nb_present := observed True frame\<rparr>)) s)
   | Npc_Absent m local_id \<Rightarrow>
       Some (change_world (change_npc m local_id (\<lambda>n. n\<lparr>nb_present := observed False frame\<rparr>)) s)
   | Script_Path_Run script path \<Rightarrow> Some (change_world (record_path script path) s)
   | Script_Path_Retracted script path flags vars \<Rightarrow>
       Some (change_world (retract_path script path flags vars) s)
   | Intent_Infeasible intent \<Rightarrow>
       Some (change_world (\<lambda>w. w\<lparr>wb_infeasible := insert intent (wb_infeasible w)\<rparr>) s)
   | Tile_Blocked _ _ _ \<Rightarrow> Some s
   | Tile_Unblocked _ _ _ \<Rightarrow> Some s
   | Whited_Out \<Rightarrow>
       Some (change_member 0 Observed frame (\<lambda>m. m\<lparr>pm_hp := observed
           (0, case kn_value (pm_hp m) of None \<Rightarrow> 0 | Some (_, most) \<Rightarrow> most) frame,
         pm_status := observed Fainted frame\<rparr>) s)
   | _ \<Rightarrow> None)"

text \<open>The events \<open>apply\<close> leaves; the others would be \<open>unreachable!\<close>, which is \<open>None\<close>.\<close>

definition apply_rest :: "nat \<Rightarrow> 'shiny game_event \<Rightarrow> 'shiny state \<Rightarrow> 'shiny state option" where
  "apply_rest frame event s = (case event of
     Screen_Changed _ to _ \<Rightarrow>
       Some (s\<lparr>st_screen := (if to = Unknown_Screen then unknown else observed to frame)\<rparr>)
   | Input_Issued _ command \<Rightarrow>
       Some (s\<lparr>st_input := \<lparr>is_commands_issued = (is_commands_issued (st_input s) + 1) mod 2 ^ 64,
         is_last_command = Some command, is_last_command_frame = Some frame\<rparr>\<rparr>)
   | Frames_Dropped_By_Card n _ _ \<Rightarrow>
       Some (s\<lparr>st_dropped_by_card := (st_dropped_by_card s + n) mod 2 ^ 64\<rparr>)
   | Frames_Dropped_By_Processing n _ _ \<Rightarrow>
       Some (s\<lparr>st_dropped_by_processing := (st_dropped_by_processing s + n) mod 2 ^ 64\<rparr>)
   | Goal_Progress goal phase detail \<Rightarrow>
       Some (s\<lparr>st_active_goal := Some \<lparr>gs_goal = goal, gs_phase = phase, gs_detail = detail\<rparr>\<rparr>)
   | Goal_Finished _ _ _ \<Rightarrow> Some (s\<lparr>st_active_goal := None\<rparr>)
   | Gender_Chosen gender \<Rightarrow> Some (change_progression (\<lambda>p. p\<lparr>pr_gender := observed gender frame\<rparr>) s)
   | Player_Named name \<Rightarrow> Some (change_progression (\<lambda>p. p\<lparr>pr_player_name := observed name frame\<rparr>) s)
   | Rival_Named name \<Rightarrow> Some (change_progression (\<lambda>p. p\<lparr>pr_rival_name := observed name frame\<rparr>) s)
   | Player_Located to \<Rightarrow> Some (change_pose (observed to frame) [] s)
   | Player_Moved _ to \<Rightarrow> Some (change_pose (observed to frame) [] s)
   | Map_Changed _ to \<Rightarrow> Some (change_pose (observed to frame) [] s)
   | Player_Inferred pose candidates \<Rightarrow>
       Some (change_pose (derived pose frame)
         (if candidates = [] then pl_candidates (st_player s) else candidates) s)
   | Location_Ambiguous candidates \<Rightarrow>
       let pose = pl_pose (st_player s) in
       Some (change_pose (if kn_value pose = None then pose else pose\<lparr>kn_source := Assumed\<rparr>) candidates s)
   | Badge_Earned badge \<Rightarrow> Some (earn_badge badge frame s)
   | Game_Saved \<Rightarrow> Some s
   | View_Observed view \<Rightarrow> Some (s\<lparr>st_view := view\<rparr>)
   | Battle_Started \<Rightarrow> Some (s\<lparr>st_in_battle := True\<rparr>)
   | Battle_Ended \<Rightarrow> Some (s\<lparr>st_in_battle := False\<rparr>)
   | Control_Confirmed \<Rightarrow>
       Some ((change_progression (\<lambda>p. p\<lparr>pr_in_control := observed True frame\<rparr>) s)
         \<lparr>st_synchronization := Synchronized\<rparr>)
   | _ \<Rightarrow> None)"

definition reduce_one :: "'shiny event_record \<Rightarrow> 'shiny state \<Rightarrow> 'shiny state option" where
  "reduce_one record s =
    (case apply_knowledge (ev_frame record) (ev_event record) s of
       Some s' \<Rightarrow> Some s'
     | None \<Rightarrow> apply_rest (ev_frame record) (ev_event record) s)"

fun reduce :: "'shiny event_record list \<Rightarrow> 'shiny state \<Rightarrow> 'shiny state option" where
  "reduce [] s = Some s"
| "reduce (r # rs) s = (case reduce_one r s of None \<Rightarrow> None | Some s' \<Rightarrow> reduce rs s')"

end
