(* ===== verification/Belief_Invariant.thy ===== *)
theory Belief_Invariant
  imports Reducer
begin

text \<open>
  What the reducer keeps of the belief, whatever the events: the shape of every part (four move slots,
  at most 512 changes, 256 readings and 64 defeats per member, 14 boxes, five pockets, each script path
  once), the agreement of the badge list with the flags, and the knowledge a save brings back.
\<close>

section \<open>Shapes\<close>

definition mon_ok :: "party_mon \<Rightarrow> bool" where
  "mon_ok m \<longleftrightarrow> length (pm_moves m) = 4 \<and> length (pm_history m) \<le> 512 \<and> training_ok (pm_training m)"

definition party_ok :: "party_mon list knowledge \<Rightarrow> bool" where
  "party_ok k \<longleftrightarrow> pred_option (list_all mon_ok) (kn_value k)"

definition box_ok :: "box_mon list knowledge \<Rightarrow> bool" where
  "box_ok b \<longleftrightarrow> pred_option (list_all (\<lambda>m. training_ok (bx_training m))) (kn_value b)"

definition pc_ok :: "pc_storage \<Rightarrow> bool" where
  "pc_ok pc \<longleftrightarrow> length (pc_boxes pc) = 14 \<and> list_all box_ok (pc_boxes pc)"

definition bag_ok :: "bag \<Rightarrow> bool" where
  "bag_ok b \<longleftrightarrow> list_all (\<lambda>p. map_of b p \<noteq> None) all_pockets"

definition world_ok :: "world_belief \<Rightarrow> bool" where
  "world_ok w \<longleftrightarrow> distinct (wb_paths_run w) \<and> length (wb_paths_run w) \<le> 256"

definition state_ok :: "'shiny state \<Rightarrow> bool" where
  "state_ok s \<longleftrightarrow> party_ok (st_party s) \<and> pc_ok (st_pc s) \<and> bag_ok (st_bag s) \<and> world_ok (st_world s)"

definition saved_ok :: "saved_knowledge \<Rightarrow> bool" where
  "saved_ok k \<longleftrightarrow> party_ok (sk_party k) \<and> pc_ok (sk_pc k) \<and> bag_ok (sk_bag k) \<and> world_ok (sk_world k)"

text \<open>What the types of the code say of the values an event carries.\<close>

definition event_ok :: "'shiny game_event \<Rightarrow> bool" where
  "event_ok e = (case e of
     Party_Audited ms \<Rightarrow> list_all mon_ok ms
   | Party_Mon_Derived _ m \<Rightarrow> mon_ok m
   | Level_Up_Stats_Observed _ stats \<Rightarrow> length stats = 6
   | Box_Observed _ ms \<Rightarrow> list_all (\<lambda>m. training_ok (bx_training m)) ms
   | Sent_To_Pc _ m \<Rightarrow> training_ok (bx_training m)
   | Checkpoint_Restored k \<Rightarrow> saved_ok k
   | _ \<Rightarrow> True)"

named_theorems shape_intros \<open>preservation of the shapes by the parts of the reducer\<close>

lemma mon_ok_default: "mon_ok default_mon"
  by (simp add: mon_ok_def default_mon_def training_ok_default)

lemma change_training_ok [shape_intros]:
  "mon_ok m \<Longrightarrow> (\<And>t. training_ok t \<Longrightarrow> training_ok (f t)) \<Longrightarrow> mon_ok (change_training f m)"
  by (simp add: mon_ok_def change_training_def)

lemma length_drop_last [simp]: "length (drop (length h - n) h) \<le> n"
  by simp

lemma observe_details_ok [shape_intros]: "mon_ok m \<Longrightarrow> mon_ok (observe_details r frame m)"
  by (simp add: mon_ok_def observe_details_def Let_def HISTORY_KEPT_def case_prod_unfold del: length_drop)

lemma observe_stat_ok [shape_intros]: "mon_ok m \<Longrightarrow> mon_ok (observe_stat i v frame m)"
  by (auto simp: observe_stat_def intro!: change_training_ok training_ok_observe_stats split: option.split)

lemma observe_summary_stats_ok [shape_intros]: "mon_ok m \<Longrightarrow> mon_ok (observe_summary_stats d frame m)"
  by (auto simp: observe_summary_stats_def Let_def
      intro!: change_training_ok training_ok_observe_stats training_ok_observe_exp split: option.split)

lemma set_fields_ok [simp]:
  "mon_ok (m\<lparr>pm_species := a\<rparr>) = mon_ok m" "mon_ok (m\<lparr>pm_nickname := b\<rparr>) = mon_ok m"
  "mon_ok (m\<lparr>pm_level := c\<rparr>) = mon_ok m" "mon_ok (m\<lparr>pm_hp := d\<rparr>) = mon_ok m"
  "mon_ok (m\<lparr>pm_status := e\<rparr>) = mon_ok m" "mon_ok (m\<lparr>pm_held_item := f\<rparr>) = mon_ok m"
  by (simp_all add: mon_ok_def)

lemma audit_member_ok [shape_intros]:
  assumes "mon_ok mon" "list_all mon_ok old"
  shows "mon_ok (audit_member old members frame mon)"
proof -
  let ?found = "filter (\<lambda>m. matches_member m mon) old"
  have before: "mon_ok (mon\<lparr>pm_details := d, pm_history := pm_history (hd ?found), pm_training := pm_training (hd ?found)\<rparr>)"
    if "length ?found = 1" for d
  proof -
    have "hd ?found \<in> set ?found" using that by (cases ?found) simp_all
    then have "hd ?found \<in> set old" by simp
    then show ?thesis using assms by (auto simp: mon_ok_def list_all_iff)
  qed
  show ?thesis
    unfolding audit_member_def Let_def
    using assms(1) before
    by (auto intro!: shape_intros training_ok_level_seen training_ok_recalculated split: option.split)
qed

lemma observe_member_ok [shape_intros]:
  "mon_ok m \<Longrightarrow> mon_ok (observe_member species nickname level hp status held frame m)"
  unfolding observe_member_def Let_def
  by (cases species; cases nickname; cases level; cases hp; cases status; cases held)
    (simp_all add: shape_intros training_ok_level_seen)

lemma observe_moves_ok [shape_intros]: "mon_ok m \<Longrightarrow> mon_ok (observe_moves moves frame m)"
  by (simp add: mon_ok_def observe_moves_def)

lemma learn_ok [shape_intros]: "mon_ok m \<Longrightarrow> mon_ok (learn i mv pp frame m)"
  by (simp add: mon_ok_def learn_def)

lemma fold_observe_stat_ok: "mon_ok m \<Longrightarrow> mon_ok (fold (\<lambda>i. observe_stat i (g i) frame) is m)"
  by (induction "is" arbitrary: m) (simp_all add: observe_stat_ok)

lemma level_up_ok [shape_intros]: "mon_ok m \<Longrightarrow> mon_ok (level_up stats frame m)"
  unfolding level_up_def Let_def
  by (auto intro!: observe_details_ok fold_observe_stat_ok split: option.split)

lemma heal_ok [shape_intros]: "mon_ok m \<Longrightarrow> mon_ok (heal frame m)"
  by (auto simp: heal_def mon_ok_def Let_def split: option.split)

lemma grow_party_ok: "list_all mon_ok ms \<Longrightarrow> list_all mon_ok (grow_party slot ms)"
  by (auto simp: grow_party_def list_all_iff mon_ok_default)

lemma length_grow_party: "slot < length (grow_party slot ms)"
  by (simp add: grow_party_def)

lemma list_all_update:
  "list_all P xs \<Longrightarrow> (i < length xs \<Longrightarrow> P y) \<Longrightarrow> list_all P (xs[i := y])"
  by (cases "i < length xs") (auto simp: list_all_length nth_list_update)

lemma change_member_ok [shape_intros]:
  assumes "state_ok s" "\<And>m. mon_ok m \<Longrightarrow> mon_ok (f m)"
  shows "state_ok (change_member slot source frame f s)"
proof -
  let ?ms = "grow_party slot (case kn_value (known_party source frame (st_party s)) of None \<Rightarrow> [] | Some ms \<Rightarrow> ms)"
  have "list_all mon_ok ?ms"
    using assms(1) by (intro grow_party_ok)
      (auto simp: state_ok_def party_ok_def known_party_def split: option.split)
  then have "list_all mon_ok (?ms[slot := f (?ms ! slot)])"
    by (intro list_all_update assms(2)) (simp_all add: list_all_length)
  then show ?thesis
    using assms(1) by (simp add: change_member_def Let_def state_ok_def party_ok_def)
qed

lemma change_move_ok [shape_intros]: "state_ok s \<Longrightarrow> state_ok (change_move slot i f s)"
  by (auto simp: change_move_def Let_def state_ok_def party_ok_def mon_ok_def list_all_length nth_list_update
      split: option.splits)

lemma change_progression_ok [shape_intros]: "state_ok s \<Longrightarrow> state_ok (change_progression f s)"
  by (simp add: state_ok_def change_progression_def)

lemma change_world_ok [shape_intros]:
  "state_ok s \<Longrightarrow> (\<And>w. world_ok w \<Longrightarrow> world_ok (f w)) \<Longrightarrow> state_ok (change_world f s)"
  by (simp add: state_ok_def change_world_def)

lemma insert_flag_ok [shape_intros]: "state_ok s \<Longrightarrow> state_ok (insert_flag flag k s)"
  unfolding insert_flag_def by (rule change_world_ok) (simp_all add: world_ok_def)

lemma remove_flags_ok [shape_intros]: "state_ok s \<Longrightarrow> state_ok (remove_flags flags s)"
  unfolding remove_flags_def by (rule change_world_ok) (simp_all add: world_ok_def)

lemma sync_badges_ok [shape_intros]: "state_ok s \<Longrightarrow> state_ok (sync_badges frame s)"
  by (auto simp: sync_badges_def Let_def intro: shape_intros)

lemma fold_insert_ok: "state_ok s \<Longrightarrow> state_ok (fold (\<lambda>(flag, _). insert_flag flag k) bs s)"
  by (induction bs arbitrary: s) (auto intro: shape_intros)

lemma observe_count_ok [shape_intros]:
  assumes "state_ok s"
  shows "state_ok (observe_count count frame s)"
proof -
  have "state_ok (drop_stale count s)"
    using assms by (auto simp: drop_stale_def Let_def intro: shape_intros)
  then have "state_ok (settle_total count frame (drop_stale count s))"
    by (auto simp: settle_total_def intro!: sync_badges_ok fold_insert_ok)
  then have "state_ok (infer_first count frame (change_progression f (settle_total count frame (drop_stale count s))))" for f
    by (auto simp: infer_first_def Let_def intro!: change_progression_ok)
  then show ?thesis using assms by (simp add: observe_count_def)
qed

lemma record_path_ok [shape_intros]: "world_ok w \<Longrightarrow> world_ok (record_path s p w)"
  using record_path_distinct [of w s p] unfolding world_ok_def by blast

lemma change_npc_ok [shape_intros]: "world_ok w \<Longrightarrow> world_ok (change_npc m i f w)"
  by (simp add: world_ok_def change_npc_def Let_def)

lemma length_remove_last: "length (remove_last x xs) \<le> length xs"
  by (simp add: remove_last_def length_remove1)

lemma retract_path_ok [shape_intros]: "world_ok w \<Longrightarrow> world_ok (retract_path s p flags vars w)"
  using length_remove_last [of "(s, p)" "wb_paths_run w"]
  by (simp add: world_ok_def retract_path_def) (simp add: remove_last_def)

lemma change_box_ok: "pc_ok pc \<Longrightarrow> (\<And>b. box_ok b \<Longrightarrow> box_ok (f b)) \<Longrightarrow> pc_ok (change_box i f pc)"
  by (auto simp: pc_ok_def change_box_def intro!: list_all_update) (simp add: list_all_length)

lemma set_pc_ok [shape_intros]: "state_ok s \<Longrightarrow> (\<And>b. box_ok b \<Longrightarrow> box_ok (f b)) \<Longrightarrow>
    state_ok (s\<lparr>st_pc := change_box i f (st_pc s)\<rparr>)"
  by (simp add: state_ok_def change_box_ok)

lemma box_parts_ok [shape_intros]:
  "list_all (\<lambda>m. training_ok (bx_training m)) ms \<Longrightarrow> box_ok b \<Longrightarrow> box_ok (observe_box ms frame b)"
  "training_ok (bx_training mon) \<Longrightarrow> box_ok b \<Longrightarrow> box_ok (store_in_box mon b)"
proof -
  show "box_ok (observe_box ms frame b)" if "list_all (\<lambda>m. training_ok (bx_training m)) ms" "box_ok b"
    using that by (fastforce simp: box_ok_def observe_box_def list_all_iff dest: find_SomeD split: option.splits)
  show "training_ok (bx_training mon) \<Longrightarrow> box_ok b \<Longrightarrow> box_ok (store_in_box mon b)"
    by (auto simp: box_ok_def store_in_box_def split: option.split)
qed

lemma party_of: "state_ok s \<Longrightarrow> kn_value (st_party s) = Some ms \<Longrightarrow> list_all mon_ok ms"
  by (simp add: state_ok_def party_ok_def)

lemma set_party_ok [shape_intros]:
  "state_ok s \<Longrightarrow> pred_option (list_all mon_ok) v \<Longrightarrow> state_ok (s\<lparr>st_party := \<lparr>kn_value = v, kn_source = a, kn_frame = f\<rparr>\<rparr>)"
  by (simp add: state_ok_def party_ok_def)

lemma set_drop_nth: "set (drop_nth i xs) \<subseteq> set xs"
  using set_take_subset [of i xs] set_drop_subset [of "Suc i" xs] by (auto simp: drop_nth_def)

lemma deposit_ok [shape_intros]:
  assumes "state_ok s"
  shows "state_ok (deposit p b s)"
proof (cases "kn_value (st_party s)")
  case None
  then show ?thesis using assms by (simp add: deposit_def)
next
  case (Some ms)
  have all: "list_all mon_ok ms" by (rule party_of [OF assms Some])
  then have "list_all mon_ok (drop_nth p ms)" using set_drop_nth [of p ms] by (auto simp: list_all_iff)
  moreover have "training_ok (pm_training (ms ! p))" if "p < length ms"
    using all that by (auto simp: list_all_length mon_ok_def)
  ultimately show ?thesis
    using assms all unfolding deposit_def Some option.case Let_def
    by (auto simp: state_ok_def party_ok_def intro!: change_box_ok box_parts_ok split: option.splits)
qed

lemma training_ok_withdrawn:
  "training_ok t \<Longrightarrow> training_ok (recalculated (t\<lparr>tr_level_evs := tr_evs t\<rparr>))"
  by (simp add: training_ok_def recalculated_def six_evs)

lemma withdraw_ok [shape_intros]:
  assumes "state_ok s"
  shows "state_ok (withdraw b slot frame s)"
proof -
  have box: "training_ok (bx_training mon)"
    if "b < length (pc_boxes (st_pc s))" "kn_value (pc_boxes (st_pc s) ! b) = Some ms" "mon \<in> set ms" for ms mon
  proof -
    have "box_ok (pc_boxes (st_pc s) ! b)"
      using assms that(1) by (simp add: state_ok_def pc_ok_def list_all_length)
    then show ?thesis using that(2,3) by (simp add: box_ok_def list_all_iff)
  qed
  have "state_ok (s\<lparr>st_pc := change_box b (\<lambda>b. b\<lparr>kn_value := Some (remove1 mon ms), kn_source := Tracked\<rparr>) (st_pc s)\<rparr>)"
    if "b < length (pc_boxes (st_pc s))" "kn_value (pc_boxes (st_pc s) ! b) = Some ms" for ms mon
    by (rule set_pc_ok [OF assms])
      (use box [OF that] set_remove1_subset [of mon ms] in \<open>auto simp: box_ok_def list_all_iff\<close>)
  moreover have taken: "mon_ok (m\<lparr>pm_species := x, pm_level := l, pm_nickname := n, pm_training := t\<rparr>)"
    if "mon_ok m" "training_ok t" for m x l n t
    using that by (simp add: mon_ok_def)
  ultimately show ?thesis
    using assms unfolding withdraw_def Let_def
    by (auto intro!: change_member_ok taken training_ok_withdrawn box dest!: find_SomeD split: option.split)
qed

lemma bag_parts_ok:
  "bag_ok b \<Longrightarrow> bag_ok (AList.update p k b)" "bag_ok b \<Longrightarrow> bag_ok (change_pocket p f b)"
  by (auto simp: bag_ok_def change_pocket_def update_conv' list_all_iff split: option.split)

lemma reorder_ok [shape_intros]:
  assumes "state_ok s"
  shows "state_ok (reorder_party order frame s)"
proof (cases "kn_value (st_party s)")
  case None
  then show ?thesis using assms by (simp add: reorder_party_def)
next
  case (Some ms)
  have "list_all mon_ok (map ((!) ms) order)" if "sort order = [0..<length ms mod 256]"
  proof -
    have "set order = {0..<length ms mod 256}" using arg_cong [OF that, of set] by simp
    moreover have "length ms mod 256 \<le> length ms" by simp
    ultimately have "i < length ms" if "i \<in> set order" for i using that by auto
    then show ?thesis using party_of [OF assms Some] by (auto simp: list_all_length list_all_iff)
  qed
  then show ?thesis using assms Some by (auto simp: reorder_party_def state_ok_def party_ok_def)
qed

lemma party_size_ok [shape_intros]:
  assumes "state_ok s"
  shows "state_ok (party_size n frame s)"
proof -
  have s: "state_ok (if n > 0 then change_member (n - 1) Observed frame (\<lambda>m. m) s else s)"
    using assms by (auto intro: change_member_ok)
  have "list_all mon_ok (take n ms)" if "list_all mon_ok ms" for ms
    using that set_take_subset [of n ms] by (auto simp: list_all_iff)
  then show ?thesis
    using s by (auto simp: party_size_def Let_def state_ok_def party_ok_def split: option.splits)
qed

lemma restore_ok [shape_intros]:
  assumes "saved_ok k"
  shows "state_ok (restore k frame s)"
proof -
  have base: "state_ok (s\<lparr>st_progression := p, st_party := sk_party k, st_bag := sk_bag k,
      st_money := sk_money k, st_pc := sk_pc k, st_pokedex := sk_pokedex k, st_world := sk_world k\<rparr>)" for p
    using assms by (simp add: state_ok_def saved_ok_def)
  show ?thesis
    unfolding restore_def Let_def
    by (rule change_world_ok) (simp_all add: base sync_badges_ok world_ok_def)
qed

lemma flag_parts_ok [shape_intros]:
  "state_ok s \<Longrightarrow> state_ok (observe_flag flag v frame s)" "state_ok s \<Longrightarrow> state_ok (track_flag flag v frame s)"
  by (auto simp: observe_flag_def track_flag_def Let_def world_ok_def
      intro!: sync_badges_ok insert_flag_ok change_world_ok split: option.split)

lemma earn_badge_ok [shape_intros]: "state_ok s \<Longrightarrow> state_ok (earn_badge badge frame s)"
  by (auto simp: earn_badge_def Let_def intro!: sync_badges_ok insert_flag_ok change_progression_ok split: option.split)

section \<open>The reducer is total and keeps the shapes\<close>

text \<open>Every event is handled by exactly one of the two parts.\<close>

lemma apply_rest_cases: "apply_knowledge frame e s = None \<Longrightarrow> apply_rest frame e s \<noteq> None"
  by (cases e) (simp_all add: apply_knowledge_def apply_rest_def Let_def)

lemma set_parts_ok:
  assumes "state_ok s"
  shows "party_ok k \<Longrightarrow> state_ok (s\<lparr>st_party := k\<rparr>)" "bag_ok b \<Longrightarrow> state_ok (s\<lparr>st_bag := b\<rparr>)"
    "state_ok (s\<lparr>st_money := m\<rparr>)" "state_ok (s\<lparr>st_pokedex := d\<rparr>)"
    "state_ok (s\<lparr>st_pc := (st_pc s)\<lparr>pc_items := xs\<rparr>\<rparr>)"
  using assms by (simp_all add: state_ok_def pc_ok_def)

lemma audited_ok:
  assumes "list_all mon_ok ms" "list_all mon_ok old"
  shows "party_ok (observed (map (audit_member old ms frame) ms) frame)"
  using assms audit_member_ok [OF _ assms(2)] by (simp add: party_ok_def list_all_iff)

lemma healed_ok: "state_ok s \<Longrightarrow> party_ok ((st_party s)\<lparr>kn_value := map_option (map (heal frame)) (kn_value (st_party s))\<rparr>)"
  by (cases "kn_value (st_party s)") (auto simp: state_ok_def party_ok_def list_all_iff heal_ok)

lemma estimate_ok: "training_ok t \<Longrightarrow> training_ok (t\<lparr>tr_estimate := e\<rparr>)"
  by (simp add: training_ok_def)

lemma world_parts_ok:
  assumes "world_ok w"
  shows "world_ok (w\<lparr>wb_vars := a\<rparr>)" "world_ok (w\<lparr>wb_visited := b\<rparr>)" "world_ok (w\<lparr>wb_respawn := c\<rparr>)"
    "world_ok (w\<lparr>wb_escape := d\<rparr>)" "world_ok (w\<lparr>wb_infeasible := f\<rparr>)"
  using assms by (simp_all add: world_ok_def)

lemma state_bag: "state_ok s \<Longrightarrow> bag_ok (st_bag s)"
  by (simp add: state_ok_def)

lemma apply_knowledge_ok:
  assumes s: "state_ok s" and e: "event_ok e" and r: "apply_knowledge frame e s = Some s'"
  shows "state_ok s'"
proof -
  note part = change_member_ok change_training_ok training_ok_award training_ok_recalculated training_ok_level_seen
    set_parts_ok bag_parts_ok state_bag audited_ok healed_ok estimate_ok world_parts_ok
  show ?thesis
    using s e r
    by (cases e) (auto simp: apply_knowledge_def event_ok_def Let_def dest: party_of
        intro!: shape_intros part split: option.splits)
qed

lemma apply_rest_ok:
  assumes s: "state_ok s" and r: "apply_rest frame e s = Some s'"
  shows "state_ok s'"
proof -
  have frame_fields: "state_ok (s\<lparr>st_screen := a\<rparr>)" "state_ok (s\<lparr>st_input := b\<rparr>)"
    "state_ok (s\<lparr>st_dropped_by_card := c\<rparr>)" "state_ok (s\<lparr>st_dropped_by_processing := d\<rparr>)"
    "state_ok (s\<lparr>st_active_goal := g\<rparr>)" "state_ok (s\<lparr>st_view := v\<rparr>)" "state_ok (s\<lparr>st_in_battle := i\<rparr>)"
    "state_ok (change_pose p cs s)" "state_ok ((change_progression f s)\<lparr>st_synchronization := y\<rparr>)"
    for a b c d g v i p cs f y
    using s by (simp_all add: state_ok_def change_pose_def change_progression_def)
  show ?thesis
    using s r by (cases e) (auto simp: apply_rest_def Let_def intro!: frame_fields shape_intros split: if_splits)
qed

lemma reduce_one_ok:
  assumes "state_ok s" "event_ok (ev_event r)"
  shows "\<exists>s'. reduce_one r s = Some s' \<and> state_ok s'"
proof (cases "apply_knowledge (ev_frame r) (ev_event r) s")
  case None
  then show ?thesis
    using apply_rest_cases [OF None] apply_rest_ok [OF assms(1)] by (auto simp: reduce_one_def)
next
  case (Some s')
  then show ?thesis using apply_knowledge_ok [OF assms] by (simp add: reduce_one_def)
qed

lemma state_ok_default: "state_ok default_state"
  by (simp add: state_ok_def default_state_def party_ok_def pc_ok_def default_pc_def BOXES_def bag_ok_def
      default_bag_def all_pockets_def box_ok_def world_ok_def default_world_belief_def list_all_iff)

lemma reduce_ok:
  assumes "state_ok s" "list_all (\<lambda>r. event_ok (ev_event r)) rs"
  shows "\<exists>s'. reduce rs s = Some s' \<and> state_ok s'"
  using assms
proof (induction rs arbitrary: s)
  case (Cons r rs)
  then obtain s1 where "reduce_one r s = Some s1" "state_ok s1" using reduce_one_ok [of s r] by auto
  then show ?case using Cons.IH [of s1] Cons.prems by simp
qed simp

text \<open>C24: the reducer never reaches its unreachable arm, and keeps every part of the belief in shape,
  whatever the events: four move slots per member, effort values under their caps, at most 512 changes,
  256 readings and 64 defeats kept, fourteen boxes, five pockets, each script path once.\<close>

theorem reducer_keeps_shapes:
  assumes "state_ok s" "list_all (\<lambda>r. event_ok (ev_event r)) rs"
  shows "\<exists>s'. reduce rs s = Some s' \<and> state_ok s'"
  by (rule reduce_ok [OF assms])

theorem reducer_keeps_shapes_witness:
  "\<exists>s'. reduce [\<lparr>ev_frame = 7, ev_event = Party_Size_Observed 2\<rparr>, \<lparr>ev_frame = 9, ev_event = Whited_Out\<rparr>,
      \<lparr>ev_frame = 9, ev_event = Screen_Changed Overworld Whiteout_Screen ''text''\<rparr>]
    (default_state :: unit state) = Some s' \<and> state_ok s'"
  by (rule reducer_keeps_shapes [OF state_ok_default]) (simp add: event_ok_def)

section \<open>Badges and flags stay in agreement\<close>

text \<open>The events that keep the agreement: all but a badge of an unknown name, a retraction of a path that
  changes a badge flag, and a save whose own list and flags disagree.\<close>

definition saved_agrees :: "saved_knowledge \<Rightarrow> bool" where
  "saved_agrees k \<longleftrightarrow> badges_agree ((default_state :: unit state)
    \<lparr>st_progression := sk_progression k, st_world := sk_world k\<rparr>)"

definition keeps_agreement :: "'shiny game_event \<Rightarrow> bool" where
  "keeps_agreement e = (case e of
     Badge_Earned badge \<Rightarrow> badge \<in> snd ` set BADGES
   | Script_Path_Retracted _ _ flags _ \<Rightarrow> list_all (\<lambda>f. \<not> is_badge_flag f) flags
   | Checkpoint_Restored k \<Rightarrow> kn_value (pr_badges (sk_progression k)) = None \<or> saved_agrees k
   | _ \<Rightarrow> True)"

lemma agree_iff:
  "badges_agree s \<longleftrightarrow> badges_agree ((default_state :: unit state)
    \<lparr>st_progression := st_progression s, st_world := st_world s\<rparr>)"
proof -
  let ?s = "(default_state :: unit state)\<lparr>st_progression := st_progression s, st_world := st_world s\<rparr>"
  have "flag_knowledge ?s = flag_knowledge s" by (simp add: flag_knowledge_def fun_eq_iff)
  then show ?thesis by (simp add: badges_agree_def earned_def)
qed

lemma agree_untouched:
  assumes "badges_agree s" "st_progression s' = st_progression s" "wb_flags (st_world s') = wb_flags (st_world s)"
  shows "badges_agree s'"
proof (rule agree_cong [OF assms(1)])
  show "flag_knowledge s' = flag_knowledge s" using assms(3) by (simp add: flag_knowledge_def fun_eq_iff)
  show "pr_badges (st_progression s') = pr_badges (st_progression s)" using assms(2) by simp
qed

lemma parts_keep_flags [simp]:
  "st_progression (change_member a b c f s) = st_progression s" "st_world (change_member a b c f s) = st_world s"
  "st_progression (change_move i j g s) = st_progression s" "st_world (change_move i j g s) = st_world s"
  "st_progression (reorder_party order frame s) = st_progression s" "st_world (reorder_party order frame s) = st_world s"
  "st_progression (party_size n frame s) = st_progression s" "st_world (party_size n frame s) = st_world s"
  "st_progression (deposit i j s) = st_progression s" "st_world (deposit i j s) = st_world s"
  "st_progression (withdraw i j frame s) = st_progression s" "st_world (withdraw i j frame s) = st_world s"
  by (simp_all add: change_member_def change_move_def reorder_party_def party_size_def deposit_def withdraw_def
      Let_def split: option.split)

lemma forget_other:
  "f \<notin> set names \<Longrightarrow> map_of (forget_tracked names m) f = map_of m f"
  by (induction names arbitrary: m) (auto simp: forget_tracked_def delete_conv' split: option.split)

lemma retract_agrees:
  assumes "badges_agree s" "list_all (\<lambda>f. \<not> is_badge_flag f) flags"
  shows "badges_agree (change_world (retract_path script path flags vars) s)"
proof -
  let ?s = "change_world (retract_path script path flags vars) s"
  have k: "flag_knowledge ?s f = flag_knowledge s f" if "f \<in> fst ` set BADGES" for f
    using that assms(2) forget_other [of f flags "wb_flags (st_world s)"]
    by (auto simp: flag_knowledge_def retract_path_def is_badge_flag_def list_all_iff)
  then have "earned ?s = earned s" by (rule earned_local)
  then show ?thesis using assms(1) k unfolding badges_agree_def change_simps by (metis (no_types, lifting))
qed

lemma flag_events_agree:
  assumes "badges_agree s"
  shows "badges_agree (observe_flag flag v frame s)" "badges_agree (track_flag flag v frame s)"
proof -
  have "badges_agree (change_world (\<lambda>w. w\<lparr>wb_infeasible := {}\<rparr>) s)"
    using assms by (rule agree_untouched) simp_all
  then show "badges_agree (observe_flag flag v frame s)"
    using assms by (auto simp: observe_flag_def Let_def sync_agrees is_badge_flag_def intro: insert_other_flag)
  show "badges_agree (track_flag flag v frame s)"
    using assms by (auto simp: track_flag_def Let_def sync_agrees is_badge_flag_def
        intro: insert_other_flag split: option.split)
qed

lemma restore_agrees:
  assumes "kn_value (pr_badges (sk_progression k)) = None \<or> saved_agrees k"
  shows "badges_agree (restore k frame s)"
proof -
  let ?s = "s\<lparr>st_progression := (sk_progression k)\<lparr>pr_in_control := pr_in_control (st_progression s)\<rparr>,
      st_party := sk_party k, st_bag := sk_bag k, st_money := sk_money k, st_pc := sk_pc k,
      st_pokedex := sk_pokedex k, st_world := sk_world k\<rparr>"
  have "badges_agree ?s" if "saved_agrees k"
    using that unfolding saved_agrees_def by (rule agree_cong) (simp_all add: flag_knowledge_def fun_eq_iff)
  then have "badges_agree (if kn_value (pr_badges (st_progression ?s)) = None then sync_badges frame ?s else ?s)"
    using assms by (auto simp: sync_agrees)
  then show ?thesis unfolding restore_def Let_def by (rule agree_untouched) simp_all
qed

lemma earn_agrees:
  assumes "badge \<in> snd ` set BADGES"
  shows "badges_agree (earn_badge badge frame s)"
proof -
  obtain b where "find (\<lambda>b. snd b = badge) BADGES = Some b"
    using assms by (cases "find (\<lambda>b. snd b = badge) BADGES") (auto simp: find_None_iff)
  then show ?thesis by (cases b) (simp add: earn_badge_def Let_def sync_agrees)
qed

lemma apply_knowledge_agrees:
  assumes s: "badges_agree s" and e: "keeps_agreement e" and r: "apply_knowledge frame e s = Some s'"
  shows "badges_agree s'"
proof -
  have same: "badges_agree s1"
    if "st_progression s1 = st_progression s" "wb_flags (st_world s1) = wb_flags (st_world s)" for s1
    using agree_untouched [OF s that] .
  show ?thesis
    using s e r
    by (cases e) (auto simp: apply_knowledge_def keeps_agreement_def Let_def record_path_def change_npc_def
        intro!: observe_count_agrees retract_agrees flag_events_agree restore_agrees intro: same split: option.splits)
qed

lemma apply_rest_agrees:
  assumes s: "badges_agree s" and e: "keeps_agreement e" and r: "apply_rest frame e s = Some s'"
  shows "badges_agree s'"
proof -
  have same: "badges_agree s1"
    if "pr_badges (st_progression s1) = pr_badges (st_progression s)" "st_world s1 = st_world s" for s1
    by (rule agree_cong [OF s]) (simp_all add: that flag_knowledge_def fun_eq_iff)
  show ?thesis
    using s e r
    by (cases e) (auto simp: apply_rest_def keeps_agreement_def Let_def change_pose_def
        intro!: earn_agrees intro: same split: if_splits)
qed

lemma reduce_one_agrees:
  assumes "badges_agree s" "keeps_agreement (ev_event r)" "reduce_one r s = Some s'"
  shows "badges_agree s'"
proof (cases "apply_knowledge (ev_frame r) (ev_event r) s")
  case None
  then have "apply_rest (ev_frame r) (ev_event r) s = Some s'" using assms(3) by (simp add: reduce_one_def)
  then show ?thesis by (rule apply_rest_agrees [OF assms(1,2)])
next
  case (Some s1)
  then have "s' = s1" using assms(3) by (simp add: reduce_one_def)
  then show ?thesis using apply_knowledge_agrees [OF assms(1,2) Some] by simp
qed


lemma default_agrees: "badges_agree default_state"
  by (simp add: badges_agree_def flag_knowledge_def default_state_def default_world_belief_def has_value_def)


text \<open>A retraction over a badge flag does break it: the flag is forgotten, the list still shows the badge.\<close>

lemma retraction_breaks_badges:
  "\<exists>s'. reduce [\<lparr>ev_frame = 1, ev_event = Flag_Tracked ''FLAG_BADGE01_GET'' True\<rparr>,
      \<lparr>ev_frame = 2, ev_event = Flag_Tracked ''FLAG_BADGE02_GET'' True\<rparr>,
      \<lparr>ev_frame = 3, ev_event = Script_Path_Retracted ''Gym'' 0 [''FLAG_BADGE01_GET''] []\<rparr>]
    (default_state :: unit state) = Some s' \<and> \<not> badges_agree s'
    \<and> kn_value (pr_badges (st_progression s')) = Some [''BOULDERBADGE'', ''CASCADEBADGE'']
    \<and> flag_knowledge s' ''FLAG_BADGE01_GET'' = None"
  by (simp add: reduce_one_def apply_knowledge_def track_flag_def flag_knowledge_def is_badge_flag_def BADGES_def
      default_state_def default_world_belief_def sync_badges_def track_def insert_flag_def change_world_def
      change_progression_def earned_def retract_path_def forget_tracked_def remove_last_def badges_agree_def
      has_value_def List.map_filter_def tracked_def unknown_def derived_def Let_def)



end
