(* ===== verification/Events.thy ===== *)
theory Events
  imports World_Map Text_Match
begin

text \<open>
  Compiled event scripts (crates/world/src/events.rs): every object, sign, trigger and map script as the
  paths of conditions and effects through it. Loading the JSON is I/O; the payload of the open \<open>Other\<close>
  shapes is never read and left out.
\<close>

text \<open>A 64-bit value cast to 32 bits keeps its low bits.\<close>

definition to_i32 :: "int \<Rightarrow> int" where
  "to_i32 x = (x + 2 ^ 31) mod 2 ^ 32 - 2 ^ 31"

datatype val = Int_Val int | Sym_Val string

fun as_int :: "val \<Rightarrow> int option" where
  "as_int (Int_Val v) = Some v"
| "as_int (Sym_Val s) = None"

datatype dex_count = Seen_Count | Caught_Count

record cmp =
  cp_eq :: "val option"
  cp_ne :: "val option"
  cp_lt :: "val option"
  cp_gt :: "val option"
  cp_le :: "val option"
  cp_ge :: "val option"

datatype condition =
  Flag_Cond string bool
| Trainer_Cond string bool
| Item_Cond string int bool
| Bag_Space_Cond string int bool
| Move_Cond string bool
| Answer_Cond string
| Choice_Cond string cmp
| Coins_Cond string cmp
| Money_Cond string cmp
| Pokedex_Cond dex_count bool cmp
| Pokedex_Complete_Cond string bool
| Party_Size_Cond string cmp
| In_Party_Cond val bool
| Special_Cond string cmp
| Result_Cond string cmp
| Var_Cond string cmp
| Other_Cond

record var_change =
  vc_eq :: "val option"
  vc_add :: "val option"
  vc_sub :: "val option"

text \<open>A battle with its trainer, the texts before, on a defeat and on a victory, and whether it is a double
  or a rematch. Items given carry their count, the text and whether they lay on the ground.\<close>

datatype effect =
  Battle_Eff string "string option" "string option" "string option" bool bool
| Defeated_Eff string
| Undefeated_Eff string
| Set_Eff string
| Clear_Eff string
| Var_Eff string var_change
| Give_Eff string int "string option" bool
| Take_Eff string int
| Give_Mon_Eff val val
| Give_Egg_Eff val
| Wild_Eff val val
| Warp_Eff string "val option" "val option" "val option"
| Set_Warp_Eff string "val option" "val option" "val option"
| Escape_Warp_Eff string "val option" "val option" "val option"
| Heal_Eff bool
| Respawn_Eff string
| Move_Object_Eff val val val
| Add_Object_Eff val "string option"
| Remove_Object_Eff val "string option"
| Mart_Eff "string list"
| Say_Eff string
| Money_Eff val
| Coins_Eff val
| Metatile_Eff pos bool "string option"
| Move_Player_Eff pos
| Other_Eff

record event_path =
  pt_when :: "condition list"
  pt_does :: "effect list"
  pt_opaque :: "string list"

record script =
  sc_kind :: string
  sc_map :: "string option"
  sc_local_id :: "nat option"
  sc_paths :: "event_path list"
  sc_truncated :: bool

record frame_script =
  fs_var :: string
  fs_value :: val
  fs_script :: "string option"

record map_scripts =
  ms_on_load :: "string list"
  ms_on_transition :: "string list"
  ms_on_resume :: "string list"
  ms_on_return_to_field :: "string list"
  ms_on_frame :: "frame_script list"
  ms_on_warp :: "frame_script list"

record trigger_event =
  tg_map :: string
  tg_x :: int
  tg_y :: int
  tg_when :: "condition list"
  tg_script :: "string option"

record object_ref =
  or_map :: string
  or_local_id :: nat
  or_graphics :: "string option"
  or_x :: "int option"
  or_y :: "int option"
  or_range_x :: int
  or_range_y :: int
  or_moves :: "string option"
  or_hidden_by :: "string option"
  or_trainer_type :: "string option"
  or_sight :: int
  or_script :: "string option"

record white_out =
  wo_script :: string
  wo_does :: "effect list"

text \<open>The flags a white-out clears.\<close>

definition cleared_flags :: "white_out \<Rightarrow> string list" where
  "cleared_flags w = List.map_filter (\<lambda>e. case e of Clear_Eff f \<Rightarrow> Some f | _ \<Rightarrow> None) (wo_does w)"

record events =
  ev_rom :: string
  ev_sha1 :: string
  ev_scripts :: "(string \<times> script) list"
  ev_map_scripts :: "(string \<times> map_scripts) list"
  ev_triggers :: "trigger_event list"
  ev_objects :: "object_ref list"
  ev_initial :: "string list"
  ev_whiteout :: white_out

definition script_named :: "events \<Rightarrow> string \<Rightarrow> script option" where
  "script_named e label = map_of (ev_scripts e) label"

end
