(* ===== verification/Predicates.thy ===== *)
theory Predicates
  imports Belief Text_Match Decimal "HOL-Library.Char_ord" "HOL-Library.List_Lexorder"
    "HOL-Library.Product_Lexorder"
begin

text \<open>
  Facts a route or a plan depends on (crates/world/src/predicate.rs): their order, their text, the badge
  flags, and the three-valued answer of a belief to a conjunction of them. What a belief promises is the
  locale \<open>belief_view\<close>; the belief made of plain maps is its first instance.
\<close>

section \<open>Comparisons\<close>

datatype cmp_op = Eq_Op | Ne_Op | Lt_Op | Gt_Op | Le_Op | Ge_Op

fun op_holds :: "cmp_op \<Rightarrow> int \<Rightarrow> int \<Rightarrow> bool" where
  "op_holds Eq_Op l r = (l = r)"
| "op_holds Ne_Op l r = (l \<noteq> r)"
| "op_holds Lt_Op l r = (l < r)"
| "op_holds Gt_Op l r = (l > r)"
| "op_holds Le_Op l r = (l \<le> r)"
| "op_holds Ge_Op l r = (l \<ge> r)"

fun op_symbol :: "cmp_op \<Rightarrow> string" where
  "op_symbol Eq_Op = ''==''"
| "op_symbol Ne_Op = ''!=''"
| "op_symbol Lt_Op = ''<''"
| "op_symbol Gt_Op = ''>''"
| "op_symbol Le_Op = ''<=''"
| "op_symbol Ge_Op = ''>=''"

text \<open>The position of an operator in the enumeration, which is how the derived order compares.\<close>

fun op_index :: "cmp_op \<Rightarrow> nat" where
  "op_index Eq_Op = 0" | "op_index Ne_Op = 1" | "op_index Lt_Op = 2" | "op_index Gt_Op = 3"
| "op_index Le_Op = 4" | "op_index Ge_Op = 5"

lemma op_index_inj [simp]: "op_index a = op_index b \<longleftrightarrow> a = b"
  by (cases a; cases b) simp_all

section \<open>Predicates\<close>

datatype predicate =
  Flag string bool
| Var string cmp_op int
| Visited string
| Has_Item string nat
| Party_Has_Move string
| Badge nat
| At string

text \<open>The derived order: by constructor, then by the fields from left to right.\<close>

fun predicate_key :: "predicate \<Rightarrow> nat \<times> string \<times> nat \<times> int" where
  "predicate_key (Flag name is_set) = (0, name, (if is_set then 1 else 0), 0)"
| "predicate_key (Var name c v) = (1, name, op_index c, v)"
| "predicate_key (Visited m) = (2, m, 0, 0)"
| "predicate_key (Has_Item i n) = (3, i, n, 0)"
| "predicate_key (Party_Has_Move mv) = (4, mv, 0, 0)"
| "predicate_key (Badge n) = (5, [], n, 0)"
| "predicate_key (At m) = (6, m, 0, 0)"

lemma predicate_key_inj: "predicate_key p = predicate_key q \<longleftrightarrow> p = q"
  by (cases p; cases q) auto

instantiation predicate :: linorder
begin

definition less_eq_predicate :: "predicate \<Rightarrow> predicate \<Rightarrow> bool" where
  "less_eq_predicate p q \<longleftrightarrow> predicate_key p \<le> predicate_key q"

definition less_predicate :: "predicate \<Rightarrow> predicate \<Rightarrow> bool" where
  "less_predicate p q \<longleftrightarrow> predicate_key p < predicate_key q"

instance
proof
  fix p q r :: predicate
  show "(p < q) = (p \<le> q \<and> \<not> q \<le> p)" by (auto simp: less_eq_predicate_def less_predicate_def)
  show "p \<le> p" by (simp add: less_eq_predicate_def)
  show "p \<le> q \<Longrightarrow> q \<le> r \<Longrightarrow> p \<le> r" by (simp add: less_eq_predicate_def)
  show "p \<le> q \<Longrightarrow> q \<le> p \<Longrightarrow> p = q"
    unfolding less_eq_predicate_def predicate_key_inj [symmetric] by (rule order.antisym)
  show "p \<le> q \<or> q \<le> p" by (auto simp: less_eq_predicate_def)
qed

end

definition badge_flag :: "nat \<Rightarrow> string" where
  "badge_flag n = ''FLAG_BADGE'' @ decimal_padded 2 n @ ''_GET''"

definition badge_of_flag :: "string \<Rightarrow> nat option" where
  "badge_of_flag flag =
    Option.bind (strip_prefix flag ''FLAG_BADGE'')
      (\<lambda>s. Option.bind (strip_suffix s ''_GET'') (parse_unsigned 255))"

definition from_flag :: "string \<Rightarrow> bool \<Rightarrow> predicate" where
  "from_flag flag is_set =
    (case badge_of_flag flag of
       Some n \<Rightarrow> if is_set \<and> 1 \<le> n \<and> n \<le> 8 then Badge n else Flag flag is_set
     | None \<Rightarrow> Flag flag is_set)"

definition decimal_int :: "int \<Rightarrow> string" where
  "decimal_int v = (if v < 0 then CHR ''-'' # decimal (nat (- v)) else decimal (nat v))"

fun display_predicate :: "predicate \<Rightarrow> string" where
  "display_predicate (Flag name is_set) = (if is_set then name else CHR ''!'' # name)"
| "display_predicate (Var name c v) = name @ '' '' @ op_symbol c @ '' '' @ decimal_int v"
| "display_predicate (Visited m) = ''Visited('' @ m @ '')''"
| "display_predicate (Has_Item i n) = ''HasItem('' @ i @ '' x'' @ decimal n @ '')''"
| "display_predicate (Party_Has_Move mv) = ''PartyHasMove('' @ mv @ '')''"
| "display_predicate (Badge n) = ''Badge('' @ decimal n @ '')''"
| "display_predicate (At m) = ''At('' @ m @ '')''"

type_synonym requirement = "predicate list"

section \<open>What a belief answers\<close>

datatype truth = Truth_True | Truth_False | Truth_Unknown

record check =
  ck_failed :: "predicate list"
  ck_unknown :: "predicate list"

definition check_truth :: "check \<Rightarrow> truth" where
  "check_truth c =
    (if ck_failed c \<noteq> [] then Truth_False else if ck_unknown c \<noteq> [] then Truth_Unknown else Truth_True)"

definition check :: "(predicate \<Rightarrow> truth) \<Rightarrow> requirement \<Rightarrow> check" where
  "check eval req = fold (\<lambda>p out. case eval p of
      Truth_True \<Rightarrow> out
    | Truth_False \<Rightarrow> out\<lparr>ck_failed := ck_failed out @ [p]\<rparr>
    | Truth_Unknown \<Rightarrow> out\<lparr>ck_unknown := ck_unknown out @ [p]\<rparr>) req \<lparr>ck_failed = [], ck_unknown = []\<rparr>"

definition known :: "bool option \<Rightarrow> truth" where
  "known v = (case v of Some True \<Rightarrow> Truth_True | Some False \<Rightarrow> Truth_False | None \<Rightarrow> Truth_Unknown)"

record map_belief =
  mb_flags :: "(string \<times> bool) list"
  mb_vars :: "(string \<times> int) list"
  mb_visited :: "(string \<times> bool) list"
  mb_items :: "(string \<times> nat) list"
  mb_moves :: "(string \<times> bool) list"
  mb_badges :: "(nat \<times> bool) list"
  mb_at :: "string option"
  mb_escape :: "escape_warp option"

definition empty_belief :: map_belief where
  "empty_belief = \<lparr>mb_flags = [], mb_vars = [], mb_visited = [], mb_items = [], mb_moves = [], mb_badges = [],
    mb_at = None, mb_escape = None\<rparr>"

fun eval_map :: "map_belief \<Rightarrow> predicate \<Rightarrow> truth" where
  "eval_map b (Flag name is_set) = known (map_option (\<lambda>v. v = is_set) (map_of (mb_flags b) name))"
| "eval_map b (Var name c v) = known (map_option (\<lambda>x. op_holds c x v) (map_of (mb_vars b) name))"
| "eval_map b (Visited m) = known (map_of (mb_visited b) m)"
| "eval_map b (Has_Item i n) = known (map_option (\<lambda>have'. have' \<ge> n) (map_of (mb_items b) i))"
| "eval_map b (Party_Has_Move mv) = known (map_of (mb_moves b) mv)"
| "eval_map b (Badge n) = known (map_of (mb_badges b) n)"
| "eval_map b (At m) = known (map_option (\<lambda>x. x = m) (mb_at b))"

section \<open>The game the predicates are about\<close>

text \<open>What is the case in a game: every flag, variable, count and place has a value there.\<close>

record story =
  sy_flag :: "string \<Rightarrow> bool"
  sy_var :: "string \<Rightarrow> int"
  sy_visited :: "string \<Rightarrow> bool"
  sy_item :: "string \<Rightarrow> nat"
  sy_move :: "string \<Rightarrow> bool"
  sy_at :: string

fun holds_in :: "story \<Rightarrow> predicate \<Rightarrow> bool" where
  "holds_in g (Flag name is_set) = (sy_flag g name = is_set)"
| "holds_in g (Var name c v) = op_holds c (sy_var g name) v"
| "holds_in g (Visited m) = sy_visited g m"
| "holds_in g (Has_Item i n) = (n \<le> sy_item g i)"
| "holds_in g (Party_Has_Move mv) = sy_move g mv"
| "holds_in g (Badge n) = sy_flag g (badge_flag n)"
| "holds_in g (At m) = (sy_at g = m)"

definition meets :: "story \<Rightarrow> requirement \<Rightarrow> bool" where
  "meets g req \<longleftrightarrow> list_all (holds_in g) req"

section \<open>Checking a conjunction\<close>

lemma check_fold:
  "fold (\<lambda>p out. case eval p of Truth_True \<Rightarrow> out
    | Truth_False \<Rightarrow> out\<lparr>ck_failed := ck_failed out @ [p]\<rparr>
    | Truth_Unknown \<Rightarrow> out\<lparr>ck_unknown := ck_unknown out @ [p]\<rparr>) req c =
   c\<lparr>ck_failed := ck_failed c @ filter (\<lambda>p. eval p = Truth_False) req,
     ck_unknown := ck_unknown c @ filter (\<lambda>p. eval p = Truth_Unknown) req\<rparr>"
  by (induction req arbitrary: c) (auto split: truth.split)

lemma check_failed: "ck_failed (check eval req) = filter (\<lambda>p. eval p = Truth_False) req"
  and check_unknown: "ck_unknown (check eval req) = filter (\<lambda>p. eval p = Truth_Unknown) req"
  by (simp_all add: check_def check_fold)

text \<open>The answer of a belief about a game: what it says is so in every game it allows.\<close>

locale belief_view =
  fixes eval :: "predicate \<Rightarrow> truth" and games :: "story set"
  assumes says_true: "g \<in> games \<Longrightarrow> eval p = Truth_True \<Longrightarrow> holds_in g p"
    and says_false: "g \<in> games \<Longrightarrow> eval p = Truth_False \<Longrightarrow> \<not> holds_in g p"
begin

lemma check_sound:
  assumes "g \<in> games"
  shows "check_truth (check eval req) = Truth_True \<Longrightarrow> meets g req"
    and "check_truth (check eval req) = Truth_False \<Longrightarrow> \<not> meets g req"
proof -
  show "meets g req" if "check_truth (check eval req) = Truth_True"
  proof -
    have "eval p = Truth_True" if "p \<in> set req" for p
      using that \<open>check_truth _ = _\<close>
      by (cases "eval p") (auto simp: check_truth_def check_failed check_unknown filter_empty_conv split: if_splits)
    then show ?thesis using says_true [OF assms] by (simp add: meets_def list_all_iff)
  qed
  show "\<not> meets g req" if "check_truth (check eval req) = Truth_False"
    using that says_false [OF assms]
    by (auto simp: check_truth_def check_failed filter_empty_conv meets_def list_all_iff split: if_splits)
qed

end

lemma known_cases [simp]:
  "known v = Truth_True \<longleftrightarrow> v = Some True" "known v = Truth_False \<longleftrightarrow> v = Some False"
  "known v = Truth_Unknown \<longleftrightarrow> v = None"
  by (auto simp: known_def split: option.split bool.split)

text \<open>The games a belief of plain maps allows.\<close>

definition map_games :: "map_belief \<Rightarrow> story set" where
  "map_games b = {g.
    (\<forall>f v. map_of (mb_flags b) f = Some v \<longrightarrow> sy_flag g f = v) \<and>
    (\<forall>x v. map_of (mb_vars b) x = Some v \<longrightarrow> sy_var g x = v) \<and>
    (\<forall>m v. map_of (mb_visited b) m = Some v \<longrightarrow> sy_visited g m = v) \<and>
    (\<forall>i n. map_of (mb_items b) i = Some n \<longrightarrow> sy_item g i = n) \<and>
    (\<forall>mv v. map_of (mb_moves b) mv = Some v \<longrightarrow> sy_move g mv = v) \<and>
    (\<forall>n v. map_of (mb_badges b) n = Some v \<longrightarrow> sy_flag g (badge_flag n) = v) \<and>
    (\<forall>m. mb_at b = Some m \<longrightarrow> sy_at g = m)}"

interpretation map_view: belief_view "eval_map b" "map_games b" for b
proof
  fix g p
  assume "g \<in> map_games b"
  then show "eval_map b p = Truth_True \<Longrightarrow> holds_in g p" "eval_map b p = Truth_False \<Longrightarrow> \<not> holds_in g p"
    by (cases p; auto simp: map_games_def)+
qed

section \<open>Badge flags\<close>

lemma badge_of_badge_flag: "n \<le> 255 \<Longrightarrow> badge_of_flag (badge_flag n) = Some n"
  unfolding badge_of_flag_def badge_flag_def strip_prefix_append by (simp add: parse_decimal_padded)

lemma from_badge_flag: "1 \<le> n \<Longrightarrow> n \<le> 8 \<Longrightarrow> from_flag (badge_flag n) True = Badge n"
  by (simp add: from_flag_def badge_of_badge_flag)

text \<open>A flag name the badge form does not blur: read as a badge only in the spelling it is printed with.\<close>

definition plain_flag :: "string \<Rightarrow> bool" where
  "plain_flag flag \<longleftrightarrow> (case badge_of_flag flag of None \<Rightarrow> True | Some n \<Rightarrow> flag = badge_flag n \<or> n = 0 \<or> 8 < n)"

lemma from_flag_holds: "plain_flag flag \<Longrightarrow> holds_in g (from_flag flag is_set) = (sy_flag g flag = is_set)"
  by (auto simp: plain_flag_def from_flag_def split: option.splits)

end
