(* ===== verification/Gates.thy ===== *)
theory Gates
  imports Events Predicates "HOL-Library.AList"
begin

text \<open>
  Passages the story opens and closes (crates/world/src/gates.rs): the conditions under which a trigger
  turns the player back, an entry script rewrites a tile or moves an object onto it, reduced to the ways
  that open the tile. A world without compiled events has no gates; the events are passed beside the maps.
\<close>

definition MAX_WAYS :: nat where "MAX_WAYS = 8"

datatype gate_kind = Trigger_Gate string | Metatile_Gate | Object_Gate nat

record gate =
  gt_x :: int
  gt_y :: int
  gt_kind :: gate_kind
  gt_ways :: "requirement list"
  gt_warp_ways :: "requirement list option"

type_synonym map_gates = "(pos \<times> gate) list"
type_synonym gates = "(string \<times> map_gates) list"

section \<open>Conditions as literals\<close>

record lit =
  lt_p :: predicate
  lt_pos :: bool

type_synonym conj = "lit list"

datatype cond_read = Lit_Read lit | Free_Read | Choice_Read

definition is_local_var :: "string \<Rightarrow> bool" where
  "is_local_var var \<longleftrightarrow> starts_with var ''VAR_TEMP_'' \<or> starts_with var ''VAR_0x''
    \<or> var \<in> {''VAR_RESULT'', ''VAR_FACING'', ''VAR_SPECIAL_4''}"

definition is_local_flag :: "string \<Rightarrow> bool" where
  "is_local_flag flag \<longleftrightarrow> starts_with flag ''FLAG_TEMP_'' \<or> flag = ''0''"

definition flag_lit :: "string \<Rightarrow> bool \<Rightarrow> cond_read" where
  "flag_lit name is_set =
    (if is_local_flag name then Free_Read else Lit_Read \<lparr>lt_p = Flag name True, lt_pos = is_set\<rparr>)"

definition cmp_of :: "cmp \<Rightarrow> (cmp_op \<times> int) option" where
  "cmp_of c =
    (case List.map_filter (\<lambda>(v, c). map_option (\<lambda>x. (c, x)) (Option.bind v as_int))
       [(cp_eq c, Eq_Op), (cp_ne c, Ne_Op), (cp_lt c, Lt_Op), (cp_gt c, Gt_Op), (cp_le c, Le_Op), (cp_ge c, Ge_Op)] of
       [] \<Rightarrow> None
     | x # _ \<Rightarrow> Some x)"

fun read_cond :: "condition \<Rightarrow> cond_read" where
  "read_cond (Flag_Cond f is_set) = flag_lit f is_set"
| "read_cond (Trainer_Cond t defeated) = flag_lit t defeated"
| "read_cond (Item_Cond i count has) =
    Lit_Read \<lparr>lt_p = Has_Item i (nat (max count 1 mod 2 ^ 32)), lt_pos = has\<rparr>"
| "read_cond (Move_Cond mv is_known) = Lit_Read \<lparr>lt_p = Party_Has_Move mv, lt_pos = is_known\<rparr>"
| "read_cond (Var_Cond var c) =
    (if is_local_var var then Free_Read
     else case cmp_of c of
         Some (c, v) \<Rightarrow> Lit_Read \<lparr>lt_p = Var var c v, lt_pos = True\<rparr>
       | None \<Rightarrow> Free_Read)"
| "read_cond Other_Cond = Free_Read"
| "read_cond _ = Choice_Read"

fun is_answer :: "condition \<Rightarrow> bool" where
  "is_answer (Answer_Cond a) = True"
| "is_answer _ = False"

definition needs_answer :: "event_path \<Rightarrow> bool" where
  "needs_answer p \<longleftrightarrow> list_ex is_answer (pt_when p)"

fun spending :: "effect \<Rightarrow> bool" where
  "spending (Money_Eff m) = (case as_int m of None \<Rightarrow> False | Some v \<Rightarrow> v < 0)"
| "spending (Take_Eff i n) = True"
| "spending _ = False"

definition spends :: "event_path \<Rightarrow> bool" where
  "spends p \<longleftrightarrow> list_ex spending (pt_does p)"

fun conj_from :: "condition list \<Rightarrow> bool \<Rightarrow> conj \<Rightarrow> conj option" where
  "conj_from [] avoid out = Some out"
| "conj_from (c # cs) avoid out =
    (case read_cond c of
       Lit_Read l \<Rightarrow> conj_from cs avoid (if l \<in> set out then out else out @ [l])
     | Free_Read \<Rightarrow> conj_from cs avoid out
     | Choice_Read \<Rightarrow> if avoid then None else conj_from cs avoid out)"

definition conj_of :: "condition list \<Rightarrow> bool \<Rightarrow> conj option" where
  "conj_of cs avoid = conj_from cs avoid []"

fun negate_op :: "cmp_op \<Rightarrow> cmp_op" where
  "negate_op Eq_Op = Ne_Op"
| "negate_op Ne_Op = Eq_Op"
| "negate_op Lt_Op = Ge_Op"
| "negate_op Ge_Op = Lt_Op"
| "negate_op Gt_Op = Le_Op"
| "negate_op Le_Op = Gt_Op"

section \<open>Which conjunctions can hold at once\<close>

fun narrow :: "cmp_op \<times> int \<Rightarrow> int \<times> int \<times> int list \<Rightarrow> int \<times> int \<times> int list" where
  "narrow (Eq_Op, v) (lo, hi, ex) = (max lo v, min hi v, ex)"
| "narrow (Ne_Op, v) (lo, hi, ex) = (lo, hi, ex @ [v])"
| "narrow (Lt_Op, v) (lo, hi, ex) = (lo, min hi (v - 1), ex)"
| "narrow (Le_Op, v) (lo, hi, ex) = (lo, min hi v, ex)"
| "narrow (Gt_Op, v) (lo, hi, ex) = (max lo (v + 1), hi, ex)"
| "narrow (Ge_Op, v) (lo, hi, ex) = (max lo v, hi, ex)"

function skip_up :: "int list \<Rightarrow> int \<Rightarrow> int \<Rightarrow> int" where
  "skip_up ex lo hi = (if lo \<le> hi \<and> lo \<in> set ex then skip_up ex (lo + 1) hi else lo)"
  by auto
termination by (relation "measure (\<lambda>(ex, lo, hi). nat (hi + 1 - lo))") auto

function skip_down :: "int list \<Rightarrow> int \<Rightarrow> int \<Rightarrow> int" where
  "skip_down ex lo hi = (if hi \<ge> lo \<and> hi \<in> set ex then skip_down ex lo (hi - 1) else hi)"
  by auto
termination by (relation "measure (\<lambda>(ex, lo, hi). nat (hi + 1 - lo))") auto

declare skip_up.simps [simp del] skip_down.simps [simp del]

definition LEAST_VALUE :: int where "LEAST_VALUE = - (2 ^ 62)"
definition GREATEST_VALUE :: int where "GREATEST_VALUE = 2 ^ 62 - 1"

definition var_feasible :: "(cmp_op \<times> int) list \<Rightarrow> bool" where
  "var_feasible cmps =
    (case fold narrow cmps (LEAST_VALUE, GREATEST_VALUE, []) of
       (lo, hi, ex) \<Rightarrow>
         let lo = skip_up ex lo hi; hi = skip_down ex lo hi in lo \<le> hi)"

definition var_cmps :: "string \<Rightarrow> conj \<Rightarrow> (cmp_op \<times> int) list" where
  "var_cmps name ls = List.map_filter (\<lambda>l. case lt_p l of
      Var n c v \<Rightarrow> if n = name then Some (c, v) else None | _ \<Rightarrow> None) ls"

definition var_names :: "conj \<Rightarrow> string list" where
  "var_names ls = remdups (List.map_filter (\<lambda>l. case lt_p l of Var n c v \<Rightarrow> Some n | _ \<Rightarrow> None) ls)"

fun same_fact :: "predicate \<Rightarrow> predicate \<Rightarrow> bool" where
  "same_fact (Flag a u) (Flag b v) = (a = b)"
| "same_fact (Has_Item a m) (Has_Item b n) = (a = b)"
| "same_fact (Party_Has_Move a) (Party_Has_Move b) = (a = b)"
| "same_fact _ _ = False"

definition compatible :: "conj \<Rightarrow> conj \<Rightarrow> bool" where
  "compatible a b \<longleftrightarrow>
    list_all (\<lambda>n. var_feasible (var_cmps n (a @ b))) (var_names (a @ b)) \<and>
    \<not> list_ex (\<lambda>x. list_ex (\<lambda>y. same_fact (lt_p x) (lt_p y) \<and> lt_pos x \<noteq> lt_pos y) b) a"

section \<open>Ways\<close>

fun lit_requirement :: "lit \<Rightarrow> predicate option" where
  "lit_requirement l = (case (lt_p l, lt_pos l) of
      (Flag name _, is_set) \<Rightarrow> Some (from_flag name is_set)
    | (p, True) \<Rightarrow> Some p
    | (_, False) \<Rightarrow> None)"

definition requirement_of :: "conj \<Rightarrow> requirement" where
  "requirement_of c = remdups_adj (sort (List.map_filter lit_requirement c))"

definition VAR_DOMAIN :: nat where "VAR_DOMAIN = 256"

fun single_var :: "requirement \<Rightarrow> (string \<times> cmp_op \<times> int) option" where
  "single_var [Var name c v] = Some (name, c, v)"
| "single_var _ = None"

text \<open>The comparison a set of alternatives on one variable amounts to: \<open>Some None\<close> is no restriction.\<close>

definition first_true :: "bool list \<Rightarrow> nat option" where
  "first_true bs = find (\<lambda>i. bs ! i) [0..<length bs]"

definition last_true :: "bool list \<Rightarrow> nat option" where
  "last_true bs = find (\<lambda>i. bs ! i) (rev [0..<length bs])"

definition merged_cmp :: "(cmp_op \<times> int) list \<Rightarrow> (cmp_op \<times> int) option option" where
  "merged_cmp cmps =
    (let allowed = map (\<lambda>x. list_ex (\<lambda>(c, v). op_holds c (int x) v) cmps) [0..<VAR_DOMAIN];
         count = length (filter (\<lambda>b. b) allowed);
         hole = map_option (\<lambda>h. Some (Ne_Op, int h)) (find (\<lambda>i. \<not> allowed ! i) [0..<length allowed]);
         punched = (if count = VAR_DOMAIN - 1 then hole else None) in
     case (first_true allowed, last_true allowed) of
       (Some f, Some l) \<Rightarrow>
         if count = l - f + 1 \<and> l = VAR_DOMAIN - 1 then Some (if f = 0 then None else Some (Gt_Op, int f - 1))
         else if count = l - f + 1 \<and> f = 0 then Some (Some (Le_Op, int l))
         else if f = l then Some (Some (Eq_Op, int f))
         else punched
     | _ \<Rightarrow> punched)"

definition merged_ways :: "string \<Rightarrow> (cmp_op \<times> int) list \<Rightarrow> requirement list" where
  "merged_ways name cmps =
    (case merged_cmp cmps of
       Some (Some (c, v)) \<Rightarrow> [[Var name c v]]
     | Some None \<Rightarrow> [[]]
     | None \<Rightarrow> map (\<lambda>(c, v). [Var name c v]) cmps)"

definition merge_var_ways :: "requirement list \<Rightarrow> requirement list" where
  "merge_var_ways ways =
    (let singles = List.map_filter single_var ways;
         rest = filter (\<lambda>w. single_var w = None) ways;
         names = remdups_adj (sort (map fst singles)) in
     rest @ concat (map (\<lambda>n. merged_ways n (map snd (filter (\<lambda>s. fst s = n) singles))) names))"

fun is_var :: "predicate \<Rightarrow> bool" where
  "is_var (Var n c v) = True"
| "is_var _ = False"

definition way_vars :: "requirement \<Rightarrow> nat" where
  "way_vars w = length (filter is_var w)"

fun drop_supersets :: "requirement list \<Rightarrow> requirement list \<Rightarrow> requirement list" where
  "drop_supersets out [] = out"
| "drop_supersets out (w # ws) =
    drop_supersets (if list_ex (\<lambda>o'. list_all (\<lambda>p. p \<in> set w) o') out then out else out @ [w]) ws"

definition minimal_ways :: "requirement list \<Rightarrow> requirement list" where
  "minimal_ways ways =
    take MAX_WAYS (drop_supersets [] (sort_key (\<lambda>w. (way_vars w, length w, w)) (merge_var_ways ways)))"

function shorten :: "conj list \<Rightarrow> conj \<Rightarrow> nat \<Rightarrow> conj" where
  "shorten closed c i =
    (if i < length c then
       let shorter = take i c @ drop (Suc i) c in
       if list_ex (compatible shorter) closed then shorten closed c (Suc i) else shorten closed shorter i
     else c)"
  by auto
termination by (relation "measure (\<lambda>(closed, c, i). length c - i)") auto

declare shorten.simps [simp del]

definition push_way :: "conj list \<Rightarrow> conj \<Rightarrow> requirement list \<Rightarrow> requirement list" where
  "push_way closed c ways =
    (let req = requirement_of (shorten closed c 0) in if req \<in> set ways then ways else ways @ [req])"

definition reduce_ways :: "conj list \<Rightarrow> conj list \<Rightarrow> requirement list" where
  "reduce_ways opened closed = minimal_ways (fold (push_way closed) opened [])"

definition both_ways :: "requirement list \<Rightarrow> requirement list \<Rightarrow> requirement list" where
  "both_ways a b = minimal_ways (concat (map (\<lambda>x. map (\<lambda>y. remdups_adj (sort (x @ y))) b) a))"

section \<open>What a path does\<close>

fun off_tile :: "effect \<Rightarrow> bool" where
  "off_tile (Move_Player_Eff d) = (d \<noteq> (0, 0))"
| "off_tile _ = False"

definition moves_player :: "event_path \<Rightarrow> bool" where
  "moves_player p \<longleftrightarrow> list_ex off_tile (pt_does p)"

fun is_warp_eff :: "effect \<Rightarrow> bool" where
  "is_warp_eff (Warp_Eff w i x y) = True"
| "is_warp_eff _ = False"

definition path_warps :: "event_path \<Rightarrow> bool" where
  "path_warps p \<longleftrightarrow> list_ex is_warp_eff (pt_does p)"

fun var_set_to :: "string \<Rightarrow> effect \<Rightarrow> int option" where
  "var_set_to var (Var_Eff v change) = (if v = var then Option.bind (vc_eq change) as_int else None)"
| "var_set_to var _ = None"

definition sets_var :: "event_path \<Rightarrow> string \<Rightarrow> int option" where
  "sets_var p var =
    (case List.map_filter (var_set_to var) (rev (pt_does p)) of [] \<Rightarrow> None | v # _ \<Rightarrow> Some v)"

definition entry_scripts :: "events \<Rightarrow> string \<Rightarrow> event_path list list" where
  "entry_scripts ev m =
    (case map_of (ev_map_scripts ev) m of
       None \<Rightarrow> []
     | Some ms \<Rightarrow> map sc_paths (List.map_filter (script_named ev)
         (ms_on_load ms @ ms_on_transition ms @ ms_on_resume ms)))"

section \<open>Feasible comparisons\<close>

definition all_hold :: "int \<Rightarrow> (cmp_op \<times> int) list \<Rightarrow> bool" where
  "all_hold x cmps \<longleftrightarrow> list_all (\<lambda>(c, v). op_holds c x v) cmps"

definition within :: "int \<times> int \<times> int list \<Rightarrow> int \<Rightarrow> bool" where
  "within r x = (case r of (lo, hi, ex) \<Rightarrow> lo \<le> x \<and> x \<le> hi \<and> x \<notin> set ex)"

lemma within_narrow: "within (narrow (c, v) r) x \<longleftrightarrow> within r x \<and> op_holds c x v"
  by (cases c; cases r) (auto simp: within_def)

lemma within_fold: "within (fold narrow cmps r) x \<longleftrightarrow> within r x \<and> all_hold x cmps"
  by (induction cmps arbitrary: r) (auto simp: all_hold_def within_narrow simp del: narrow.simps)

lemma skip_up_spec:
  "lo \<le> skip_up ex lo hi \<and> (\<forall>x. lo \<le> x \<longrightarrow> x < skip_up ex lo hi \<longrightarrow> x \<in> set ex) \<and>
   (skip_up ex lo hi \<le> hi \<longrightarrow> skip_up ex lo hi \<notin> set ex)"
proof (induction ex lo hi rule: skip_up.induct)
  case (1 ex lo hi)
  show ?case
  proof (cases "lo \<le> hi \<and> lo \<in> set ex")
    case True
    then have step: "skip_up ex lo hi = skip_up ex (lo + 1) hi" by (subst skip_up.simps) simp
    have "x \<in> set ex" if "lo \<le> x" "x < skip_up ex (lo + 1) hi" for x
      using that True 1 [OF True] by (cases "x = lo") auto
    then show ?thesis using 1 [OF True] unfolding step by auto
  next
    case False
    then have "skip_up ex lo hi = lo" by (subst skip_up.simps) auto
    then show ?thesis using False by auto
  qed
qed

lemma skip_down_spec:
  "skip_down ex lo hi \<le> hi \<and> (lo \<le> hi \<longrightarrow> lo \<notin> set ex \<longrightarrow> lo \<le> skip_down ex lo hi)"
proof (induction ex lo hi rule: skip_down.induct)
  case (1 ex lo hi)
  show ?case
  proof (cases "hi \<ge> lo \<and> hi \<in> set ex")
    case True
    then have step: "skip_down ex lo hi = skip_down ex lo (hi - 1)" by (subst skip_down.simps) simp
    have "lo < hi" if "lo \<notin> set ex" using that True by (cases "lo = hi") auto
    then show ?thesis using 1 [OF True] True unfolding step by auto
  next
    case False
    then have "skip_down ex lo hi = hi" by (subst skip_down.simps) auto
    then show ?thesis by auto
  qed
qed

lemma trimmed_nonempty:
  "skip_up ex lo hi \<le> skip_down ex (skip_up ex lo hi) hi \<longleftrightarrow> (\<exists>x. within (lo, hi, ex) x)"
proof -
  let ?l = "skip_up ex lo hi"
  note up = skip_up_spec [of lo ex hi] and down = skip_down_spec [of ex ?l hi]
  have "?l \<le> skip_down ex ?l hi \<longleftrightarrow> ?l \<le> hi" using up down by auto
  also have "\<dots> \<longleftrightarrow> (\<exists>x. within (lo, hi, ex) x)"
  proof
    show "?l \<le> hi \<Longrightarrow> \<exists>x. within (lo, hi, ex) x"
      using up by (intro exI [of _ ?l]) (simp add: within_def)
    show "\<exists>x. within (lo, hi, ex) x \<Longrightarrow> ?l \<le> hi"
      using up by (auto simp: within_def)
  qed
  finally show ?thesis .
qed

text \<open>The check of a variable's comparisons is exact: it accepts them just when some value between the
  bounds of the code satisfies them all.\<close>

lemma var_feasible_exact:
  "var_feasible cmps \<longleftrightarrow>
    (\<exists>x. LEAST_VALUE \<le> x \<and> x \<le> GREATEST_VALUE \<and> (\<nexists>cv. cv \<in> set cmps \<and> \<not> op_holds (fst cv) x (snd cv)))"
proof -
  obtain lo hi ex where r: "fold narrow cmps (LEAST_VALUE, GREATEST_VALUE, []) = (lo, hi, ex)"
    by (cases "fold narrow cmps (LEAST_VALUE, GREATEST_VALUE, [])")
  have "var_feasible cmps \<longleftrightarrow> (\<exists>x. within (lo, hi, ex) x)"
    by (simp add: var_feasible_def r Let_def trimmed_nonempty)
  also have "\<dots> \<longleftrightarrow> (\<exists>x. within (LEAST_VALUE, GREATEST_VALUE, []) x \<and> all_hold x cmps)"
    using within_fold [of cmps "(LEAST_VALUE, GREATEST_VALUE, [])"] unfolding r by simp
  finally show ?thesis by (auto simp: within_def all_hold_def list_all_iff)
qed

lemma feasible_if: "all_hold x cmps \<Longrightarrow> LEAST_VALUE \<le> x \<Longrightarrow> x \<le> GREATEST_VALUE \<Longrightarrow> var_feasible cmps"
proof -
  assume a: "all_hold x cmps" "LEAST_VALUE \<le> x" "x \<le> GREATEST_VALUE"
  obtain lo hi ex where r: "fold narrow cmps (LEAST_VALUE, GREATEST_VALUE, []) = (lo, hi, ex)"
    by (cases "fold narrow cmps (LEAST_VALUE, GREATEST_VALUE, [])")
  have "within (lo, hi, ex) x"
    using a within_fold [of cmps "(LEAST_VALUE, GREATEST_VALUE, [])" x] unfolding r by (simp add: within_def)
  then show "var_feasible cmps" by (auto simp: var_feasible_def r Let_def trimmed_nonempty)
qed

section \<open>What literals and ways say of a game\<close>

definition lit_holds :: "story \<Rightarrow> lit \<Rightarrow> bool" where
  "lit_holds g l \<longleftrightarrow> holds_in g (lt_p l) = lt_pos l"

definition conj_holds :: "story \<Rightarrow> conj \<Rightarrow> bool" where
  "conj_holds g c \<longleftrightarrow> list_all (lit_holds g) c"

definition meets_some :: "story \<Rightarrow> requirement list \<Rightarrow> bool" where
  "meets_some g ways \<longleftrightarrow> list_ex (meets g) ways"

text \<open>What the derivation counts on: literals as \<open>read\<close> makes them, variables in the range they are checked
  over, and flags whose names are not other spellings of a badge's.\<close>

definition lit_ok :: "lit \<Rightarrow> bool" where
  "lit_ok l = (case lt_p l of
      Flag name is_set \<Rightarrow> is_set \<and> plain_flag name
    | Var name c v \<Rightarrow> lt_pos l
    | Has_Item i n \<Rightarrow> True
    | Party_Has_Move mv \<Rightarrow> True
    | _ \<Rightarrow> False)"

definition vars_small :: "story \<Rightarrow> bool" where
  "vars_small g \<longleftrightarrow> (\<forall>name. 0 \<le> sy_var g name \<and> sy_var g name < int VAR_DOMAIN)"

text \<open>The count an item is asked for is the same wherever it is asked.\<close>

definition same_counts :: "conj \<Rightarrow> conj \<Rightarrow> bool" where
  "same_counts a b \<longleftrightarrow> (\<forall>x \<in> set a. \<forall>y \<in> set b. same_fact (lt_p x) (lt_p y) \<longrightarrow> lt_p x = lt_p y)"

lemma set_map_filter_iff: "y \<in> set (List.map_filter f xs) \<longleftrightarrow> (\<exists>x \<in> set xs. f x = Some y)"
  by (induction xs) (auto simp: List.map_filter_simps split: option.split)

lemma var_cmps_hold:
  assumes "conj_holds g c" "list_all lit_ok c"
  shows "all_hold (sy_var g name) (var_cmps name c)"
proof -
  have "op_holds o' (sy_var g name) v" if l: "l \<in> set c" "(case lt_p l of Var n c v \<Rightarrow> if n = name then Some (c, v) else None | _ \<Rightarrow> None) = Some (o', v)"
    for l o' v
  proof -
    have "lt_p l = Var name o' v" using l(2) by (auto split: predicate.splits if_splits)
    moreover have "lit_holds g l" "lit_ok l" using assms l(1) by (auto simp: conj_holds_def list_all_iff)
    ultimately show ?thesis by (simp add: lit_holds_def lit_ok_def)
  qed
  then show ?thesis by (auto simp: all_hold_def list_all_iff var_cmps_def set_map_filter_iff)
qed

text \<open>Conjunctions found incompatible never hold together.\<close>

lemma compatible_if:
  assumes "conj_holds g a" "conj_holds g b" "list_all lit_ok a" "list_all lit_ok b" "vars_small g" "same_counts a b"
  shows "compatible a b"
proof -
  have ab: "conj_holds g (a @ b)" "list_all lit_ok (a @ b)" using assms by (simp_all add: conj_holds_def)
  have "var_feasible (var_cmps n (a @ b))" for n
    using var_cmps_hold [OF ab, of n] assms(5)
    by (intro feasible_if) (auto simp: vars_small_def VAR_DOMAIN_def LEAST_VALUE_def GREATEST_VALUE_def
        intro: order_trans dest: spec [of _ n] less_imp_le)
  moreover have "lt_pos x = lt_pos y" if "x \<in> set a" "y \<in> set b" "same_fact (lt_p x) (lt_p y)" for x y
  proof -
    have "lt_p x = lt_p y" using assms(6) that by (simp add: same_counts_def)
    moreover have "lit_holds g x" "lit_holds g y" using assms(1,2) that by (auto simp: conj_holds_def list_all_iff)
    ultimately show ?thesis by (simp add: lit_holds_def)
  qed
  ultimately show ?thesis by (auto simp: compatible_def list_all_iff list_ex_iff)
qed

section \<open>Requirements of a conjunction\<close>

definition askable :: "lit \<Rightarrow> bool" where
  "askable l \<longleftrightarrow> lt_pos l \<or> (case lt_p l of Flag name is_set \<Rightarrow> True | _ \<Rightarrow> False)"

lemma lit_requirement_holds:
  assumes "lit_ok l"
  shows "lit_requirement l = Some p \<Longrightarrow> holds_in g p = lit_holds g l"
    and "lit_requirement l = None \<Longrightarrow> \<not> askable l"
proof -
  have "holds_in g p = lit_holds g l" if "lit_requirement l = Some p"
  proof (cases "lt_p l")
    case (Flag name is_set)
    then have "is_set" "plain_flag name" "p = from_flag name (lt_pos l)"
      using assms that by (simp_all add: lit_ok_def)
    then show ?thesis using Flag from_flag_holds [of name g "lt_pos l"] by (simp add: lit_holds_def)
  qed (use assms that in \<open>cases "lt_pos l"; simp add: lit_ok_def lit_holds_def\<close>)+
  then show "lit_requirement l = Some p \<Longrightarrow> holds_in g p = lit_holds g l" by blast
  show "lit_requirement l = None \<Longrightarrow> \<not> askable l"
    by (cases "lt_p l"; cases "lt_pos l") (simp_all add: askable_def)
qed

declare lit_requirement.simps [simp del]

lemma meets_requirement:
  assumes "list_all lit_ok c"
  shows "conj_holds g c \<Longrightarrow> meets g (requirement_of c)"
    and "list_all askable c \<Longrightarrow> meets g (requirement_of c) \<Longrightarrow> conj_holds g c"
proof -
  have set: "set (requirement_of c) = {p. \<exists>l \<in> set c. lit_requirement l = Some p}"
    by (auto simp: requirement_of_def set_map_filter_iff)
  have ok: "lit_ok l" if "l \<in> set c" for l using assms that by (simp add: list_all_iff)
  show "meets g (requirement_of c)" if "conj_holds g c"
    using that ok lit_requirement_holds(1) unfolding meets_def list_all_iff set conj_holds_def by blast
  show "conj_holds g c" if "list_all askable c" "meets g (requirement_of c)"
    unfolding conj_holds_def list_all_iff
  proof
    fix l assume l: "l \<in> set c"
    then have "askable l" using that(1) by (simp add: list_all_iff)
    then obtain p where p: "lit_requirement l = Some p"
      using lit_requirement_holds(2) [OF ok [OF l]] by (cases "lit_requirement l") auto
    then have "holds_in g p" using that(2) l unfolding meets_def list_all_iff set by blast
    then show "lit_holds g l" using lit_requirement_holds(1) [OF ok [OF l] p] by blast
  qed
qed

section \<open>Merging comparisons of one variable\<close>

lemma find_upt_Some:
  "find P [0..<n] = Some f \<longleftrightarrow> f < n \<and> P f \<and> (\<forall>j < f. \<not> P j)"
  by (auto simp: find_Some_iff)

lemma find_rev_upt_Some:
  assumes "find P (rev [0..<n]) = Some l"
  shows "l < n \<and> P l \<and> (\<forall>j < n. l < j \<longrightarrow> \<not> P j)"
proof -
  obtain i where i: "i < n" "P (rev [0..<n] ! i)" "l = rev [0..<n] ! i" "\<forall>j < i. \<not> P (rev [0..<n] ! j)"
    using assms by (auto simp: find_Some_iff)
  have l: "l = n - Suc i" using i(1,3) by (simp add: rev_nth)
  have "\<not> P j" if "j < n" "l < j" for j
  proof -
    have "n - Suc j < i" "rev [0..<n] ! (n - Suc j) = j" using that l i(1) by (simp_all add: rev_nth)
    then show ?thesis using i(4) by metis
  qed
  then show ?thesis using i l by auto
qed

lemma count_true: "length (filter (\<lambda>b. b) bs) = card {i. i < length bs \<and> bs ! i}"
  by (rule length_filter_conv_card)

lemma exactly_between:
  assumes "first_true bs = Some f" "last_true bs = Some l" "length (filter (\<lambda>b. b) bs) = l - f + 1" "i < length bs"
  shows "bs ! i \<longleftrightarrow> f \<le> i \<and> i \<le> l"
proof -
  have f: "f < length bs" "bs ! f" "\<forall>j < f. \<not> bs ! j" using assms(1) by (simp_all add: first_true_def find_upt_Some)
  have l: "l < length bs" "bs ! l" "\<forall>j < length bs. l < j \<longrightarrow> \<not> bs ! j"
    using find_rev_upt_Some [OF assms(2) [unfolded last_true_def]] by simp_all
  let ?T = "{i. i < length bs \<and> bs ! i}"
  have sub: "?T \<subseteq> {f..l}"
  proof
    fix i assume "i \<in> ?T"
    then have "\<not> i < f" "\<not> l < i" using f(3) l(3) by auto
    then show "i \<in> {f..l}" by simp
  qed
  have "f \<in> ?T" using f(1,2) by simp
  then have "f \<le> l" using subsetD [OF sub] by fastforce
  then have "card ?T = card {f..l}" using assms(3) unfolding count_true card_atLeastAtMost by linarith
  then have "?T = {f..l}" by (rule card_subset_eq [OF finite_atLeastAtMost sub])
  then have "i \<in> ?T \<longleftrightarrow> i \<in> {f..l}" by (rule arg_cong)
  then show ?thesis using assms(4) by simp
qed

lemma only_hole:
  assumes "length (filter (\<lambda>b. b) bs) = length bs - 1" "find (\<lambda>i. \<not> bs ! i) [0..<length bs] = Some h" "i < length bs"
  shows "bs ! i \<longleftrightarrow> i \<noteq> h"
proof -
  let ?T = "{i. i < length bs \<and> bs ! i}"
  have h: "h < length bs" "\<not> bs ! h" using assms(2) by (simp_all add: find_upt_Some)
  have sub: "?T \<subseteq> {0..<length bs} - {h}"
  proof
    fix j assume "j \<in> ?T"
    then have "j < length bs" "j \<noteq> h" using h(2) by blast+
    then show "j \<in> {0..<length bs} - {h}" by simp
  qed
  have "card ({0..<length bs} - {h}) = length bs - 1" using h(1) by (simp add: card_Diff_singleton)
  then have "card ?T = card ({0..<length bs} - {h})" using assms(1) unfolding count_true by linarith
  then have "?T = {0..<length bs} - {h}" by (intro card_subset_eq [OF _ sub]) simp_all
  then have "i \<in> ?T \<longleftrightarrow> i \<in> {0..<length bs} - {h}" by (rule arg_cong)
  then show ?thesis using assms(3) by simp
qed

definition cmp_in :: "(cmp_op \<times> int) option \<Rightarrow> int \<Rightarrow> bool" where
  "cmp_in m x = (case m of None \<Rightarrow> True | Some (c, v) \<Rightarrow> op_holds c x v)"

lemma merged_cmp_holds:
  assumes m: "merged_cmp cmps = Some m" and x: "0 \<le> x" "x < int VAR_DOMAIN"
  shows "cmp_in m x \<longleftrightarrow> list_ex (\<lambda>(c, v). op_holds c x v) cmps"
proof -
  let ?bs = "map (\<lambda>x. list_ex (\<lambda>(c, v). op_holds c (int x) v) cmps) [0..<VAR_DOMAIN]"
  let ?count = "length (filter (\<lambda>b. b) ?bs)"
  have len: "length ?bs = VAR_DOMAIN" by simp
  have i: "nat x < length ?bs" "int (nat x) = x" using x by auto
  have at: "?bs ! nat x = list_ex (\<lambda>(c, v). op_holds c x v) cmps" using i by simp
  have hole: "cmp_in m x = ?bs ! nat x"
    if count: "?count = VAR_DOMAIN - 1" and found: "map_option (\<lambda>h. Some (Ne_Op, int h)) (find (\<lambda>i. \<not> ?bs ! i) [0..<length ?bs]) = Some m"
  proof -
    obtain h where h: "find (\<lambda>i. \<not> ?bs ! i) [0..<length ?bs] = Some h" "m = Some (Ne_Op, int h)"
      using found by (auto simp del: length_map)
    have "?bs ! nat x \<longleftrightarrow> nat x \<noteq> h" by (rule only_hole [OF _ h(1) i(1)]) (use count len in simp)
    then show ?thesis using i(2) x(1) unfolding h(2) cmp_in_def by auto
  qed
  have "cmp_in m x = ?bs ! nat x"
  proof (cases "first_true ?bs")
    case None
    then show ?thesis using m hole by (auto simp: merged_cmp_def Let_def split: if_splits)
  next
    case (Some f)
    show ?thesis
    proof (cases "last_true ?bs")
      case None
      then show ?thesis using m hole Some by (auto simp: merged_cmp_def Let_def split: if_splits)
    next
      case l: (Some l)
      note between = exactly_between [OF Some l _ i(1)]
      have fl: "?bs ! nat x \<Longrightarrow> f \<le> nat x \<and> nat x \<le> l"
        using Some find_rev_upt_Some [OF l [unfolded last_true_def]] i(1)
        unfolding first_true_def find_upt_Some by (metis not_less)
      have f: "?bs ! f" using Some by (simp add: first_true_def find_upt_Some)
      have il: "nat x \<le> VAR_DOMAIN - 1" using i(1) len by simp
      consider "?count = l - f + 1" "l = VAR_DOMAIN - 1" | "?count = l - f + 1" "l \<noteq> VAR_DOMAIN - 1" "f = 0"
        | "\<not> (?count = l - f + 1 \<and> (l = VAR_DOMAIN - 1 \<or> f = 0))" "f = l"
        | "\<not> (?count = l - f + 1 \<and> (l = VAR_DOMAIN - 1 \<or> f = 0))" "f \<noteq> l"
        by blast
      then show ?thesis
      proof cases
        case 1
        then have "m = (if f = 0 then None else Some (Gt_Op, int f - 1))"
          using m Some l by (simp add: merged_cmp_def Let_def)
        then show ?thesis using between [OF 1(1)] il 1(2) i(2) by (auto simp: cmp_in_def)
      next
        case 2
        then have "m = Some (Le_Op, int l)" using m Some l by (simp add: merged_cmp_def Let_def)
        then show ?thesis using between [OF 2(1)] 2(3) i(2) by (auto simp: cmp_in_def)
      next
        case 3
        then have "m = Some (Eq_Op, int f)" using m Some l by (auto simp: merged_cmp_def Let_def split: if_splits)
        then show ?thesis using fl f 3(2) i(2) x(1) by (auto simp: cmp_in_def)
      next
        case 4
        then show ?thesis using m Some l hole by (auto simp: merged_cmp_def Let_def split: if_splits)
      qed
    qed
  qed
  then show ?thesis using at by simp
qed

lemma single_var_Some: "single_var w = Some (n, c, v) \<longleftrightarrow> w = [Var n c v]"
  by (cases w rule: single_var.cases) auto

lemma merged_ways_meet:
  assumes "vars_small g"
  shows "meets_some g (merged_ways name cmps) \<longleftrightarrow> list_ex (\<lambda>(c, v). op_holds c (sy_var g name) v) cmps"
proof (cases "merged_cmp cmps")
  case None
  then show ?thesis
    by (simp add: merged_ways_def meets_some_def meets_def list_ex_iff case_prod_unfold)
next
  case (Some m)
  have "0 \<le> sy_var g name" "sy_var g name < int VAR_DOMAIN" using assms by (simp_all add: vars_small_def)
  then have "cmp_in m (sy_var g name) = list_ex (\<lambda>(c, v). op_holds c (sy_var g name) v) cmps"
    by (rule merged_cmp_holds [OF Some])
  then show ?thesis
    unfolding merged_ways_def Some meets_some_def by (auto simp: cmp_in_def meets_def split: option.splits prod.splits)
qed

text \<open>Merging the ways that compare one variable changes nothing for any game whose variables are in the
  range the merge is checked over.\<close>

lemma merge_keeps_ways:
  assumes "vars_small g"
  shows "meets_some g (merge_var_ways ways) \<longleftrightarrow> meets_some g ways"
proof -
  let ?singles = "List.map_filter single_var ways"
  have "meets_some g ways \<longleftrightarrow> meets_some g (filter (\<lambda>w. single_var w = None) ways) \<or>
      (\<exists>n c v. (n, c, v) \<in> set ?singles \<and> op_holds c (sy_var g n) v)"
    unfolding meets_some_def list_ex_iff set_filter set_map_filter_iff single_var_Some
  proof safe
    fix w assume w: "w \<in> set ways" "meets g w" "\<nexists>n c v. (\<exists>x\<in>set ways. x = [Var n c v]) \<and> op_holds c (sy_var g n) v"
    then have "single_var w = None"
      by (cases "single_var w") (auto simp: single_var_Some meets_def)
    then show "\<exists>x\<in>{x \<in> set ways. single_var x = None}. meets g x" using w by blast
  next
    fix n c v assume "op_holds c (sy_var g n) v" "[Var n c v] \<in> set ways"
    then show "\<exists>x\<in>set ways. meets g x" by (intro bexI [of _ "[Var n c v]"]) (simp_all add: meets_def)
  qed auto
  moreover have "meets_some g (concat (map (\<lambda>n. merged_ways n (map snd (filter (\<lambda>s. fst s = n) ?singles)))
      (remdups_adj (sort (map fst ?singles))))) \<longleftrightarrow> (\<exists>n c v. (n, c, v) \<in> set ?singles \<and> op_holds c (sy_var g n) v)"
    (is "?lhs = ?rhs")
  proof -
    have "?lhs \<longleftrightarrow> (\<exists>n \<in> fst ` set ?singles. meets_some g (merged_ways n (map snd (filter (\<lambda>s. fst s = n) ?singles))))"
      by (auto simp: meets_some_def list_ex_iff)
    also have "\<dots> \<longleftrightarrow> ?rhs" unfolding merged_ways_meet [OF assms] by (force simp: list_ex_iff)
    finally show ?thesis .
  qed
  ultimately show ?thesis by (auto simp: merge_var_ways_def Let_def meets_some_def)
qed

lemma merge_meets: "vars_small g \<Longrightarrow> meets_some g (merge_var_ways ways) \<longleftrightarrow> meets_some g ways"
  by (rule merge_keeps_ways)

lemma drop_supersets_meets: "meets_some g (drop_supersets out ws) \<longleftrightarrow> meets_some g (out @ ws)"
proof (induction out ws rule: drop_supersets.induct)
  case (2 out w ws)
  let ?covered = "list_ex (\<lambda>o'. list_all (\<lambda>p. p \<in> set w) o') out"
  have "meets_some g out" if "?covered" "meets g w"
    using that by (auto simp: meets_some_def meets_def list_ex_iff list_all_iff)
  moreover have "meets_some g (drop_supersets out (w # ws)) = meets_some g ((if ?covered then out else out @ [w]) @ ws)"
    using 2 by simp
  ultimately show ?case by (cases ?covered) (auto simp: meets_some_def)
qed simp

lemma length_drop_supersets: "length (drop_supersets out ws) \<le> length out + length ws"
proof (induction out ws rule: drop_supersets.induct)
  case (2 out w ws)
  then show ?case by (auto split: if_splits) 
qed simp

lemma distinct_remdups_sorted: "sorted xs \<Longrightarrow> distinct (remdups_adj xs)"
proof (induction xs rule: remdups_adj.induct)
  case (3 x y xs)
  then show ?case by (cases "x = y") (auto dest: order.antisym)
qed simp_all

lemma length_merge: "length (merge_var_ways ways) \<le> length ways"
proof -
  let ?singles = "List.map_filter single_var ways"
  let ?group = "\<lambda>n. filter (\<lambda>s. fst s = n) ?singles"
  have group: "length (merged_ways n (map snd (?group n))) \<le> length (?group n)" if "n \<in> fst ` set ?singles" for n
  proof -
    have "?group n \<noteq> []" using that by (auto simp: filter_empty_conv)
    then have "1 \<le> length (?group n)" by (cases "?group n") auto
    then show ?thesis by (auto simp: merged_ways_def split: option.split prod.split)
  qed
  have partition: "sum_list (map (\<lambda>n. length (filter (\<lambda>s. fst s = n) xs)) ns) \<le> length xs"
    if "distinct ns" for ns :: "string list" and xs :: "(string \<times> cmp_op \<times> int) list"
    using that
  proof (induction ns arbitrary: xs)
    case (Cons n ns)
    have "filter (\<lambda>s. fst s = m) xs = filter (\<lambda>s. fst s = m) (filter (\<lambda>s. fst s \<noteq> n) xs)" if "m \<in> set ns" for m
      using that Cons.prems by (auto intro!: filter_cong)
    then have "sum_list (map (\<lambda>m. length (filter (\<lambda>s. fst s = m) xs)) ns)
      = sum_list (map (\<lambda>m. length (filter (\<lambda>s. fst s = m) (filter (\<lambda>s. fst s \<noteq> n) xs))) ns)"
      by (intro arg_cong [where f = sum_list] map_cong) simp_all
    also have "\<dots> \<le> length (filter (\<lambda>s. fst s \<noteq> n) xs)" by (rule Cons.IH) (use Cons.prems in simp)
    finally show ?case using sum_length_filter_compl [of "\<lambda>s. fst s = n" xs] by simp
  qed simp
  let ?names = "remdups_adj (sort (map fst ?singles))"
  have names: "set ?names = fst ` set ?singles" by simp
  have "length (concat (map (\<lambda>n. merged_ways n (map snd (?group n))) ?names))
      = sum_list (map (\<lambda>n. length (merged_ways n (map snd (?group n)))) ?names)"
    by (simp add: length_concat o_def)
  also have "\<dots> \<le> sum_list (map (\<lambda>n. length (?group n)) ?names)"
    using group names by (intro sum_list_mono) blast
  also have "\<dots> \<le> length ?singles" by (rule partition) (simp add: distinct_remdups_sorted)
  also have "length ?singles + length (filter (\<lambda>w. single_var w = None) ways) = length ways"
    by (induction ways) (auto simp: List.map_filter_simps split: option.split)
  ultimately show ?thesis by (simp add: merge_var_ways_def Let_def)
qed

lemma minimal_meets:
  assumes "vars_small g"
  shows "meets_some g (minimal_ways ways) \<Longrightarrow> meets_some g ways"
    and "length ways \<le> MAX_WAYS \<Longrightarrow> meets_some g ways \<Longrightarrow> meets_some g (minimal_ways ways)"
proof -
  let ?sorted = "sort_key (\<lambda>w. (way_vars w, length w, w)) (merge_var_ways ways)"
  have all: "meets_some g (drop_supersets [] ?sorted) \<longleftrightarrow> meets_some g ways"
    using merge_meets [OF assms, of ways] by (simp add: drop_supersets_meets) (simp add: meets_some_def list_ex_iff)
  show "meets_some g ways" if "meets_some g (minimal_ways ways)"
    using that all by (auto simp: minimal_ways_def meets_some_def list_ex_iff dest: in_set_takeD)
  show "meets_some g (minimal_ways ways)" if "length ways \<le> MAX_WAYS" "meets_some g ways"
    using that all length_drop_supersets [of "[]" ?sorted] length_merge [of ways] by (simp add: minimal_ways_def)
qed

section \<open>Reducing the open states against the closed ones\<close>

lemma shorten_subset: "set (shorten closed c i) \<subseteq> set c"
proof (induction closed c i rule: shorten.induct)
  case (1 closed c i)
  have sub: "set (take i c @ drop (Suc i) c) \<subseteq> set c" using set_take_subset set_drop_subset by fastforce
  show ?case
  proof (cases "i < length c")
    case True
    then show ?thesis using 1 sub by (subst shorten.simps) (simp add: Let_def del: set_append, blast)
  next
    case False
    then show ?thesis by (subst shorten.simps) simp
  qed
qed

text \<open>A conjunction that excludes every closed state is only shortened while it still does.\<close>

lemma shorten_excludes:
  "\<not> list_ex (compatible c) closed \<Longrightarrow> \<not> list_ex (compatible (shorten closed c i)) closed"
proof (induction closed c i rule: shorten.induct)
  case (1 closed c i)
  show ?case
  proof (cases "i < length c")
    case True
    let ?s = "take i c @ drop (Suc i) c"
    show ?thesis
    proof (cases "list_ex (compatible ?s) closed")
      case t: True
      then have "shorten closed c i = shorten closed c (Suc i)" using True by (subst shorten.simps) simp
      then show ?thesis using "1.IH"(1) [OF True refl t "1.prems"] by simp
    next
      case False
      then have "shorten closed c i = shorten closed ?s i" using True by (subst shorten.simps) simp
      then show ?thesis using "1.IH"(2) [OF True refl False False] by simp
    qed
  next
    case False
    then have "shorten closed c i = c" by (subst shorten.simps) simp
    then show ?thesis using "1.prems" by simp
  qed
qed

definition way_of :: "conj list \<Rightarrow> conj \<Rightarrow> requirement" where
  "way_of closed c = requirement_of (shorten closed c 0)"

lemma reduce_fold:
  "set (fold (push_way closed) opened ws) = set ws \<union> way_of closed ` set opened \<and>
   length (fold (push_way closed) opened ws) \<le> length ws + length opened"
proof (induction opened arbitrary: ws)
  case (Cons c opened)
  have "set (push_way closed c ws) = set ws \<union> {way_of closed c}" "length (push_way closed c ws) \<le> length ws + 1"
    by (auto simp: push_way_def way_of_def Let_def)
  then show ?case using Cons.IH [of "push_way closed c ws"] by simp
qed simp

text \<open>The ways of a gate say which states are open. In the terms of the code: when the literals of every
  open state and every closed one exclude each other, no two ask for different counts of one item, and
  no literal is one the belief cannot be asked, a game that meets a way is in no closed state; and,
  with at most eight open states, a game in an open state meets a way.\<close>

definition states_ok :: "conj list \<Rightarrow> bool" where
  "states_ok cs \<longleftrightarrow> list_all (list_all lit_ok) cs"

definition excluding :: "conj list \<Rightarrow> conj list \<Rightarrow> bool" where
  "excluding opened closed \<longleftrightarrow> list_all (\<lambda>c. \<not> list_ex (compatible c) closed \<and> list_all askable c \<and>
    list_all (same_counts c) closed) opened"

lemma reduce_open:
  assumes "vars_small g" "states_ok opened" "length opened \<le> MAX_WAYS" "c \<in> set opened" "conj_holds g c"
  shows "meets_some g (reduce_ways opened closed)"
proof -
  let ?r = "shorten closed c 0"
  have "conj_holds g ?r" "list_all lit_ok ?r"
    using assms(2,4,5) shorten_subset [of closed c 0]
    by (auto simp: conj_holds_def list_all_iff states_ok_def)
  then have way: "meets g (way_of closed c)" unfolding way_of_def by (intro meets_requirement(1))
  note fold = reduce_fold [of closed opened "[]"]
  show ?thesis unfolding reduce_ways_def
  proof (rule minimal_meets(2) [OF assms(1)])
    show "length (fold (push_way closed) opened []) \<le> MAX_WAYS"
      using fold assms(3) by simp
    show "meets_some g (fold (push_way closed) opened [])"
      unfolding meets_some_def list_ex_iff using way fold assms(4) by (intro bexI [of _ "way_of closed c"]) auto
  qed
qed

lemma reduce_closed:
  assumes "vars_small g" "states_ok opened" "states_ok closed" "excluding opened closed"
    and "meets_some g (reduce_ways opened closed)" "b \<in> set closed"
  shows "\<not> conj_holds g b"
proof
  assume b: "conj_holds g b"
  have "meets_some g (fold (push_way closed) opened [])"
    using minimal_meets(1) [OF assms(1)] assms(5) unfolding reduce_ways_def by blast
  then obtain c where c: "c \<in> set opened" "meets g (way_of closed c)"
    using reduce_fold [of closed opened "[]"] by (auto simp: meets_some_def list_ex_iff)
  let ?r = "shorten closed c 0"
  have sub: "set ?r \<subseteq> set c" by (rule shorten_subset)
  have ex: "\<not> list_ex (compatible c) closed" "list_all askable c" "same_counts c b"
    using assms(4,6) c(1) by (auto simp: excluding_def list_all_iff)
  have r: "list_all lit_ok ?r" "list_all askable ?r" "same_counts ?r b"
    using assms(2) c(1) ex(2,3) sub by (auto simp: states_ok_def list_all_iff same_counts_def)
  have "conj_holds g ?r" using c(2) r unfolding way_of_def by (intro meets_requirement(2))
  moreover have "list_all lit_ok b" using assms(3,6) by (simp add: states_ok_def list_all_iff)
  ultimately have "compatible ?r b" using compatible_if [OF _ b r(1) _ assms(1) r(3)] by blast
  then show False using shorten_excludes [OF ex(1), of 0] assms(6) by (auto simp: list_ex_iff)
qed


lemma both_ways_meet:
  assumes "vars_small g"
  shows "meets_some g (both_ways a b) \<Longrightarrow> meets_some g a \<and> meets_some g b"
proof -
  assume "meets_some g (both_ways a b)"
  then have "meets_some g (concat (map (\<lambda>x. map (\<lambda>y. remdups_adj (sort (x @ y))) b) a))"
    unfolding both_ways_def by (rule minimal_meets(1) [OF assms])
  then show ?thesis by (auto simp: meets_some_def list_ex_iff meets_def list_all_iff)
qed

text \<open>An item asked for in two counts is where \<open>compatible\<close> is too strict: holding one Potion meets both
  conditions, yet they are taken to exclude each other, so a way may lose the literal that mattered.\<close>

lemma counts_taken_as_exclusive:
  "\<not> compatible [\<lparr>lt_p = Has_Item ''ITEM_POTION'' 1, lt_pos = True\<rparr>]
      [\<lparr>lt_p = Has_Item ''ITEM_POTION'' 5, lt_pos = False\<rparr>] \<and>
   (\<exists>g. conj_holds g [\<lparr>lt_p = Has_Item ''ITEM_POTION'' 1, lt_pos = True\<rparr>] \<and>
     conj_holds g [\<lparr>lt_p = Has_Item ''ITEM_POTION'' 5, lt_pos = False\<rparr>])"
  by (simp add: compatible_def conj_holds_def lit_holds_def)
    (intro exI [of _ "\<lparr>sy_flag = \<lambda>_. False, sy_var = \<lambda>_. 0, sy_visited = \<lambda>_. False, sy_item = \<lambda>_. 1,
      sy_move = \<lambda>_. False, sy_at = []\<rparr>"], simp)

section \<open>An example: a door behind the second badge\<close>

definition badge_lit :: "bool \<Rightarrow> lit" where
  "badge_lit is_set = \<lparr>lt_p = Flag ''FLAG_BADGE02_GET'' True, lt_pos = is_set\<rparr>"

definition door_lit :: lit where
  "door_lit = \<lparr>lt_p = Var ''VAR_MAP_SCENE_GYM'' Eq_Op 1, lt_pos = True\<rparr>"

definition winner :: story where
  "winner = \<lparr>sy_flag = \<lambda>_. True, sy_var = \<lambda>_. 1, sy_visited = \<lambda>_. False, sy_item = \<lambda>_. 0, sy_move = \<lambda>_. False,
    sy_at = ''CeruleanCity''\<rparr>"

lemma winner_small: "vars_small winner"
  by (simp add: vars_small_def winner_def VAR_DOMAIN_def)

lemma plain_badge_flag: "n \<le> 255 \<Longrightarrow> plain_flag (badge_flag n)"
  by (simp add: plain_flag_def badge_of_badge_flag)

lemma badge_flag_2: "badge_flag 2 = ''FLAG_BADGE02_GET''"
  by code_simp

lemma badge_lit_ok: "lit_ok (badge_lit b)"
  using plain_badge_flag [of 2] by (simp add: lit_ok_def badge_lit_def badge_flag_2)


end
