(* ===== verification/Map_Gates.thy ===== *)
theory Map_Gates
  imports Gates
begin

text \<open>
  The gates of the world (crates/world/src/gates.rs): from the triggers, the rewritten tiles and the placed
  objects of every map, and what a belief says of them when the navigator walks. A belief's answer about a
  gate is proved to hold in every game the belief allows.
\<close>

text \<open>Insertion of the pairs of a loop into a map, later ones over earlier ones.\<close>

definition insert_all :: "('k \<times> 'v) list \<Rightarrow> ('k \<times> 'v) list" where
  "insert_all kvs = fold (\<lambda>(k, v). AList.update k v) kvs []"

section \<open>Rewritten tiles\<close>

fun metatile_of :: "effect \<Rightarrow> (pos \<times> bool) option" where
  "metatile_of (Metatile_Eff p is_open t) = Some (p, is_open)"
| "metatile_of _ = None"

definition tile_state :: "event_path \<Rightarrow> (pos \<times> bool) list" where
  "tile_state p = insert_all (List.map_filter metatile_of (pt_does p))"

definition base_open :: "map_data \<Rightarrow> pos \<Rightarrow> bool" where
  "base_open m p \<longleftrightarrow> (case tile_at m p of None \<Rightarrow> False | Some t \<Rightarrow> tl_collision t = 0)"

text \<open>The conjunctions of the paths whose state of the tile satisfies a test.\<close>

definition states_where :: "('a \<Rightarrow> bool) \<Rightarrow> ('a \<times> conj option) list \<Rightarrow> conj list" where
  "states_where test cs = List.map_filter (\<lambda>(s, c). if test s then c else None) cs"

definition ways_unless_empty :: "conj list \<Rightarrow> conj list \<Rightarrow> requirement list" where
  "ways_unless_empty opened closed = (if closed = [] then [[]] else reduce_ways opened closed)"

definition metatile_gate :: "map_data \<Rightarrow> ((pos \<times> bool) list \<times> conj option) list \<Rightarrow> pos \<Rightarrow> gate option" where
  "metatile_gate m states tile =
    (let base = base_open m tile;
         now = (\<lambda>s. map_of s tile);
         opened = states_where (\<lambda>s. case now s of None \<Rightarrow> base | Some b \<Rightarrow> b) states;
         closed = states_where (\<lambda>s. \<not> (case now s of None \<Rightarrow> base | Some b \<Rightarrow> b)) states;
         rewritten = states_where (\<lambda>s. now s \<noteq> None) states;
         plain = states_where (\<lambda>s. now s = None) states;
         is_warp = list_ex (\<lambda>w. (wp_x w, wp_y w) = tile) (md_warps m);
         warp_ways = (if is_warp then Some (if base then ways_unless_empty plain rewritten
           else ways_unless_empty opened closed) else None) in
     if closed = [] \<and> base \<and> warp_ways = None then None
     else Some \<lparr>gt_x = fst tile, gt_y = snd tile, gt_kind = Metatile_Gate,
       gt_ways = ways_unless_empty opened closed, gt_warp_ways = warp_ways\<rparr>)"

definition insert_new :: "'k \<Rightarrow> 'v \<Rightarrow> ('k \<times> 'v) list \<Rightarrow> ('k \<times> 'v) list" where
  "insert_new k v al = AList.update k v al"

definition metatile_gates_of :: "map_data \<Rightarrow> event_path list \<Rightarrow> map_gates \<Rightarrow> map_gates" where
  "metatile_gates_of m paths out =
    (let states = map (\<lambda>p. (tile_state p, conj_of (pt_when p) False)) paths;
         tiles = remdups_adj (sort (concat (map (map fst \<circ> fst) states))) in
     fold (\<lambda>tile out.
       if map_of out tile \<noteq> None \<or> \<not> in_bounds m (fst tile) (snd tile) then out
       else case metatile_gate m states tile of None \<Rightarrow> out | Some g \<Rightarrow> insert_new tile g out) tiles out)"

definition metatile_gates :: "events \<Rightarrow> map_data \<Rightarrow> map_gates \<Rightarrow> map_gates" where
  "metatile_gates ev m out = fold (metatile_gates_of m) (entry_scripts ev (md_name m)) out"

section \<open>Placed objects\<close>

fun placed_by :: "effect \<Rightarrow> (nat \<times> pos) option" where
  "placed_by (Move_Object_Eff i x y) =
    (case (as_int i, as_int x, as_int y) of
       (Some i, Some x, Some y) \<Rightarrow>
         if 0 \<le> i \<and> i < 2 ^ 32 then Some (nat i, (to_i32 x, to_i32 y)) else None
     | _ \<Rightarrow> None)"
| "placed_by _ = None"

definition placed :: "event_path \<Rightarrow> (nat \<times> pos) list" where
  "placed p = insert_all (List.map_filter placed_by (pt_does p))"

definition object_ways :: "object_event \<Rightarrow> conj list \<Rightarrow> conj list \<Rightarrow> requirement list" where
  "object_ways ob away there =
    (let ways = reduce_ways away there in
     case ob_flag ob of
       None \<Rightarrow> ways
     | Some f \<Rightarrow> if is_local_flag f then ways else minimal_ways (ways @ [[from_flag f True]]))"

definition object_gates_of :: "map_data \<Rightarrow> event_path list \<Rightarrow> map_gates \<Rightarrow> map_gates" where
  "object_gates_of m paths out =
    (let states = map (\<lambda>p. (placed p, conj_of (pt_when p) False)) paths;
         spots = remdups_adj (sort (concat (map fst states))) in
     fold (\<lambda>(i, tile) out.
       if map_of out tile \<noteq> None \<or> \<not> in_bounds m (fst tile) (snd tile) then out
       else case find (\<lambda>ob. ob_local_id ob = i) (md_objects m) of
           None \<Rightarrow> out
         | Some ob \<Rightarrow>
             let there = states_where (\<lambda>s. map_of s i = Some tile) states;
                 away = states_where (\<lambda>s. map_of s i \<noteq> Some tile) states in
             insert_new tile \<lparr>gt_x = fst tile, gt_y = snd tile, gt_kind = Object_Gate i,
               gt_ways = object_ways ob away there, gt_warp_ways = None\<rparr> out) spots out)"

definition object_gates :: "events \<Rightarrow> map_data \<Rightarrow> map_gates \<Rightarrow> map_gates" where
  "object_gates ev m out = fold (object_gates_of m) (entry_scripts ev (md_name m)) out"

section \<open>Triggers\<close>

fun own_of :: "condition list \<Rightarrow> (string \<times> int) option" where
  "own_of [] = None"
| "own_of (Var_Cond var c # cs) =
    (case Option.bind (cp_eq c) as_int of Some v \<Rightarrow> Some (var, v) | None \<Rightarrow> own_of cs)"
| "own_of (c # cs) = own_of cs"

definition switches_off :: "(string \<times> int) option \<Rightarrow> event_path \<Rightarrow> bool" where
  "switches_off own p =
    (case own of
       None \<Rightarrow> False
     | Some (var, v) \<Rightarrow> (case sets_var p var of None \<Rightarrow> False | Some now \<Rightarrow> now \<noteq> v))"

definition story_scene :: "(string \<times> int) option \<Rightarrow> bool" where
  "story_scene own = (case own of None \<Rightarrow> False | Some (var, v) \<Rightarrow> \<not> is_local_var var)"

definition paid :: "event_path \<Rightarrow> bool" where
  "paid p \<longleftrightarrow> needs_answer p \<and> spends p"

definition turned_back :: "(string \<times> int) option \<Rightarrow> event_path \<Rightarrow> bool" where
  "turned_back own p \<longleftrightarrow> moves_player p \<and> \<not> path_warps p \<and> \<not> switches_off own p"

fun is_fight :: "effect \<Rightarrow> bool" where
  "is_fight (Battle_Eff t i d victory double rematch) = (\<not> rematch \<and> victory = None)"
| "is_fight _ = False"

definition fights :: "event_path \<Rightarrow> bool" where
  "fights p \<longleftrightarrow> list_ex is_fight (pt_does p)"

definition pays_to_pass :: "(string \<times> int) option \<Rightarrow> event_path list \<Rightarrow> bool" where
  "pays_to_pass own paths \<longleftrightarrow> list_ex (\<lambda>p. \<not> turned_back own p \<and> paid p) paths"

definition path_blocks :: "(string \<times> int) option \<Rightarrow> event_path \<Rightarrow> bool" where
  "path_blocks own p \<longleftrightarrow> turned_back own p \<or> (story_scene own \<and> path_warps p) \<or> fights p"

definition blocking_states :: "(string \<times> int) option \<Rightarrow> event_path list \<Rightarrow> conj list" where
  "blocking_states own paths = List.map_filter (\<lambda>p.
    if path_blocks own p then conj_of (pt_when p) (\<not> (pays_to_pass own paths \<and> needs_answer p)) else None) paths"

definition passing_states :: "(string \<times> int) option \<Rightarrow> event_path list \<Rightarrow> conj list" where
  "passing_states own paths = List.map_filter (\<lambda>p.
    if path_blocks own p \<or> paid p then None else conj_of (pt_when p) False) paths"

text \<open>The entry scripts of the map that switch the trigger's variable off.\<close>

definition switch_ways :: "string \<Rightarrow> int \<Rightarrow> event_path list \<Rightarrow> requirement list" where
  "switch_ways var v paths =
    (let sets = (\<lambda>p. case sets_var p var of None \<Rightarrow> False | Some now \<Rightarrow> now \<noteq> v);
         off = List.map_filter (\<lambda>p. if sets p then conj_of (pt_when p) False else None) paths;
         on = List.map_filter (\<lambda>p. if sets p then None else conj_of (pt_when p) False) paths in
     if off = [] then [] else reduce_ways off on)"

definition trigger_ways :: "events \<Rightarrow> map_data \<Rightarrow> (string \<times> int) list \<Rightarrow> (string \<times> int) option \<Rightarrow> event_path list
    \<Rightarrow> requirement list" where
  "trigger_ways ev m chained own paths =
    (let ways = reduce_ways (passing_states own paths) (blocking_states own paths) in
     minimal_ways (case own of
       None \<Rightarrow> ways
     | Some (var, v) \<Rightarrow>
         let ways = ways @ concat (map (switch_ways var v) (entry_scripts ev (md_name m))) in
         if is_local_var var then ways
         else ways @ [[Var var (if v = 0 \<or> (var, v) \<in> set chained then Gt_Op else Ne_Op) v]]))"

definition trigger_gate :: "events \<Rightarrow> map_data \<Rightarrow> (string \<times> int) list \<Rightarrow> trigger_event \<Rightarrow> gate option" where
  "trigger_gate ev m chained t =
    (case Option.bind (tg_script t) (script_named ev) of
       None \<Rightarrow> None
     | Some sc \<Rightarrow>
         let own = own_of (tg_when t) in
         if blocking_states own (sc_paths sc) = [] then None
         else Some \<lparr>gt_x = tg_x t, gt_y = tg_y t,
           gt_kind = Trigger_Gate (case tg_script t of None \<Rightarrow> [] | Some s \<Rightarrow> s),
           gt_ways = trigger_ways ev m chained own (sc_paths sc), gt_warp_ways = None\<rparr>)"

text \<open>Two gates on a tile: both must open.\<close>

definition add_trigger_gate :: "gate \<Rightarrow> map_gates \<Rightarrow> map_gates" where
  "add_trigger_gate g out =
    (let tile = (gt_x g, gt_y g) in
     case map_of out tile of
       Some old \<Rightarrow> AList.update tile (old\<lparr>gt_ways := both_ways (gt_ways old) (gt_ways g)\<rparr>) out
     | None \<Rightarrow> insert_new tile g out)"

definition trigger_gates :: "events \<Rightarrow> map_data \<Rightarrow> (string \<times> int) list \<Rightarrow> map_gates \<Rightarrow> map_gates" where
  "trigger_gates ev m chained out =
    fold (\<lambda>t out. case trigger_gate ev m chained t of None \<Rightarrow> out | Some g \<Rightarrow> add_trigger_gate g out)
      (filter (\<lambda>t. tg_map t = md_name m) (ev_triggers ev)) out"

section \<open>Every gate\<close>

fun var_value :: "effect \<Rightarrow> (string \<times> int) option" where
  "var_value (Var_Eff var change) = map_option (Pair var) (Option.bind (vc_eq change) as_int)"
| "var_value _ = None"

definition chained_of :: "events \<Rightarrow> (string \<times> int) list" where
  "chained_of ev = remdups_adj (sort (concat (map (\<lambda>t.
    case Option.bind (tg_script t) (script_named ev) of
      None \<Rightarrow> []
    | Some sc \<Rightarrow> concat (map (\<lambda>p. List.map_filter var_value (pt_does p))
        (filter (\<lambda>p. \<not> moves_player p) (sc_paths sc)))) (ev_triggers ev))))"

definition gates_on :: "events \<Rightarrow> map_data \<Rightarrow> map_gates" where
  "gates_on ev m = trigger_gates ev m (chained_of ev) (object_gates ev m (metatile_gates ev m []))"

definition derive_gates :: "events option \<Rightarrow> world \<Rightarrow> gates" where
  "derive_gates ev w =
    (case ev of
       None \<Rightarrow> []
     | Some ev \<Rightarrow> List.map_filter (\<lambda>name.
         case map_named w name of
           None \<Rightarrow> None
         | Some m \<Rightarrow> let on_map = gates_on ev m in if on_map = [] then None else Some (name, on_map))
       (sort (map (md_name \<circ> snd) (wo_maps w))))"

section \<open>What a belief says of a gate\<close>

fun some_way :: "(predicate \<Rightarrow> truth) \<Rightarrow> bool \<Rightarrow> requirement list \<Rightarrow> truth" where
  "some_way eval undecided [] = (if undecided then Truth_Unknown else Truth_False)"
| "some_way eval undecided (way # ways) =
    (let c = check eval way in
     if ck_failed c = [] \<and> ck_unknown c = [] then Truth_True
     else some_way eval (undecided \<or> ck_failed c = []) ways)"

definition gate_truth :: "gate \<Rightarrow> (predicate \<Rightarrow> truth) \<Rightarrow> truth" where
  "gate_truth g eval = some_way eval False (gt_ways g)"

record gate_tiles =
  gl_closed :: "(string \<times> pos) list"
  gl_opened :: "(string \<times> pos) list"

definition believed_tile :: "map_data \<Rightarrow> (predicate \<Rightarrow> truth) \<Rightarrow> string \<Rightarrow> pos \<times> gate \<Rightarrow> gate_tiles \<Rightarrow> gate_tiles" where
  "believed_tile m eval name = (\<lambda>(tile, g) out.
    case (base_open m tile, gate_truth g eval) of
      (True, Truth_False) \<Rightarrow> out\<lparr>gl_closed := List.insert (name, tile) (gl_closed out)\<rparr>
    | (False, Truth_True) \<Rightarrow> out\<lparr>gl_opened := List.insert (name, tile) (gl_opened out)\<rparr>
    | _ \<Rightarrow> out)"

definition believed_map :: "world \<Rightarrow> (predicate \<Rightarrow> truth) \<Rightarrow> string \<times> map_gates \<Rightarrow> gate_tiles \<Rightarrow> gate_tiles" where
  "believed_map w eval nt out =
    (case map_named w (fst nt) of
       None \<Rightarrow> out
     | Some m \<Rightarrow> fold (believed_tile m eval (fst nt)) (snd nt) out)"

definition believed :: "world \<Rightarrow> gates \<Rightarrow> (predicate \<Rightarrow> truth) \<Rightarrow> gate_tiles" where
  "believed w gs eval = fold (believed_map w eval) gs \<lparr>gl_closed = [], gl_opened = []\<rparr>"

definition tiles_on :: "(string \<times> pos) list \<Rightarrow> string \<Rightarrow> pos set" where
  "tiles_on l m = set (map snd (filter (\<lambda>x. fst x = m) l))"

definition closed_on :: "gate_tiles \<Rightarrow> string \<Rightarrow> pos set" where
  "closed_on t m = tiles_on (gl_closed t) m"

definition opened_on :: "gate_tiles \<Rightarrow> string \<Rightarrow> pos set" where
  "opened_on t m = tiles_on (gl_opened t) m"

definition without_tile :: "string \<Rightarrow> pos \<Rightarrow> gate_tiles \<Rightarrow> gate_tiles" where
  "without_tile m tile t = t\<lparr>gl_closed := removeAll (m, tile) (gl_closed t)\<rparr>"

section \<open>The answer holds in every game the belief allows\<close>

context belief_view
begin

lemma some_way_sound:
  assumes "g \<in> games"
  shows "some_way eval undecided ways = Truth_True \<Longrightarrow> meets_some g ways"
    and "some_way eval undecided ways = Truth_False \<Longrightarrow> \<not> meets_some g ways"
proof -
  have head: "(ck_failed (check eval way) = [] \<and> ck_unknown (check eval way) = [] \<longrightarrow> meets g way) \<and>
      (ck_failed (check eval way) \<noteq> [] \<longrightarrow> \<not> meets g way)" for way
    using check_sound [OF assms, of way] by (simp add: check_truth_def split: if_splits)
  show "meets_some g ways" if "some_way eval undecided ways = Truth_True"
    using that
  proof (induction ways arbitrary: undecided)
    case Nil
    then show ?case by (cases undecided) simp_all
  next
    case (Cons way ways)
    then show ?case using head [of way] by (auto simp: meets_some_def Let_def split: if_splits)
  qed
  show "\<not> meets_some g ways" if "some_way eval undecided ways = Truth_False"
    using that
  proof (induction ways arbitrary: undecided)
    case (Cons way ways)
    then have failed: "ck_failed (check eval way) \<noteq> []"
    proof -
      have "some_way eval True ws \<noteq> Truth_False" for ws by (induction ws) (simp_all add: Let_def)
      then show ?thesis using Cons.prems by (auto simp: Let_def split: if_splits)
    qed
    then show ?case using Cons head [of way] by (auto simp: meets_some_def Let_def split: if_splits)
  qed (simp add: meets_some_def)
qed

lemma gate_truth_sound:
  assumes "g \<in> games"
  shows "gate_truth gate eval = Truth_True \<Longrightarrow> meets_some g (gt_ways gate)"
    and "gate_truth gate eval = Truth_False \<Longrightarrow> \<not> meets_some g (gt_ways gate)"
  using some_way_sound [OF assms] by (simp_all add: gate_truth_def)

end

text \<open>What a fold collects comes from its start or one of its steps.\<close>

lemma fold_collects:
  assumes "\<And>x out. x \<in> set xs \<Longrightarrow> set (sel (f x out)) \<subseteq> set (sel out) \<union> C x"
  shows "set (sel (fold f xs out)) \<subseteq> set (sel out) \<union> (\<Union>x \<in> set xs. C x)"
  using assms
proof (induction xs arbitrary: out)
  case (Cons x xs)
  have "set (sel (fold f xs (f x out))) \<subseteq> set (sel (f x out)) \<union> (\<Union>x \<in> set xs. C x)"
    by (rule Cons.IH) (use Cons.prems in simp)
  moreover have "set (sel (f x out)) \<subseteq> set (sel out) \<union> C x" using Cons.prems by simp
  ultimately show ?case by auto
qed simp

definition known_closed :: "map_data \<Rightarrow> (predicate \<Rightarrow> truth) \<Rightarrow> pos \<times> gate \<Rightarrow> bool" where
  "known_closed m eval = (\<lambda>(tile, g). base_open m tile \<and> gate_truth g eval = Truth_False)"

definition known_opened :: "map_data \<Rightarrow> (predicate \<Rightarrow> truth) \<Rightarrow> pos \<times> gate \<Rightarrow> bool" where
  "known_opened m eval = (\<lambda>(tile, g). \<not> base_open m tile \<and> gate_truth g eval = Truth_True)"

lemma believed_tile_collects:
  "set (gl_closed (believed_tile m eval name tg out)) \<subseteq>
    set (gl_closed out) \<union> (if known_closed m eval tg then {(name, fst tg)} else {})"
  "set (gl_opened (believed_tile m eval name tg out)) \<subseteq>
    set (gl_opened out) \<union> (if known_opened m eval tg then {(name, fst tg)} else {})"
  by (cases tg; auto simp: believed_tile_def known_closed_def known_opened_def split: bool.splits truth.splits)+

definition tiles_of_map :: "(map_data \<Rightarrow> pos \<times> gate \<Rightarrow> bool) \<Rightarrow> world \<Rightarrow> string \<times> map_gates \<Rightarrow> (string \<times> pos) set" where
  "tiles_of_map test w nt = {x. \<exists>m tg. map_named w (fst nt) = Some m \<and> tg \<in> set (snd nt) \<and> test m tg \<and>
    x = (fst nt, fst tg)}"

lemma believed_map_collects:
  "set (gl_closed (believed_map w eval nt out)) \<subseteq> set (gl_closed out) \<union> tiles_of_map (\<lambda>m. known_closed m eval) w nt"
  "set (gl_opened (believed_map w eval nt out)) \<subseteq> set (gl_opened out) \<union> tiles_of_map (\<lambda>m. known_opened m eval) w nt"
proof -
  have part: "(\<Union>tg \<in> set (snd nt). if test m tg then {(fst nt, fst tg)} else {}) \<subseteq> tiles_of_map test w nt"
    if "map_named w (fst nt) = Some m" for test m
    using that by (auto simp: tiles_of_map_def split: if_splits)
  show "set (gl_closed (believed_map w eval nt out)) \<subseteq> set (gl_closed out) \<union> tiles_of_map (\<lambda>m. known_closed m eval) w nt"
  proof (cases "map_named w (fst nt)")
    case (Some m)
    have "set (gl_closed (fold (believed_tile m eval (fst nt)) (snd nt) out)) \<subseteq> set (gl_closed out) \<union>
        (\<Union>tg \<in> set (snd nt). if known_closed m eval tg then {(fst nt, fst tg)} else {})"
      by (rule fold_collects [where sel = gl_closed]) (rule believed_tile_collects(1))
    also have "\<dots> \<subseteq> set (gl_closed out) \<union> tiles_of_map (\<lambda>m. known_closed m eval) w nt"
      by (rule Un_mono [OF subset_refl part [OF Some]])
    finally show ?thesis by (simp add: believed_map_def Some)
  qed (simp add: believed_map_def)
  show "set (gl_opened (believed_map w eval nt out)) \<subseteq> set (gl_opened out) \<union> tiles_of_map (\<lambda>m. known_opened m eval) w nt"
  proof (cases "map_named w (fst nt)")
    case (Some m)
    have "set (gl_opened (fold (believed_tile m eval (fst nt)) (snd nt) out)) \<subseteq> set (gl_opened out) \<union>
        (\<Union>tg \<in> set (snd nt). if known_opened m eval tg then {(fst nt, fst tg)} else {})"
      by (rule fold_collects [where sel = gl_opened]) (rule believed_tile_collects(2))
    also have "\<dots> \<subseteq> set (gl_opened out) \<union> tiles_of_map (\<lambda>m. known_opened m eval) w nt"
      by (rule Un_mono [OF subset_refl part [OF Some]])
    finally show ?thesis by (simp add: believed_map_def Some)
  qed (simp add: believed_map_def)
qed

lemma believed_collects:
  "set (gl_closed (believed w gs eval)) \<subseteq> (\<Union>nt \<in> set gs. tiles_of_map (\<lambda>m. known_closed m eval) w nt)"
  "set (gl_opened (believed w gs eval)) \<subseteq> (\<Union>nt \<in> set gs. tiles_of_map (\<lambda>m. known_opened m eval) w nt)"
  using fold_collects [where sel = gl_closed and f = "believed_map w eval" and out = "\<lparr>gl_closed = [], gl_opened = []\<rparr>",
      OF believed_map_collects(1)]
    fold_collects [where sel = gl_opened and f = "believed_map w eval" and out = "\<lparr>gl_closed = [], gl_opened = []\<rparr>",
      OF believed_map_collects(2)]
  unfolding believed_def by simp_all

end
