(* ===== verification/Belief_View.thy ===== *)
theory Belief_View
  imports Reducer Map_Gates
begin

text \<open>
  The belief as the planners read it (crates/agent/src/belief_view.rs): the state of the reducer adapted to
  predicates, and the same with the gaps filled that a plan found implied. Both are instances of the
  interface \<open>belief_view\<close>, so what they say of a requirement or a gate holds in every game they allow.
\<close>

section \<open>The state as a view\<close>

text \<open>The counts of an item over the pockets that are known; none when no pocket is.\<close>

definition counted_items :: "bag \<Rightarrow> string \<Rightarrow> nat option" where
  "counted_items b i = fold (\<lambda>p acc.
    case Option.bind (map_of b p) kn_value of
      None \<Rightarrow> acc
    | Some l \<Rightarrow>
        Some ((case acc of None \<Rightarrow> 0 | Some n \<Rightarrow> n) + sum_list (map snd (filter (\<lambda>e. fst e = i) l)))) all_pockets None"

definition all_pockets_known :: "bag \<Rightarrow> bool" where
  "all_pockets_known b \<longleftrightarrow> list_all (\<lambda>p. Option.bind (map_of b p) kn_value \<noteq> None) all_pockets"

definition knows_move :: "string \<Rightarrow> party_mon \<Rightarrow> bool" where
  "knows_move mv m \<longleftrightarrow> list_ex (\<lambda>s. case s of None \<Rightarrow> False | Some s \<Rightarrow> kn_value (ms_mv s) = Some mv) (pm_moves m)"

fun eval_state :: "'shiny state \<Rightarrow> predicate \<Rightarrow> truth" where
  "eval_state s (Flag name is_set) = known (map_option (\<lambda>v. v = is_set) (kn_value (wb_flag (st_world s) name)))"
| "eval_state s (Var name c v) = known (map_option (\<lambda>x. op_holds c (int x) v) (kn_value (wb_var (st_world s) name)))"
| "eval_state s (Visited m) = known (kn_value (wb_was_visited (st_world s) m))"
| "eval_state s (Has_Item i n) =
    (case counted_items (st_bag s) i of
       Some have' \<Rightarrow> if have' \<ge> n then Truth_True
         else if all_pockets_known (st_bag s) then Truth_False else Truth_Unknown
     | None \<Rightarrow> Truth_Unknown)"
| "eval_state s (Party_Has_Move mv) =
    known (map_option (list_ex (knows_move mv)) (kn_value (st_party s)))"
| "eval_state s (Badge n) =
    (case kn_value (wb_flag (st_world s) (badge_flag n)) of
       Some v \<Rightarrow> known (Some v)
     | None \<Rightarrow> known (map_option (\<lambda>bs. length bs \<ge> n) (kn_value (pr_badges (st_progression s)))))"
| "eval_state s (At m) = known (map_option (\<lambda>p. pp_map p = m) (kn_value (pl_pose (st_player s))))"

section \<open>Filling the gaps a plan implies\<close>

record inferred =
  in_flags :: "(string \<times> bool) list"
  in_floors :: "(string \<times> int) list"
  in_values :: "(string \<times> int) list"

text \<open>The world predicates a step assumes, as they reach \<open>with_assumed\<close>.\<close>

definition insert_absent :: "'k \<Rightarrow> 'v \<Rightarrow> ('k \<times> 'v) list \<Rightarrow> ('k \<times> 'v) list" where
  "insert_absent k v al = (case map_of al k of None \<Rightarrow> AList.update k v al | Some _ \<Rightarrow> al)"

fun assume_one :: "predicate \<Rightarrow> inferred \<Rightarrow> inferred" where
  "assume_one (Flag name is_set) i = i\<lparr>in_flags := insert_absent name is_set (in_flags i)\<rparr>"
| "assume_one (Var name Eq_Op v) i = i\<lparr>in_values := insert_absent name v (in_values i)\<rparr>"
| "assume_one _ i = i"

definition with_assumed :: "predicate list \<Rightarrow> inferred \<Rightarrow> inferred" where
  "with_assumed assumed i = fold assume_one assumed i"

fun eval_floor :: "cmp_op \<Rightarrow> int \<Rightarrow> int option \<Rightarrow> truth" where
  "eval_floor c v None = Truth_Unknown"
| "eval_floor Ge_Op v (Some f) = (if f \<ge> v then Truth_True else Truth_Unknown)"
| "eval_floor Gt_Op v (Some f) = (if f > v then Truth_True else Truth_Unknown)"
| "eval_floor Ne_Op v (Some f) = (if f > v then Truth_True else Truth_Unknown)"
| "eval_floor Eq_Op v (Some f) = (if f > v then Truth_False else Truth_Unknown)"
| "eval_floor Le_Op v (Some f) = (if f > v then Truth_False else Truth_Unknown)"
| "eval_floor Lt_Op v (Some f) = (if f \<ge> v then Truth_False else Truth_Unknown)"

fun eval_gap :: "inferred \<Rightarrow> predicate \<Rightarrow> truth" where
  "eval_gap i (Flag name is_set) = known (map_option (\<lambda>v. v = is_set) (map_of (in_flags i) name))"
| "eval_gap i (Var name c v) =
    (case map_of (in_values i) name of
       Some x \<Rightarrow> known (Some (op_holds c x v))
     | None \<Rightarrow> eval_floor c v (map_of (in_floors i) name))"
| "eval_gap i _ = Truth_Unknown"

definition eval_inferred :: "(predicate \<Rightarrow> truth) \<Rightarrow> inferred \<Rightarrow> predicate \<Rightarrow> truth" where
  "eval_inferred base i p = (if base p \<noteq> Truth_Unknown then base p else eval_gap i p)"

section \<open>The games a state allows\<close>

text \<open>What is known is so. Two clauses say what the view takes for granted beyond that: a known party shows
  every move it has, and a badge whose flag is not known is had just when the list is long enough.\<close>

definition state_games :: "'shiny state \<Rightarrow> story set" where
  "state_games s = {g.
    (\<forall>f v. kn_value (wb_flag (st_world s) f) = Some v \<longrightarrow> sy_flag g f = v) \<and>
    (\<forall>x v. kn_value (wb_var (st_world s) x) = Some v \<longrightarrow> sy_var g x = int v) \<and>
    (\<forall>m v. kn_value (wb_was_visited (st_world s) m) = Some v \<longrightarrow> sy_visited g m = v) \<and>
    (\<forall>i n. counted_items (st_bag s) i = Some n \<longrightarrow> n \<le> sy_item g i \<and> (all_pockets_known (st_bag s) \<longrightarrow> sy_item g i = n)) \<and>
    (\<forall>ms mv. kn_value (st_party s) = Some ms \<longrightarrow> sy_move g mv = list_ex (knows_move mv) ms) \<and>
    (\<forall>bs n. kn_value (pr_badges (st_progression s)) = Some bs \<longrightarrow>
      kn_value (wb_flag (st_world s) (badge_flag n)) = None \<longrightarrow> sy_flag g (badge_flag n) = (length bs \<ge> n)) \<and>
    (\<forall>p. kn_value (pl_pose (st_player s)) = Some p \<longrightarrow> sy_at g = pp_map p)}"

interpretation state_view: belief_view "eval_state s" "state_games s" for s
proof
  fix g p
  assume g: "g \<in> state_games s"
  show "eval_state s p = Truth_True \<Longrightarrow> holds_in g p"
  proof (cases p)
    case (Badge n)
    assume "eval_state s p = Truth_True"
    then show ?thesis using g unfolding Badge state_games_def mem_Collect_eq
      by (cases "kn_value (wb_flag (st_world s) (badge_flag n))") auto
  next
    case (Has_Item i n)
    assume "eval_state s p = Truth_True"
    then obtain k where "counted_items (st_bag s) i = Some k" "n \<le> k"
      using Has_Item by (auto split: option.splits if_splits)
    moreover then have "k \<le> sy_item g i" using g by (auto simp: state_games_def)
    ultimately show ?thesis unfolding Has_Item by simp
  qed (use g in \<open>auto simp: state_games_def split: option.splits if_splits\<close>)
  show "eval_state s p = Truth_False \<Longrightarrow> \<not> holds_in g p"
  proof (cases p)
    case (Badge n)
    assume "eval_state s p = Truth_False"
    then show ?thesis using g unfolding Badge state_games_def mem_Collect_eq
      by (cases "kn_value (wb_flag (st_world s) (badge_flag n))") auto
  next
    case (Has_Item i n)
    assume "eval_state s p = Truth_False"
    then obtain k where "counted_items (st_bag s) i = Some k" "k < n" "all_pockets_known (st_bag s)"
      using Has_Item by (auto split: option.splits if_splits)
    then show ?thesis using g unfolding Has_Item state_games_def by auto
  qed (use g in \<open>auto simp: state_games_def split: option.splits if_splits\<close>)
qed

text \<open>The games in which what a plan implies is so.\<close>

definition inferred_games :: "inferred \<Rightarrow> story set" where
  "inferred_games i = {g.
    (\<forall>f v. map_of (in_flags i) f = Some v \<longrightarrow> sy_flag g f = v) \<and>
    (\<forall>x v. map_of (in_values i) x = Some v \<longrightarrow> sy_var g x = v) \<and>
    (\<forall>x v. map_of (in_floors i) x = Some v \<longrightarrow> v \<le> sy_var g x)}"

lemma eval_floor_sound:
  assumes "\<And>f. floor = Some f \<Longrightarrow> f \<le> x"
  shows "eval_floor c v floor = Truth_True \<Longrightarrow> op_holds c x v" "eval_floor c v floor = Truth_False \<Longrightarrow> \<not> op_holds c x v"
  using assms by (cases floor; cases c; fastforce split: if_splits)+

lemma eval_gap_sound:
  assumes "g \<in> inferred_games i"
  shows "eval_gap i p = Truth_True \<Longrightarrow> holds_in g p" "eval_gap i p = Truth_False \<Longrightarrow> \<not> holds_in g p"
proof -
  have floor: "\<And>f. map_of (in_floors i) x = Some f \<Longrightarrow> f \<le> sy_var g x" for x
    using assms by (auto simp: inferred_games_def)
  show "eval_gap i p = Truth_True \<Longrightarrow> holds_in g p" "eval_gap i p = Truth_False \<Longrightarrow> \<not> holds_in g p"
    using assms eval_floor_sound [OF floor]
    by (cases p; auto simp: inferred_games_def split: option.splits)+
qed

interpretation plan_view: belief_view "eval_inferred (eval_state s) i" "state_games s \<inter> inferred_games i" for s i
proof
  fix g p
  assume "g \<in> state_games s \<inter> inferred_games i"
  then have g: "g \<in> state_games s" "g \<in> inferred_games i" by simp_all
  show "eval_inferred (eval_state s) i p = Truth_True \<Longrightarrow> holds_in g p"
    using state_view.says_true [OF g(1), of p] eval_gap_sound(1) [OF g(2), of p]
    by (simp add: eval_inferred_def split: if_splits)
  show "eval_inferred (eval_state s) i p = Truth_False \<Longrightarrow> \<not> holds_in g p"
    using state_view.says_false [OF g(1), of p] eval_gap_sound(2) [OF g(2), of p]
    by (simp add: eval_inferred_def split: if_splits)
qed

section \<open>What the navigator may count on\<close>


section \<open>What the view takes for granted\<close>

text \<open>A badge with no known flag is answered by the length of the badge list: one badge, whichever, answers
  for the first. And a party member whose moves were not read knows no move.\<close>

lemma badge_answered_by_count:
  "\<exists>s'. reduce [\<lparr>ev_frame = 1, ev_event = Flag_Observed ''FLAG_BADGE02_GET'' True\<rparr>]
      (default_state :: unit state) = Some s' \<and>
    flag_knowledge s' ''FLAG_BADGE01_GET'' = None \<and> eval_state s' (Badge 1) = Truth_True"
proof -
  have flag: "badge_flag 1 = ''FLAG_BADGE01_GET''" by code_simp
  show ?thesis
    by (simp add: flag reduce_one_def apply_knowledge_def observe_flag_def flag_knowledge_def is_badge_flag_def
        BADGES_def default_state_def default_world_belief_def sync_badges_def insert_flag_def change_world_def
        change_progression_def earned_def has_value_def List.map_filter_def observed_def unknown_def Let_def
        wb_flag_def or_unknown_def)
qed

lemma no_move_read: "\<not> list_ex (case_option False P) (replicate n None)"
  by (induction n) simp_all

lemma unread_moves_answered:
  "\<exists>s'. reduce [\<lparr>ev_frame = 1, ev_event = Party_Size_Observed 1\<rparr>] (default_state :: unit state) = Some s' \<and>
    eval_state s' (Party_Has_Move ''MOVE_CUT'') = Truth_False"
  by (simp add: reduce_one_def apply_knowledge_def party_size_def change_member_def known_party_def grow_party_def
      default_state_def default_mon_def unknown_def knows_move_def no_move_read Let_def)

section \<open>An example\<close>

definition gym_map :: map_data where
  "gym_map = \<lparr>md_id = ''MAP_GYM'', md_name = ''Gym'', md_width = 1, md_height = 1, md_map_type = None, md_requires_flash = False,
    md_weather = None, md_allow_escaping = False,
    md_tiles = [\<lparr>tl_collision = 0, tl_elevation = 0, tl_behavior = 0, tl_encounter = 0\<rparr>],
    md_warps = [], md_connections = [], md_objects = [], md_signs = []\<rparr>"

definition gym_world :: world where
  "gym_world = \<lparr>wo_maps = [(''Gym'', gym_map)], wo_by_id = [(''MAP_GYM'', ''Gym'')]\<rparr>"

definition gym_gate :: gate where
  "gym_gate = \<lparr>gt_x = 0, gt_y = 0, gt_kind = Trigger_Gate ''Guard'', gt_ways = [[Flag ''FLAG_TEA'' True]],
    gt_warp_ways = None\<rparr>"

definition thirsty :: "unit state" where
  "thirsty = insert_flag ''FLAG_TEA'' (observed False 3) default_state"

definition guarded :: story where
  "guarded = \<lparr>sy_flag = \<lambda>_. False, sy_var = \<lambda>_. 0, sy_visited = \<lambda>_. False, sy_item = \<lambda>_. 0, sy_move = \<lambda>_. False,
    sy_at = ''SaffronCity''\<rparr>"

definition nothing_inferred :: inferred where
  "nothing_inferred = \<lparr>in_flags = [], in_floors = [], in_values = []\<rparr>"

lemmas thirsty_defs = thirsty_def insert_flag_def change_world_def default_state_def default_world_belief_def
  wb_flag_def wb_var_def wb_was_visited_def or_unknown_def observed_def unknown_def

lemma thirsty_flag:
  "kn_value (wb_flag (st_world thirsty) f) = (if f = ''FLAG_TEA'' then Some False else None)"
  by (simp add: thirsty_defs)

lemma guarded_fits: "guarded \<in> state_games thirsty \<inter> inferred_games nothing_inferred"
proof -
  have "counted_items (st_bag thirsty) i = None" for i
    by (simp add: thirsty_defs counted_items_def all_pockets_def default_bag_def)
  then show ?thesis
    by (simp add: state_games_def inferred_games_def nothing_inferred_def thirsty_flag)
      (simp add: thirsty_defs guarded_def default_progression_def)
qed


end
