(* ===== verification/Obstacles.thy ===== *)
theory Obstacles
  imports Events Controller
begin

text \<open>
  Tiles the map's own collision does not cover (crates/world/src/obstacles.rs): objects that never move, the
  ways past them, a trainer's line of sight, and where a wandering person may stand.
\<close>

type_synonym gone = "(string \<times> nat) set"

definition is_stationary :: "object_event \<Rightarrow> bool" where
  "is_stationary ob \<longleftrightarrow> (case ob_movement ob of
      None \<Rightarrow> False
    | Some m \<Rightarrow> contains_text m ''FACE'' \<or> contains_text m ''LOOK_AROUND'')"

definition object_place :: "object_event \<Rightarrow> pos option" where
  "object_place ob = (case (ob_x ob, ob_y ob) of (Some x, Some y) \<Rightarrow> Some (x, y) | _ \<Rightarrow> None)"

definition object_obstacles :: "map_data \<Rightarrow> gone \<Rightarrow> pos set" where
  "object_obstacles m gone_objects =
    set (List.map_filter object_place
      (filter (\<lambda>ob. is_stationary ob \<and> (md_name m, ob_local_id ob) \<notin> gone_objects) (md_objects m)))"

definition static_obstacles :: "map_data \<Rightarrow> pos set" where
  "static_obstacles m = object_obstacles m {}"

datatype passage = Hidden string | Trainer_Passage string

record blocker =
  bl_local_id :: nat
  bl_x :: int
  bl_y :: int
  bl_passages :: "passage list"

fun battle_of :: "effect \<Rightarrow> string option" where
  "battle_of (Battle_Eff trainer i d v dbl rematch) = Some trainer"
| "battle_of _ = None"

definition first_some :: "('a \<Rightarrow> 'b option) \<Rightarrow> 'a list \<Rightarrow> 'b option" where
  "first_some f xs = (case List.map_filter f xs of [] \<Rightarrow> None | y # _ \<Rightarrow> Some y)"

definition battled_by :: "events \<Rightarrow> string \<Rightarrow> string option" where
  "battled_by ev label =
    Option.bind (script_named ev label) (\<lambda>sc. first_some battle_of (concat (map pt_does (sc_paths sc))))"

definition passages_of :: "events option \<Rightarrow> object_event \<Rightarrow> passage list" where
  "passages_of ev ob =
    (case ob_flag ob of
       None \<Rightarrow> []
     | Some f \<Rightarrow> if f \<noteq> ''0'' \<and> \<not> starts_with f ''FLAG_TEMP_'' then [Hidden f] else []) @
    (case Option.bind (ob_script ob) (\<lambda>s. Option.bind ev (\<lambda>ev. battled_by ev s)) of
       None \<Rightarrow> []
     | Some trainer \<Rightarrow> [Trainer_Passage trainer])"

definition blockers :: "map_data \<Rightarrow> events option \<Rightarrow> blocker list" where
  "blockers m ev = List.map_filter (\<lambda>ob. map_option (\<lambda>(x, y).
      \<lparr>bl_local_id = ob_local_id ob, bl_x = x, bl_y = y, bl_passages = passages_of ev ob\<rparr>) (object_place ob))
    (filter is_stationary (md_objects m))"

definition named_facings :: "(string \<times> pos) list" where
  "named_facings = [(''UP'', (0, -1)), (''DOWN'', (0, 1)), (''LEFT'', (-1, 0)), (''RIGHT'', (1, 0))]"

definition facings :: "string \<Rightarrow> pos list" where
  "facings movement =
    (let named = (case strip_prefix movement ''MOVEMENT_TYPE_FACE_'' of
           None \<Rightarrow> []
         | Some rest \<Rightarrow> map snd (filter (\<lambda>(w, d). w \<in> set (split_on (CHR ''_'') rest)) named_facings)) in
     if named = [] then map snd named_facings else named)"

text \<open>Along one way: up to \<open>n\<close> further tiles from the \<open>k\<close>-th on, until one that cannot be walked.\<close>

fun sight_along :: "map_data \<Rightarrow> pos \<Rightarrow> pos \<Rightarrow> int \<Rightarrow> nat \<Rightarrow> pos list" where
  "sight_along m from dir k 0 = []"
| "sight_along m from dir k (Suc n) =
    (let t = (fst from + fst dir * k, snd from + snd dir * k) in
     if open_tile m (fst t) (snd t) then t # sight_along m from dir (k + 1) n else [])"

definition sight_line :: "map_data \<Rightarrow> nat \<Rightarrow> nat \<Rightarrow> pos set" where
  "sight_line m local_id sight =
    (case find (\<lambda>ob. ob_local_id ob = local_id) (md_objects m) of
       None \<Rightarrow> {}
     | Some ob \<Rightarrow>
         (case object_place ob of
            None \<Rightarrow> {}
          | Some at \<Rightarrow> \<Union>d \<in> set (facings (case ob_movement ob of None \<Rightarrow> [] | Some mv \<Rightarrow> mv)).
              set (sight_along m at d 1 sight)))"

definition is_wanderer :: "object_event \<Rightarrow> bool" where
  "is_wanderer ob \<longleftrightarrow> (case ob_movement ob of
      None \<Rightarrow> False
    | Some m \<Rightarrow> contains_text m ''WANDER'' \<or> contains_text m ''WALK'')"

definition int_span :: "int \<Rightarrow> int \<Rightarrow> int list" where
  "int_span a b = map (\<lambda>i. a + int i) [0..<nat (b + 1 - a)]"

definition wander_tiles :: "map_data \<Rightarrow> pos set" where
  "wander_tiles m = (\<Union>ob \<in> set (filter is_wanderer (md_objects m)).
    case object_area ob of (x0, y0, x1, y1) \<Rightarrow>
      \<Union>y \<in> set (int_span (max y0 0) (min y1 (md_height m - 1))).
        (\<lambda>x. (x, y)) ` set (int_span (max x0 0) (min x1 (md_width m - 1))))"

section \<open>What is seen and where people walk\<close>

lemma set_int_span: "set (int_span a b) = {a..b}"
proof
  show "set (int_span a b) \<subseteq> {a..b}" by (auto simp: int_span_def)
  show "{a..b} \<subseteq> set (int_span a b)"
  proof
    fix x assume "x \<in> {a..b}"
    then have "nat (x - a) \<in> {0..<nat (b + 1 - a)}" "x = a + int (nat (x - a))" by auto
    then show "x \<in> set (int_span a b)" unfolding int_span_def by (metis atLeastLessThan_upt image_eqI set_map)
  qed
qed

lemma sight_along_iff:
  "t \<in> set (sight_along m from dir k n) \<longleftrightarrow>
    (\<exists>j < n. t = (fst from + fst dir * (k + int j), snd from + snd dir * (k + int j)) \<and>
      (\<forall>i \<le> j. open_tile m (fst from + fst dir * (k + int i)) (snd from + snd dir * (k + int i))))"
proof (induction n arbitrary: k)
  case (Suc n)
  let ?at = "\<lambda>j. (fst from + fst dir * (k + int j), snd from + snd dir * (k + int j))"
  let ?open = "\<lambda>j. open_tile m (fst (?at j)) (snd (?at j))"
  have shift: "t \<in> set (sight_along m from dir (k + 1) n) \<longleftrightarrow>
      (\<exists>j < n. t = ?at (Suc j) \<and> (\<forall>i \<le> j. ?open (Suc i)))"
    unfolding Suc.IH [of "k + 1"] by (simp add: algebra_simps)
  have "t \<in> set (sight_along m from dir k (Suc n)) \<longleftrightarrow>
      ?open 0 \<and> (t = ?at 0 \<or> (\<exists>j < n. t = ?at (Suc j) \<and> (\<forall>i \<le> j. ?open (Suc i))))"
    using shift by (auto simp: Let_def)
  also have "\<dots> \<longleftrightarrow> (\<exists>j < Suc n. t = ?at j \<and> (\<forall>i \<le> j. ?open i))"
  proof
    assume r: "?open 0 \<and> (t = ?at 0 \<or> (\<exists>j < n. t = ?at (Suc j) \<and> (\<forall>i \<le> j. ?open (Suc i))))"
    then consider "t = ?at 0" | j where "j < n" "t = ?at (Suc j)" "\<forall>i \<le> j. ?open (Suc i)" by blast
    then show "\<exists>j < Suc n. t = ?at j \<and> (\<forall>i \<le> j. ?open i)"
    proof cases
      case 1
      then show ?thesis using r by (intro exI [of _ 0]) auto
    next
      case 2
      have "?open i" if "i \<le> Suc j" for i using that r 2(3) by (cases i) auto
      then show ?thesis using 2(1,2) by (intro exI [of _ "Suc j"]) auto
    qed
  next
    assume "\<exists>j < Suc n. t = ?at j \<and> (\<forall>i \<le> j. ?open i)"
    then obtain j where j: "j < Suc n" "t = ?at j" "\<forall>i \<le> j. ?open i" by blast
    then show "?open 0 \<and> (t = ?at 0 \<or> (\<exists>j < n. t = ?at (Suc j) \<and> (\<forall>i \<le> j. ?open (Suc i))))"
    proof (cases j)
      case 0
      then show ?thesis using j by auto
    next
      case (Suc j')
      have "?open 0" using j(3) by blast
      moreover have "\<forall>i \<le> j'. ?open (Suc i)" using j(3) Suc by auto
      moreover have "j' < n" using j(1) Suc by simp
      ultimately show ?thesis using j(2) Suc by blast
    qed
  qed
  finally show ?case by simp
qed simp

lemma wander_in_bounds: "t \<in> wander_tiles m \<Longrightarrow> in_bounds m (fst t) (snd t)"
proof -
  assume "t \<in> wander_tiles m"
  then obtain ob where "t \<in> (case object_area ob of (x0, y0, x1, y1) \<Rightarrow>
      \<Union>y \<in> set (int_span (max y0 0) (min y1 (md_height m - 1))).
        (\<lambda>x. (x, y)) ` set (int_span (max x0 0) (min x1 (md_width m - 1))))"
    unfolding wander_tiles_def by (rule UN_E)
  then show ?thesis by (cases "object_area ob") (auto simp: set_int_span in_bounds_def)
qed

text \<open>A trainer sees exactly the tiles that lie up to its sight along a way it faces with every tile up to
  them walkable.\<close>

lemma sight_line_exact:
  "find (\<lambda>ob. ob_local_id ob = i) (md_objects m) = Some ob \<Longrightarrow> object_place ob = Some (x, y) \<Longrightarrow>
   t \<in> sight_line m i sight \<longleftrightarrow>
     (\<exists>d k. d \<in> set (facings (case ob_movement ob of None \<Rightarrow> [] | Some mv \<Rightarrow> mv)) \<and> 1 \<le> k \<and> k \<le> int sight \<and>
       t = (x + fst d * k, y + snd d * k) \<and>
       (\<forall>i. 1 \<le> i \<longrightarrow> i \<le> k \<longrightarrow> open_tile m (x + fst d * i) (y + snd d * i)))"
proof -
  assume ob: "find (\<lambda>ob. ob_local_id ob = i) (md_objects m) = Some ob" "object_place ob = Some (x, y)"
  have along: "t \<in> set (sight_along m (x, y) d 1 sight) \<longleftrightarrow> (\<exists>k. 1 \<le> k \<and> k \<le> int sight \<and>
       t = (x + fst d * k, y + snd d * k) \<and>
       (\<forall>i. 1 \<le> i \<longrightarrow> i \<le> k \<longrightarrow> open_tile m (x + fst d * i) (y + snd d * i)))" (is "?l = ?r") for d
  proof
    assume ?l
    then obtain j where j: "j < sight" "t = (x + fst d * (1 + int j), y + snd d * (1 + int j))"
      "\<forall>i \<le> j. open_tile m (x + fst d * (1 + int i)) (y + snd d * (1 + int i))"
      unfolding sight_along_iff fst_conv snd_conv by blast
    have "open_tile m (x + fst d * i) (y + snd d * i)" if "1 \<le> i" "i \<le> 1 + int j" for i
    proof -
      have i: "1 + int (nat (i - 1)) = i" "nat (i - 1) \<le> j" using that by linarith+
      show ?thesis using j(3) [rule_format, OF i(2)] unfolding i(1) .
    qed
    moreover have "1 \<le> 1 + int j" "1 + int j \<le> int sight" using j(1) by simp_all
    ultimately show ?r using j(2) by blast
  next
    assume ?r
    then obtain k where k: "1 \<le> k" "k \<le> int sight" "t = (x + fst d * k, y + snd d * k)"
      "\<forall>i. 1 \<le> i \<longrightarrow> i \<le> k \<longrightarrow> open_tile m (x + fst d * i) (y + snd d * i)" by blast
    have "open_tile m (x + fst d * (1 + int i)) (y + snd d * (1 + int i))" if "i \<le> nat (k - 1)" for i
      by (rule k(4) [rule_format]) (use that k(1) in simp_all)
    moreover have "nat (k - 1) < sight" "1 + int (nat (k - 1)) = k" using k(1,2) by simp_all
    ultimately show ?l unfolding sight_along_iff fst_conv snd_conv using k(3) by (intro exI [of _ "nat (k - 1)"]) simp
  qed
  have "t \<in> sight_line m i sight \<longleftrightarrow>
      (\<exists>d. d \<in> set (facings (case ob_movement ob of None \<Rightarrow> [] | Some mv \<Rightarrow> mv)) \<and> t \<in> set (sight_along m (x, y) d 1 sight))"
    by (simp add: sight_line_def ob Bex_def)
  then show ?thesis unfolding along by (simp only: ex_simps)
qed

end
