(* ===== verification/Escape.thy ===== *)
theory Escape
  imports Events Predicates Game_State
begin

text \<open>
  Where Dig and the Escape Rope lead (crates/world/src/escape.rs): how a change of maps moves the escape
  warp, by the types of the maps and the warp taken, or by a script of the map entered.
\<close>

definition VIRIDIAN_FOREST :: string where "VIRIDIAN_FOREST = ''ViridianForest''"

datatype escape_change = Keep | Set_Escape escape_warp | Lost_Escape

definition warp_sets_escape :: "world \<Rightarrow> string \<Rightarrow> string \<Rightarrow> bool" where
  "warp_sets_escape w from to =
    (case (map_named w from, map_named w to) of
       (Some a, Some b) \<Rightarrow> is_outdoor a \<and> \<not> is_outdoor b \<and> from \<noteq> VIRIDIAN_FOREST
     | _ \<Rightarrow> True)"

fun is_escape_eff :: "effect \<Rightarrow> bool" where
  "is_escape_eff (Escape_Warp_Eff m i x y) = True"
| "is_escape_eff _ = False"

text \<open>The \<open>setescapewarp\<close> effects of the map's transition scripts with the conditions of their paths.\<close>

definition escape_scripts :: "events option \<Rightarrow> string \<Rightarrow> (condition list \<times> effect) list" where
  "escape_scripts ev m =
    (case ev of
       None \<Rightarrow> []
     | Some ev \<Rightarrow>
         let labels = (case map_of (ev_map_scripts ev) m of None \<Rightarrow> [] | Some ms \<Rightarrow> ms_on_transition ms) in
         List.map_filter (\<lambda>p. map_option (Pair (pt_when p)) (find is_escape_eff (pt_does p)))
           (concat (map sc_paths (List.map_filter (script_named ev) labels))))"

definition sets_escape_on_arrival :: "events option \<Rightarrow> string \<Rightarrow> bool" where
  "sets_escape_on_arrival ev m \<longleftrightarrow> escape_scripts ev m \<noteq> []"

definition cmp_holds :: "cmp \<Rightarrow> int \<Rightarrow> bool" where
  "cmp_holds c v \<longleftrightarrow> list_all (\<lambda>(x, c). case x of
      None \<Rightarrow> True
    | Some x \<Rightarrow> (case as_int x of None \<Rightarrow> False | Some x \<Rightarrow> op_holds c v x))
    [(cp_eq c, Eq_Op), (cp_ne c, Ne_Op), (cp_lt c, Lt_Op), (cp_gt c, Gt_Op), (cp_le c, Le_Op), (cp_ge c, Ge_Op)]"

text \<open>\<open>getplayerxy\<close> puts the arrival tile in two temporary variables.\<close>

fun arrival_met :: "player_pose \<Rightarrow> condition \<Rightarrow> bool" where
  "arrival_met pose (Var_Cond var c) =
    (if var = ''VAR_TEMP_1'' then cmp_holds c (pp_x pose)
     else if var = ''VAR_TEMP_2'' then cmp_holds c (pp_y pose) else False)"
| "arrival_met pose _ = False"

fun arrival_warp :: "world \<Rightarrow> player_pose \<Rightarrow> condition list \<times> effect \<Rightarrow> escape_warp option" where
  "arrival_warp w pose (conds, Escape_Warp_Eff m i x y) =
    (if list_all (arrival_met pose) conds
     then (case (name_of w m, Option.bind x as_int, Option.bind y as_int) of
         (Some name, Some x, Some y) \<Rightarrow>
           Some \<lparr>ew_map = name, ew_x = to_i32 x, ew_y = to_i32 y, ew_entered = pp_map pose\<rparr>
       | _ \<Rightarrow> None)
     else None)"
| "arrival_warp w pose _ = None"

definition arrival_escape :: "events option \<Rightarrow> world \<Rightarrow> player_pose \<Rightarrow> escape_change option" where
  "arrival_escape ev w pose =
    (let scripts = escape_scripts ev (pp_map pose);
         found = fold (\<lambda>e found. if e \<in> set found then found else found @ [e])
           (List.map_filter (arrival_warp w pose) scripts) [] in
     if scripts = [] then None
     else Some (case found of [e] \<Rightarrow> Set_Escape e | _ \<Rightarrow> Lost_Escape))"

text \<open>The first of the smallest.\<close>

fun first_min :: "('a \<Rightarrow> int) \<Rightarrow> 'a list \<Rightarrow> 'a option" where
  "first_min key [] = None"
| "first_min key (x # xs) =
    (case first_min key xs of None \<Rightarrow> Some x | Some y \<Rightarrow> if key y < key x then Some y else Some x)"

definition after_map_change :: "events option \<Rightarrow> world \<Rightarrow> player_pose \<Rightarrow> player_pose \<Rightarrow> escape_change" where
  "after_map_change ev w from arrived =
    (if pp_map from = pp_map arrived then Keep
     else case arrival_escape ev w arrived of
       Some change \<Rightarrow> change
     | None \<Rightarrow>
         if \<not> warp_sets_escape w (pp_map from) (pp_map arrived) then Keep
         else (case (map_named w (pp_map from), map_named w (pp_map arrived)) of
             (Some a, Some b) \<Rightarrow>
               let near = (\<lambda>wp. \<bar>wp_x wp - pp_x from\<bar> + \<bar>wp_y wp - pp_y from\<bar>) in
               (case first_min near (filter (\<lambda>wp. name_of w (wp_dest_map wp) = Some (md_name b)) (md_warps a)) of
                  None \<Rightarrow> Keep
                | Some wp \<Rightarrow>
                    if near wp > 2 then Lost_Escape
                    else
                      let behavior = (case tile_at a (wp_x wp, wp_y wp) of None \<Rightarrow> 0 | Some t \<Rightarrow> tl_behavior t);
                          south = (if (pp_x from, pp_y from) \<noteq> (wp_x wp, wp_y wp) then pp_y from < wp_y wp
                            else (case arrow_warp behavior of Some d \<Rightarrow> Some d | None \<Rightarrow> stair_warp behavior) = Some Down) in
                      Set_Escape \<lparr>ew_map = md_name a, ew_x = wp_x wp,
                        ew_y = wp_y wp + (if south then 0 else 1), ew_entered = md_name b\<rparr>)
           | _ \<Rightarrow> Lost_Escape))"

section \<open>An escape goes back out the way in\<close>

lemma first_min_None: "first_min key xs = None \<longleftrightarrow> xs = []"
  by (cases xs) (auto split: option.split)

lemma first_min_in: "first_min key xs = Some x \<Longrightarrow> x \<in> set xs \<and> (\<forall>y \<in> set xs. key x \<le> key y)"
proof (induction xs arbitrary: x)
  case (Cons a xs)
  show ?case
  proof (cases "first_min key xs")
    case None
    then show ?thesis using Cons.prems by (simp add: first_min_None)
  next
    case (Some y)
    then show ?thesis using Cons.prems Cons.IH [OF Some] by (cases "key y < key a") fastforce+
  qed
qed simp

text \<open>Without a script, the escape warp moves only when the player walks from an outdoor map into one that is
  not, and then to a warp of the map left that leads to the map entered, within two steps of where the
  player was last seen, and no such warp is nearer.\<close>

lemma escape_leads_back:
  assumes "after_map_change ev w from arrived = Set_Escape e" "arrival_escape ev w arrived = None"
  obtains a b wp where "map_named w (pp_map from) = Some a" "map_named w (pp_map arrived) = Some b"
    "is_outdoor a" "\<not> is_outdoor b" "wp \<in> set (md_warps a)" "name_of w (wp_dest_map wp) = Some (md_name b)"
    "ew_map e = md_name a" "ew_entered e = md_name b" "ew_x e = wp_x wp" "ew_y e \<in> {wp_y wp, wp_y wp + 1}"
    "\<bar>wp_x wp - pp_x from\<bar> + \<bar>wp_y wp - pp_y from\<bar> \<le> 2"
proof -
  obtain a b where ab: "map_named w (pp_map from) = Some a" "map_named w (pp_map arrived) = Some b"
    and sets: "warp_sets_escape w (pp_map from) (pp_map arrived)"
    using assms by (auto simp: after_map_change_def split: option.splits if_splits)
  let ?near = "\<lambda>wp. \<bar>wp_x wp - pp_x from\<bar> + \<bar>wp_y wp - pp_y from\<bar>"
  obtain wp where wp: "first_min ?near (filter (\<lambda>wp. name_of w (wp_dest_map wp) = Some (md_name b)) (md_warps a)) = Some wp"
    "?near wp \<le> 2" "ew_map e = md_name a" "ew_entered e = md_name b" "ew_x e = wp_x wp" "ew_y e \<in> {wp_y wp, wp_y wp + 1}"
    using assms ab by (auto simp: after_map_change_def Let_def split: option.splits if_splits)
  show thesis
    by (rule that [OF ab]) (use sets ab wp first_min_in [OF wp(1)] in \<open>auto simp: warp_sets_escape_def\<close>)
qed

end
