(* ===== verification/Battle_Limits.thy ===== *)
theory Battle_Limits
  imports Gamedata Text_Match
begin

text \<open>
  What the foe's moves and abilities forbid our battler, read from the battle's pages
  (crates/agent/src/limits.rs). Pages are lists of code points; the printed apostrophe reads as U+2019.
\<close>

definition fix_apostrophe :: "printed_text \<Rightarrow> printed_text" where
  "fix_apostrophe page = map (\<lambda>c. if c = 0x2019 then 0x27 else c) page"

definition is_space :: "nat \<Rightarrow> bool" where
  "is_space c \<longleftrightarrow> (9 \<le> c \<and> c \<le> 13) \<or> (0x2000 \<le> c \<and> c \<le> 0x200A) \<or>
    c \<in> {0x20, 0x85, 0xA0, 0x1680, 0x2028, 0x2029, 0x202F, 0x205F, 0x3000}"

definition trim_text :: "printed_text \<Rightarrow> printed_text" where
  "trim_text page = rev (dropWhile is_space (rev (dropWhile is_space page)))"

datatype page =
  Trapped bool
| Bound
| Freed
| Taunted
| Tormented
| Sealed string
| Only string
| Encored
| Encore_Ended
| Cant_Escape

text \<open>The pages in the order \<open>read\<close> tries them: those that do not name our battler, then those that do.\<close>

definition read_common :: "printed_text \<Rightarrow> page option" where
  "read_common p =
    (if p = chars ''Can't escape!'' then Some Cant_Escape
     else if ends_with p (chars '' prevents switching!'') \<or> contains_text p (chars '' prevents escape with '')
     then Some (Trapped True) else None)"

definition read_bound :: "printed_text \<Rightarrow> printed_text \<Rightarrow> bool" where
  "read_bound p lead \<longleftrightarrow>
    p = lead @ chars '' was trapped in the vortex!'' \<or>
    p = lead @ chars '' was trapped by SAND TOMB!'' \<or>
    (starts_with p (lead @ chars '' was squeezed by '') \<and> ends_with p (chars (CHR 0x27 # ''s BIND!''))) \<or>
    (starts_with p (lead @ chars '' was WRAPPED by '') \<and> ends_with p (chars ''!'')) \<or>
    (ends_with p (chars '' CLAMPED '' @ lead @ chars ''!'') \<and> \<not> starts_with p lead)"

definition read_ours :: "game_data \<Rightarrow> printed_text \<Rightarrow> printed_text \<Rightarrow> page option" where
  "read_ours data p lead =
    (let ours = (\<lambda>t. p = lead @ chars (CHR '' '' # t));
         apo = [CHR 0x27];
         sealed = Option.bind (strip_prefix p (lead @ chars ('' can'' @ apo @ ''t use the sealed '')))
           (\<lambda>r. strip_suffix r (chars ''!''));
         allowed = map_option snd (split_once p (chars (apo @ ''s effect allows only ''))) in
     if ours (''can'' @ apo @ ''t be switched out!'') \<or> ours (''can'' @ apo @ ''t escape now!'')
     then Some (Trapped False)
     else if read_bound p lead then Some Bound
     else if starts_with p (lead @ chars '' was freed from '') then Some Freed
     else if ours ''fell for the TAUNT!'' \<or>
       (starts_with p (lead @ chars ('' can'' @ apo @ ''t use '')) \<and> ends_with p (chars '' after the TAUNT!''))
     then Some Taunted
     else if ours ''was subjected to TORMENT!'' \<or>
       ours (''can'' @ apo @ ''t use the same move in a row due to the TORMENT!'')
     then Some Tormented
     else case sealed of
       Some name \<Rightarrow> map_option Sealed (move_named data name)
     | None \<Rightarrow>
         (case allowed of
            Some rest \<Rightarrow>
              Option.bind (strip_suffix rest (chars '' to be used!'')) (\<lambda>name. map_option Only (move_named data name))
          | None \<Rightarrow>
              if ours ''got an ENCORE!'' then Some Encored
              else if p = lead @ chars (apo @ ''s ENCORE ended!'') then Some Encore_Ended
              else None))"

definition read_page :: "printed_text \<Rightarrow> printed_text \<Rightarrow> game_data \<Rightarrow> page option" where
  "read_page text lead data =
    (let p = trim_text (fix_apostrophe text) in
     case read_common p of
       Some page \<Rightarrow> Some page
     | None \<Rightarrow> if lead = [] then None else read_ours data p lead)"

record limits =
  lm_trapped :: "printed_text option"
  lm_by_ability :: bool
  lm_bound :: bool
  lm_taunted :: bool
  lm_tormented :: bool
  lm_sealed :: "string list"
  lm_only :: "string option"
  lm_encored :: bool
  lm_pending :: bool

definition no_limits :: limits where
  "no_limits = \<lparr>lm_trapped = None, lm_by_ability = False, lm_bound = False, lm_taunted = False,
    lm_tormented = False, lm_sealed = [], lm_only = None, lm_encored = False, lm_pending = False\<rparr>"

definition battler_changed :: "limits \<Rightarrow> limits" where
  "battler_changed l = no_limits\<lparr>lm_trapped := (if lm_by_ability l then lm_trapped l else None),
    lm_by_ability := lm_by_ability l, lm_sealed := lm_sealed l\<rparr>"

definition foe_changed :: "limits \<Rightarrow> limits" where
  "foe_changed l =
    (if lm_by_ability l then l\<lparr>lm_trapped := None, lm_by_ability := False\<rparr> else l)\<lparr>lm_sealed := []\<rparr>"

fun apply_page :: "printed_text \<Rightarrow> page \<Rightarrow> limits \<Rightarrow> limits" where
  "apply_page text (Trapped ability) l =
    l\<lparr>lm_trapped := (case lm_trapped l of None \<Rightarrow> Some (fix_apostrophe text) | Some t \<Rightarrow> Some t),
      lm_by_ability := lm_by_ability l \<or> ability\<rparr>"
| "apply_page text Bound l = l\<lparr>lm_bound := True\<rparr>"
| "apply_page text Freed l = l\<lparr>lm_bound := False\<rparr>"
| "apply_page text Taunted l = l\<lparr>lm_taunted := True\<rparr>"
| "apply_page text Tormented l = l\<lparr>lm_tormented := True\<rparr>"
| "apply_page text (Sealed m) l = (if m \<in> set (lm_sealed l) then l else l\<lparr>lm_sealed := lm_sealed l @ [m]\<rparr>)"
| "apply_page text (Only m) l = l\<lparr>lm_only := Some m\<rparr>"
| "apply_page text Encored l = l\<lparr>lm_encored := True\<rparr>"
| "apply_page text Encore_Ended l = l\<lparr>lm_encored := False\<rparr>"
| "apply_page text Cant_Escape l = l"

definition observe_page :: "game_data \<Rightarrow> printed_text \<Rightarrow> printed_text \<Rightarrow> limits \<Rightarrow> limits" where
  "observe_page data text lead l =
    (let r = read_page text lead data;
         l = l\<lparr>lm_pending := (r = Some Cant_Escape)\<rparr>;
         l = (case r of None \<Rightarrow> l | Some p \<Rightarrow> apply_page text p l);
         l = (if starts_with text (chars ''Go! '') \<or> contains_text text (chars '', come back!'')
           then battler_changed l else l) in
     if contains_text text (chars '' sent out '') then foe_changed l else l)"

definition refused :: printed_text where
  "refused = chars ''Can't escape! (refused, no turn passed)''"

definition at_command_menu :: "limits \<Rightarrow> limits" where
  "at_command_menu l =
    (if lm_pending l \<and> lm_trapped l = None then l\<lparr>lm_pending := False, lm_trapped := Some refused\<rparr>
     else l\<lparr>lm_pending := False\<rparr>)"

definition can_switch :: "limits \<Rightarrow> bool" where
  "can_switch l \<longleftrightarrow> lm_trapped l = None \<and> \<not> lm_bound l"

definition can_run :: "limits \<Rightarrow> bool" where
  "can_run l \<longleftrightarrow> lm_trapped l = None \<and> \<not> lm_bound l"

definition why_refused :: "limits \<Rightarrow> printed_text option" where
  "why_refused l =
    (case lm_trapped l of
       Some t \<Rightarrow> Some t
     | None \<Rightarrow> if lm_bound l then Some (chars ''held by a binding move'') else None)"

definition allows :: "limits \<Rightarrow> game_data \<Rightarrow> string \<Rightarrow> string option \<Rightarrow> bool" where
  "allows l data mv used =
    (if (case lm_only l of None \<Rightarrow> False | Some o' \<Rightarrow> o' \<noteq> mv) then False
     else if mv \<in> set (lm_sealed l) then False
     else if lm_tormented l \<and> used = Some mv \<and> mv \<noteq> ''MOVE_STRUGGLE'' then False
     else if lm_taunted l \<and> (case move_of data mv of None \<Rightarrow> False | Some m \<Rightarrow> mv_power m = 0) then False
     else True)"

section \<open>Limits end\<close>

text \<open>A trap by an ability has its page, and the reason is given just when SHIFT or RUN is refused.\<close>

definition limits_ok :: "limits \<Rightarrow> bool" where
  "limits_ok l \<longleftrightarrow> (lm_by_ability l \<longrightarrow> lm_trapped l \<noteq> None) \<and> distinct (lm_sealed l)"

lemma apply_page_ok: "limits_ok l \<Longrightarrow> limits_ok (apply_page text p l)"
  by (cases p) (auto simp: limits_ok_def split: option.split)

lemma changed_ok: "limits_ok l \<Longrightarrow> limits_ok (battler_changed l)" "limits_ok l \<Longrightarrow> limits_ok (foe_changed l)"
  by (auto simp: limits_ok_def battler_changed_def foe_changed_def no_limits_def)

lemma pending_ok: "limits_ok (l\<lparr>lm_pending := b\<rparr>) = limits_ok l"
  by (simp add: limits_ok_def)

lemma observe_ok: "limits_ok l \<Longrightarrow> limits_ok (observe_page data text lead l)"
  by (auto simp: observe_page_def Let_def pending_ok intro!: changed_ok apply_page_ok split: option.split)

lemma why_iff: "why_refused l = None \<longleftrightarrow> can_switch l \<and> can_run l"
  by (auto simp: why_refused_def can_switch_def can_run_def split: option.split)

text \<open>Once both sides have changed nothing of what they did to each other is left.\<close>

lemma both_changed: "limits_ok l \<Longrightarrow> foe_changed (battler_changed l) = no_limits"
  by (auto simp: foe_changed_def battler_changed_def no_limits_def limits_ok_def)

text \<open>A failed RUN is taken for a refused one only if the command menu comes back before another page.\<close>

lemma failed_run_is_no_trap:
  assumes "can_run l" "read_page text lead data \<noteq> Some Cant_Escape"
    "\<And>a. read_page text lead data \<noteq> Some (Trapped a)" "read_page text lead data \<noteq> Some Bound" "\<not> lm_by_ability l"
  shows "can_run (at_command_menu (observe_page data text lead l))"
proof -
  let ?l = "case read_page text lead data of None \<Rightarrow> l\<lparr>lm_pending := False\<rparr>
    | Some p \<Rightarrow> apply_page text p (l\<lparr>lm_pending := False\<rparr>)"
  have l: "can_run ?l" "\<not> lm_pending ?l"
    using assms by (cases "read_page text lead data"; cases "the (read_page text lead data)"; auto simp: can_run_def)+
  have run: "can_run (battler_changed l')" "can_run l' \<Longrightarrow> can_run (foe_changed l')"
    "\<not> lm_pending (battler_changed l')" "\<not> lm_pending l' \<Longrightarrow> \<not> lm_pending (foe_changed l')"
    if "can_run l'" for l'
    using that by (auto simp: can_run_def battler_changed_def foe_changed_def no_limits_def)
  have "can_run (observe_page data text lead l) \<and> \<not> lm_pending (observe_page data text lead l)"
  proof -
    have pending: "(read_page text lead data = Some Cant_Escape) = False" using assms(2) by simp
    show ?thesis unfolding observe_page_def Let_def pending using l run by simp
  qed
  then show ?thesis by (simp add: at_command_menu_def can_run_def)
qed

end
