(* ===== verification/State_Change.thy ===== *)
theory State_Change
  imports Reducer "HOL-Library.Char_ord" "HOL-Library.List_Lexorder" "HOL-Library.Product_Lexorder" "HOL-Library.Option_ord"
begin

text \<open>
  What changed between two states, as change notices (crates/state/src/change.rs), in the order of the code.
  Only values count. Keys of maps and sets come in their order, as from the \<open>BTreeMap\<close>s of the code.
\<close>

datatype (plugins only:) state_change =
  Screen_Change "screen_state option" "screen_state option"
| Located player_pose
| Moved player_pose player_pose
| Map_Change player_pose player_pose
| Ambiguous "player_pose list"
| Confirmed "player_pose option"
| Battle_Start
| Battle_End
| Gender_Known gender
| Player_Name_Changed "string option" "string option"
| Rival_Name_Changed "string option" "string option"
| Badge_Added string
| Badge_Removed string
| Party_Size_Changed "nat option" "nat option"
| Mon_Added nat "string option"
| Mon_Removed nat "string option"
| Species_Changed nat "string option" "string option"
| Nickname_Changed nat "string option" "string option"
| Level_Changed nat "nat option" "nat option"
| Hp_Changed nat "(nat \<times> nat) option" "(nat \<times> nat) option"
| Status_Changed nat "status option" "status option"
| Held_Item_Changed nat "string option option" "string option option"
| Detail_Changed nat string "string option" "string option"
| Badge_Count_Changed "nat option" "nat option"
| Shiny_Changed nat "bool option" "bool option"
| Move_Changed nat nat "string option" "string option"
| Pp_Changed nat nat "string option" "(nat \<times> nat) option" "(nat \<times> nat) option"
| Pocket_Known pocket bool
| Item_Count_Changed pocket string "nat option" "nat option"
| Money_Change "nat option" "nat option"
| Pc_Box_Changed nat "(nat \<times> string option) list" "(nat \<times> string option) list"
| Pc_Items_Changed
| Dex_Seen string
| Dex_Caught string
| Dex_Counts_Changed "pokedex_counts option" "pokedex_counts option"
| Flag_Changed string "bool option" "bool option"
| Var_Changed string "nat option" "nat option"
| Map_Visited_Now string
| Respawn_Changed "heal_spot option" "heal_spot option"
| Escape_Changed "escape_warp option" "escape_warp option"
| Npc_Appeared string nat pos
| Npc_Moved string nat pos pos
| Npc_Turned string nat "direction option" "direction option"
| Npc_Gone string nat
| Text_Shown "string list"
| Text_Cleared
| Menu_Shown "string list" nat
| Menu_Closed
| Opponent_Appeared "string option" "nat option"
| Opponent_Hp_Changed "nat option" "nat option"
| Opponent_Gone
| Sprite_Appeared visible_npc
| Sprite_Moved visible_npc visible_npc
| Sprite_Left visible_npc
| Map_Name_Shown string

record change_record =
  cr_frame :: nat
  cr_change :: state_change

text \<open>A notice when a value differs.\<close>

definition when_differs :: "'a \<Rightarrow> 'a \<Rightarrow> state_change \<Rightarrow> state_change list" where
  "when_differs a b c = (if a \<noteq> b then [c] else [])"

definition changed_value :: "('a \<Rightarrow> 'a \<Rightarrow> state_change) \<Rightarrow> 'a \<Rightarrow> 'a \<Rightarrow> state_change list" where
  "changed_value mk a b = when_differs a b (mk a b)"

definition pose_changes :: "player_pose knowledge \<Rightarrow> player_pose knowledge \<Rightarrow> state_change list" where
  "pose_changes old new =
    (case (kn_value old, kn_value new) of
       (None, Some p) \<Rightarrow> [Located p]
     | (Some a, Some b) \<Rightarrow>
         if pp_map a \<noteq> pp_map b then [Map_Change a b] else if a \<noteq> b then [Moved a b] else []
     | _ \<Rightarrow> [])"

definition candidate_changes :: "player_state \<Rightarrow> player_state \<Rightarrow> state_change list" where
  "candidate_changes old new =
    (if pl_candidates old = [] \<and> pl_candidates new \<noteq> [] then [Ambiguous (pl_candidates new)]
     else if pl_candidates old \<noteq> [] \<and> pl_candidates new = [] then [Confirmed (kn_value (pl_pose new))]
     else [])"

definition battle_changes :: "bool \<Rightarrow> bool \<Rightarrow> state_change list" where
  "battle_changes old new =
    (if \<not> old \<and> new then [Battle_Start] else if old \<and> \<not> new then [Battle_End] else [])"

definition sorted_keys :: "'k::linorder list \<Rightarrow> 'k list" where
  "sorted_keys ks = remdups_adj (sort ks)"

definition badge_names :: "string list knowledge \<Rightarrow> string list" where
  "badge_names k = (case kn_value k of None \<Rightarrow> [] | Some bs \<Rightarrow> sorted_keys bs)"

definition progression_changes :: "progression \<Rightarrow> progression \<Rightarrow> state_change list" where
  "progression_changes old new =
    changed_value Badge_Count_Changed (kn_value (pr_badge_count old)) (kn_value (pr_badge_count new)) @
    (case (kn_value (pr_gender old), kn_value (pr_gender new)) of (None, Some g) \<Rightarrow> [Gender_Known g] | _ \<Rightarrow> []) @
    changed_value Player_Name_Changed (kn_value (pr_player_name old)) (kn_value (pr_player_name new)) @
    changed_value Rival_Name_Changed (kn_value (pr_rival_name old)) (kn_value (pr_rival_name new)) @
    (let before = badge_names (pr_badges old); after = badge_names (pr_badges new) in
     map Badge_Added (filter (\<lambda>b. b \<notin> set before) after) @
     map Badge_Removed (filter (\<lambda>b. b \<notin> set after) before))"

definition slot_move :: "move_slot option \<Rightarrow> string option" where
  "slot_move s = Option.bind s (kn_value \<circ> ms_mv)"

definition slot_pp :: "move_slot option \<Rightarrow> (nat \<times> nat) option" where
  "slot_pp s = Option.bind s (kn_value \<circ> ms_pp)"

definition detail_changes :: "nat \<Rightarrow> pokemon_details \<Rightarrow> pokemon_details \<Rightarrow> state_change list" where
  "detail_changes slot a b =
    (if a = b then []
     else concat (map (\<lambda>((field, from), (_, to)). when_differs from to (Detail_Changed slot field from to))
       (zip (reading_values (reading_of a)) (reading_values (reading_of b)))))"

definition move_changes :: "nat \<Rightarrow> move_slot option list \<Rightarrow> move_slot option list \<Rightarrow> state_change list" where
  "move_changes slot a b = concat (map (\<lambda>(i, x, y).
      changed_value (Move_Changed slot i) (slot_move x) (slot_move y) @
      changed_value (Pp_Changed slot i (slot_move y)) (slot_pp x) (slot_pp y))
    (zip [0..<min (length a) (length b)] (zip a b)))"

definition member_changes :: "nat \<Rightarrow> party_mon \<Rightarrow> party_mon \<Rightarrow> state_change list" where
  "member_changes slot a b =
    changed_value (Species_Changed slot) (kn_value (pm_species a)) (kn_value (pm_species b)) @
    changed_value (Nickname_Changed slot) (kn_value (pm_nickname a)) (kn_value (pm_nickname b)) @
    changed_value (Level_Changed slot) (kn_value (pm_level a)) (kn_value (pm_level b)) @
    changed_value (Hp_Changed slot) (kn_value (pm_hp a)) (kn_value (pm_hp b)) @
    changed_value (Status_Changed slot) (kn_value (pm_status a)) (kn_value (pm_status b)) @
    changed_value (Held_Item_Changed slot) (kn_value (pm_held_item a)) (kn_value (pm_held_item b)) @
    changed_value (Shiny_Changed slot) (kn_value (pm_shiny a)) (kn_value (pm_shiny b)) @
    detail_changes slot (pm_details a) (pm_details b) @
    move_changes slot (pm_moves a) (pm_moves b)"

definition nth_opt :: "'a list \<Rightarrow> nat \<Rightarrow> 'a option" where
  "nth_opt xs i = (if i < length xs then Some (xs ! i) else None)"

definition slot_changes :: "nat \<Rightarrow> party_mon option \<Rightarrow> party_mon option \<Rightarrow> state_change list" where
  "slot_changes slot x y =
    (let s = slot mod 256 in
     case (x, y) of
       (None, Some m) \<Rightarrow> Mon_Added s (kn_value (pm_species m)) # member_changes s default_mon m
     | (Some m, None) \<Rightarrow> [Mon_Removed s (kn_value (pm_species m))]
     | (Some a, Some b) \<Rightarrow> member_changes s a b
     | (None, None) \<Rightarrow> [])"

definition party_changes :: "party_mon list knowledge \<Rightarrow> party_mon list knowledge \<Rightarrow> state_change list" where
  "party_changes old new =
    (let a = (case kn_value old of None \<Rightarrow> [] | Some ms \<Rightarrow> ms); b = (case kn_value new of None \<Rightarrow> [] | Some ms \<Rightarrow> ms) in
     changed_value Party_Size_Changed (map_option length (kn_value old)) (map_option length (kn_value new)) @
     concat (map (\<lambda>i. slot_changes i (nth_opt a i) (nth_opt b i)) [0..<max (length a) (length b)]))"

text \<open>The counts of a pocket: of several rows of one item the last.\<close>

definition item_counts :: "item_list option \<Rightarrow> (string \<times> nat) list" where
  "item_counts l = (case l of None \<Rightarrow> [] | Some l \<Rightarrow> rev l)"

definition pocket_changes :: "bag \<Rightarrow> bag \<Rightarrow> pocket \<Rightarrow> state_change list" where
  "pocket_changes old new p =
    (let a = Option.bind (map_of old p) kn_value; b = Option.bind (map_of new p) kn_value;
         ca = item_counts a; cb = item_counts b in
     (if (a \<noteq> None) \<noteq> (b \<noteq> None) then [Pocket_Known p (b \<noteq> None)] else []) @
     concat (map (\<lambda>i. changed_value (Item_Count_Changed p i) (map_of ca i) (map_of cb i))
       (sorted_keys (map fst ca @ map fst cb))))"

definition bag_changes :: "bag \<Rightarrow> bag \<Rightarrow> state_change list" where
  "bag_changes old new = concat (map (pocket_changes old new) all_pockets)"

definition box_slots :: "box_mon list knowledge \<Rightarrow> (nat \<times> string option) list" where
  "box_slots k = (case kn_value k of
     None \<Rightarrow> [] | Some ms \<Rightarrow> sorted_keys (map (\<lambda>m. (bx_slot m, kn_value (bx_species m))) ms))"

definition box_changes :: "nat \<Rightarrow> box_mon list knowledge \<Rightarrow> box_mon list knowledge \<Rightarrow> state_change list" where
  "box_changes i a b =
    (if kn_value a = kn_value b then []
     else [Pc_Box_Changed (i mod 256) (filter (\<lambda>s. s \<notin> set (box_slots a)) (box_slots b))
       (filter (\<lambda>s. s \<notin> set (box_slots b)) (box_slots a))])"

definition pc_changes :: "pc_storage \<Rightarrow> pc_storage \<Rightarrow> state_change list" where
  "pc_changes old new =
    concat (map (\<lambda>(i, a, b). box_changes i a b)
      (zip [0..<min (length (pc_boxes old)) (length (pc_boxes new))] (zip (pc_boxes old) (pc_boxes new)))) @
    when_differs (kn_value (pc_items old)) (kn_value (pc_items new)) Pc_Items_Changed"

text \<open>The keys of a map that are newly marked, in their order.\<close>

definition newly_marked :: "bool facts \<Rightarrow> bool facts \<Rightarrow> string list" where
  "newly_marked old new = filter (\<lambda>s. is_marked s new \<and> \<not> is_marked s old) (sorted_keys (map fst new))"

definition pokedex_changes :: "pokedex \<Rightarrow> pokedex \<Rightarrow> state_change list" where
  "pokedex_changes old new =
    map Dex_Seen (newly_marked (dx_seen_species old) (dx_seen_species new)) @
    map Dex_Caught (newly_marked (dx_caught_species old) (dx_caught_species new)) @
    changed_value Dex_Counts_Changed (kn_value (dx_counts old)) (kn_value (dx_counts new))"

definition fact_value :: "'v facts \<Rightarrow> string \<Rightarrow> 'v option" where
  "fact_value m k = Option.bind (map_of m k) kn_value"

definition changed_facts :: "'v facts \<Rightarrow> 'v facts \<Rightarrow> (string \<times> 'v option \<times> 'v option) list" where
  "changed_facts a b = filter (\<lambda>(k, from, to). from \<noteq> to)
    (map (\<lambda>k. (k, fact_value a k, fact_value b k)) (sorted_keys (map fst a @ map fst b)))"

definition npc_changes :: "world_belief \<Rightarrow> string \<Rightarrow> nat \<Rightarrow> npc_belief \<Rightarrow> state_change list" where
  "npc_changes old m i n =
    (let before = npc old m i;
         at = Option.bind before (kn_value \<circ> nb_pos);
         facing = Option.bind before (kn_value \<circ> nb_facing);
         present = Option.bind before (kn_value \<circ> nb_present) in
     (case (at, kn_value (nb_pos n)) of
        (None, Some to) \<Rightarrow> [Npc_Appeared m i to]
      | (Some from, Some to) \<Rightarrow> if from \<noteq> to then [Npc_Moved m i from to] else []
      | _ \<Rightarrow> []) @
     (if facing \<noteq> kn_value (nb_facing n) \<and> kn_value (nb_facing n) \<noteq> None
      then [Npc_Turned m i facing (kn_value (nb_facing n))] else []) @
     (if kn_value (nb_present n) = Some False \<and> present \<noteq> Some False then [Npc_Gone m i] else []))"

definition all_npc_changes :: "world_belief \<Rightarrow> world_belief \<Rightarrow> state_change list" where
  "all_npc_changes old new = concat (map (\<lambda>m.
    let npcs = the (map_of (wb_npcs new) m) in
    concat (map (\<lambda>i. npc_changes old m i (the (map_of npcs i))) (sorted_keys (map fst npcs))))
      (sorted_keys (map fst (wb_npcs new))))"

definition world_changes :: "world_belief \<Rightarrow> world_belief \<Rightarrow> state_change list" where
  "world_changes old new =
    map (\<lambda>(f, from, to). Flag_Changed f from to) (changed_facts (wb_flags old) (wb_flags new)) @
    map (\<lambda>(v, from, to). Var_Changed v from to) (changed_facts (wb_vars old) (wb_vars new)) @
    map (\<lambda>(m, _, _). Map_Visited_Now m)
      (filter (\<lambda>(_, _, to). to = Some True) (changed_facts (wb_visited old) (wb_visited new))) @
    changed_value Respawn_Changed (kn_value (wb_respawn old)) (kn_value (wb_respawn new)) @
    changed_value Escape_Changed (kn_value (wb_escape old)) (kn_value (wb_escape new)) @
    all_npc_changes old new"

section \<open>The screen\<close>

definition find_index :: "('a \<Rightarrow> bool) \<Rightarrow> 'a list \<Rightarrow> nat option" where
  "find_index P xs = find (\<lambda>i. P (xs ! i)) [0..<length xs]"

definition sprite_match :: "visible_npc list \<Rightarrow> visible_npc \<Rightarrow> nat option" where
  "sprite_match left n =
    (case find_index (\<lambda>o'. same_npc o' n) left of
       Some i \<Rightarrow> Some i
     | None \<Rightarrow> find_index (\<lambda>o'. vn_local_id o' = None \<and> vn_local_id n = None \<and> near_npc o' n) left)"

text \<open>Each sprite of the new view is paired with one of the old: what is left over left, what found no pair
  arrived.\<close>

fun pair_sprites :: "visible_npc list \<Rightarrow> visible_npc list \<Rightarrow> state_change list \<times> visible_npc list \<times> visible_npc list" where
  "pair_sprites left [] = ([], left, [])"
| "pair_sprites left (n # ns) =
    (case sprite_match left n of
       Some i \<Rightarrow>
         (case pair_sprites (drop_nth i left) ns of (moves, rest, arrived) \<Rightarrow>
           (when_differs (left ! i) n (Sprite_Moved (left ! i) n) @ moves, rest, arrived))
     | None \<Rightarrow> (case pair_sprites left ns of (moves, rest, arrived) \<Rightarrow> (moves, rest, n # arrived)))"

definition sprite_changes :: "visible_npc list \<Rightarrow> visible_npc list \<Rightarrow> state_change list" where
  "sprite_changes a b =
    (case pair_sprites a b of (moves, left, arrived) \<Rightarrow> moves @ map Sprite_Left left @ map Sprite_Appeared arrived)"

definition opponent_changes :: "'shiny opponent_view option \<Rightarrow> 'shiny opponent_view option \<Rightarrow> state_change list" where
  "opponent_changes a b =
    (case (a, b) of
       (None, Some o') \<Rightarrow> [Opponent_Appeared (ov_species o') (ov_level o')]
     | (Some p, Some o') \<Rightarrow>
         if ov_species p \<noteq> ov_species o' \<or> ov_level p \<noteq> ov_level o'
         then [Opponent_Appeared (ov_species o') (ov_level o')] else []
     | (Some _, None) \<Rightarrow> [Opponent_Gone]
     | (None, None) \<Rightarrow> []) @
    (let ha = Option.bind a ov_hp; hb = Option.bind b ov_hp in
     if b \<noteq> None \<and> ha \<noteq> hb then [Opponent_Hp_Changed ha hb] else [])"

definition view_changes :: "'shiny view_state \<Rightarrow> 'shiny view_state \<Rightarrow> state_change list" where
  "view_changes a b =
    when_differs (vs_text a) (vs_text b) (case vs_text b of Some ls \<Rightarrow> Text_Shown ls | None \<Rightarrow> Text_Cleared) @
    when_differs (vs_menu a) (vs_menu b)
      (case vs_menu b of Some m \<Rightarrow> Menu_Shown (mv_rows m) (mv_cursor m) | None \<Rightarrow> Menu_Closed) @
    opponent_changes (vs_opponent a) (vs_opponent b) @
    sprite_changes (vs_npcs a) (vs_npcs b) @
    (case vs_map_popup b of
       None \<Rightarrow> []
     | Some name \<Rightarrow> if vs_map_popup a \<noteq> Some name then [Map_Name_Shown name] else [])"

section \<open>All changes\<close>

definition diff_states :: "'shiny state \<Rightarrow> 'shiny state \<Rightarrow> state_change list" where
  "diff_states old new =
    (if old = new then []
     else
       changed_value Screen_Change (kn_value (st_screen old)) (kn_value (st_screen new)) @
       pose_changes (pl_pose (st_player old)) (pl_pose (st_player new)) @
       candidate_changes (st_player old) (st_player new) @
       battle_changes (st_in_battle old) (st_in_battle new) @
       progression_changes (st_progression old) (st_progression new) @
       party_changes (st_party old) (st_party new) @
       bag_changes (st_bag old) (st_bag new) @
       changed_value Money_Change (kn_value (st_money old)) (kn_value (st_money new)) @
       pc_changes (st_pc old) (st_pc new) @
       pokedex_changes (st_pokedex old) (st_pokedex new) @
       world_changes (st_world old) (st_world new) @
       view_changes (st_view old) (st_view new))"

section \<open>Which part of the state a notice is about\<close>

definition area :: "state_change \<Rightarrow> nat" where
  "area c = (case c of
     Flag_Changed _ _ _ \<Rightarrow> 1 | Var_Changed _ _ _ \<Rightarrow> 1 | Map_Visited_Now _ \<Rightarrow> 1 | Respawn_Changed _ _ \<Rightarrow> 1
   | Escape_Changed _ _ \<Rightarrow> 1 | Npc_Appeared _ _ _ \<Rightarrow> 1 | Npc_Moved _ _ _ _ \<Rightarrow> 1 | Npc_Turned _ _ _ _ \<Rightarrow> 1
   | Npc_Gone _ _ \<Rightarrow> 1
   | Pocket_Known _ _ \<Rightarrow> 2 | Item_Count_Changed _ _ _ _ \<Rightarrow> 2
   | Money_Change _ _ \<Rightarrow> 3
   | Party_Size_Changed _ _ \<Rightarrow> 4 | Mon_Added _ _ \<Rightarrow> 4 | Mon_Removed _ _ \<Rightarrow> 4 | Species_Changed _ _ _ \<Rightarrow> 4
   | Nickname_Changed _ _ _ \<Rightarrow> 4 | Level_Changed _ _ _ \<Rightarrow> 4 | Hp_Changed _ _ _ \<Rightarrow> 4 | Status_Changed _ _ _ \<Rightarrow> 4
   | Held_Item_Changed _ _ _ \<Rightarrow> 4 | Detail_Changed _ _ _ _ \<Rightarrow> 4 | Shiny_Changed _ _ _ \<Rightarrow> 4
   | Move_Changed _ _ _ _ \<Rightarrow> 4 | Pp_Changed _ _ _ _ _ \<Rightarrow> 4
   | Dex_Seen _ \<Rightarrow> 5 | Dex_Caught _ \<Rightarrow> 5 | Dex_Counts_Changed _ _ \<Rightarrow> 5
   | _ \<Rightarrow> 0)"

lemma in_changed_value [simp]: "c \<in> set (changed_value mk a b) \<longleftrightarrow> a \<noteq> b \<and> c = mk a b"
  by (auto simp: changed_value_def when_differs_def)

lemma in_when_differs [simp]: "c \<in> set (when_differs a b d) \<longleftrightarrow> a \<noteq> b \<and> c = d"
  by (auto simp: when_differs_def)

lemma set_sorted_keys [simp]: "set (sorted_keys ks) = set ks"
  by (simp add: sorted_keys_def)

lemma area_screen:
  "c \<in> set (pose_changes a b) \<Longrightarrow> area c = 0" "c \<in> set (candidate_changes u v) \<Longrightarrow> area c = 0"
  "c \<in> set (battle_changes x y) \<Longrightarrow> area c = 0"
  by (auto simp: pose_changes_def candidate_changes_def battle_changes_def area_def split: option.splits if_splits)

lemma area_progression: "c \<in> set (progression_changes a b) \<Longrightarrow> area c = 0"
  by (auto simp: progression_changes_def Let_def area_def split: option.splits)

lemma area_member: "c \<in> set (member_changes slot a b) \<Longrightarrow> area c = 4"
  by (auto simp: member_changes_def detail_changes_def move_changes_def area_def split: if_splits prod.splits)

lemma area_party: "c \<in> set (party_changes a b) \<Longrightarrow> area c = 4"
proof -
  have "area c = 4" if "c \<in> set (slot_changes i x y)" for i x y
    using that area_member by (auto simp: slot_changes_def Let_def area_def split: option.splits)
  moreover assume "c \<in> set (party_changes a b)"
  ultimately show ?thesis by (auto simp: party_changes_def Let_def area_def)
qed

lemma area_bag: "c \<in> set (bag_changes a b) \<Longrightarrow> area c = 2"
  by (auto simp: bag_changes_def pocket_changes_def Let_def area_def split: if_splits)

lemma area_pc: "c \<in> set (pc_changes a b) \<Longrightarrow> area c = 0"
  by (auto simp: pc_changes_def box_changes_def area_def split: if_splits)

lemma area_pokedex: "c \<in> set (pokedex_changes a b) \<Longrightarrow> area c = 5"
  by (auto simp: pokedex_changes_def area_def)

lemma area_npc: "c \<in> set (all_npc_changes a b) \<Longrightarrow> area c = 1 \<and> \<not> (\<exists>f u v. c = Flag_Changed f u v) \<and> \<not> (\<exists>x u v. c = Var_Changed x u v)"
  by (auto simp: all_npc_changes_def npc_changes_def Let_def area_def split: option.splits if_splits)

lemma area_world: "c \<in> set (world_changes a b) \<Longrightarrow> area c = 1"
  using area_npc by (auto simp: world_changes_def area_def)

lemma area_sprites: "c \<in> set (fst (pair_sprites left ns)) \<Longrightarrow> area c = 0"
  by (induction left ns rule: pair_sprites.induct) (auto simp: area_def split: option.splits prod.splits)

lemma area_sprite: "area (Sprite_Left n) = 0" "area (Sprite_Appeared n) = 0" "area (Money_Change m m') = 3"
  "area (Screen_Change s s') = 0"
  by (simp_all add: area_def)

lemma area_view: "c \<in> set (view_changes a b) \<Longrightarrow> area c = 0"
proof -
  have "area c = 0" if "c \<in> set (sprite_changes x y)" for x y
    using that area_sprites [of c x y]
    by (cases "pair_sprites x y") (auto simp: sprite_changes_def area_sprite)
  moreover have "area c = 0" if "c \<in> set (opponent_changes x y)" for x y :: "'a opponent_view option"
    using that by (auto simp: opponent_changes_def Let_def area_def split: option.splits if_splits)
  moreover assume "c \<in> set (view_changes a b)"
  ultimately show ?thesis by (auto simp: view_changes_def area_def split: option.splits if_splits)
qed

lemma changed_facts_iff:
  "(k, from, to) \<in> set (changed_facts a b) \<longleftrightarrow> from \<noteq> to \<and> from = fact_value a k \<and> to = fact_value b k"
proof -
  have "k \<in> fst ` set a \<union> fst ` set b" if "fact_value a k \<noteq> fact_value b k"
  proof (rule ccontr)
    assume "k \<notin> fst ` set a \<union> fst ` set b"
    then have "map_of a k = None" "map_of b k = None" by (simp_all add: map_of_eq_None_iff)
    then show False using that by (simp add: fact_value_def)
  qed
  then show ?thesis by (auto simp: changed_facts_def)
qed

lemmas areas = area_screen area_progression area_party area_bag area_pc area_pokedex area_world area_view

text \<open>A notice of one area stands in the diff just when it stands in the part of that area.\<close>

lemma diff_world: "area c = 1 \<Longrightarrow> c \<in> set (diff_states old new) \<longleftrightarrow> old \<noteq> new \<and> c \<in> set (world_changes (st_world old) (st_world new))"
  unfolding diff_states_def by (auto simp: area_sprite dest: areas)

lemma diff_bag: "area c = 2 \<Longrightarrow> c \<in> set (diff_states old new) \<longleftrightarrow> old \<noteq> new \<and> c \<in> set (bag_changes (st_bag old) (st_bag new))"
  unfolding diff_states_def by (auto simp: area_sprite dest: areas)

lemma diff_party: "area c = 4 \<Longrightarrow> c \<in> set (diff_states old new) \<longleftrightarrow> old \<noteq> new \<and> c \<in> set (party_changes (st_party old) (st_party new))"
  unfolding diff_states_def by (auto simp: area_sprite dest: areas)

lemma diff_money: "Money_Change a b \<in> set (diff_states old new) \<longleftrightarrow>
    a \<noteq> b \<and> a = kn_value (st_money old) \<and> b = kn_value (st_money new)"
  unfolding diff_states_def by (auto simp: area_sprite dest: areas)

lemma flag_notice: "Flag_Changed f a b \<in> set (diff_states old new) \<longleftrightarrow>
    a \<noteq> b \<and> a = fact_value (wb_flags (st_world old)) f \<and> b = fact_value (wb_flags (st_world new)) f"
proof -
  have "Flag_Changed f a b \<in> set (world_changes u v) \<longleftrightarrow> (f, a, b) \<in> set (changed_facts (wb_flags u) (wb_flags v))" for u v
    using area_npc [of "Flag_Changed f a b"] by (force simp: world_changes_def)
  then show ?thesis using diff_world [of "Flag_Changed f a b" old new] by (auto simp: area_def changed_facts_iff)
qed

lemma var_notice: "Var_Changed v a b \<in> set (diff_states old new) \<longleftrightarrow>
    a \<noteq> b \<and> a = fact_value (wb_vars (st_world old)) v \<and> b = fact_value (wb_vars (st_world new)) v"
proof -
  have "Var_Changed v a b \<in> set (world_changes x y) \<longleftrightarrow> (v, a, b) \<in> set (changed_facts (wb_vars x) (wb_vars y))" for x y
    using area_npc [of "Var_Changed v a b"] by (force simp: world_changes_def)
  then show ?thesis using diff_world [of "Var_Changed v a b" old new] by (auto simp: area_def changed_facts_iff)
qed

text \<open>The count a bag shows of an item in a pocket.\<close>

definition pocket_count :: "bag \<Rightarrow> pocket \<Rightarrow> string \<Rightarrow> nat option" where
  "pocket_count b p i = map_of (item_counts (Option.bind (map_of b p) kn_value)) i"

lemma item_notice: "Item_Count_Changed p i a b \<in> set (diff_states old new) \<longleftrightarrow>
    a \<noteq> b \<and> a = pocket_count (st_bag old) p i \<and> b = pocket_count (st_bag new) p i"
proof -
  have P: "Item_Count_Changed p i a b \<in> set (pocket_changes u v q) \<longleftrightarrow>
      q = p \<and> a \<noteq> b \<and> a = pocket_count u p i \<and> b = pocket_count v p i" for u v q
  proof -
    let ?ca = "item_counts (Option.bind (map_of u p) kn_value)" and ?cb = "item_counts (Option.bind (map_of v p) kn_value)"
    have "i \<in> fst ` set ?ca \<union> fst ` set ?cb" if "map_of ?ca i \<noteq> map_of ?cb i"
      using that by (metis UnCI map_of_eq_None_iff)
    then show ?thesis unfolding pocket_changes_def pocket_count_def Let_def by (force simp del: image_Un)
  qed
  have "p \<in> set all_pockets" by (cases p) (simp_all add: all_pockets_def)
  then show ?thesis using diff_bag [of "Item_Count_Changed p i a b" old new]
    by (auto simp: area_def bag_changes_def P)
qed

text \<open>C23: Flags, variables, item counts and money are told exactly: the diff has a notice of a value if and only if
  that value differs, and the notice holds the value before and the value after.\<close>

theorem changes_exact:
  "(Flag_Changed f x y \<in> set (diff_states old new) \<longleftrightarrow>
      x \<noteq> y \<and> x = fact_value (wb_flags (st_world old)) f \<and> y = fact_value (wb_flags (st_world new)) f) \<and>
   (Var_Changed f a b \<in> set (diff_states old new) \<longleftrightarrow>
      a \<noteq> b \<and> a = fact_value (wb_vars (st_world old)) f \<and> b = fact_value (wb_vars (st_world new)) f) \<and>
   (Item_Count_Changed p i a b \<in> set (diff_states old new) \<longleftrightarrow>
      a \<noteq> b \<and> a = pocket_count (st_bag old) p i \<and> b = pocket_count (st_bag new) p i) \<and>
   (Money_Change a b \<in> set (diff_states old new) \<longleftrightarrow>
      a \<noteq> b \<and> a = kn_value (st_money old) \<and> b = kn_value (st_money new))"
  by (intro conjI flag_notice var_notice item_notice diff_money)

end
