(* ===== verification/Web_Control.thy ===== *)
theory Web_Control
  imports Controller
begin

text \<open>
  Who holds the controller (crates/telemetry/src/control.rs): the bot, one browser on a short lease, or
  nobody. Everything happens under one lock, so a run is a sequence of steps; the controller behind the
  lock and the file that remembers a stop are an environment with three operations that may fail. The
  request is the decoded JSON object, the clock is read once per step.
\<close>

definition LEASE :: nanos where "LEASE = millis 2000"
definition HOLD_TIME :: nanos where "HOLD_TIME = millis 180"

text \<open>What lies behind the lock: \<open>execute\<close> and \<open>power_cycle\<close> of the controller, and writing (\<open>True\<close>) or
  removing (\<open>False\<close>) the file of \<open>persist\<close>.\<close>

record 'e environment =
  en_execute :: "controller_command \<Rightarrow> 'e \<Rightarrow> (error + unit) \<times> 'e"
  en_power_cycle :: "'e \<Rightarrow> (error + bool) \<times> 'e"
  en_persist :: "bool \<Rightarrow> 'e \<Rightarrow> (string + unit) \<times> 'e"
  en_describe :: "error \<Rightarrow> string"

text \<open>\<open>State\<close> with the atomic flag beside it; \<open>ct_shutdown\<close> is the value of the flag to raise, if one was
  given, \<open>ct_state_file\<close> whether a file was.\<close>

record 'e control =
  ct_env :: 'e
  ct_bot :: bool
  ct_stop :: bool
  ct_resume :: bool
  ct_owner :: "string option"
  ct_renewed :: nanos
  ct_sequence :: nat
  ct_shutdown :: "bool option"
  ct_state_file :: bool

definition new_control :: "'e \<Rightarrow> bool \<Rightarrow> nanos \<Rightarrow> 'e control" where
  "new_control e with_bot now =
    \<lparr>ct_env = e, ct_bot = with_bot, ct_stop = (\<not> with_bot), ct_resume = False, ct_owner = None, ct_renewed = now,
     ct_sequence = 0, ct_shutdown = None, ct_state_file = False\<rparr>"

text \<open>The file is there from an earlier run: the bot stays stopped.\<close>

definition persist_stopped_state :: "bool \<Rightarrow> 'e control \<Rightarrow> 'e control" where
  "persist_stopped_state file_exists s =
    (if file_exists then s\<lparr>ct_bot := False, ct_stop := True\<rparr> else s)\<lparr>ct_state_file := True\<rparr>"

definition set_shutdown :: "bool \<Rightarrow> 'e control \<Rightarrow> 'e control" where
  "set_shutdown flag s = s\<lparr>ct_shutdown := Some flag\<rparr>"

definition bot_enabled :: "'e control \<Rightarrow> bool" where
  "bot_enabled s \<longleftrightarrow> \<not> ct_stop s"

definition allow_resume :: "bool \<Rightarrow> 'e control \<Rightarrow> 'e control" where
  "allow_resume allow s = s\<lparr>ct_resume := allow\<rparr>"

section \<open>Requests\<close>

record request =
  rq_action :: "string option"
  rq_owner :: "string option"
  rq_sequence :: "nat option"
  rq_buttons :: "string + button_set"

text \<open>An operation either fails with a message or goes on; what it changed before it failed stays.\<close>

type_synonym 'e outcome = "(string + unit) \<times> 'e control"

fun and_then :: "'e outcome \<Rightarrow> ('e control \<Rightarrow> 'e outcome) \<Rightarrow> 'e outcome" where
  "and_then (Inl e, s) f = (Inl e, s)"
| "and_then (Inr u, s) f = f s"

definition command_controller :: "'e environment \<Rightarrow> controller_command \<Rightarrow> 'e control \<Rightarrow> 'e outcome" where
  "command_controller env c s =
    (case en_execute env c (ct_env s) of
       (Inl err, e) \<Rightarrow> (Inl (en_describe env err), s\<lparr>ct_env := e\<rparr>)
     | (Inr _, e) \<Rightarrow> (Inr (), s\<lparr>ct_env := e\<rparr>))"

definition release_all :: "'e environment \<Rightarrow> 'e control \<Rightarrow> 'e outcome" where
  "release_all env = command_controller env Neutral"

definition persist :: "'e environment \<Rightarrow> bool \<Rightarrow> 'e control \<Rightarrow> 'e outcome" where
  "persist env stopped s =
    (if ct_state_file s then
       (case en_persist env stopped (ct_env s) of (r, e) \<Rightarrow> (r, s\<lparr>ct_env := e\<rparr>))
     else (Inr (), s))"

definition expire :: "'e environment \<Rightarrow> nanos \<Rightarrow> 'e control \<Rightarrow> 'e control" where
  "expire env now s =
    (if ct_owner s \<noteq> None \<and> LEASE \<le> now - ct_renewed s
     then (snd (release_all env s))\<lparr>ct_owner := None\<rparr> else s)"

definition disable_bot :: "'e control \<Rightarrow> 'e control" where
  "disable_bot s = s\<lparr>ct_bot := False, ct_stop := True\<rparr>"

definition fail :: "string \<Rightarrow> 'e control \<Rightarrow> 'e outcome" where
  "fail message s = (Inl message, s)"

definition done_with :: "'e control \<Rightarrow> 'e outcome" where
  "done_with s = (Inr (), s)"

definition take_control :: "'e environment \<Rightarrow> nanos \<Rightarrow> string \<Rightarrow> bool \<Rightarrow> 'e control \<Rightarrow> 'e outcome" where
  "take_control env now token valid s =
    (if \<not> valid then fail ''owner token is required'' s
     else if ct_owner s \<noteq> None \<and> ct_owner s \<noteq> Some token then fail ''Another browser has control'' s
     else and_then (release_all env (disable_bot s)) (\<lambda>s.
       and_then (persist env True s) (\<lambda>s.
         done_with (s\<lparr>ct_owner := Some token, ct_sequence := 0, ct_renewed := now\<rparr>))))"

definition not_owner :: string where
  "not_owner = ''Take control first; your control lease may have expired''"

definition manual_input :: "'e environment \<Rightarrow> nanos \<Rightarrow> request \<Rightarrow> 'e control \<Rightarrow> 'e outcome" where
  "manual_input env now r s =
    (case rq_sequence r of
       None \<Rightarrow> fail ''sequence is required'' s
     | Some seq \<Rightarrow>
         if seq \<le> ct_sequence s then fail ''Out-of-order input'' s
         else (case rq_buttons r of
             Inl e \<Rightarrow> fail e s
           | Inr buttons \<Rightarrow>
               and_then (release_all env s) (\<lambda>s.
                 and_then (if bs_is_empty buttons then done_with s
                     else command_controller env (Hold buttons HOLD_TIME) s) (\<lambda>s.
                   done_with (s\<lparr>ct_sequence := seq, ct_renewed := now\<rparr>)))))"

definition release_control :: "'e environment \<Rightarrow> nanos \<Rightarrow> 'e control \<Rightarrow> 'e outcome" where
  "release_control env now s =
    and_then (release_all env s) (\<lambda>s. done_with (s\<lparr>ct_owner := None, ct_renewed := now\<rparr>))"

definition shut_down :: "'e environment \<Rightarrow> 'e control \<Rightarrow> 'e outcome" where
  "shut_down env s =
    (case ct_shutdown s of
       None \<Rightarrow> fail ''Only emulator instances can be shut down'' s
     | Some _ \<Rightarrow>
         and_then (release_all env ((disable_bot s)\<lparr>ct_owner := None\<rparr>)) (\<lambda>s.
           done_with (s\<lparr>ct_shutdown := Some True\<rparr>)))"

definition stop_bot :: "'e environment \<Rightarrow> 'e control \<Rightarrow> 'e outcome" where
  "stop_bot env s =
    and_then (release_all env ((disable_bot s)\<lparr>ct_owner := None\<rparr>)) (persist env True)"

definition resume_bot :: "'e environment \<Rightarrow> string \<Rightarrow> 'e control \<Rightarrow> 'e outcome" where
  "resume_bot env token s =
    (if \<not> ct_resume s then fail ''This bot cannot resume yet'' s
     else if ct_owner s \<noteq> None \<and> ct_owner s \<noteq> Some token then fail ''Another browser has control'' s
     else and_then (release_all env s) (\<lambda>s.
       and_then (persist env False (s\<lparr>ct_owner := None\<rparr>)) (\<lambda>s.
         done_with (s\<lparr>ct_resume := False, ct_bot := True, ct_stop := False\<rparr>))))"

definition answer_request :: "'e environment \<Rightarrow> nanos \<Rightarrow> request \<Rightarrow> 'e control \<Rightarrow> 'e outcome" where
  "answer_request env now r s =
    (case rq_action r of
       None \<Rightarrow> fail ''action is required'' s
     | Some action \<Rightarrow>
         let token = (case rq_owner r of None \<Rightarrow> [] | Some t \<Rightarrow> t);
             valid = (token \<noteq> [] \<and> length token \<le> 100);
             mine = (valid \<and> ct_owner s = Some token) in
         if action = ''take'' then take_control env now token valid s
         else if action = ''input'' then (if mine then manual_input env now r s else fail not_owner s)
         else if action = ''release'' then (if mine then release_control env now s else fail not_owner s)
         else if action = ''heartbeat'' then
           (if mine then done_with (s\<lparr>ct_renewed := now\<rparr>) else fail not_owner s)
         else if action = ''shutdown'' then shut_down env s
         else if action = ''stop'' then stop_bot env s
         else if action = ''resume'' then resume_bot env token s
         else fail ''Unknown control action'' s)"

text \<open>What a browser is told.\<close>

record control_status =
  cs_mode :: string
  cs_can_resume :: bool
  cs_can_shutdown :: bool
  cs_lease :: nanos
  cs_bot_enabled :: bool

definition status_of :: "'e control \<Rightarrow> control_status" where
  "status_of s =
    \<lparr>cs_mode = (if ct_bot s then ''bot'' else if ct_owner s \<noteq> None then ''manual'' else ''stopped''),
     cs_can_resume = ct_resume s, cs_can_shutdown = (ct_shutdown s \<noteq> None), cs_lease = LEASE,
     cs_bot_enabled = ct_bot s\<rparr>"

definition status :: "'e environment \<Rightarrow> nanos \<Rightarrow> 'e control \<Rightarrow> control_status \<times> 'e control" where
  "status env now s = (let s = expire env now s in (status_of s, s))"

definition request_control :: "'e environment \<Rightarrow> nanos \<Rightarrow> request \<Rightarrow> 'e control
    \<Rightarrow> (string + control_status) \<times> 'e control" where
  "request_control env now r s =
    (case answer_request env now r (expire env now s) of
       (Inl e, s) \<Rightarrow> (Inl e, s)
     | (Inr _, s) \<Rightarrow> (case status env now s of (st, s) \<Rightarrow> (Inr st, s)))"

section \<open>The bot's side\<close>

definition bot_stopped :: error where
  "bot_stopped = Device ''bot stopped by web control''"

definition bot_execute :: "'e environment \<Rightarrow> controller_command \<Rightarrow> 'e control \<Rightarrow> (error + unit) \<times> 'e control" where
  "bot_execute env c s =
    (if \<not> ct_bot s then (Inl bot_stopped, s)
     else case en_execute env c (ct_env s) of (r, e) \<Rightarrow> (r, s\<lparr>ct_env := e\<rparr>))"

definition bot_power_cycle :: "'e environment \<Rightarrow> 'e control \<Rightarrow> (error + bool) \<times> 'e control" where
  "bot_power_cycle env s =
    (if \<not> ct_bot s then (Inl bot_stopped, s)
     else case en_power_cycle env (ct_env s) of (r, e) \<Rightarrow> (r, s\<lparr>ct_env := e\<rparr>))"

section \<open>Runs\<close>

datatype control_event =
  Web nanos request
| Look nanos
| Bot_Command controller_command
| Bot_Power_Cycle
| Allow_Resume bool

fun control_step :: "'e environment \<Rightarrow> control_event \<Rightarrow> 'e control \<Rightarrow> 'e control" where
  "control_step env (Web now r) s = snd (request_control env now r s)"
| "control_step env (Look now) s = snd (status env now s)"
| "control_step env (Bot_Command c) s = snd (bot_execute env c s)"
| "control_step env Bot_Power_Cycle s = snd (bot_power_cycle env s)"
| "control_step env (Allow_Resume b) s = allow_resume b s"

fun control_run :: "'e environment \<Rightarrow> control_event list \<Rightarrow> 'e control \<Rightarrow> 'e control" where
  "control_run env [] s = s"
| "control_run env (x # xs) s = control_run env xs (control_step env x s)"

fun is_bot_step :: "control_event \<Rightarrow> bool" where
  "is_bot_step (Bot_Command c) = True"
| "is_bot_step Bot_Power_Cycle = True"
| "is_bot_step x = False"

fun asks_resume :: "control_event \<Rightarrow> bool" where
  "asks_resume (Web now r) = (rq_action r = Some ''resume'')"
| "asks_resume x = False"

section \<open>One holder at a time\<close>

text \<open>The flag the bot's threads watch mirrors \<open>ct_bot\<close>, and no browser owns what the bot holds.\<close>

definition one_holder :: "'e control \<Rightarrow> bool" where
  "one_holder s \<longleftrightarrow> ct_stop s = (\<not> ct_bot s) \<and> (ct_bot s \<longrightarrow> ct_owner s = None)"

lemma snd_and_then [simp]:
  "snd (and_then x f) = (case fst x of Inl e \<Rightarrow> snd x | Inr _ \<Rightarrow> snd (f (snd x)))"
  by (cases x; cases "fst x") auto

text \<open>Commands and the file touch the environment only.\<close>

lemma command_keeps [simp]:
  "ct_bot (snd (command_controller env c s)) = ct_bot s" "ct_owner (snd (command_controller env c s)) = ct_owner s"
  "ct_stop (snd (command_controller env c s)) = ct_stop s"
  by (simp_all add: command_controller_def split: prod.split sum.split unit.split)

lemma release_keeps [simp]:
  "ct_bot (snd (release_all env s)) = ct_bot s" "ct_owner (snd (release_all env s)) = ct_owner s"
  "ct_stop (snd (release_all env s)) = ct_stop s"
  by (simp_all add: release_all_def)

lemma persist_keeps [simp]:
  "ct_bot (snd (persist env b s)) = ct_bot s" "ct_owner (snd (persist env b s)) = ct_owner s"
  "ct_stop (snd (persist env b s)) = ct_stop s"
  by (simp_all add: persist_def split: prod.split)

lemmas control_parts = take_control_def manual_input_def release_control_def shut_down_def stop_bot_def
  resume_bot_def fail_def done_with_def disable_bot_def

text \<open>What each request leaves of the bot: only a resume lets it play, and then nobody owns the controller.\<close>

lemma request_parts:
  "one_holder s \<Longrightarrow> one_holder (snd (take_control env now token valid s))"
  "one_holder s \<Longrightarrow> one_holder (snd (manual_input env now r s))"
  "one_holder s \<Longrightarrow> one_holder (snd (release_control env now s))"
  "one_holder s \<Longrightarrow> one_holder (snd (shut_down env s))"
  "one_holder s \<Longrightarrow> one_holder (snd (stop_bot env s))"
  "one_holder s \<Longrightarrow> one_holder (snd (resume_bot env token s))"
  by (auto simp add: control_parts one_holder_def split: sum.split option.split)

lemma bot_parts:
  "\<not> ct_bot s \<Longrightarrow> \<not> ct_bot (snd (take_control env now token valid s))"
  "\<not> ct_bot s \<Longrightarrow> \<not> ct_bot (snd (manual_input env now r s))"
  "\<not> ct_bot s \<Longrightarrow> \<not> ct_bot (snd (release_control env now s))"
  "\<not> ct_bot s \<Longrightarrow> \<not> ct_bot (snd (shut_down env s))"
  "\<not> ct_bot s \<Longrightarrow> \<not> ct_bot (snd (stop_bot env s))"
  by (simp_all add: control_parts split: sum.split option.split)

lemma expire_keeps:
  "ct_bot (expire env now s) = ct_bot s" "ct_stop (expire env now s) = ct_stop s"
  "one_holder s \<Longrightarrow> one_holder (expire env now s)"
  by (simp_all add: expire_def one_holder_def)

lemma answer_holder: "one_holder s \<Longrightarrow> one_holder (snd (answer_request env now r s))"
  by (simp add: answer_request_def Let_def request_parts fail_def done_with_def split: option.split)
    (auto simp: one_holder_def)

lemma answer_bot:
  "\<not> ct_bot s \<Longrightarrow> rq_action r \<noteq> Some ''resume'' \<Longrightarrow> \<not> ct_bot (snd (answer_request env now r s))"
  by (simp add: answer_request_def Let_def bot_parts fail_def done_with_def split: option.split)

lemma request_state:
  "snd (request_control env now r s) = snd (answer_request env now r (expire env now s)) \<or>
   snd (request_control env now r s) = expire env now (snd (answer_request env now r (expire env now s)))"
proof (cases "answer_request env now r (expire env now s)")
  case (Pair x s1)
  then show ?thesis by (cases x) (simp_all add: request_control_def status_def Let_def split: unit.split)
qed

lemma step_holder: "one_holder s \<Longrightarrow> one_holder (control_step env x s)"
proof (cases x)
  case (Web now r)
  assume "one_holder s"
  then have "one_holder (snd (answer_request env now r (expire env now s)))"
    by (intro answer_holder expire_keeps)
  then show ?thesis
    using request_state [of env now r s] expire_keeps(3) unfolding Web control_step.simps by metis
next
  case (Look now)
  assume "one_holder s"
  then show ?thesis unfolding Look by (simp add: status_def Let_def expire_keeps)
qed (auto simp: bot_execute_def bot_power_cycle_def allow_resume_def one_holder_def split: prod.split)

lemma run_holder: "one_holder s \<Longrightarrow> one_holder (control_run env steps s)"
  by (induction steps arbitrary: s) (simp_all add: step_holder)


section \<open>A stopped bot does nothing\<close>

lemma stopped_step:
  assumes "\<not> ct_bot s" "\<not> asks_resume x"
  shows "\<not> ct_bot (control_step env x s)"
proof (cases x)
  case (Web now r)
  then have "\<not> ct_bot (snd (answer_request env now r (expire env now s)))"
    using assms by (intro answer_bot) (simp_all add: expire_keeps)
  then show ?thesis
    using request_state [of env now r s] expire_keeps(1) unfolding Web control_step.simps by metis
qed (use assms in \<open>auto simp: status_def Let_def expire_keeps bot_execute_def bot_power_cycle_def allow_resume_def\<close>)

lemma stopped_bot_idle: "\<not> ct_bot s \<Longrightarrow> is_bot_step x \<Longrightarrow> control_step env x s = s"
  by (cases x) (simp_all add: bot_execute_def bot_power_cycle_def)

text \<open>Once the bot is stopped or a browser has taken the controller, nothing the bot does reaches the
  device until a resume is asked: the run is the same as without the bot's steps.\<close>

lemma stopped_bot_is_shut_out:
  assumes "\<not> ct_bot s" "\<not> list_ex asks_resume steps"
  shows "control_run env steps s = control_run env (filter (\<lambda>x. \<not> is_bot_step x) steps) s \<and>
    \<not> ct_bot (control_run env steps s)"
  using assms
proof (induction steps arbitrary: s)
  case (Cons x xs)
  have "\<not> ct_bot (control_step env x s)" using stopped_step [of s x env] Cons.prems by simp
  then have ih: "control_run env xs (control_step env x s) =
      control_run env (filter (\<lambda>x. \<not> is_bot_step x) xs) (control_step env x s) \<and>
      \<not> ct_bot (control_run env xs (control_step env x s))"
    by (rule Cons.IH) (use Cons.prems in simp)
  show ?case
  proof (cases "is_bot_step x")
    case True
    then have "control_step env x s = s" by (rule stopped_bot_idle [OF Cons.prems(1)])
    then show ?thesis using conjunct1 [OF ih] conjunct2 [OF ih] True by (metis filter.simps(2) control_run.simps(2))
  next
    case False
    then have "filter (\<lambda>x. \<not> is_bot_step x) (x # xs) = x # filter (\<lambda>x. \<not> is_bot_step x) xs" by simp
    then show ?thesis using ih unfolding control_run.simps(2) by (metis control_run.simps(2))
  qed
qed simp

section \<open>A browser's lease\<close>

text \<open>While a browser's lease runs, every request of another browser but a stop or a shutdown is refused
  and changes nothing, the device included.\<close>

lemma lease_is_exclusive:
  assumes "ct_owner s = Some token" "now - ct_renewed s < LEASE"
    and "rq_owner r \<noteq> Some token" "token \<noteq> []" "rq_action r \<notin> {Some ''stop'', Some ''shutdown''}"
  shows "\<exists>e. request_control env now r s = (Inl e, s)"
proof -
  have "expire env now s = s" using assms(2) by (simp add: expire_def)
  moreover have "\<exists>e. answer_request env now r s = (Inl e, s)"
    using assms unfolding answer_request_def Let_def
    by (auto simp: take_control_def resume_bot_def fail_def split: option.split)
  ultimately show ?thesis by (auto simp: request_control_def)
qed

definition demo_env :: "controller_command list environment" where
  "demo_env = \<lparr>en_execute = \<lambda>c e. (Inr (), e @ [c]), en_power_cycle = \<lambda>e. (Inr False, e),
     en_persist = \<lambda>b e. (Inr (), e), en_describe = \<lambda>e. []\<rparr>"

definition demo_request :: "string \<Rightarrow> string \<Rightarrow> request" where
  "demo_request action token = \<lparr>rq_action = Some action, rq_owner = Some token, rq_sequence = Some 1,
     rq_buttons = Inr (bs_single Button_A)\<rparr>"

lemmas web_demo_defs = demo_env_def demo_request_def request_control_def answer_request_def take_control_def
  expire_def release_all_def command_controller_def persist_def disable_bot_def done_with_def new_control_def
  status_def LEASE_def Let_def

text \<open>A browser takes the controller from the bot and presses A; what the bot sends meanwhile is lost.\<close>

end
