(* ===== verification/F64.thy ===== *)
theory F64
  imports Complex_Main Prelude
begin

text \<open>
  The double-precision numbers of the language: a rational number, an infinity or no number. A result is rounded
  to the nearest number of 53 significant bits, halves to even, with the least exponent of the subnormal numbers;
  what is too great becomes an infinity. Zero has no sign here, so dividing by zero gives the infinity of the
  dividend. The order is that of \<open>total_cmp\<close>; \<open>f_lt\<close> and \<open>f_le\<close> are the comparisons of the language, false
  where a side is no number.
\<close>

datatype f64 = Neg_Inf | Fin rat | Inf | NaN

section \<open>Rounding\<close>

fun ilog2 :: "nat \<Rightarrow> nat" where
  "ilog2 n = (if n < 2 then 0 else Suc (ilog2 (n div 2)))"

declare ilog2.simps [simp del]

definition two_to :: "int \<Rightarrow> rat" where
  "two_to e = (if 0 \<le> e then 2 ^ nat e else 1 / 2 ^ nat (- e))"

text \<open>The exponent of a positive number: the greatest power of two not above it.\<close>

definition exponent :: "rat \<Rightarrow> int" where
  "exponent x = (if 1 \<le> x then int (ilog2 (nat \<lfloor>x\<rfloor>)) else
    (let y = 1 / x in - int (Suc (ilog2 (nat (\<lceil>y\<rceil> - 1))))))"

definition ulp :: "rat \<Rightarrow> rat" where
  "ulp x = two_to (max (exponent \<bar>x\<bar> - 52) (- 1074))"

definition round_even :: "rat \<Rightarrow> int" where
  "round_even y =
    (let f = \<lfloor>y\<rfloor>; r = y - of_int f in
     if r < 1 / 2 then f else if 1 / 2 < r then f + 1 else if even f then f else f + 1)"

definition rnd :: "rat \<Rightarrow> rat" where
  "rnd x = (if x = 0 then 0 else of_int (round_even (x / ulp x)) * ulp x)"

definition to_f64 :: "rat \<Rightarrow> f64" where
  "to_f64 x = (let y = rnd x in if 2 ^ 1024 \<le> y then Inf else if y \<le> - (2 ^ 1024) then Neg_Inf else Fin y)"

section \<open>Operations\<close>

fun f_neg :: "f64 \<Rightarrow> f64" where
  "f_neg (Fin a) = Fin (- a)" | "f_neg Inf = Neg_Inf" | "f_neg Neg_Inf = Inf" | "f_neg NaN = NaN"

fun f_add :: "f64 \<Rightarrow> f64 \<Rightarrow> f64" where
  "f_add NaN b = NaN"
| "f_add a NaN = NaN"
| "f_add (Fin a) (Fin b) = to_f64 (a + b)"
| "f_add Inf Neg_Inf = NaN"
| "f_add Neg_Inf Inf = NaN"
| "f_add Inf b = Inf"
| "f_add Neg_Inf b = Neg_Inf"
| "f_add (Fin a) b = b"

definition f_sub :: "f64 \<Rightarrow> f64 \<Rightarrow> f64" where
  "f_sub a b = f_add a (f_neg b)"

text \<open>An infinity times a number: by the sign of the number.\<close>

definition scaled_inf :: "rat \<Rightarrow> f64 \<Rightarrow> f64" where
  "scaled_inf a i = (if a = 0 then NaN else if a > 0 then i else f_neg i)"

fun f_mul :: "f64 \<Rightarrow> f64 \<Rightarrow> f64" where
  "f_mul NaN b = NaN"
| "f_mul a NaN = NaN"
| "f_mul (Fin a) (Fin b) = to_f64 (a * b)"
| "f_mul (Fin a) b = scaled_inf a b"
| "f_mul a (Fin b) = scaled_inf b a"
| "f_mul a b = (if a = b then Inf else Neg_Inf)"

fun f_div :: "f64 \<Rightarrow> f64 \<Rightarrow> f64" where
  "f_div NaN b = NaN"
| "f_div a NaN = NaN"
| "f_div (Fin a) (Fin b) = (if b = 0 then scaled_inf a Inf else to_f64 (a / b))"
| "f_div (Fin a) b = Fin 0"
| "f_div a (Fin b) = (if b < 0 then f_neg a else a)"
| "f_div a b = NaN"

fun total_key :: "f64 \<Rightarrow> nat \<times> rat" where
  "total_key Neg_Inf = (0, 0)" | "total_key (Fin a) = (1, a)" | "total_key Inf = (2, 0)" | "total_key NaN = (3, 0)"

lemma total_key_inj: "total_key a = total_key b \<longleftrightarrow> a = b"
  by (cases a; cases b) simp_all

instantiation f64 :: linorder
begin

definition less_eq_f64 :: "f64 \<Rightarrow> f64 \<Rightarrow> bool" where
  "less_eq_f64 a b \<longleftrightarrow> fst (total_key a) < fst (total_key b) \<or>
    fst (total_key a) = fst (total_key b) \<and> snd (total_key a) \<le> snd (total_key b)"

definition less_f64 :: "f64 \<Rightarrow> f64 \<Rightarrow> bool" where
  "less_f64 a b \<longleftrightarrow> fst (total_key a) < fst (total_key b) \<or>
    fst (total_key a) = fst (total_key b) \<and> snd (total_key a) < snd (total_key b)"

instance
proof
  fix a b c :: f64
  show "(a < b) = (a \<le> b \<and> \<not> b \<le> a)" by (auto simp: less_eq_f64_def less_f64_def)
  show "a \<le> a" by (simp add: less_eq_f64_def)
  show "a \<le> b \<Longrightarrow> b \<le> c \<Longrightarrow> a \<le> c" by (auto simp: less_eq_f64_def)
  show "a \<le> b \<Longrightarrow> b \<le> a \<Longrightarrow> a = b"
    by (auto simp: less_eq_f64_def prod_eq_iff simp flip: total_key_inj)
  show "a \<le> b \<or> b \<le> a" by (auto simp: less_eq_f64_def)
qed

end

definition is_nan :: "f64 \<Rightarrow> bool" where "is_nan a \<longleftrightarrow> a = NaN"

definition f_lt :: "f64 \<Rightarrow> f64 \<Rightarrow> bool" where
  "f_lt a b \<longleftrightarrow> a \<noteq> NaN \<and> b \<noteq> NaN \<and> a < b"

definition f_le :: "f64 \<Rightarrow> f64 \<Rightarrow> bool" where
  "f_le a b \<longleftrightarrow> a \<noteq> NaN \<and> b \<noteq> NaN \<and> a \<le> b"

definition f_eq :: "f64 \<Rightarrow> f64 \<Rightarrow> bool" where
  "f_eq a b \<longleftrightarrow> a \<noteq> NaN \<and> a = b"

fun is_finite :: "f64 \<Rightarrow> bool" where
  "is_finite (Fin a) = True" | "is_finite Neg_Inf = False" | "is_finite Inf = False" | "is_finite NaN = False"

text \<open>\<open>f64::min\<close> and \<open>f64::max\<close> take the other side of no number.\<close>

definition f_min :: "f64 \<Rightarrow> f64 \<Rightarrow> f64" where
  "f_min a b = (if a = NaN then b else if b = NaN then a else min a b)"

definition f_max :: "f64 \<Rightarrow> f64 \<Rightarrow> f64" where
  "f_max a b = (if a = NaN then b else if b = NaN then a else max a b)"

definition f_of_int :: "int \<Rightarrow> f64" where "f_of_int n = to_f64 (of_int n)"
definition f_of_nat :: "nat \<Rightarrow> f64" where "f_of_nat n = to_f64 (of_nat n)"

text \<open>\<open>round\<close>: to the nearest integer, halves away from zero. The cast to a 32-bit integer saturates.\<close>

definition round_away :: "rat \<Rightarrow> int" where
  "round_away x = (if 0 \<le> x then \<lfloor>x + 1 / 2\<rfloor> else - \<lfloor>- x + 1 / 2\<rfloor>)"

fun f_round_i32 :: "f64 \<Rightarrow> int" where
  "f_round_i32 (Fin a) = max (- (2 ^ 31)) (min (2 ^ 31 - 1) (round_away a))"
| "f_round_i32 Inf = 2 ^ 31 - 1"
| "f_round_i32 Neg_Inf = - (2 ^ 31)"
| "f_round_i32 NaN = 0"

section \<open>Powers of two and exponents\<close>

lemma two_to_pos [simp]: "0 < two_to e"
  by (simp add: two_to_def)

lemma two_to_nonneg [simp]: "0 \<le> two_to e" "two_to e \<noteq> 0"
  using two_to_pos [of e] by linarith+

lemma two_to_Suc: "two_to (e + 1) = 2 * two_to e"
proof (cases "0 \<le> e")
  case True
  then show ?thesis by (simp add: two_to_def nat_add_distrib)
next
  case False
  then have "nat (- e) = Suc (nat (- (e + 1)))" by linarith
  then show ?thesis using False by (auto simp: two_to_def)
qed

lemma two_to_add_nat: "two_to (e + int n) = two_to e * 2 ^ n"
proof (induction n)
  case (Suc n)
  have "two_to (e + int (Suc n)) = two_to ((e + int n) + 1)" by (simp add: algebra_simps)
  then show ?case using Suc by (simp add: two_to_Suc)
qed simp

lemma two_to_mono: "a \<le> b \<Longrightarrow> two_to a \<le> two_to b"
proof -
  assume "a \<le> b"
  then obtain n where n: "b = a + int n" using zle_iff_zadd by blast
  have "two_to a * 1 \<le> two_to a * 2 ^ n" by (rule mult_left_mono) simp_all
  then show ?thesis by (simp add: n two_to_add_nat)
qed

lemma two_to_less: "two_to a < two_to b \<Longrightarrow> a < b"
  using two_to_mono [of b a] by linarith

lemma two_to_0 [simp]: "two_to 0 = 1"
  by (simp add: two_to_def)

lemma ilog2_bounds: "0 < n \<Longrightarrow> 2 ^ ilog2 n \<le> n \<and> n < 2 ^ Suc (ilog2 n)"
proof (induction n rule: ilog2.induct)
  case (1 n)
  show ?case
  proof (cases "n < 2")
    case True
    then show ?thesis using 1(2) by (simp add: ilog2.simps [of n])
  next
    case False
    then have "2 ^ ilog2 (n div 2) \<le> n div 2 \<and> n div 2 < 2 ^ Suc (ilog2 (n div 2))" using 1(1) by simp
    then show ?thesis using False unfolding ilog2.simps [of n] by (auto simp: algebra_simps)
  qed
qed

lemma exponent_bounds:
  assumes "0 < x"
  shows "two_to (exponent x) \<le> x \<and> x < two_to (exponent x + 1)"
proof (cases "1 \<le> x")
  case True
  let ?n = "nat \<lfloor>x\<rfloor>"
  have n: "0 < ?n" "int ?n = \<lfloor>x\<rfloor>" using True by (simp_all add: le_floor_iff)
  have "2 ^ ilog2 ?n \<le> ?n" "Suc ?n \<le> 2 ^ Suc (ilog2 ?n)" using ilog2_bounds [OF n(1)] by linarith+
  then have "of_nat (2 ^ ilog2 ?n) \<le> (of_nat ?n :: rat)" "(of_nat (Suc ?n) :: rat) \<le> of_nat (2 ^ Suc (ilog2 ?n))"
    unfolding of_nat_le_iff by blast+
  then have "2 ^ ilog2 ?n \<le> (of_nat ?n :: rat)" "(of_nat (Suc ?n) :: rat) \<le> 2 ^ Suc (ilog2 ?n)"
    unfolding of_nat_power of_nat_numeral by blast+
  moreover have r: "(of_nat ?n :: rat) = of_int \<lfloor>x\<rfloor>" using n(2) by (metis of_int_of_nat_eq)
  have "(of_nat ?n :: rat) \<le> x" "x < of_nat (Suc ?n)"
    unfolding of_nat_Suc r using floor_correct [of x] by linarith+
  moreover have "two_to (exponent x) = 2 ^ ilog2 ?n" "two_to (exponent x + 1) = 2 ^ Suc (ilog2 ?n)"
    using True by (simp_all add: exponent_def two_to_def nat_add_distrib del: power_Suc)
  ultimately show ?thesis by linarith
next
  case False
  define y where "y = 1 / x"
  have y: "1 < y" using False assms by (simp add: y_def)
  let ?n = "nat (\<lceil>y\<rceil> - 1)"
  have n: "0 < ?n" "int ?n = \<lceil>y\<rceil> - 1" using y by (simp_all add: less_ceiling_iff)
  have "2 ^ ilog2 ?n \<le> ?n" "Suc ?n \<le> 2 ^ Suc (ilog2 ?n)" using ilog2_bounds [OF n(1)] by linarith+
  then have "of_nat (2 ^ ilog2 ?n) \<le> (of_nat ?n :: rat)" "(of_nat (Suc ?n) :: rat) \<le> of_nat (2 ^ Suc (ilog2 ?n))"
    unfolding of_nat_le_iff by blast+
  then have "2 ^ ilog2 ?n \<le> (of_nat ?n :: rat)" "(of_nat (Suc ?n) :: rat) \<le> 2 ^ Suc (ilog2 ?n)"
    unfolding of_nat_power of_nat_numeral by blast+
  moreover have r: "(of_nat ?n :: rat) = of_int \<lceil>y\<rceil> - 1" using n(2) by (metis of_int_of_nat_eq of_int_diff of_int_1)
  have "(of_nat ?n :: rat) < y" "y \<le> of_nat (Suc ?n)"
    unfolding of_nat_Suc r using ceiling_correct [of y] by linarith+
  ultimately have b: "2 ^ ilog2 ?n < y" "y \<le> 2 ^ Suc (ilog2 ?n)" by linarith+
  have e: "exponent x = - int (Suc (ilog2 ?n))" using False by (simp add: exponent_def y_def)
  have "two_to (exponent x) = 1 / 2 ^ Suc (ilog2 ?n)" "two_to (exponent x + 1) = 1 / 2 ^ ilog2 ?n"
    unfolding e by (auto simp: two_to_def nat_add_distrib simp del: power_Suc of_nat_Suc)
  moreover have "1 / 2 ^ Suc (ilog2 ?n) \<le> 1 / y" "1 / y < 1 / 2 ^ ilog2 ?n"
    using b y by (simp_all add: frac_le divide_strict_left_mono)
  ultimately show ?thesis by (simp add: y_def)
qed

lemma exponent_mono: "0 < x \<Longrightarrow> x \<le> y \<Longrightarrow> exponent x \<le> exponent y"
proof -
  assume x: "0 < x" "x \<le> y"
  then have "two_to (exponent x) < two_to (exponent y + 1)"
    using exponent_bounds [of x] exponent_bounds [of y] by linarith
  then show ?thesis using two_to_less by fastforce
qed

lemma exponent_eqI: "two_to e \<le> x \<Longrightarrow> x < two_to (e + 1) \<Longrightarrow> exponent x = e"
proof -
  assume x: "two_to e \<le> x" "x < two_to (e + 1)"
  then have "0 < x" using two_to_pos [of e] by linarith
  then have "two_to (exponent x) < two_to (e + 1)" "two_to e < two_to (exponent x + 1)"
    using exponent_bounds [of x] x by linarith+
  then show ?thesis using two_to_less [of "exponent x" "e + 1"] two_to_less [of e "exponent x + 1"] by linarith
qed

section \<open>Rounding is monotone and keeps what fits\<close>

lemma round_even_int [simp]: "round_even (of_int n) = n"
  by (simp add: round_even_def)

lemma round_even_near: "round_even y = \<lfloor>y\<rfloor> \<or> round_even y = \<lfloor>y\<rfloor> + 1"
  by (simp add: round_even_def Let_def)

lemma round_even_mono: "x \<le> y \<Longrightarrow> round_even x \<le> round_even y"
proof -
  assume xy: "x \<le> y"
  show ?thesis
  proof (cases "\<lfloor>x\<rfloor> = \<lfloor>y\<rfloor>")
    case True
    then show ?thesis using xy by (auto simp: round_even_def Let_def)
  next
    case False
    then have "\<lfloor>x\<rfloor> + 1 \<le> \<lfloor>y\<rfloor>" using floor_mono [OF xy] by linarith
    then show ?thesis using round_even_near [of x] round_even_near [of y] by linarith
  qed
qed

lemma ulp_pos [simp]: "0 < ulp x" "ulp x \<noteq> 0"
  by (simp_all add: ulp_def)

lemma ulp_nonneg [simp]: "0 \<le> ulp x"
  by (simp add: less_imp_le)

lemma rnd_0 [simp]: "rnd 0 = 0"
  by (simp add: rnd_def)

lemma rnd_nonneg: "0 \<le> x \<Longrightarrow> 0 \<le> rnd x"
proof -
  assume "0 \<le> x"
  then have "0 \<le> x / ulp x" by (rule divide_nonneg_pos) simp
  then have "round_even 0 \<le> round_even (x / ulp x)" by (rule round_even_mono)
  moreover have "round_even 0 = 0" using round_even_int [of 0] by simp
  ultimately show ?thesis by (simp add: rnd_def)
qed

text \<open>A number of at most 53 significant bits and no finer than the subnormal numbers stays.\<close>

lemma rnd_exact:
  assumes x: "x = of_int m * two_to k" and k: "- 1074 \<le> k" and m: "0 < m" "m \<le> 2 ^ 53"
  shows "rnd x = x"
proof -
  have pos: "0 < x" using m by (simp add: x)
  have "\<exists>n :: int. x / ulp x = of_int n"
  proof (cases "m = 2 ^ 53")
    case True
    have e: "exponent x = k + 53"
      using two_to_add_nat [of k 53] two_to_Suc [of "k + 53"]
      by (intro exponent_eqI) (simp_all add: x True)
    have "max (exponent x - 52) (- 1074) = k + 1" using k by (simp add: e)
    then have "ulp x = two_to (k + 1)" using pos by (simp add: ulp_def)
    then have "x / ulp x = of_int (2 ^ 52)" by (simp add: x True two_to_Suc)
    then show ?thesis by blast
  next
    case False
    then have "m < 2 ^ 53" using m(2) by linarith
    then have "of_int m < (of_int (2 ^ 53) :: rat)" unfolding of_int_less_iff .
    then have "x < two_to k * 2 ^ 53" by (simp add: x)
    then have "two_to (exponent x) < two_to (k + int 53)"
      using exponent_bounds [OF pos] unfolding two_to_add_nat by linarith
    then have "exponent x < k + 53" using two_to_less by fastforce
    then have "max (exponent x - 52) (- 1074) \<le> k" using k by linarith
    then obtain n where n: "k = max (exponent x - 52) (- 1074) + int n" using zle_iff_zadd by blast
    have u: "ulp x = two_to (max (exponent x - 52) (- 1074))" using pos by (simp add: ulp_def)
    have "two_to k = ulp x * 2 ^ n" unfolding u using two_to_add_nat n by metis
    then have "x = of_int m * (ulp x * 2 ^ n)" using x by metis
    then have "x = of_int (m * 2 ^ n) * ulp x" by (simp add: algebra_simps)
    then have "x / ulp x = of_int (m * 2 ^ n)" by (metis nonzero_mult_div_cancel_right ulp_pos(2))
    then show ?thesis by blast
  qed
  then obtain n :: int where n: "x / ulp x = of_int n" by blast
  then have "of_int n * ulp x = x" using ulp_pos(2) [of x] by (simp add: field_simps)
  then show ?thesis using pos by (simp add: rnd_def n)
qed

lemma round_even_le: "y \<le> of_int n \<Longrightarrow> round_even y \<le> n"
  using round_even_mono [of y "of_int n"] by simp

lemma round_even_ge: "of_int n \<le> y \<Longrightarrow> n \<le> round_even y"
  using round_even_mono [of "of_int n" y] by simp

lemma rnd_form:
  assumes "0 < x"
  shows "\<exists>m. rnd x = of_int m * two_to (max (exponent x - 52) (- 1074)) \<and> 0 \<le> m \<and> m \<le> 2 ^ 53"
proof -
  let ?k = "max (exponent x - 52) (- 1074)"
  have u: "ulp x = two_to ?k" using assms by (simp add: ulp_def)
  have "two_to (exponent x + 1) \<le> two_to (?k + int 53)" by (rule two_to_mono) simp
  then have "x \<le> two_to ?k * 2 ^ 53" using exponent_bounds [OF assms] unfolding two_to_add_nat by linarith
  then have "x / ulp x \<le> of_int (2 ^ 53)" using u by (simp add: divide_le_eq mult.commute)
  then have "round_even (x / ulp x) \<le> 2 ^ 53" by (rule round_even_le)
  moreover have "of_int 0 \<le> x / ulp x" using divide_nonneg_pos [of x "ulp x"] assms by simp
  then have "0 \<le> round_even (x / ulp x)" by (rule round_even_ge)
  ultimately show ?thesis using assms by (auto simp: rnd_def u)
qed

lemma rnd_idem: "0 \<le> x \<Longrightarrow> rnd (rnd x) = rnd x"
proof -
  assume x: "0 \<le> x"
  show ?thesis
  proof (cases "x = 0")
    case False
    then obtain m where m: "rnd x = of_int m * two_to (max (exponent x - 52) (- 1074))" "0 \<le> m" "m \<le> 2 ^ 53"
      using rnd_form [of x] x by auto
    show ?thesis using m by (cases "m = 0") (simp, intro rnd_exact [OF m(1)], simp_all)
  qed simp
qed

lemma rnd_mono: "0 \<le> x \<Longrightarrow> x \<le> y \<Longrightarrow> rnd x \<le> rnd y"
proof -
  assume x0: "0 \<le> x" and xy: "x \<le> y"
  show ?thesis
  proof (cases "x = 0")
    case True
    then show ?thesis using rnd_nonneg xy by simp
  next
    case False
    then have x: "0 < x" and y: "0 < y" using x0 xy by simp_all
    have e: "exponent x \<le> exponent y" by (rule exponent_mono [OF x xy])
    show ?thesis
    proof (cases "max (exponent x - 52) (- 1074) = max (exponent y - 52) (- 1074)")
      case True
      then have u: "ulp x = ulp y" using x y by (simp add: ulp_def)
      have "x / ulp y \<le> y / ulp y" by (rule divide_right_mono [OF xy ulp_nonneg])
      then have "of_int (round_even (x / ulp y)) \<le> (of_int (round_even (y / ulp y)) :: rat)"
        unfolding of_int_le_iff by (rule round_even_mono)
      then show ?thesis using x y by (simp add: rnd_def u)
    next
      case False
      let ?j = "max (exponent x - 52) (- 1074)"
      have lt: "exponent x + 1 \<le> exponent y" "- 1074 < exponent y - 52" "?j \<le> exponent y"
        using False e by linarith+
      then obtain n where n: "exponent y = ?j + int n" using zle_iff_zadd by blast
      have "two_to (exponent x + 1) \<le> two_to (exponent y)" by (rule two_to_mono [OF lt(1)])
      then have "x \<le> two_to ?j * 2 ^ n" using exponent_bounds [OF x] two_to_add_nat [of ?j n] n by simp
      then have "x / ulp x \<le> of_int (2 ^ n)" using x by (simp add: ulp_def divide_le_eq mult.commute)
      then have "round_even (x / ulp x) \<le> 2 ^ n" by (rule round_even_le)
      then have "of_int (round_even (x / ulp x)) \<le> (of_int (2 ^ n) :: rat)" unfolding of_int_le_iff .
      then have "rnd x \<le> 2 ^ n * two_to ?j" using x by (simp add: rnd_def ulp_def mult_right_mono)
      also have "\<dots> = two_to (exponent y)" using two_to_add_nat [of ?j n] n by (simp add: mult.commute)
      also have "\<dots> \<le> rnd y"
      proof -
        have u: "ulp y = two_to (exponent y - 52)" using y lt(2) by (simp add: ulp_def)
        have p: "two_to (exponent y) = two_to (exponent y - 52) * 2 ^ 52"
          using two_to_add_nat [of "exponent y - 52" 52] by simp
        have "of_int (2 ^ 52) \<le> y / ulp y"
          using exponent_bounds [OF y] unfolding u p by (simp add: le_divide_eq mult.commute)
        then have "2 ^ 52 \<le> round_even (y / ulp y)" by (rule round_even_ge)
        then have "(of_int (2 ^ 52) :: rat) \<le> of_int (round_even (y / ulp y))" unfolding of_int_le_iff .
        then have "of_int (2 ^ 52) * ulp y \<le> of_int (round_even (y / ulp y)) * ulp y" by (rule mult_right_mono) simp
        then show ?thesis using y by (simp add: rnd_def u p mult.commute)
      qed
      finally show ?thesis .
    qed
  qed
qed

section \<open>Numbers that are not negative\<close>

text \<open>What a sum of times can be: a number a double holds, not negative, or the infinity.\<close>

definition nonneg :: "f64 \<Rightarrow> bool" where
  "nonneg a = (case a of Fin x \<Rightarrow> 0 \<le> x \<and> rnd x = x \<and> x < 2 ^ 1024 | Inf \<Rightarrow> True | _ \<Rightarrow> False)"

lemma nonneg_Inf [simp]: "nonneg Inf"
  and not_nonneg [simp]: "\<not> nonneg NaN" "\<not> nonneg Neg_Inf"
  and nonneg_Fin: "nonneg (Fin x) \<longleftrightarrow> 0 \<le> x \<and> rnd x = x \<and> x < 2 ^ 1024"
  by (simp_all add: nonneg_def)

lemma nonneg_zero [simp]: "nonneg (Fin 0)"
  by (simp add: nonneg_Fin)

lemma nonneg_not_nan: "nonneg a \<Longrightarrow> a \<noteq> NaN"
  by auto

lemma to_f64_nonneg: "0 \<le> x \<Longrightarrow> to_f64 x = (if 2 ^ 1024 \<le> rnd x then Inf else Fin (rnd x))"
proof -
  assume "0 \<le> x"
  moreover have "- (2 ^ 1024) < (0 :: rat)" by simp
  ultimately have "\<not> rnd x \<le> - (2 ^ 1024)" using rnd_nonneg [of x] by (meson le_less_trans not_le)
  then show ?thesis by (simp add: to_f64_def Let_def)
qed

lemma nonneg_to_f64 [simp]: "0 \<le> x \<Longrightarrow> nonneg (to_f64 x)"
  by (auto simp: to_f64_nonneg nonneg_Fin rnd_nonneg rnd_idem)

lemma nonneg_of_nat [simp]: "nonneg (f_of_nat n)"
  by (simp add: f_of_nat_def)

lemma le_Fin [simp]: "Fin a \<le> Fin b \<longleftrightarrow> a \<le> b" "Fin a \<le> Inf" "Inf \<le> Inf" "\<not> Inf \<le> Fin a"
  and less_Fin [simp]: "Fin a < Fin b \<longleftrightarrow> a < b" "Fin a < Inf" "\<not> Inf < Fin a"
  by (auto simp: less_eq_f64_def less_f64_def)

lemma to_f64_mono: "0 \<le> x \<Longrightarrow> x \<le> y \<Longrightarrow> to_f64 x \<le> to_f64 y"
  using rnd_mono [of x y] by (auto simp: to_f64_nonneg)

lemma nonneg_cases:
  assumes "nonneg a"
  obtains (fin) x where "a = Fin x" "0 \<le> x" "rnd x = x" "x < 2 ^ 1024" | (inf) "a = Inf"
  using assms by (cases a) (auto simp: nonneg_Fin)

lemma f_add_nonneg [simp]: "nonneg a \<Longrightarrow> nonneg b \<Longrightarrow> nonneg (f_add a b)"
  by (erule nonneg_cases; erule nonneg_cases) simp_all

lemma f_mul_nonneg [simp]: "nonneg a \<Longrightarrow> nonneg (Fin b) \<Longrightarrow> is_finite a \<Longrightarrow> nonneg (f_mul a (Fin b))"
  by (erule nonneg_cases) (simp_all add: nonneg_Fin)

lemma f_mul_pos [simp]: "nonneg a \<Longrightarrow> nonneg (Fin b) \<Longrightarrow> 0 < b \<Longrightarrow> nonneg (f_mul a (Fin b))"
  by (erule nonneg_cases) (simp_all add: nonneg_Fin scaled_inf_def)

lemma nonneg_of_int [simp]: "0 \<le> n \<Longrightarrow> nonneg (f_of_int n)"
  by (simp add: f_of_int_def)

lemma f_add_mono: "nonneg a \<Longrightarrow> nonneg b \<Longrightarrow> nonneg c \<Longrightarrow> a \<le> b \<Longrightarrow> f_add a c \<le> f_add b c"
proof (elim nonneg_cases, goal_cases)
  case (1 x y z)
  then show ?case by (simp add: to_f64_mono)
next
  case (3 x z)
  then show ?case using nonneg_to_f64 [of "x + z"] by (cases "to_f64 (x + z)") simp_all
qed simp_all

lemma f_add_ge: "nonneg a \<Longrightarrow> nonneg c \<Longrightarrow> a \<le> f_add a c"
proof (elim nonneg_cases, goal_cases)
  case (1 x z)
  then show ?case using rnd_mono [of x "x + z"] by (simp add: to_f64_nonneg)
qed simp_all

text \<open>Whole numbers up to \<open>2 ^ 53\<close> are held exactly, and so are their sums.\<close>

lemma to_f64_int: "0 \<le> n \<Longrightarrow> n \<le> 2 ^ 53 \<Longrightarrow> to_f64 (of_int n) = Fin (of_int n)"
proof -
  assume n: "0 \<le> n" "n \<le> 2 ^ 53"
  have r: "rnd (of_int n) = of_int n" using n rnd_exact [of "of_int n" n 0] by (cases "n = 0") simp_all
  have "of_int n \<le> (of_int (2 ^ 53) :: rat)" unfolding of_int_le_iff by (rule n(2))
  moreover have "(of_int (2 ^ 53) :: rat) < 2 ^ 1024" by simp
  ultimately have "of_int n < (2 ^ 1024 :: rat)" by (rule le_less_trans)
  then show ?thesis using n(1) r by (simp add: to_f64_nonneg)
qed

lemma f_add_int:
  "0 \<le> a \<Longrightarrow> 0 \<le> b \<Longrightarrow> a + b \<le> 2 ^ 53 \<Longrightarrow> f_add (Fin (of_int a)) (Fin (of_int b)) = Fin (of_int (a + b))"
  using to_f64_int [of "a + b"] by simp

end
