(* ===== verification/Places.thy ===== *)
theory Places
  imports Events
begin

text \<open>
  Named places (crates/world/src/places.rs), and all the data of the world a route needs: maps, events and
  places (\<open>World\<close> in crates/world/src/lib.rs). Loading the JSON is left out.
\<close>

record heal_place =
  he_id :: string
  he_map :: string
  he_x :: int
  he_y :: int
  he_respawn_map :: string
  he_respawn :: "pos option"

record fly_spot =
  fy_flag :: string
  fy_map :: string
  fy_x :: int
  fy_y :: int

record move_and_badge =
  mb_move :: string
  mb_badge :: string

record field_gate =
  fg_map :: string
  fg_x :: int
  fg_y :: int
  fg_local_id :: nat
  fg_kind :: string
  fg_requires :: move_and_badge

record places =
  ps_rom :: string
  ps_sha1 :: string
  ps_heal_spots :: "heal_place list"
  ps_fly_spots :: "fly_spot list"
  ps_marts :: "(string \<times> string list) list"
  ps_gates :: "field_gate list"
  ps_water :: "(string \<times> nat) list"

definition fly_spot_of :: "places \<Rightarrow> string \<Rightarrow> fly_spot option" where
  "fly_spot_of p flag = find (\<lambda>f. fy_flag f = flag) (ps_fly_spots p)"

definition heal_spot_of :: "places \<Rightarrow> string \<Rightarrow> heal_place option" where
  "heal_spot_of p i = find (\<lambda>h. he_id h = i) (ps_heal_spots p)"

record atlas =
  al_world :: world
  al_events :: "events option"
  al_places :: "places option"

fun rewritten_tile :: "effect \<Rightarrow> pos option" where
  "rewritten_tile (Metatile_Eff p collision m) = Some p"
| "rewritten_tile _ = None"

text \<open>The tiles the scripts of a map rewrite.\<close>

definition rewritten_tiles :: "events \<Rightarrow> string \<Rightarrow> pos list" where
  "rewritten_tiles ev m = concat (map (\<lambda>(label, s).
    if sc_map s = Some m then concat (map (\<lambda>p. List.map_filter rewritten_tile (pt_does p)) (sc_paths s)) else [])
      (ev_scripts ev))"

definition script_rewrites :: "atlas \<Rightarrow> string \<Rightarrow> pos \<Rightarrow> bool" where
  "script_rewrites a m tile \<longleftrightarrow> (case al_events a of None \<Rightarrow> False | Some ev \<Rightarrow> tile \<in> set (rewritten_tiles ev m))"

end
