(* ===== verification/Route_Graph.thy ===== *)
theory Route_Graph
  imports F64 Places Obstacles Escape Map_Gates "HOL-Library.AList"
begin

text \<open>
  The graph of places a route is searched in (crates/world/src/route.rs, up to the script warps): warps, edge
  crossings, fly spots, heal spots and field-move gates, joined by edges with a time and a requirement, and for
  every map the tiles that are walls, the tiles with ways past, and the walls the story opens. A \<open>BTreeMap\<close> is
  an association list. Costs are the doubles of F64.
\<close>

section \<open>Times\<close>

record route_params =
  pa_tile_s :: f64
  pa_warp_s :: f64
  pa_fly_s :: f64
  pa_wander_penalty :: nat
  pa_gate_s :: f64
  pa_surf_s :: f64
  pa_talk_s :: f64
  pa_battle_s :: f64
  pa_dig_s :: f64
  pa_rope_s :: f64

definition default_params :: route_params where
  "default_params = \<lparr>pa_tile_s = to_f64 (268 / 1000), pa_warp_s = to_f64 (15 / 10), pa_fly_s = to_f64 12,
    pa_wander_penalty = 2, pa_gate_s = to_f64 6, pa_surf_s = to_f64 5, pa_talk_s = to_f64 4,
    pa_battle_s = to_f64 60, pa_dig_s = to_f64 8,
    pa_rope_s = f_add (to_f64 10) (f_div (to_f64 550) (to_f64 10))\<rparr>"

section \<open>Warps\<close>

definition WARP_DOOR :: nat where "WARP_DOOR = 0x69"

definition nth_warp :: "map_data \<Rightarrow> nat \<Rightarrow> warp option" where
  "nth_warp m i = (if i < length (md_warps m) then Some (md_warps m ! i) else None)"

definition tile_is :: "map_data \<Rightarrow> pos \<Rightarrow> (tile \<Rightarrow> bool) \<Rightarrow> bool" where
  "tile_is m p P = (case tile_at m p of None \<Rightarrow> False | Some t \<Rightarrow> P t)"

definition on_mat :: "map_data \<Rightarrow> warp \<Rightarrow> bool" where
  "on_mat m w = tile_is m (wp_x w, wp_y w) (\<lambda>t. arrow_warp (tl_behavior t) \<noteq> None \<or> stair_warp (tl_behavior t) \<noteq> None)"

definition warp_is_door :: "map_data \<Rightarrow> nat \<Rightarrow> bool" where
  "warp_is_door m i = (case nth_warp m i of
     None \<Rightarrow> False
   | Some w \<Rightarrow> tile_is m (wp_x w, wp_y w) (\<lambda>t. tl_behavior t = WARP_DOOR \<or> tl_collision t \<noteq> 0))"

definition warp_is_marked :: "map_data \<Rightarrow> nat \<Rightarrow> bool" where
  "warp_is_marked m i = (case nth_warp m i of
     None \<Rightarrow> False
   | Some w \<Rightarrow> on_mat m w \<or> warp_is_door m i)"

definition warp_usable :: "map_data \<Rightarrow> nat \<Rightarrow> bool" where
  "warp_usable m i = (case nth_warp m i of
     None \<Rightarrow> False
   | Some w \<Rightarrow> warp_is_marked m i \<or>
       \<not> list_ex (\<lambda>j. wp_dest_map (md_warps m ! j) = wp_dest_map w \<and> wp_dest_warp (md_warps m ! j) = wp_dest_warp w \<and>
           warp_is_marked m j) [0..<length (md_warps m)])"

definition warp_takeable :: "atlas \<Rightarrow> map_data \<Rightarrow> nat \<Rightarrow> bool" where
  "warp_takeable a m i = (case nth_warp m i of
     None \<Rightarrow> False
   | Some w \<Rightarrow> tile_is m (wp_x w, wp_y w) (\<lambda>t. warp_fires (tl_behavior t)) \<or>
       script_rewrites a (md_name m) (wp_x w, wp_y w))"

definition warp_approach :: "map_data \<Rightarrow> nat \<Rightarrow> pos option" where
  "warp_approach m i = (case nth_warp m i of
     None \<Rightarrow> None
   | Some w \<Rightarrow> Some (if warp_is_door m i \<and> \<not> on_mat m w then (wp_x w, wp_y w + 1) else (wp_x w, wp_y w)))"

section \<open>Places and edges\<close>

datatype place_kind =
  Warp_Place | Crossing_Place | Fly_Place | Heal_Place | Gate_Place | Script_Place | Tile_Place | Escape_Place

fun kind_index :: "place_kind \<Rightarrow> nat" where
  "kind_index Warp_Place = 0" | "kind_index Crossing_Place = 1" | "kind_index Fly_Place = 2"
| "kind_index Heal_Place = 3" | "kind_index Gate_Place = 4" | "kind_index Script_Place = 5"
| "kind_index Tile_Place = 6" | "kind_index Escape_Place = 7"

record place =
  rp_map :: string
  rp_x :: int
  rp_y :: int
  rp_kind :: place_kind

type_synonym place_key = "string \<times> int \<times> int"

definition tile_place :: "string \<Rightarrow> int \<Rightarrow> int \<Rightarrow> place" where
  "tile_place m x y = \<lparr>rp_map = m, rp_x = x, rp_y = y, rp_kind = Tile_Place\<rparr>"

definition key_of :: "place \<Rightarrow> place_key" where
  "key_of p = (rp_map p, rp_x p, rp_y p)"

definition place_of_pose :: "player_pose \<Rightarrow> place" where
  "place_of_pose p = tile_place (pp_map p) (pp_x p) (pp_y p)"

text \<open>The derived order of places, and of the kinds of edges: by constructor, then by the fields.\<close>

definition place_order :: "place \<Rightarrow> string \<times> int \<times> int \<times> nat" where
  "place_order p = (rp_map p, rp_x p, rp_y p, kind_index (rp_kind p))"

datatype edge_kind =
  Walk_Edge nat bool
| Warp_Edge
| Connection_Edge
| Gate_Edge string
| Script_Edge string
| Fly_Edge
| Dig_Edge
| Rope_Edge

fun edge_kind_order :: "edge_kind \<Rightarrow> nat \<times> nat \<times> bool \<times> string" where
  "edge_kind_order (Walk_Edge tiles surf) = (0, tiles, surf, [])"
| "edge_kind_order Warp_Edge = (1, 0, False, [])"
| "edge_kind_order Connection_Edge = (2, 0, False, [])"
| "edge_kind_order (Gate_Edge k) = (3, 0, False, k)"
| "edge_kind_order (Script_Edge s) = (4, 0, False, s)"
| "edge_kind_order Fly_Edge = (5, 0, False, [])"
| "edge_kind_order Dig_Edge = (6, 0, False, [])"
| "edge_kind_order Rope_Edge = (7, 0, False, [])"

record edge =
  ed_to :: place
  ed_kind :: edge_kind
  ed_cost :: f64
  ed_requires :: requirement

record leg =
  lg_from :: place
  lg_to :: place
  lg_kind :: edge_kind
  lg_cost :: f64
  lg_requires :: requirement

section \<open>What field moves take\<close>

definition MOVE_SURF :: string where "MOVE_SURF = ''MOVE_SURF''"
definition MOVE_FLY :: string where "MOVE_FLY = ''MOVE_FLY''"
definition MOVE_DIG :: string where "MOVE_DIG = ''MOVE_DIG''"
definition MOVE_FLASH :: string where "MOVE_FLASH = ''MOVE_FLASH''"
definition ITEM_ESCAPE_ROPE :: string where "ITEM_ESCAPE_ROPE = ''ITEM_ESCAPE_ROPE''"

definition dig_requirement :: requirement where "dig_requirement = [Party_Has_Move MOVE_DIG]"

definition escape_rope_requirement :: requirement where "escape_rope_requirement = [Has_Item ITEM_ESCAPE_ROPE 1]"

definition flash_requirement :: requirement where "flash_requirement = [Badge 1, Party_Has_Move MOVE_FLASH]"

definition surf_requirement :: requirement where "surf_requirement = [Party_Has_Move MOVE_SURF, Badge 5]"

definition surf_requirement_on :: "string \<Rightarrow> requirement" where
  "surf_requirement_on m = surf_requirement @
    (if m = ''SeafoamIslands_B3F'' then [Flag ''FLAG_STOPPED_SEAFOAM_B3F_CURRENT'' True]
     else if m = ''SeafoamIslands_B4F'' then [Flag ''FLAG_STOPPED_SEAFOAM_B4F_CURRENT'' True] else [])"

definition fly_requirement :: "string \<Rightarrow> requirement" where
  "fly_requirement dest = [Party_Has_Move MOVE_FLY, Badge 3, Visited dest]"

section \<open>The graph\<close>

record way =
  wy_requires :: requirement
  wy_cost :: f64

record map_info =
  mi_walls :: "pos set"
  mi_blockers :: "(pos \<times> way list) list"
  mi_openable :: "(pos \<times> way list) list"
  mi_relevant :: requirement
  mi_wander :: "pos set"
  mi_outdoor :: bool
  mi_allow_escaping :: bool
  mi_sets_escape :: bool

record graph =
  gr_params :: route_params
  gr_places :: "(place_key \<times> place) list"
  gr_by_map :: "(string \<times> place list) list"
  gr_edges :: "(place_key \<times> edge list) list"
  gr_fly_spots :: "place list"
  gr_fly_flags :: "(string \<times> string) list"
  gr_maps :: "(string \<times> map_info) list"
  gr_gates :: gates
  gr_relevant :: requirement
  gr_relevant_vars :: "string list"
  gr_intercepted :: "string list"
  gr_escape_links :: "(string \<times> string list) list"
  gr_dark :: "string list"

definition fly_lit :: "graph \<Rightarrow> string \<Rightarrow> predicate" where
  "fly_lit g dest = (case map_of (gr_fly_flags g) dest of Some flag \<Rightarrow> Flag flag True | None \<Rightarrow> Visited dest)"

definition fly_requirement_of :: "graph \<Rightarrow> string \<Rightarrow> requirement" where
  "fly_requirement_of g dest = butlast (fly_requirement dest) @ [fly_lit g dest]"

definition fly_flag :: "graph \<Rightarrow> string \<Rightarrow> string option" where
  "fly_flag g dest = map_of (gr_fly_flags g) dest"

definition entry_of :: "('k \<times> 'v list) list \<Rightarrow> 'k \<Rightarrow> 'v list" where
  "entry_of al k = (case map_of al k of None \<Rightarrow> [] | Some vs \<Rightarrow> vs)"

definition places_on :: "graph \<Rightarrow> string \<Rightarrow> place list" where
  "places_on g m = entry_of (gr_by_map g) m"

definition edges_from :: "graph \<Rightarrow> place_key \<Rightarrow> edge list" where
  "edges_from g k = entry_of (gr_edges g) k"

definition has_gates :: "graph \<Rightarrow> string \<Rightarrow> bool" where
  "has_gates g m \<longleftrightarrow> map_of (gr_gates g) m \<noteq> None"

definition add_place :: "string \<Rightarrow> int \<Rightarrow> int \<Rightarrow> place_kind \<Rightarrow> graph \<Rightarrow> place \<times> graph" where
  "add_place m x y kind g =
    (case map_of (gr_places g) (m, x, y) of
       Some p \<Rightarrow> (p, g)
     | None \<Rightarrow>
         let p = \<lparr>rp_map = m, rp_x = x, rp_y = y, rp_kind = kind\<rparr> in
         (p, g\<lparr>gr_places := AList.update (m, x, y) p (gr_places g),
               gr_by_map := AList.update m (sort_key place_order (places_on g m @ [p])) (gr_by_map g)\<rparr>))"

definition sorted_requirement :: "requirement \<Rightarrow> requirement" where
  "sorted_requirement r = remdups_adj (sort r)"

definition add_edge :: "place \<Rightarrow> edge \<Rightarrow> graph \<Rightarrow> graph" where
  "add_edge from e g =
    (let e' = (if rp_map (ed_to e) \<in> set (gr_dark g) \<and> rp_map from \<notin> set (gr_dark g)
               then e\<lparr>ed_requires := sorted_requirement (ed_requires e @ flash_requirement)\<rparr> else e) in
     g\<lparr>gr_edges := AList.update (key_of from) (edges_from g (key_of from) @ [e']) (gr_edges g)\<rparr>)"

section \<open>The tiles of a map\<close>

definition passage_way :: "route_params \<Rightarrow> passage \<Rightarrow> way" where
  "passage_way params p = (case p of
     Hidden flag \<Rightarrow> \<lparr>wy_requires = [from_flag flag True], wy_cost = Fin 0\<rparr>
   | Trainer_Passage trainer \<Rightarrow> \<lparr>wy_requires = [Flag trainer True], wy_cost = pa_battle_s params\<rparr>)"

definition free_ways :: "requirement list \<Rightarrow> way list" where
  "free_ways reqs = map (\<lambda>r. \<lparr>wy_requires = r, wy_cost = Fin 0\<rparr>) reqs"

text \<open>Walls, the tiles with ways past, the walls a way opens.\<close>

type_synonym tile_ways = "pos set \<times> (pos \<times> way list) list \<times> (pos \<times> way list) list"

definition add_blocker :: "route_params \<Rightarrow> blocker \<Rightarrow> tile_ways \<Rightarrow> tile_ways" where
  "add_blocker params b = (\<lambda>(walls, blocked, openable).
    let t = (bl_x b, bl_y b) in
    if bl_passages b = [] then (insert t walls, blocked, openable)
    else (walls, AList.update t (entry_of blocked t @ map (passage_way params) (bl_passages b)) blocked, openable))"

definition joint_ways :: "way list \<Rightarrow> way list \<Rightarrow> way list" where
  "joint_ways existing ways = concat (map (\<lambda>a. map (\<lambda>b.
    \<lparr>wy_requires = sorted_requirement (wy_requires a @ wy_requires b), wy_cost = f_add (wy_cost a) (wy_cost b)\<rparr>)
      ways) existing)"

definition add_tile_gate :: "map_data \<Rightarrow> pos \<times> gate \<Rightarrow> tile_ways \<Rightarrow> tile_ways" where
  "add_tile_gate m = (\<lambda>(tile, gate) (walls, blocked, openable).
    if tile \<in> walls then (walls, blocked, openable)
    else if \<not> tile_is m tile (\<lambda>t. tl_collision t = 0) then
      (walls, blocked, if gt_ways gate = [] then openable else AList.update tile (free_ways (gt_ways gate)) openable)
    else if [] \<in> set (gt_ways gate) then (walls, blocked, openable)
    else if gt_ways gate = [] then (insert tile walls, AList.delete tile blocked, openable)
    else
      (walls,
       AList.update tile (case map_of blocked tile of
           Some existing \<Rightarrow> joint_ways existing (free_ways (gt_ways gate))
         | None \<Rightarrow> free_ways (gt_ways gate)) blocked,
       openable))"

definition tile_ways_of :: "route_params \<Rightarrow> atlas \<Rightarrow> gates \<Rightarrow> map_data \<Rightarrow> tile_ways" where
  "tile_ways_of params a gs m =
    (case fold (add_blocker params) (blockers m (al_events a)) ({}, [], []) of
       (walls, blocked, openable) \<Rightarrow>
         fold (add_tile_gate m) (entry_of gs (md_name m))
           (walls, filter (\<lambda>(t, ways). t \<notin> walls) blocked, openable))"

definition way_requirements :: "(pos \<times> way list) list \<Rightarrow> requirement" where
  "way_requirements al = concat (map wy_requires (concat (map snd al)))"

definition map_info_of :: "route_params \<Rightarrow> atlas \<Rightarrow> gates \<Rightarrow> map_data \<Rightarrow> map_info" where
  "map_info_of params a gs m =
    (case tile_ways_of params a gs m of (walls, blocked, openable) \<Rightarrow>
      \<lparr>mi_walls = walls, mi_blockers = blocked, mi_openable = openable,
       mi_relevant = sorted_requirement (way_requirements blocked @ way_requirements openable),
       mi_wander = wander_tiles m, mi_outdoor = is_outdoor m, mi_allow_escaping = md_allow_escaping m,
       mi_sets_escape = sets_escape_on_arrival (al_events a) (md_name m)\<rparr>)"

definition info_of :: "graph \<Rightarrow> string \<Rightarrow> map_info" where
  "info_of g m = (case map_of (gr_maps g) m of
     Some i \<Rightarrow> i
   | None \<Rightarrow> \<lparr>mi_walls = {}, mi_blockers = [], mi_openable = [], mi_relevant = [], mi_wander = {},
       mi_outdoor = False, mi_allow_escaping = False, mi_sets_escape = False\<rparr>)"

section \<open>Warps, crossings and gates\<close>

text \<open>The states a warp works in: those of the gate of its tile.\<close>

definition warp_requirements :: "graph \<Rightarrow> string \<Rightarrow> pos \<Rightarrow> pos \<Rightarrow> requirement list" where
  "warp_requirements g m tile approach =
    (case map_of (entry_of (gr_gates g) m) tile of
       None \<Rightarrow> [[]]
     | Some gate \<Rightarrow>
         (case gt_warp_ways gate of
            Some ways \<Rightarrow> ways
          | None \<Rightarrow> if approach \<noteq> tile then gt_ways gate else [[]]))"

definition add_edges :: "place \<Rightarrow> edge list \<Rightarrow> graph \<Rightarrow> graph" where
  "add_edges from es g = fold (add_edge from) es g"

definition add_warp :: "atlas \<Rightarrow> map_data \<Rightarrow> nat \<Rightarrow> graph \<Rightarrow> graph" where
  "add_warp a m i g =
    (let w = md_warps m ! i in
     case (warp_destination (al_world a) w, warp_approach m i) of
       (Some (dest, dx, dy), Some (ax, ay)) \<Rightarrow>
         let ways = warp_requirements g (md_name m) (wp_x w, wp_y w) (ax, ay) in
         if \<not> warp_usable m i \<or> \<not> warp_takeable a m i \<or> \<not> in_bounds m ax ay \<or> ways = [] then g
         else
           (case add_place (md_name m) ax ay Warp_Place g of (from, g) \<Rightarrow>
            case add_place (md_name dest) dx dy Warp_Place g of (to, g) \<Rightarrow>
              add_edges from (map (\<lambda>r. \<lparr>ed_to = to, ed_kind = Warp_Edge, ed_cost = pa_warp_s (gr_params g),
                ed_requires = r\<rparr>) ways) g)
     | _ \<Rightarrow> g)"

definition add_warps :: "atlas \<Rightarrow> map_data \<Rightarrow> graph \<Rightarrow> graph" where
  "add_warps a m g = fold (add_warp a m) [0..<length (md_warps m)] g"

definition add_crossing :: "map_data \<Rightarrow> string \<times> pos \<times> pos \<Rightarrow> graph \<Rightarrow> graph" where
  "add_crossing m = (\<lambda>(other, (ax, ay), (bx, by)) g.
    case add_place (md_name m) ax ay Crossing_Place g of (from, g) \<Rightarrow>
    case add_place other bx by Crossing_Place g of (to, g) \<Rightarrow>
      add_edge from \<lparr>ed_to = to, ed_kind = Connection_Edge, ed_cost = pa_tile_s (gr_params g), ed_requires = []\<rparr> g)"

definition add_connections :: "atlas \<Rightarrow> map_data \<Rightarrow> graph \<Rightarrow> graph" where
  "add_connections a m g =
    fold (add_crossing m) (concat (map (edge_crossings (al_world a) m) all_directions)) g"

definition add_gate_pair :: "map_data \<Rightarrow> field_gate \<Rightarrow> pos \<times> pos \<Rightarrow> graph \<Rightarrow> graph" where
  "add_gate_pair m gate = (\<lambda>(a, b) g.
    let open = (\<lambda>t. tile_is m t (\<lambda>t. tl_collision t = 0) \<and> t \<notin> mi_walls (info_of g (md_name m))) in
    if \<not> open a \<or> \<not> open b then g
    else
      (case add_place (md_name m) (fst a) (snd a) Gate_Place g of (pa, g) \<Rightarrow>
       case add_place (md_name m) (fst b) (snd b) Gate_Place g of (pb, g) \<Rightarrow>
         let edge = (\<lambda>to. \<lparr>ed_to = to, ed_kind = Gate_Edge (fg_kind gate),
               ed_cost = f_add (pa_gate_s (gr_params g)) (f_mul (to_f64 2) (pa_tile_s (gr_params g))),
               ed_requires = [Party_Has_Move (mb_move (fg_requires gate)),
                 from_flag (mb_badge (fg_requires gate)) True]\<rparr>) in
         add_edge pb (edge pa) (add_edge pa (edge pb) g)))"

definition add_gate :: "map_data \<Rightarrow> field_gate \<Rightarrow> graph \<Rightarrow> graph" where
  "add_gate m gate g =
    (if fg_kind gate \<noteq> ''cut_tree'' \<and> fg_kind gate \<noteq> ''rock_smash'' then g
     else
       let x = fg_x gate; y = fg_y gate in
       fold (add_gate_pair m gate) [((x, y - 1), (x, y + 1)), ((x - 1, y), (x + 1, y))] g)"

end
