(* ===== verification/Route_Scripts.thy ===== *)
theory Route_Scripts
  imports Route_Graph
begin

text \<open>
  The warps scripts make, and the whole of the graph (crates/world/src/route.rs: requirement_of, either_way,
  add_script_warps and PlaceGraph::build): talking to a person, standing on a trigger, entering a map.
\<close>

section \<open>What a path of a script asks for\<close>

text \<open>The first comparison a condition names: its operand may be a symbol.\<close>

definition first_cmp :: "cmp \<Rightarrow> (val \<times> cmp_op) option" where
  "first_cmp c =
    (case List.map_filter (\<lambda>(v, op). map_option (\<lambda>x. (x, op)) v)
       [(cp_eq c, Eq_Op), (cp_ne c, Ne_Op), (cp_lt c, Lt_Op), (cp_gt c, Gt_Op), (cp_le c, Le_Op), (cp_ge c, Ge_Op)] of
       [] \<Rightarrow> None
     | x # _ \<Rightarrow> Some x)"

text \<open>\<open>None\<close>: it cannot be asked; \<open>Some []\<close>: it is the player's or the script's own business.\<close>

fun condition_requirement :: "condition \<Rightarrow> requirement option" where
  "condition_requirement (Flag_Cond flag is_set) =
    (if is_local_flag flag then Some [] else Some [from_flag flag is_set])"
| "condition_requirement (Trainer_Cond trainer defeated) = Some [Flag trainer defeated]"
| "condition_requirement (Item_Cond i count has) =
    (if has then Some [Has_Item i (nat (max count 1 mod 2 ^ 32))] else None)"
| "condition_requirement (Move_Cond mv is_known) = (if is_known then Some [Party_Has_Move mv] else None)"
| "condition_requirement (Answer_Cond a) = Some []"
| "condition_requirement (Choice_Cond a c) = Some []"
| "condition_requirement (Special_Cond s c) = Some []"
| "condition_requirement (Result_Cond s c) = Some []"
| "condition_requirement (Bag_Space_Cond i n b) = Some []"
| "condition_requirement (Money_Cond s c) = Some []"
| "condition_requirement (Coins_Cond s c) = Some []"
| "condition_requirement (Party_Size_Cond s c) = Some []"
| "condition_requirement (Var_Cond var c) =
    (if is_local_var var \<or> var = ''VAR_FACING'' then Some []
     else Option.bind (first_cmp c) (\<lambda>(v, op). map_option (\<lambda>x. [Var var op x]) (as_int v)))"
| "condition_requirement _ = None"

fun collect_requirements :: "condition list \<Rightarrow> requirement option" where
  "collect_requirements [] = Some []"
| "collect_requirements (c # cs) =
    (case condition_requirement c of
       None \<Rightarrow> None
     | Some r \<Rightarrow> map_option (append r) (collect_requirements cs))"

definition path_requirement :: "condition list \<Rightarrow> requirement option" where
  "path_requirement cs = map_option sorted_requirement (collect_requirements cs)"

section \<open>Warps that need neither side\<close>

fun complementary :: "predicate \<Rightarrow> predicate \<Rightarrow> bool" where
  "complementary (Var n1 Eq_Op v1) (Var n2 Ne_Op v2) = (n1 = n2 \<and> v1 = v2)"
| "complementary (Var n1 Ne_Op v1) (Var n2 Eq_Op v2) = (n1 = n2 \<and> v1 = v2)"
| "complementary _ _ = False"

text \<open>The predicate the first of two warps to one place lacks without the second.\<close>

definition mergeable :: "'k \<times> requirement \<Rightarrow> 'k \<times> requirement \<Rightarrow> predicate option" where
  "mergeable a b =
    (if fst a \<noteq> fst b \<or> length (snd a) \<noteq> length (snd b) then None
     else (case (filter (\<lambda>p. p \<notin> set (snd b)) (snd a), filter (\<lambda>p. p \<notin> set (snd a)) (snd b)) of
         ([x], [y]) \<Rightarrow> if complementary x y then Some x else None
       | _ \<Rightarrow> None))"

definition first_merge :: "('k \<times> requirement) list \<Rightarrow> (nat \<times> nat) option" where
  "first_merge warps = find (\<lambda>(i, j). mergeable (warps ! i) (warps ! j) \<noteq> None)
    (concat (map (\<lambda>i. map (Pair i) [Suc i..<length warps]) [0..<length warps]))"

definition merge_pair :: "nat \<Rightarrow> nat \<Rightarrow> ('k \<times> requirement) list \<Rightarrow> ('k \<times> requirement) list" where
  "merge_pair i j warps =
    (case mergeable (warps ! i) (warps ! j) of
       None \<Rightarrow> warps
     | Some x \<Rightarrow>
         let rest = take j warps @ drop (Suc j) warps in
         rest[i := (fst (rest ! i), filter (\<lambda>p. p \<noteq> x) (snd (rest ! i)))])"

lemma first_merge_Some:
  "first_merge warps = Some (i, j) \<Longrightarrow> i < j \<and> j < length warps \<and> mergeable (warps ! i) (warps ! j) \<noteq> None"
  unfolding first_merge_def find_Some_iff by (auto dest!: nth_mem)

lemma merge_pair_shorter:
  "first_merge warps = Some (i, j) \<Longrightarrow> length (merge_pair i j warps) < length warps"
  using first_merge_Some [of warps i j] by (auto simp: merge_pair_def Let_def)

function either_way :: "('k \<times> requirement) list \<Rightarrow> ('k \<times> requirement) list" where
  "either_way warps =
    (case first_merge warps of None \<Rightarrow> warps | Some (i, j) \<Rightarrow> either_way (merge_pair i j warps))"
  by auto
termination by (relation "measure length") (simp_all add: merge_pair_shorter)

declare either_way.simps [simp del]

section \<open>Script warps\<close>

definition ANY_VALUE :: int where "ANY_VALUE = - (2 ^ 63)"

fun var_value :: "effect \<Rightarrow> (string \<times> int) option" where
  "var_value (Var_Eff var change) =
    Some (var, case Option.bind (vc_eq change) as_int of Some v \<Rightarrow> v | None \<Rightarrow> ANY_VALUE)"
| "var_value _ = None"

text \<open>The values scripts give a variable: 0 at the start; \<open>ANY_VALUE\<close> stands for what cannot be told.\<close>

definition var_domains :: "events \<Rightarrow> (string \<times> int list) list" where
  "var_domains ev = fold (\<lambda>(var, v) out.
      AList.update var (case map_of out var of None \<Rightarrow> [0, v] | Some vs \<Rightarrow> vs @ [v]) out)
    (List.map_filter var_value (concat (map pt_does (concat (map (sc_paths \<circ> snd) (ev_scripts ev)))))) []"

definition domain_of :: "(string \<times> int list) list \<Rightarrow> string \<Rightarrow> int list" where
  "domain_of domains var =
    (case map_of domains var of None \<Rightarrow> [0] | Some vs \<Rightarrow> if ANY_VALUE \<in> set vs then [0] else vs)"

fun var_cmp :: "predicate \<Rightarrow> (string \<times> cmp_op \<times> int) option" where
  "var_cmp (Var name op v) = Some (name, op, v)"
| "var_cmp _ = None"

text \<open>Some variable is compared outside the values it can hold.\<close>

definition never_runs :: "(string \<times> int list) list \<Rightarrow> requirement \<Rightarrow> bool" where
  "never_runs domains r =
    (let cmps = List.map_filter var_cmp r in
     list_ex (\<lambda>name. \<not> list_ex (\<lambda>v. list_all (\<lambda>(n, op, x). n = name \<longrightarrow> op_holds op v x) cmps) (domain_of domains name))
       (map fst cmps))"

fun is_battle :: "effect \<Rightarrow> bool" where
  "is_battle (Battle_Eff t i d v dbl r) = True"
| "is_battle _ = False"

fun warp_target :: "bool \<Rightarrow> effect \<Rightarrow> (string \<times> val option \<times> val option \<times> val option) option" where
  "warp_target dynamic (Warp_Eff w i x y) = Some (w, i, x, y)"
| "warp_target dynamic (Set_Warp_Eff w i x y) = (if dynamic then Some (w, i, x, y) else None)"
| "warp_target dynamic _ = None"

definition landing :: "atlas \<Rightarrow> string \<times> val option \<times> val option \<times> val option \<Rightarrow> place_key option" where
  "landing a = (\<lambda>(w, i, x, y).
    case Option.bind (name_of (al_world a) w) (map_named (al_world a)) of
      None \<Rightarrow> None
    | Some dest \<Rightarrow>
        (case (case (Option.bind x as_int, Option.bind y as_int) of
                 (Some x, Some y) \<Rightarrow> Some (to_i32 x, to_i32 y)
               | _ \<Rightarrow> Option.bind (Option.bind i as_int) (\<lambda>i. if i < 0 then None
                   else map_option (\<lambda>w. (wp_x w, wp_y w)) (nth_warp dest (nat i)))) of
           None \<Rightarrow> None
         | Some (dx, dy) \<Rightarrow> if in_bounds dest dx dy then Some (md_name dest, dx, dy) else None))"

text \<open>The warp of one path: its first effect that lands somewhere.\<close>

definition path_warp :: "atlas \<Rightarrow> map_data \<Rightarrow> requirement \<Rightarrow> (string \<times> int list) list \<Rightarrow> event_path
    \<Rightarrow> (place_key \<times> requirement) option" where
  "path_warp a m extra domains p =
    (if list_ex is_battle (pt_does p) then None
     else (case path_requirement (pt_when p) of
         None \<Rightarrow> None
       | Some r \<Rightarrow>
           if never_runs domains r then None
           else
             let dynamic = list_ex (\<lambda>w. wp_dest_map w = ''MAP_DYNAMIC'') (md_warps m) in
             (case List.map_filter (landing a) (List.map_filter (warp_target dynamic) (pt_does p)) of
                [] \<Rightarrow> None
              | to # _ \<Rightarrow> Some (to, sorted_requirement (r @ extra)))))"

definition add_script_edge :: "map_data \<Rightarrow> string \<Rightarrow> pos \<Rightarrow> place_key \<times> requirement \<Rightarrow> graph \<Rightarrow> graph" where
  "add_script_edge m label src = (\<lambda>((dest, dx, dy), r) g.
    case add_place (md_name m) (fst src) (snd src) Script_Place g of (from, g) \<Rightarrow>
    case add_place dest dx dy Warp_Place g of (to, g) \<Rightarrow>
      add_edge from \<lparr>ed_to = to, ed_kind = Script_Edge label,
        ed_cost = f_add (pa_talk_s (gr_params g)) (pa_warp_s (gr_params g)), ed_requires = r\<rparr> g)"

definition add_script_warps_from :: "atlas \<Rightarrow> map_data \<Rightarrow> string \<Rightarrow> script \<Rightarrow> requirement \<Rightarrow> (string \<times> int list) list
    \<Rightarrow> pos \<Rightarrow> graph \<Rightarrow> graph" where
  "add_script_warps_from a m label sc extra domains src g =
    fold (add_script_edge m label src) (either_way (List.map_filter (path_warp a m extra domains) (sc_paths sc))) g"

definition tile_beside :: "graph \<Rightarrow> map_data \<Rightarrow> pos \<Rightarrow> pos option" where
  "tile_beside g m p =
    find (\<lambda>t. tile_is m t (\<lambda>t. tl_collision t = 0 \<and> \<not> is_water (tl_behavior t)) \<and>
        t \<notin> mi_walls (info_of g (md_name m)))
      [(fst p, snd p + 1), (fst p, snd p - 1), (fst p - 1, snd p), (fst p + 1, snd p)]"

fun moved_by :: "effect \<Rightarrow> pos \<Rightarrow> pos" where
  "moved_by (Move_Player_Eff d) p = (fst p + fst d, snd p + snd d)"
| "moved_by _ p = p"

definition warp_tiles :: "graph \<Rightarrow> string \<Rightarrow> pos list" where
  "warp_tiles g m = map (\<lambda>p. (rp_x p, rp_y p)) (filter (\<lambda>p. rp_kind p = Warp_Place) (places_on g m))"

definition add_entry_walk :: "map_data \<Rightarrow> string \<Rightarrow> pos \<Rightarrow> requirement \<Rightarrow> pos \<Rightarrow> graph \<Rightarrow> graph" where
  "add_entry_walk m label d r src g =
    (let t = (fst src + fst d, snd src + snd d) in
     if \<not> tile_is m t (\<lambda>t. tl_collision t = 0) then g
     else
       (case add_place (md_name m) (fst src) (snd src) Script_Place g of (from, g) \<Rightarrow>
        case add_place (md_name m) (fst t) (snd t) Script_Place g of (to, g) \<Rightarrow>
          add_edge from \<lparr>ed_to = to, ed_kind = Script_Edge label,
            ed_cost = f_add (pa_talk_s (gr_params g))
              (f_mul (f_of_int (\<bar>fst d\<bar> + \<bar>snd d\<bar>)) (pa_tile_s (gr_params g))),
            ed_requires = r\<rparr> g))"

definition add_path_walks :: "map_data \<Rightarrow> string \<Rightarrow> pos list \<Rightarrow> event_path \<Rightarrow> graph \<Rightarrow> graph" where
  "add_path_walks m label landings p g =
    (if list_ex (\<lambda>e. is_battle e \<or> is_warp_eff e) (pt_does p) then g
     else
       let d = fold moved_by (pt_does p) (0, 0) in
       if d = (0, 0) then g
       else (case path_requirement (pt_when p) of
           None \<Rightarrow> g
         | Some r \<Rightarrow> fold (add_entry_walk m label d r) landings g))"

definition add_entry_walks :: "map_data \<Rightarrow> string \<Rightarrow> script \<Rightarrow> graph \<Rightarrow> graph" where
  "add_entry_walks m label sc g =
    fold (add_path_walks m label (warp_tiles g (md_name m))) (sc_paths sc) g"

definition object_origin :: "graph \<Rightarrow> map_data \<Rightarrow> script \<Rightarrow> pos list" where
  "object_origin g m sc =
    (case Option.bind (sc_local_id sc) (\<lambda>i. find (\<lambda>ob. ob_local_id ob = i) (md_objects m)) of
       None \<Rightarrow> []
     | Some ob \<Rightarrow> (case Option.bind (object_place ob) (tile_beside g m) of None \<Rightarrow> [] | Some t \<Rightarrow> [t]))"

definition sign_origin :: "graph \<Rightarrow> map_data \<Rightarrow> string \<Rightarrow> pos list" where
  "sign_origin g m label =
    take 1 (List.map_filter (\<lambda>s. tile_beside g m (sg_x s, sg_y s)) (filter (\<lambda>s. sg_script s = Some label) (md_signs m)))"

definition trigger_origin :: "events \<Rightarrow> map_data \<Rightarrow> string \<Rightarrow> (pos list \<times> requirement) option" where
  "trigger_origin ev m label =
    (case find (\<lambda>t. tg_map t = md_name m \<and> tg_script t = Some label) (ev_triggers ev) of
       None \<Rightarrow> Some ([], [])
     | Some t \<Rightarrow> map_option (Pair [(tg_x t, tg_y t)]) (path_requirement (tg_when t)))"

definition frame_of :: "events \<Rightarrow> string \<Rightarrow> string \<Rightarrow> frame_script option" where
  "frame_of ev m label =
    Option.bind (map_of (ev_map_scripts ev) m) (\<lambda>ms. find (\<lambda>f. fs_script f = Some label) (ms_on_frame ms))"

text \<open>A frame's own condition: none where its variable is local, \<open>None\<close> where its value is a symbol.\<close>

definition frame_requirement :: "frame_script \<Rightarrow> requirement option" where
  "frame_requirement f =
    (if is_local_var (fs_var f) then Some []
     else map_option (\<lambda>v. [Var (fs_var f) Eq_Op v]) (as_int (fs_value f)))"

definition add_script :: "atlas \<Rightarrow> events \<Rightarrow> (string \<times> int list) list \<Rightarrow> string \<times> script \<Rightarrow> graph \<Rightarrow> graph" where
  "add_script a ev domains = (\<lambda>(label, sc) g.
    case Option.bind (sc_map sc) (map_named (al_world a)) of
      None \<Rightarrow> g
    | Some m \<Rightarrow>
        let from = (\<lambda>srcs extra g. fold (add_script_warps_from a m label sc extra domains) srcs g) in
        if sc_kind sc = ''object'' then from (object_origin g m sc) [] g
        else if sc_kind sc = ''sign'' then from (sign_origin g m label) [] g
        else if sc_kind sc = ''trigger'' then
          (case trigger_origin ev m label of None \<Rightarrow> g | Some (srcs, extra) \<Rightarrow> from srcs extra g)
        else if sc_kind sc = ''map'' then
          (case frame_of ev (md_name m) label of
             None \<Rightarrow> g
           | Some f \<Rightarrow>
               let g' = add_entry_walks m label sc g in
               (case frame_requirement f of
                  None \<Rightarrow> g'
                | Some extra \<Rightarrow> from (warp_tiles g' (md_name m)) extra g'))
        else g)"

definition add_script_warps :: "atlas \<Rightarrow> events \<Rightarrow> graph \<Rightarrow> graph" where
  "add_script_warps a ev g = fold (add_script a ev (var_domains ev)) (ev_scripts ev) g"

section \<open>Where the escape warp moves\<close>

definition updates_escape :: "graph \<Rightarrow> string \<Rightarrow> string \<Rightarrow> edge_kind \<Rightarrow> bool" where
  "updates_escape g from to kind \<longleftrightarrow>
    (if from = to then False
     else (case (map_of (gr_maps g) from, map_of (gr_maps g) to) of
         (Some a, Some b) \<Rightarrow> mi_sets_escape b \<or>
           (case kind of Warp_Edge \<Rightarrow> True | Script_Edge s \<Rightarrow> True | _ \<Rightarrow> False) \<and> mi_outdoor a \<and> \<not> mi_outdoor b \<and>
             from \<noteq> VIRIDIAN_FOREST
       | _ \<Rightarrow> True))"

definition keeps_escape :: "graph \<Rightarrow> string \<Rightarrow> edge \<Rightarrow> bool" where
  "keeps_escape g from e \<longleftrightarrow>
    (let to = rp_map (ed_to e) in
     to \<noteq> from \<and> \<not> updates_escape g from to (ed_kind e) \<and>
     (case map_of (gr_maps g) to of None \<Rightarrow> False | Some i \<Rightarrow> \<not> mi_outdoor i \<or> mi_allow_escaping i))"

definition insert_link :: "string \<Rightarrow> string \<Rightarrow> (string \<times> string list) list \<Rightarrow> (string \<times> string list) list" where
  "insert_link from to links = AList.update from (List.insert to (entry_of links from)) links"

definition escape_links_of :: "graph \<Rightarrow> (string \<times> string list) list" where
  "escape_links_of g = fold (\<lambda>((from, x, y), es) links.
    fold (\<lambda>e links. if keeps_escape g from e then insert_link from (rp_map (ed_to e)) links else links) es links)
      (gr_edges g) []"

definition link_step :: "string list \<Rightarrow> string list \<times> string list \<Rightarrow> string list \<times> string list" where
  "link_step nexts = fold (\<lambda>n (region, queue). if n \<in> set region then (region, queue) else (n # region, n # queue)) nexts"

definition link_targets :: "(string \<times> string list) list \<Rightarrow> string set" where
  "link_targets links = set (concat (map snd links))"

lemma link_step_sets:
  "link_step nexts (region, queue) = (region', queue') \<Longrightarrow>
    set region' = set region \<union> set nexts \<and> set region' - set region \<subseteq> set queue' \<and>
    set queue \<subseteq> set queue' \<and> set queue' \<subseteq> set queue \<union> set region' \<and>
    (set region' = set region \<longrightarrow> queue' = queue)"
proof (induction nexts arbitrary: region queue)
  case (Cons n nexts)
  show ?case
  proof (cases "n \<in> set region")
    case True
    then have "link_step nexts (region, queue) = (region', queue')" using Cons.prems by (simp add: link_step_def)
    from Cons.IH [OF this] show ?thesis using True by auto
  next
    case False
    then have "link_step nexts (n # region, n # queue) = (region', queue')" using Cons.prems by (simp add: link_step_def)
    from Cons.IH [OF this] show ?thesis using False by auto
  qed
qed (simp add: link_step_def)

lemma entry_targets: "set (entry_of links m) \<subseteq> link_targets links"
proof (cases "map_of links m")
  case (Some ns)
  then have "(m, ns) \<in> set links" by (rule map_of_SomeD)
  then show ?thesis by (force simp: entry_of_def link_targets_def Some)
qed (simp add: entry_of_def)

text \<open>The loop of the region: maps still to expand, the last first.\<close>

function region_loop :: "(string \<times> string list) list \<Rightarrow> string list \<Rightarrow> string list \<Rightarrow> string list" where
  "region_loop links region [] = region"
| "region_loop links region (m # queue) =
    (case link_step (entry_of links m) (region, queue) of (region', queue') \<Rightarrow> region_loop links region' queue')"
  by pat_completeness auto
termination
proof (relation "measures [\<lambda>(links, region, queue). card (link_targets links - set region),
    \<lambda>(links, region, queue). length queue]")
  fix links :: "(string \<times> string list) list" and region queue region' queue' :: "string list" and m
  assume step: "(region', queue') = link_step (entry_of links m) (region, queue)"
  then have s: "link_step (entry_of links m) (region, queue) = (region', queue')" by simp
  note sets = link_step_sets [OF s]
  show "((links, region', queue'), (links, region, m # queue)) \<in> measures [\<lambda>(links, region, queue).
      card (link_targets links - set region), \<lambda>(links, region, queue). length queue]"
  proof (cases "set region' = set region")
    case True
    then show ?thesis using sets by simp
  next
    case False
    have fin: "finite (link_targets links)" by (simp add: link_targets_def)
    have sub: "set region \<subseteq> set region'" using sets by blast
    then obtain n where n: "n \<in> set region'" "n \<notin> set region" using False by blast
    then have "n \<in> link_targets links" using sets entry_targets [of links m] by blast
    then have "link_targets links - set region' \<subset> link_targets links - set region" using n sub by blast
    then show ?thesis using fin by (simp add: psubset_card_mono)
  qed
qed simp

definition escape_region :: "graph \<Rightarrow> string \<Rightarrow> string list" where
  "escape_region g entered = region_loop (gr_escape_links g) [entered] [entered]"

section \<open>Building the graph\<close>

definition empty_graph :: "atlas \<Rightarrow> route_params \<Rightarrow> graph" where
  "empty_graph a params = \<lparr>gr_params = params, gr_places = [], gr_by_map = [], gr_edges = [], gr_fly_spots = [],
    gr_fly_flags = [], gr_maps = [], gr_gates = derive_gates (al_events a) (al_world a), gr_relevant = [],
    gr_relevant_vars = [], gr_intercepted = [], gr_escape_links = [],
    gr_dark = map md_name (filter md_requires_flash (map snd (wo_maps (al_world a))))\<rparr>"

definition sorted_maps :: "atlas \<Rightarrow> map_data list" where
  "sorted_maps a = sort_key md_name (map snd (wo_maps (al_world a)))"

fun sets_flag :: "string \<Rightarrow> effect \<Rightarrow> bool" where
  "sets_flag flag (Set_Eff f) = (f = flag)"
| "sets_flag flag _ = False"

text \<open>A flag the spot's own map sets on entry is its visit.\<close>

definition own_flag :: "atlas \<Rightarrow> fly_spot \<Rightarrow> bool" where
  "own_flag a f = (case al_events a of
     None \<Rightarrow> True
   | Some ev \<Rightarrow> list_ex (\<lambda>(label, s). sc_map s = Some (fy_map f) \<and>
       list_ex (\<lambda>p. list_ex (sets_flag (fy_flag f)) (pt_does p)) (sc_paths s)) (ev_scripts ev))"

definition add_fly_spot :: "atlas \<Rightarrow> fly_spot \<Rightarrow> graph \<Rightarrow> graph" where
  "add_fly_spot a f g =
    (if map_named (al_world a) (fy_map f) = None then g
     else (case add_place (fy_map f) (fy_x f) (fy_y f) Fly_Place g of (p, g) \<Rightarrow>
       g\<lparr>gr_fly_spots := gr_fly_spots g @ [p],
         gr_fly_flags := (if own_flag a f then gr_fly_flags g else AList.update (fy_map f) (fy_flag f) (gr_fly_flags g))\<rparr>))"

definition add_heal_spot :: "atlas \<Rightarrow> heal_place \<Rightarrow> graph \<Rightarrow> graph" where
  "add_heal_spot a h g =
    (if map_named (al_world a) (he_map h) = None then g else snd (add_place (he_map h) (he_x h) (he_y h) Heal_Place g))"

definition add_field_gate :: "atlas \<Rightarrow> field_gate \<Rightarrow> graph \<Rightarrow> graph" where
  "add_field_gate a f g = (case map_named (al_world a) (fg_map f) of None \<Rightarrow> g | Some m \<Rightarrow> add_gate m f g)"

definition add_named_places :: "atlas \<Rightarrow> graph \<Rightarrow> graph" where
  "add_named_places a g = (case al_places a of
     None \<Rightarrow> g
   | Some ps \<Rightarrow>
       let g = fold (add_fly_spot a) (ps_fly_spots ps) g;
           g = g\<lparr>gr_fly_spots := sort_key place_order (gr_fly_spots g)\<rparr>;
           g = fold (add_heal_spot a) (ps_heal_spots ps) g in
       fold (add_field_gate a) (ps_gates ps) g)"

text \<open>A script run on every load of a map all of whose paths fight or warp: the map takes the player over.\<close>

definition takes_over :: "events \<Rightarrow> frame_script \<Rightarrow> bool" where
  "takes_over ev f \<longleftrightarrow> is_local_var (fs_var f) \<and> as_int (fs_value f) = Some 0 \<and>
    (case Option.bind (fs_script f) (script_named ev) of
       None \<Rightarrow> False
     | Some s \<Rightarrow> sc_paths s \<noteq> [] \<and>
         list_all (\<lambda>p. list_ex (\<lambda>e. is_warp_eff e \<or> is_battle e) (pt_does p)) (sc_paths s))"

definition intercepted_maps :: "events \<Rightarrow> string list" where
  "intercepted_maps ev = map fst (filter (\<lambda>(m, ms). list_ex (takes_over ev) (ms_on_frame ms)) (ev_map_scripts ev))"

definition edge_order :: "edge \<Rightarrow> (nat \<times> nat \<times> bool \<times> string) \<times> (string \<times> int \<times> int \<times> nat) \<times> requirement" where
  "edge_order e = (edge_kind_order (ed_kind e), place_order (ed_to e), ed_requires e)"

definition same_edge :: "edge \<Rightarrow> edge \<Rightarrow> bool" where
  "same_edge a b \<longleftrightarrow> ed_kind a = ed_kind b \<and> ed_to a = ed_to b \<and> ed_requires a = ed_requires b"

fun dedup_edges :: "edge list \<Rightarrow> edge list" where
  "dedup_edges (a # b # es) = (if same_edge b a then dedup_edges (a # es) else a # dedup_edges (b # es))"
| "dedup_edges es = es"

definition sort_edges :: "graph \<Rightarrow> graph" where
  "sort_edges g = g\<lparr>gr_edges := map (\<lambda>(k, es). (k, dedup_edges (sort_key edge_order es))) (gr_edges g)\<rparr>"

definition relevant_of :: "graph \<Rightarrow> requirement" where
  "relevant_of g = sorted_requirement (surf_requirement @ dig_requirement @ escape_rope_requirement @
    concat (map (\<lambda>s. fly_requirement_of g (rp_map s)) (gr_fly_spots g)) @
    concat (map ed_requires (concat (map snd (gr_edges g)))) @
    concat (map (\<lambda>(m, i). way_requirements (mi_blockers i) @ way_requirements (mi_openable i)) (gr_maps g)))"

definition finish_graph :: "graph \<Rightarrow> graph" where
  "finish_graph g =
    (let g = sort_edges g;
         g = g\<lparr>gr_escape_links := escape_links_of g\<rparr>;
         relevant = relevant_of g in
     g\<lparr>gr_relevant := relevant, gr_relevant_vars := remdups (map fst (List.map_filter var_cmp relevant))\<rparr>)"

definition build_graph :: "atlas \<Rightarrow> route_params \<Rightarrow> graph" where
  "build_graph a params =
    (let g = empty_graph a params;
         g = g\<lparr>gr_maps := map (\<lambda>m. (md_name m, map_info_of params a (gr_gates g) m)) (sorted_maps a)\<rparr>;
         g = fold (\<lambda>m g. add_connections a m (add_warps a m g)) (sorted_maps a) g;
         g = add_named_places a g;
         g = (case al_events a of
                None \<Rightarrow> g
              | Some ev \<Rightarrow> (add_script_warps a ev g)\<lparr>gr_intercepted := intercepted_maps ev\<rparr>) in
     finish_graph g)"

text \<open>Whether a route can depend on a predicate.\<close>

definition route_relevant :: "graph \<Rightarrow> predicate \<Rightarrow> bool" where
  "route_relevant g p = (case p of
     Var name op v \<Rightarrow> name \<in> set (gr_relevant_vars g)
   | Has_Item i n \<Rightarrow> list_ex (\<lambda>q. case q of Has_Item j k \<Rightarrow> j = i | _ \<Rightarrow> False) (gr_relevant g)
   | Flag name is_set \<Rightarrow> p \<in> set (gr_relevant g) \<or> Flag name (\<not> is_set) \<in> set (gr_relevant g) \<or>
       from_flag name True \<noteq> p \<and> from_flag name True \<in> set (gr_relevant g)
   | _ \<Rightarrow> p \<in> set (gr_relevant g))"

section \<open>Variables no value is known for\<close>

lemma domains_hold:
  "map_of al x = Some vs \<Longrightarrow> \<exists>ws. set vs \<subseteq> set ws \<and> map_of (fold (\<lambda>(var, v) out.
      AList.update var (case map_of out var of None \<Rightarrow> [0, v] | Some vs \<Rightarrow> vs @ [v]) out) us al) x = Some ws"
proof (induction us arbitrary: al vs)
  case (Cons u us)
  obtain var v where u: "u = (var, v)" by (cases u)
  define al' where "al' = AList.update var (case map_of al var of None \<Rightarrow> [0, v] | Some vs \<Rightarrow> vs @ [v]) al"
  have "map_of al' x = Some (if var = x then vs @ [v] else vs)"
    using Cons.prems by (auto simp: al'_def update_conv')
  from Cons.IH [OF this] show ?case by (auto simp: u al'_def split: if_splits)
qed simp

text \<open>Where some script adds to a variable, or sets it from a symbol, no other value than 0 is thought possible: a path
  that asks for one is left out of the graph.\<close>

lemma added_to_taken_as_zero:
  assumes script: "(label, s) \<in> set (ev_scripts ev)" "p \<in> set (sc_paths s)" "Var_Eff x change \<in> set (pt_does p)"
    and added: "Option.bind (vc_eq change) as_int = None" and v: "v \<noteq> 0"
  shows "never_runs (var_domains ev) [Var x Eq_Op v]"
proof -
  let ?f = "\<lambda>(var, v) out. AList.update var (case map_of out var of None \<Rightarrow> [0, v] | Some vs \<Rightarrow> vs @ [v]) out"
  define us where "us = List.map_filter var_value (concat (map pt_does (concat (map (sc_paths \<circ> snd) (ev_scripts ev)))))"
  have "(x, ANY_VALUE) \<in> set us"
    using script added unfolding us_def set_map_filter_iff by (force intro!: bexI [of _ "Var_Eff x change"])
  then obtain before after where us: "us = before @ (x, ANY_VALUE) # after" by (meson split_list)
  define al where "al = ?f (x, ANY_VALUE) (fold ?f before [])"
  obtain vs where vs: "map_of al x = Some vs" "ANY_VALUE \<in> set vs"
    by (auto simp: al_def update_conv' split: option.splits)
  obtain ws where "set vs \<subseteq> set ws" "map_of (fold ?f after al) x = Some ws" using domains_hold [OF vs(1)] by blast
  then have "domain_of (var_domains ev) x = [0]"
    using vs(2) by (auto simp: var_domains_def domain_of_def us_def [symmetric] us al_def)
  then show ?thesis using v by (simp add: never_runs_def List.map_filter_def)
qed

end
