(* ===== verification/Route_Search.thy ===== *)
theory Route_Search
  imports Walk_Path Route_Scripts Belief_View
begin

text \<open>
  The search for a route (crates/world/src/route.rs, from the terrain of a map on): which tiles of a map a belief
  lets the player cross, the walks between places, and the cheapest-first search over places with its edges,
  penalties for what is assumed, and alternatives that lack something. The caches of the code, which only keep
  what was computed, are left out; \<open>terrain_from_codes\<close> shows that what terrains are cached by determines them.
  The open set is the list its heap holds.
\<close>

datatype unknown_policy = Pessimistic | Optimistic "predicate \<Rightarrow> f64"

datatype pass = Open_Pass | Forbid "predicate list"

fun allows_unmet :: "pass \<Rightarrow> predicate list \<Rightarrow> bool" where
  "allows_unmet Open_Pass unmet = (unmet = [])"
| "allows_unmet (Forbid f) unmet = (\<not> list_ex (\<lambda>p. p \<in> set f) unmet)"

text \<open>What an edge lacks under a policy.\<close>

definition unmet_of :: "check \<Rightarrow> unknown_policy \<Rightarrow> predicate list" where
  "unmet_of c policy = sorted_requirement (ck_failed c @
    (case policy of
       Pessimistic \<Rightarrow> ck_unknown c
     | Optimistic penalty \<Rightarrow> filter (\<lambda>p. \<not> is_finite (penalty p)) (ck_unknown c)))"

section \<open>Terrain\<close>

record terrain =
  te_obstacles :: "pos set"
  te_opened :: "pos set"
  te_passable :: "(pos \<times> way) list"

text \<open>The way that lacks the least, then the cheapest; a way that holds asks for nothing, and past a blocker
  costs nothing.\<close>

definition offer_way :: "bool \<Rightarrow> (predicate \<Rightarrow> truth) \<Rightarrow> unknown_policy \<Rightarrow> pass \<Rightarrow> way \<Rightarrow> (nat \<times> way) option
    \<Rightarrow> (nat \<times> way) option" where
  "offer_way free eval policy pass w best =
    (let c = check eval (wy_requires w); unmet = unmet_of c policy in
     if \<not> allows_unmet pass unmet then best
     else
       let held = (check_truth c = Truth_True);
           cost = (if held \<and> free then Fin 0 else wy_cost w);
           better = (case best of
               None \<Rightarrow> True
             | Some (n, b) \<Rightarrow> length unmet < n \<or> length unmet = n \<and> f_lt cost (wy_cost b)) in
       if better then Some (length unmet, \<lparr>wy_requires = (if held then [] else wy_requires w), wy_cost = cost\<rparr>)
       else best)"

definition best_way :: "bool \<Rightarrow> (predicate \<Rightarrow> truth) \<Rightarrow> unknown_policy \<Rightarrow> pass \<Rightarrow> way list \<Rightarrow> way option" where
  "best_way free eval policy pass ways = map_option snd (fold (offer_way free eval policy pass) ways None)"

definition terrain_of :: "map_info \<Rightarrow> (predicate \<Rightarrow> truth) \<Rightarrow> unknown_policy \<Rightarrow> pass \<Rightarrow> terrain" where
  "terrain_of info eval policy pass =
    (let past = map (\<lambda>(t, ways). (t, best_way True eval policy pass ways)) (mi_blockers info);
         doors = map (\<lambda>(t, ways). (t, best_way False eval policy pass ways)) (mi_openable info);
         chosen = List.map_filter (\<lambda>(t, w). map_option (Pair t) w) in
     \<lparr>te_obstacles = mi_walls info \<union> set (map fst (filter (\<lambda>(t, w). w = None) past)),
      te_opened = set (map fst (chosen doors)),
      te_passable = chosen doors @ chosen past\<rparr>)"

text \<open>How a predicate stands for a search: what the cache of terrains is keyed by.\<close>

definition standing :: "(predicate \<Rightarrow> truth) \<Rightarrow> unknown_policy \<Rightarrow> pass \<Rightarrow> predicate \<Rightarrow> nat" where
  "standing eval policy pass p =
    (let c = check eval [p]; unmet = unmet_of c policy in
     if check_truth c = Truth_True then 0 else if unmet = [] then 1 else if allows_unmet pass unmet then 3 else 2)"

definition terrain_codes :: "map_info \<Rightarrow> (predicate \<Rightarrow> truth) \<Rightarrow> unknown_policy \<Rightarrow> pass \<Rightarrow> nat list" where
  "terrain_codes info eval policy pass = map (standing eval policy pass) (mi_relevant info)"

section \<open>Walks on a map\<close>

definition way_penalty :: "route_params \<Rightarrow> terrain \<Rightarrow> pos \<Rightarrow> int" where
  "way_penalty params terr t = (case map_of (te_passable terr) t of
     None \<Rightarrow> 0
   | Some w \<Rightarrow> if wy_requires w = [] then 0 else max 1 (f_round_i32 (f_div (wy_cost w) (pa_tile_s params))))"

definition flood_extra :: "route_params \<Rightarrow> map_info \<Rightarrow> terrain \<Rightarrow> map_data \<Rightarrow> pos \<Rightarrow> int" where
  "flood_extra params info terr m t =
    (if t \<in> mi_wander info then to_i32 (int (pa_wander_penalty params)) else 0) +
    (if tile_is m t (\<lambda>t. is_water (tl_behavior t)) then 1 else 0) + way_penalty params terr t"

definition terrain_walk :: "terrain \<Rightarrow> bool \<Rightarrow> walk" where
  "terrain_walk terr surf = \<lparr>wk_obstacles = te_obstacles terr, wk_surf = surf, wk_opened = Some (te_opened terr)\<rparr>"

text \<open>The flood always returns (\<open>reach_exact\<close>); the other branch is never taken.\<close>

definition flood :: "route_params \<Rightarrow> map_info \<Rightarrow> terrain \<Rightarrow> map_data \<Rightarrow> pos \<Rightarrow> bool \<Rightarrow> reach" where
  "flood params info terr m from surf =
    (case reach_from m from (terrain_walk terr surf) (flood_extra params info terr m) of
       Some r \<Rightarrow> r
     | None \<Rightarrow> \<lparr>rc_start = from, rc_came = Map.empty, rc_cost = Map.empty\<rparr>)"

definition step_len :: "pos \<Rightarrow> pos \<Rightarrow> nat" where
  "step_len from to = nat (\<bar>fst to - fst from\<bar> + \<bar>snd to - snd from\<bar>)"

fun path_tiles :: "pos \<Rightarrow> pos list \<Rightarrow> nat" where
  "path_tiles prev [] = 0"
| "path_tiles prev (t # ts) = step_len prev t + path_tiles t ts"

definition ways_crossed :: "terrain \<Rightarrow> pos list \<Rightarrow> way list" where
  "ways_crossed terr ts = List.map_filter (map_of (te_passable terr)) ts"

definition walk_edge :: "route_params \<Rightarrow> map_info \<Rightarrow> terrain \<Rightarrow> map_data \<Rightarrow> pos \<Rightarrow> reach \<Rightarrow> place \<Rightarrow> edge option" where
  "walk_edge params info terr m from r to =
    (case reach_path r (rp_x to, rp_y to) of
       Some (Some steps) \<Rightarrow>
         if steps = [] then None
         else
           let ts = map sp_to steps;
               tiles = path_tiles from ts;
               wander = length (filter (\<lambda>t. t \<in> mi_wander info) ts);
               surf = list_ex (\<lambda>t. tile_is m t (\<lambda>t. is_water (tl_behavior t))) ts;
               ways = ways_crossed terr ts;
               ways_s = fold (\<lambda>w s. f_add s (wy_cost w)) ways (Fin 0) in
           Some \<lparr>ed_to = to, ed_kind = Walk_Edge tiles surf,
             ed_cost = f_add (f_add (f_mul (f_of_nat (tiles + wander * pa_wander_penalty params)) (pa_tile_s params))
               (if surf then pa_surf_s params else Fin 0)) ways_s,
             ed_requires = sorted_requirement (concat (map wy_requires ways) @
               (if surf then surf_requirement_on (md_name m) else []))\<rparr>
     | _ \<Rightarrow> None)"

section \<open>The search\<close>

datatype goal =
  Goal_Place place
| Goal_Map string
| Goal_Maps "string list"
| Goal_Nowhere
| Goal_Tiles "place list"

fun goal_reached :: "goal \<Rightarrow> place_key \<Rightarrow> bool" where
  "goal_reached (Goal_Place p) k = (k = key_of p)"
| "goal_reached (Goal_Map m) k = (fst k = m)"
| "goal_reached (Goal_Maps ms) k = (fst k \<in> set ms)"
| "goal_reached Goal_Nowhere k = False"
| "goal_reached (Goal_Tiles ts) k = list_ex (\<lambda>p. k = key_of p) ts"

fun goal_tiles :: "goal \<Rightarrow> place list" where
  "goal_tiles (Goal_Place p) = [p]"
| "goal_tiles (Goal_Tiles ts) = ts"
| "goal_tiles _ = []"

text \<open>What one search is about.\<close>

record query =
  qy_atlas :: atlas
  qy_graph :: graph
  qy_eval :: "predicate \<Rightarrow> truth"
  qy_escape :: "escape_warp option"
  qy_start :: place
  qy_goal :: goal
  qy_policy :: unknown_policy
  qy_pass :: pass

definition lacks :: "query \<Rightarrow> requirement \<Rightarrow> predicate list" where
  "lacks q r = unmet_of (check (qy_eval q) r) (qy_policy q)"

definition query_terrain :: "query \<Rightarrow> string \<Rightarrow> terrain" where
  "query_terrain q m = terrain_of (info_of (qy_graph q) m) (qy_eval q) (qy_policy q) (qy_pass q)"

definition surf_ok :: "query \<Rightarrow> bool" where
  "surf_ok q \<longleftrightarrow> allows_unmet (qy_pass q) (lacks q surf_requirement)"

text \<open>Where Dig and the Escape Rope lead from the start, and the edges the belief has the means for.\<close>

definition escape_place :: "query \<Rightarrow> place option" where
  "escape_place q =
    (case qy_escape q of
       None \<Rightarrow> None
     | Some e \<Rightarrow>
         if map_named (al_world (qy_atlas q)) (ew_map e) = None \<or>
            rp_map (qy_start q) \<notin> set (escape_region (qy_graph q) (ew_entered e)) then None
         else Some \<lparr>rp_map = ew_map e, rp_x = ew_x e, rp_y = ew_y e, rp_kind = Escape_Place\<rparr>)"

definition escape_edges :: "query \<Rightarrow> edge list" where
  "escape_edges q =
    (case escape_place q of
       None \<Rightarrow> []
     | Some to \<Rightarrow> map (\<lambda>(kind, r, cost). \<lparr>ed_to = to, ed_kind = kind, ed_cost = cost, ed_requires = r\<rparr>)
         (filter (\<lambda>(kind, r, cost). check_truth (check (qy_eval q) r) = Truth_True)
           [(Dig_Edge, dig_requirement, pa_dig_s (gr_params (qy_graph q))),
            (Rope_Edge, escape_rope_requirement, pa_rope_s (gr_params (qy_graph q)))]))"

text \<open>Somewhere never visited, or unlikely to have been, is never flown to.\<close>

definition never_flown :: "query \<Rightarrow> place \<Rightarrow> bool" where
  "never_flown q spot =
    (let lit = fly_lit (qy_graph q) (rp_map spot) in
     case qy_eval q lit of
       Truth_False \<Rightarrow> True
     | Truth_Unknown \<Rightarrow> (case qy_policy q of Optimistic penalty \<Rightarrow> \<not> is_finite (penalty lit) | Pessimistic \<Rightarrow> False)
     | Truth_True \<Rightarrow> False)"

definition flights :: "query \<Rightarrow> edge list" where
  "flights q = map (\<lambda>spot. \<lparr>ed_to = spot, ed_kind = Fly_Edge, ed_cost = pa_fly_s (gr_params (qy_graph q)),
      ed_requires = fly_requirement_of (qy_graph q) (rp_map spot)\<rparr>)
    (filter (\<lambda>spot. \<not> never_flown q spot \<and>
        allows_unmet (qy_pass q) (lacks q (fly_requirement_of (qy_graph q) (rp_map spot))))
      (gr_fly_spots (qy_graph q)))"

text \<open>The place a key stands for, where the search can go on from it.\<close>

definition stand :: "query \<Rightarrow> place_key \<Rightarrow> (place \<times> map_data \<times> map_info) option" where
  "stand q k =
    Option.bind
      (case map_of (gr_places (qy_graph q)) k of
         Some p \<Rightarrow> Some p
       | None \<Rightarrow>
           if k = key_of (qy_start q) then Some (qy_start q)
           else (case escape_place q of Some p \<Rightarrow> if key_of p = k then Some p else None | None \<Rightarrow> None))
      (\<lambda>here. case (map_named (al_world (qy_atlas q)) (rp_map here), map_of (gr_maps (qy_graph q)) (rp_map here)) of
         (Some m, Some info) \<Rightarrow> Some (here, m, info)
       | _ \<Rightarrow> None)"

definition taken_over :: "query \<Rightarrow> place \<Rightarrow> place_key \<Rightarrow> bool" where
  "taken_over q here k \<longleftrightarrow> rp_map here \<in> set (gr_intercepted (qy_graph q)) \<and> k \<noteq> key_of (qy_start q)"

definition walk_targets :: "query \<Rightarrow> place \<Rightarrow> place_key \<Rightarrow> place list" where
  "walk_targets q here k =
    filter (\<lambda>t. key_of t \<noteq> k) (places_on (qy_graph q) (rp_map here)) @
    filter (\<lambda>t. rp_map t = rp_map here \<and> map_of (gr_places (qy_graph q)) (key_of t) = None \<and> key_of t \<noteq> k)
      (goal_tiles (qy_goal q))"

text \<open>The edges out of a place but the escapes: walks, then those of the graph, then flights.\<close>

definition out_edges :: "query \<Rightarrow> place_key \<Rightarrow> edge list" where
  "out_edges q k =
    (case stand q k of
       None \<Rightarrow> []
     | Some (here, m, info) \<Rightarrow>
         if taken_over q here k then filter (\<lambda>e. rp_map (ed_to e) \<noteq> rp_map here) (edges_from (qy_graph q) (key_of here))
         else
           let params = gr_params (qy_graph q); terr = query_terrain q (rp_map here);
               from = (rp_x here, rp_y here); r = flood params info terr m from (surf_ok q) in
           List.map_filter (walk_edge params info terr m from r) (walk_targets q here k) @
           edges_from (qy_graph q) (key_of here) @
           (if mi_outdoor info then filter (\<lambda>e. key_of (ed_to e) \<noteq> k) (flights q) else []))"

record search_state =
  rs_dist :: "place_key \<rightharpoonup> f64"
  rs_came :: "place_key \<rightharpoonup> place_key \<times> leg \<times> predicate list \<times> predicate list"
  rs_done :: "place_key set"
  rs_open :: "(f64 \<times> place_key) list"
  rs_kept :: "place_key \<rightharpoonup> bool"

text \<open>What an edge lacks, what it assumes, and the penalty for that; \<open>None\<close> where the pass forbids it.\<close>

definition priced :: "query \<Rightarrow> requirement \<Rightarrow> (predicate list \<times> predicate list \<times> f64) option" where
  "priced q r =
    (if r = [] then Some ([], [], Fin 0)
     else if \<not> allows_unmet (qy_pass q) (lacks q r) then None
     else
       let assumed = (case qy_policy q of
             Pessimistic \<Rightarrow> []
           | Optimistic penalty \<Rightarrow> filter (\<lambda>p. is_finite (penalty p)) (ck_unknown (check (qy_eval q) r)));
           cost = (case qy_policy q of
             Pessimistic \<Rightarrow> Fin 0
           | Optimistic penalty \<Rightarrow> fold (\<lambda>p s. f_add s (penalty p)) assumed (Fin 0)) in
       Some (lacks q r, assumed, cost))"

definition better_way :: "search_state \<Rightarrow> place_key \<Rightarrow> f64 \<Rightarrow> edge_kind \<Rightarrow> bool" where
  "better_way st k ng kind =
    (case rs_dist st k of
       None \<Rightarrow> True
     | Some old \<Rightarrow> f_lt ng old \<or> f_eq ng old \<and>
         (case rs_came st k of
            None \<Rightarrow> False
          | Some (prev, leg, assumed, unmet) \<Rightarrow> edge_kind_order kind < edge_kind_order (lg_kind leg)))"

definition leg_of :: "place \<Rightarrow> edge \<Rightarrow> leg" where
  "leg_of from e = \<lparr>lg_from = from, lg_to = ed_to e, lg_kind = ed_kind e, lg_cost = ed_cost e, lg_requires = ed_requires e\<rparr>"

definition relax_edge :: "query \<Rightarrow> place \<Rightarrow> f64 \<Rightarrow> edge \<Rightarrow> search_state \<Rightarrow> search_state" where
  "relax_edge q from g e st =
    (case priced q (ed_requires e) of
       None \<Rightarrow> st
     | Some (unmet, assumed, penalty) \<Rightarrow>
         let ng = f_add (f_add g (ed_cost e)) penalty; k = key_of (ed_to e) in
         if better_way st k ng (ed_kind e) then
           st\<lparr>rs_dist := (rs_dist st)(k \<mapsto> ng),
              rs_came := (rs_came st)(k \<mapsto> (key_of from, leg_of from e, assumed, unmet)),
              rs_open := (ng, k) # rs_open st,
              rs_kept := (if escape_edges q = [] then rs_kept st
                else (rs_kept st)(k \<mapsto> rs_kept st (key_of from) = Some True \<and>
                  \<not> updates_escape (qy_graph q) (rp_map from) (rp_map (ed_to e)) (ed_kind e)))\<rparr>
         else st)"

definition relax_all :: "query \<Rightarrow> place \<Rightarrow> f64 \<Rightarrow> edge list \<Rightarrow> search_state \<Rightarrow> search_state" where
  "relax_all q from g es st = fold (relax_edge q from g) (filter (\<lambda>e. key_of (ed_to e) \<notin> rs_done st) es) st"

definition escapes_from :: "query \<Rightarrow> place \<Rightarrow> map_info \<Rightarrow> place_key \<Rightarrow> search_state \<Rightarrow> edge list" where
  "escapes_from q here info k st =
    (if \<not> taken_over q here k \<and> mi_allow_escaping info \<and> rs_kept st k = Some True
     then filter (\<lambda>e. key_of (ed_to e) \<noteq> k) (escape_edges q) else [])"

definition expand :: "query \<Rightarrow> f64 \<Rightarrow> place_key \<Rightarrow> search_state \<Rightarrow> search_state" where
  "expand q g k st =
    (case stand q k of
       None \<Rightarrow> st
     | Some (here, m, info) \<Rightarrow>
         let st' = relax_all q here g (out_edges q k) st in
         relax_all q here g (escapes_from q here info k st') st')"

partial_function (option) route_loop :: "query \<Rightarrow> search_state \<Rightarrow> (place_key option \<times> search_state) option" where
  "route_loop q st =
    (if rs_open st = [] then Some (None, st)
     else
       let top = Min (set (rs_open st)); k = snd top;
           st' = st\<lparr>rs_open := remove1 top (rs_open st)\<rparr> in
       if k \<in> rs_done st then route_loop q st'
       else if goal_reached (qy_goal q) k then Some (Some k, st')
       else route_loop q (expand q (fst top) k (st'\<lparr>rs_done := insert k (rs_done st)\<rparr>)))"

definition begin_route :: "query \<Rightarrow> search_state" where
  "begin_route q = \<lparr>rs_dist = [key_of (qy_start q) \<mapsto> Fin 0], rs_came = Map.empty, rs_done = {},
    rs_open = [(Fin 0, key_of (qy_start q))], rs_kept = [key_of (qy_start q) \<mapsto> True]\<rparr>"

section \<open>The route found\<close>

record found =
  fo_legs :: "leg list"
  fo_cost :: f64
  fo_assumes :: "predicate list"
  fo_unmet :: "predicate list"

partial_function (option) trace_back :: "(place_key \<rightharpoonup> place_key \<times> leg \<times> predicate list \<times> predicate list)
    \<Rightarrow> place_key \<Rightarrow> (leg \<times> predicate list \<times> predicate list) list
    \<Rightarrow> (leg \<times> predicate list \<times> predicate list) list option" where
  "trace_back came k acc =
    (case came k of None \<Rightarrow> Some acc | Some (prev, x) \<Rightarrow> trace_back came prev (x # acc))"

text \<open>Walks through intermediate places of one map become one leg.\<close>

definition joined_walk :: "leg \<Rightarrow> leg \<Rightarrow> leg option" where
  "joined_walk a b =
    (case (lg_kind a, lg_kind b) of
       (Walk_Edge t0 s0, Walk_Edge tiles surf) \<Rightarrow>
         if rp_map (lg_to a) = rp_map (lg_from b)
         then Some (a\<lparr>lg_kind := Walk_Edge (t0 + tiles) (s0 \<or> surf), lg_to := lg_to b,
             lg_cost := f_add (lg_cost a) (lg_cost b),
             lg_requires := fold (\<lambda>p r. if p \<in> set r then r else r @ [p]) (lg_requires b) (lg_requires a)\<rparr>)
         else None
     | _ \<Rightarrow> None)"

definition push_leg :: "leg \<Rightarrow> leg list \<Rightarrow> leg list" where
  "push_leg b out =
    (if out = [] then [b]
     else (case joined_walk (last out) b of Some j \<Rightarrow> butlast out @ [j] | None \<Rightarrow> out @ [b]))"

definition coalesce_walks :: "leg list \<Rightarrow> leg list" where
  "coalesce_walks legs = fold push_leg legs []"

text \<open>The outer option is whether the loops end, the inner one what the code returns.\<close>

definition route_search :: "query \<Rightarrow> found option option" where
  "route_search q =
    (case route_loop q (begin_route q) of
       None \<Rightarrow> None
     | Some (None, st) \<Rightarrow> Some None
     | Some (Some k, st) \<Rightarrow>
         (case rs_dist st k of
            None \<Rightarrow> Some None
          | Some cost \<Rightarrow> map_option (\<lambda>ls. Some \<lparr>fo_legs = coalesce_walks (map fst ls), fo_cost = cost,
              fo_assumes = sorted_requirement (concat (map (fst \<circ> snd) ls)),
              fo_unmet = sorted_requirement (concat (map (snd \<circ> snd) ls))\<rparr>) (trace_back (rs_came st) k [])))"

section \<open>Routes and their alternatives\<close>

record route_result =
  rr_legs :: "leg list"
  rr_cost :: f64
  rr_assumes :: "predicate list"
  rr_blocked :: "(predicate list \<times> f64) list"

definition route_found :: "route_result \<Rightarrow> bool" where
  "route_found r \<longleftrightarrow> is_finite (rr_cost r)"

definition MAX_BLOCKED_SETS :: nat where "MAX_BLOCKED_SETS = 8"

text \<open>Up to so many more alternatives cheaper than the open route, each avoiding what the ones before lack.\<close>

fun blocked_routes :: "nat \<Rightarrow> query \<Rightarrow> f64 \<Rightarrow> predicate list \<Rightarrow> (predicate list \<times> f64) list option" where
  "blocked_routes 0 q open_cost forbidden = Some []"
| "blocked_routes (Suc n) q open_cost forbidden =
    (case route_search (q\<lparr>qy_pass := Forbid forbidden\<rparr>) of
       None \<Rightarrow> None
     | Some None \<Rightarrow> Some []
     | Some (Some alt) \<Rightarrow>
         if fo_unmet alt = [] \<or> f_le open_cost (fo_cost alt) then Some []
         else map_option (Cons (fo_unmet alt, fo_cost alt)) (blocked_routes n q open_cost (forbidden @ fo_unmet alt)))"

definition plan_with :: "query \<Rightarrow> bool \<Rightarrow> route_result option" where
  "plan_with q with_blocked =
    (case route_search (q\<lparr>qy_pass := Open_Pass\<rparr>) of
       None \<Rightarrow> None
     | Some f \<Rightarrow>
         let open_cost = (case f of None \<Rightarrow> Inf | Some f \<Rightarrow> fo_cost f) in
         map_option (\<lambda>blocked. case f of
             Some f \<Rightarrow> \<lparr>rr_legs = fo_legs f, rr_cost = fo_cost f, rr_assumes = fo_assumes f, rr_blocked = blocked\<rparr>
           | None \<Rightarrow> \<lparr>rr_legs = [], rr_cost = Inf, rr_assumes = [], rr_blocked = blocked\<rparr>)
           (if with_blocked then blocked_routes MAX_BLOCKED_SETS q open_cost [] else Some []))"

definition query_of :: "atlas \<Rightarrow> graph \<Rightarrow> (predicate \<Rightarrow> truth) \<Rightarrow> escape_warp option \<Rightarrow> player_pose \<Rightarrow> goal
    \<Rightarrow> unknown_policy \<Rightarrow> query" where
  "query_of a g eval escape from goal policy = \<lparr>qy_atlas = a, qy_graph = g, qy_eval = eval, qy_escape = escape,
    qy_start = place_of_pose from, qy_goal = goal, qy_policy = policy, qy_pass = Open_Pass\<rparr>"

definition route :: "atlas \<Rightarrow> graph \<Rightarrow> (predicate \<Rightarrow> truth) \<Rightarrow> escape_warp option \<Rightarrow> player_pose \<Rightarrow> place
    \<Rightarrow> unknown_policy \<Rightarrow> route_result option" where
  "route a g eval escape from to policy = plan_with (query_of a g eval escape from (Goal_Place to) policy) True"

definition route_to_map :: "atlas \<Rightarrow> graph \<Rightarrow> (predicate \<Rightarrow> truth) \<Rightarrow> escape_warp option \<Rightarrow> player_pose \<Rightarrow> string
    \<Rightarrow> unknown_policy \<Rightarrow> route_result option" where
  "route_to_map a g eval escape from m policy = plan_with (query_of a g eval escape from (Goal_Map m) policy) True"

definition open_route_to_map :: "atlas \<Rightarrow> graph \<Rightarrow> (predicate \<Rightarrow> truth) \<Rightarrow> escape_warp option \<Rightarrow> player_pose \<Rightarrow> string
    \<Rightarrow> unknown_policy \<Rightarrow> route_result option" where
  "open_route_to_map a g eval escape from m policy = plan_with (query_of a g eval escape from (Goal_Map m) policy) False"

definition open_route_to_tiles :: "atlas \<Rightarrow> graph \<Rightarrow> (predicate \<Rightarrow> truth) \<Rightarrow> escape_warp option \<Rightarrow> player_pose \<Rightarrow> string
    \<Rightarrow> pos list \<Rightarrow> unknown_policy \<Rightarrow> route_result option" where
  "open_route_to_tiles a g eval escape from m tiles policy =
    plan_with (query_of a g eval escape from (Goal_Tiles (map (\<lambda>(x, y). tile_place m x y) tiles)) policy) False"

definition open_route_to_any_map :: "atlas \<Rightarrow> graph \<Rightarrow> (predicate \<Rightarrow> truth) \<Rightarrow> escape_warp option \<Rightarrow> player_pose
    \<Rightarrow> string list \<Rightarrow> unknown_policy \<Rightarrow> route_result option" where
  "open_route_to_any_map a g eval escape from ms policy =
    plan_with (query_of a g eval escape from (Goal_Maps ms) policy) False"

definition open_route :: "atlas \<Rightarrow> graph \<Rightarrow> (predicate \<Rightarrow> truth) \<Rightarrow> escape_warp option \<Rightarrow> player_pose \<Rightarrow> place
    \<Rightarrow> unknown_policy \<Rightarrow> route_result option" where
  "open_route a g eval escape from to policy = plan_with (query_of a g eval escape from (Goal_Place to) policy) False"

section \<open>What can be reached\<close>

definition explore :: "query \<Rightarrow> search_state option" where
  "explore q = map_option snd (route_loop q (begin_route q))"

definition settled_keys :: "query \<Rightarrow> search_state \<Rightarrow> place_key set" where
  "settled_keys q st = insert (key_of (qy_start q)) (rs_done st)"

definition reachable_maps :: "query \<Rightarrow> string set option" where
  "reachable_maps q = map_option (\<lambda>st. fst ` settled_keys q st) (explore (q\<lparr>qy_pass := Open_Pass, qy_goal := Goal_Nowhere\<rparr>))"

text \<open>The tiles reached on the maps whose passages the story opens.\<close>

definition flooded_tiles :: "query \<Rightarrow> place_key \<Rightarrow> pos set" where
  "flooded_tiles q k =
    (let name = fst k; g = qy_graph q in
     if \<not> has_gates g name \<or> name \<in> set (gr_intercepted g) then {}
     else (case (map_named (al_world (qy_atlas q)) name, map_of (gr_maps g) name) of
         (Some m, Some info) \<Rightarrow>
           dom (rc_cost (flood (gr_params g) info (query_terrain q name) m (snd k) (surf_ok q)))
       | _ \<Rightarrow> {}))"

definition reachable :: "query \<Rightarrow> (string set \<times> (string \<Rightarrow> pos set)) option" where
  "reachable q0 =
    (let q = q0\<lparr>qy_pass := Open_Pass, qy_goal := Goal_Nowhere\<rparr> in
     map_option (\<lambda>st. (fst ` settled_keys q st,
       \<lambda>name. \<Union>k \<in> {k \<in> settled_keys q st. fst k = name}. flooded_tiles q k)) (explore q))"

definition open_costs_to_maps :: "query \<Rightarrow> (string \<rightharpoonup> f64) option" where
  "open_costs_to_maps q0 =
    (let q = q0\<lparr>qy_pass := Open_Pass, qy_goal := Goal_Nowhere\<rparr> in
     map_option (\<lambda>st name.
       let costs = (\<lambda>k. case rs_dist st k of None \<Rightarrow> Fin 0 | Some c \<Rightarrow> c) ` {k \<in> rs_done st. fst k = name} \<union>
             (if name = rp_map (qy_start q) then {Fin 0} else {}) in
       if costs = {} then None else Some (Min costs)) (explore q))"

end
