(* ===== verification/Route_Times.thy ===== *)
theory Route_Times
  imports Route_Scripts
begin

text \<open>
  The graph of places as it is built keeps its shape: places stand under their own tile, and every time in it,
  of an edge or of a way past a blocker, is a number that is not negative.
\<close>

lemma entry_of_in: "x \<in> set (entry_of al k) \<Longrightarrow> x \<in> set (concat (map snd al))"
proof (cases "map_of al k")
  case (Some vs)
  assume "x \<in> set (entry_of al k)"
  moreover have "(k, vs) \<in> set al" using Some by (rule map_of_SomeD)
  ultimately show ?thesis using Some by (force simp: entry_of_def)
qed (simp add: entry_of_def)

section \<open>Graphs as they are built\<close>

text \<open>Times that are not negative, and a tile that takes some.\<close>

definition params_ok :: "route_params \<Rightarrow> bool" where
  "params_ok params \<longleftrightarrow> (case pa_tile_s params of Fin b \<Rightarrow> 0 < b \<and> nonneg (Fin b) | _ \<Rightarrow> False) \<and>
    list_all nonneg [pa_warp_s params, pa_fly_s params, pa_gate_s params, pa_surf_s params, pa_talk_s params,
      pa_battle_s params, pa_dig_s params, pa_rope_s params]"

lemma params_okD:
  assumes "params_ok params"
  shows "\<exists>b. pa_tile_s params = Fin b \<and> 0 < b \<and> nonneg (Fin b)"
    "nonneg (pa_tile_s params)" "nonneg (pa_warp_s params)" "nonneg (pa_fly_s params)" "nonneg (pa_gate_s params)"
    "nonneg (pa_surf_s params)" "nonneg (pa_talk_s params)" "nonneg (pa_battle_s params)" "nonneg (pa_dig_s params)"
    "nonneg (pa_rope_s params)"
  using assms by (auto simp: params_ok_def split: f64.splits)

lemma times_tiles: "params_ok params \<Longrightarrow> nonneg a \<Longrightarrow> nonneg (f_mul a (pa_tile_s params))"
  using params_okD(1) [of params] by auto

definition ways_ok :: "(pos \<times> way list) list \<Rightarrow> bool" where
  "ways_ok al \<longleftrightarrow> list_all (\<lambda>(t, ways). list_all (\<lambda>w. nonneg (wy_cost w)) ways) al"

definition infos_ok :: "graph \<Rightarrow> bool" where
  "infos_ok g \<longleftrightarrow> list_all (\<lambda>(m, i). ways_ok (mi_blockers i) \<and> ways_ok (mi_openable i)) (gr_maps g)"

definition graph_ok :: "route_params \<Rightarrow> graph \<Rightarrow> bool" where
  "graph_ok params g \<longleftrightarrow> gr_params g = params \<and> list_all (\<lambda>(k, p). key_of p = k) (gr_places g) \<and>
    list_all (\<lambda>(k, es). list_all (\<lambda>e. nonneg (ed_cost e)) es) (gr_edges g) \<and> infos_ok g"

lemma al_update_list_all: "list_all P al \<Longrightarrow> P (k, v) \<Longrightarrow> list_all P (AList.update k v al)"
  by (induction al) auto

lemma list_all_entry: "list_all (\<lambda>(k, vs). list_all P vs) al \<Longrightarrow> list_all P (entry_of al k)"
  using entry_of_in [of _ al k] by (fastforce simp: list_all_iff)

lemma add_place_ok:
  assumes "graph_ok params g" "add_place m x y kind g = (p, g')"
  shows "graph_ok params g'"
  using assms by (auto simp: add_place_def graph_ok_def infos_ok_def Let_def key_of_def split: option.splits intro!: al_update_list_all)

lemma add_edge_ok:
  assumes "graph_ok params g" "nonneg (ed_cost e)"
  shows "graph_ok params (add_edge src e g)"
proof -
  have "list_all (\<lambda>e. nonneg (ed_cost e)) (edges_from g (key_of src))"
    unfolding edges_from_def by (rule list_all_entry) (use assms(1) in \<open>simp add: graph_ok_def\<close>)
  then show ?thesis using assms
    by (auto simp: add_edge_def graph_ok_def infos_ok_def Let_def intro!: al_update_list_all)
qed

lemma two_places:
  assumes "graph_ok params g"
  obtains p g1 q g2 where "add_place m x y kind g = (p, g1)" "add_place m' x' y' kind' g1 = (q, g2)"
    "graph_ok params g2" "gr_params g2 = params"
proof -
  obtain p g1 where 1: "add_place m x y kind g = (p, g1)" by fastforce
  obtain q g2 where 2: "add_place m' x' y' kind' g1 = (q, g2)" by fastforce
  have "graph_ok params g2" by (rule add_place_ok [OF add_place_ok [OF assms 1] 2])
  then show thesis using that [OF 1 2] by (simp add: graph_ok_def)
qed

lemma fold_ok: "graph_ok params g \<Longrightarrow> (\<And>x g. x \<in> set xs \<Longrightarrow> graph_ok params g \<Longrightarrow> graph_ok params (f x g)) \<Longrightarrow>
    graph_ok params (fold f xs g)"
  by (induction xs arbitrary: g) auto

lemma add_edges_ok: "graph_ok params g \<Longrightarrow> \<forall>e \<in> set es. nonneg (ed_cost e) \<Longrightarrow> graph_ok params (add_edges src es g)"
  unfolding add_edges_def by (rule fold_ok) (auto intro: add_edge_ok)

lemma add_warp_ok:
  assumes p: "params_ok params" and g: "graph_ok params g"
  shows "graph_ok params (add_warp a m i g)"
proof (cases "warp_destination (al_world a) (md_warps m ! i)"; cases "warp_approach m i")
  fix d xy assume some: "warp_destination (al_world a) (md_warps m ! i) = Some d" "warp_approach m i = Some xy"
  obtain dest dx dy ax ay where dxy: "d = (dest, dx, dy)" "xy = (ax, ay)" by (cases d; cases xy) auto
  obtain src g1 to g2 where two: "add_place (md_name m) ax ay Warp_Place g = (src, g1)"
    "add_place (md_name dest) dx dy Warp_Place g1 = (to, g2)" "graph_ok params g2" "gr_params g2 = params"
    by (rule two_places [OF g])
  then show ?thesis using g params_okD(3) [OF p] by (auto simp: add_warp_def some dxy Let_def intro!: add_edges_ok)
qed (use g in \<open>simp_all add: add_warp_def\<close>)

lemma add_crossing_ok:
  assumes p: "params_ok params" and g: "graph_ok params g"
  shows "graph_ok params (add_crossing m x g)"
proof -
  obtain other ax ay bx b_y where x: "x = (other, (ax, ay), (bx, b_y))" by (metis prod.exhaust)
  obtain src g1 to g2 where two: "add_place (md_name m) ax ay Crossing_Place g = (src, g1)"
    "add_place other bx b_y Crossing_Place g1 = (to, g2)" "graph_ok params g2" "gr_params g2 = params"
    by (rule two_places [OF g])
  then show ?thesis using params_okD(2) [OF p] by (simp add: add_crossing_def x add_edge_ok)
qed

lemma add_connections_ok: "params_ok params \<Longrightarrow> graph_ok params g \<Longrightarrow> graph_ok params (add_connections a m g)"
  unfolding add_connections_def by (rule fold_ok) (auto intro: add_crossing_ok)

lemma add_gate_ok: "params_ok params \<Longrightarrow> graph_ok params g \<Longrightarrow> graph_ok params (add_gate m gate g)"
proof -
  assume p: "params_ok params"
  have pair: "graph_ok params (add_gate_pair m gate ab g)" if g: "graph_ok params g" for ab g
  proof -
    obtain a b where ab: "ab = (a, b)" by (cases ab)
    obtain pa g1 pb g2 where two: "add_place (md_name m) (fst a) (snd a) Gate_Place g = (pa, g1)"
      "add_place (md_name m) (fst b) (snd b) Gate_Place g1 = (pb, g2)" and g2: "graph_ok params g2" "gr_params g2 = params"
      by (rule two_places [OF g])
    have "nonneg (f_add (pa_gate_s (gr_params g2)) (f_mul (to_f64 2) (pa_tile_s (gr_params g2))))"
      using params_okD(5) [OF p] times_tiles [OF p, of "to_f64 2"] by (simp add: g2(2))
    then show ?thesis using g g2(1) by (auto simp: add_gate_pair_def ab two Let_def intro!: add_edge_ok)
  qed
  assume "graph_ok params g"
  then show ?thesis unfolding add_gate_def Let_def by (auto intro!: fold_ok pair)
qed

lemma add_script_edge_ok:
  assumes p: "params_ok params" and g: "graph_ok params g"
  shows "graph_ok params (add_script_edge m label src x g)"
proof -
  obtain dest dx dy r where x: "x = ((dest, dx, dy), r)" by (metis prod.exhaust)
  obtain s g1 to g2 where two: "add_place (md_name m) (fst src) (snd src) Script_Place g = (s, g1)"
    "add_place dest dx dy Warp_Place g1 = (to, g2)" "graph_ok params g2" "gr_params g2 = params"
    by (rule two_places [OF g])
  then show ?thesis using params_okD(3,7) [OF p] by (simp add: add_script_edge_def x add_edge_ok)
qed

lemma add_script_warps_from_ok:
  "params_ok params \<Longrightarrow> graph_ok params g \<Longrightarrow> graph_ok params (add_script_warps_from a m label sc extra domains src g)"
  unfolding add_script_warps_from_def by (rule fold_ok) (auto intro: add_script_edge_ok)

lemma add_entry_walk_ok:
  assumes p: "params_ok params" and g: "graph_ok params g"
  shows "graph_ok params (add_entry_walk m label d r src g)"
proof -
  obtain s g1 to g2 where two: "add_place (md_name m) (fst src) (snd src) Script_Place g = (s, g1)"
    "add_place (md_name m) (fst src + fst d) (snd src + snd d) Script_Place g1 = (to, g2)"
    "graph_ok params g2" "gr_params g2 = params"
    by (rule two_places [OF g])
  have "nonneg (f_mul (f_of_int (\<bar>fst d\<bar> + \<bar>snd d\<bar>)) (pa_tile_s params))" by (rule times_tiles [OF p]) simp
  then show ?thesis using two params_okD(7) [OF p] g by (simp add: add_entry_walk_def Let_def add_edge_ok)
qed

lemma add_entry_walks_ok: "params_ok params \<Longrightarrow> graph_ok params g \<Longrightarrow> graph_ok params (add_entry_walks m label sc g)"
  unfolding add_entry_walks_def
  by (rule fold_ok) (auto simp: add_path_walks_def Let_def split: option.splits intro!: fold_ok add_entry_walk_ok)

lemma add_script_ok: "params_ok params \<Longrightarrow> graph_ok params g \<Longrightarrow> graph_ok params (add_script a ev domains x g)"
proof -
  assume p: "params_ok params" and g: "graph_ok params g"
  have from': "graph_ok params (fold (add_script_warps_from a m label sc extra domains) srcs g)"
    if "graph_ok params g" for m label sc extra srcs g
    by (rule fold_ok [OF that]) (rule add_script_warps_from_ok [OF p])
  show ?thesis using g add_entry_walks_ok [OF p g]
    by (auto simp: add_script_def Let_def split: prod.splits option.splits intro!: from')
qed

lemma add_script_warps_ok: "params_ok params \<Longrightarrow> graph_ok params g \<Longrightarrow> graph_ok params (add_script_warps a ev g)"
  unfolding add_script_warps_def by (rule fold_ok) (auto intro: add_script_ok)

lemma add_named_places_ok: "params_ok params \<Longrightarrow> graph_ok params g \<Longrightarrow> graph_ok params (add_named_places a g)"
proof -
  assume p: "params_ok params" and g: "graph_ok params g"
  have fly: "graph_ok params (add_fly_spot a f g)" if "graph_ok params g" for f g
  proof -
    obtain p g1 where 1: "add_place (fy_map f) (fy_x f) (fy_y f) Fly_Place g = (p, g1)" by fastforce
    have "graph_ok params g1" by (rule add_place_ok [OF that 1])
    then show ?thesis using that by (simp add: add_fly_spot_def 1 graph_ok_def infos_ok_def)
  qed
  have heal: "graph_ok params (add_heal_spot a h g)" if "graph_ok params g" for h g
    using that add_place_ok [OF that] by (simp add: add_heal_spot_def) (metis prod.collapse)
  have gate: "graph_ok params (add_field_gate a h g)" if "graph_ok params g" for h g
    using that by (auto simp: add_field_gate_def split: option.splits intro!: add_gate_ok [OF p])
  have sort: "graph_ok params (g\<lparr>gr_fly_spots := s\<rparr>)" if "graph_ok params g" for s g
    using that by (auto simp: graph_ok_def infos_ok_def list_all_iff)
  show ?thesis
  proof (cases "al_places a")
    case (Some ps)
    have "graph_ok params (fold (add_fly_spot a) (ps_fly_spots ps) g)" by (rule fold_ok [OF g fly])
    note 1 = sort [OF this, of "sort_key place_order (gr_fly_spots (fold (add_fly_spot a) (ps_fly_spots ps) g))"]
    note 2 = fold_ok [OF 1 heal, of "ps_heal_spots ps"]
    have "graph_ok params (fold (add_field_gate a) (ps_gates ps) (fold (add_heal_spot a) (ps_heal_spots ps)
        (fold (add_fly_spot a) (ps_fly_spots ps) g\<lparr>gr_fly_spots :=
          sort_key place_order (gr_fly_spots (fold (add_fly_spot a) (ps_fly_spots ps) g))\<rparr>)))"
      by (rule fold_ok [OF 2 gate])
    then show ?thesis by (simp add: add_named_places_def Some Let_def)
  qed (simp add: add_named_places_def g)
qed

section \<open>The tiles of a map\<close>

lemma joint_ways_ok: "list_all (\<lambda>w. nonneg (wy_cost w)) a \<Longrightarrow> list_all (\<lambda>w. nonneg (wy_cost w)) b \<Longrightarrow>
    list_all (\<lambda>w. nonneg (wy_cost w)) (joint_ways a b)"
  by (auto simp: joint_ways_def list_all_iff)

lemma free_ways_ok: "list_all (\<lambda>w. nonneg (wy_cost w)) (free_ways rs)"
  by (simp add: free_ways_def list_all_iff)

lemma entry_ways: "ways_ok al \<Longrightarrow> map_of al t = Some ways \<Longrightarrow> list_all (\<lambda>w. nonneg (wy_cost w)) ways"
  by (auto simp: ways_ok_def list_all_iff dest: map_of_SomeD)

lemma ways_ok_update: "ways_ok al \<Longrightarrow> list_all (\<lambda>w. nonneg (wy_cost w)) ways \<Longrightarrow> ways_ok (AList.update t ways al)"
  unfolding ways_ok_def by (rule al_update_list_all) simp_all

lemma ways_ok_subset: "ways_ok al \<Longrightarrow> set al' \<subseteq> set al \<Longrightarrow> ways_ok al'"
  by (auto simp: ways_ok_def list_all_iff)

lemma add_blocker_ok:
  assumes p: "params_ok params" and ok: "ways_ok blocked \<and> ways_ok openable"
    and step: "add_blocker params b (walls, blocked, openable) = (walls', blocked', openable')"
  shows "ways_ok blocked' \<and> ways_ok openable'"
proof -
  have "list_all (\<lambda>w. nonneg (wy_cost w)) (entry_of blocked t)" for t
    by (rule list_all_entry) (use ok in \<open>simp add: ways_ok_def\<close>)
  moreover have "list_all (\<lambda>w. nonneg (wy_cost w)) (map (passage_way params) ps)" for ps
    using params_okD(8) [OF p] by (auto simp: list_all_iff passage_way_def split: passage.split)
  ultimately show ?thesis using step ok by (auto simp: add_blocker_def Let_def ways_ok_update split: if_splits)
qed

lemma set_delete_subset: "set (AList.delete k al) \<subseteq> set al"
  by (induction al) auto

lemma add_tile_gate_ok:
  assumes ok: "ways_ok blocked \<and> ways_ok openable"
    and step: "add_tile_gate m x (walls, blocked, openable) = (walls', blocked', openable')"
  shows "ways_ok blocked' \<and> ways_ok openable'"
proof -
  obtain tile gate where x: "x = (tile, gate)" by (cases x)
  have "ways_ok (AList.delete tile blocked)" 
    using ok ways_ok_subset [OF _ set_delete_subset] by blast
  moreover have "list_all (\<lambda>w. nonneg (wy_cost w)) (joint_ways existing (free_ways rs))" if "map_of blocked tile = Some existing"
    for existing rs
    using joint_ways_ok [OF entry_ways [OF _ that] free_ways_ok] ok by blast
  ultimately show ?thesis using step ok
    by (auto simp: add_tile_gate_def x ways_ok_update free_ways_ok split: if_splits option.splits)
qed

definition tiles_ok :: "tile_ways \<Rightarrow> bool" where
  "tiles_ok s \<longleftrightarrow> ways_ok (fst (snd s)) \<and> ways_ok (snd (snd s))"

lemma fold_tiles_ok: "(\<And>x s. tiles_ok s \<Longrightarrow> tiles_ok (f x s)) \<Longrightarrow> tiles_ok s \<Longrightarrow> tiles_ok (fold f xs s)"
  by (induction xs arbitrary: s) simp_all

lemma blocker_tiles_ok: "params_ok params \<Longrightarrow> tiles_ok s \<Longrightarrow> tiles_ok (add_blocker params b s)"
  using add_blocker_ok [of params "fst (snd s)" "snd (snd s)" b "fst s"] unfolding tiles_ok_def by (metis prod.collapse)

lemma gate_tiles_ok: "tiles_ok s \<Longrightarrow> tiles_ok (add_tile_gate m x s)"
  using add_tile_gate_ok [of "fst (snd s)" "snd (snd s)" m x "fst s"] unfolding tiles_ok_def by (metis prod.collapse)

lemma map_info_ok:
  assumes p: "params_ok params"
  shows "ways_ok (mi_blockers (map_info_of params a gs m)) \<and> ways_ok (mi_openable (map_info_of params a gs m))"
proof -
  let ?b = "fold (add_blocker params) (blockers m (al_events a)) ({}, [], [])"
  obtain walls blocked openable where 1: "?b = (walls, blocked, openable)" by (metis prod.exhaust)
  have "tiles_ok ({}, [], [])" by (simp add: tiles_ok_def ways_ok_def)
  then have "tiles_ok ?b" using fold_tiles_ok [of "add_blocker params", OF blocker_tiles_ok [OF p]] by blast
  then have b: "ways_ok blocked" "ways_ok openable" by (simp_all add: 1 tiles_ok_def)
  have "ways_ok (filter (\<lambda>(t, ways). t \<notin> walls) blocked)" using b(1) by (rule ways_ok_subset) auto
  then have "tiles_ok (walls, filter (\<lambda>(t, ways). t \<notin> walls) blocked, openable)" using b(2) by (simp add: tiles_ok_def)
  then have "tiles_ok (tile_ways_of params a gs m)"
    by (simp add: tile_ways_of_def 1 fold_tiles_ok [of "add_tile_gate m", OF gate_tiles_ok])
  then show ?thesis by (cases "tile_ways_of params a gs m") (simp add: map_info_of_def tiles_ok_def)
qed

section \<open>The whole graph\<close>

lemma finish_ok: "graph_ok params g \<Longrightarrow> graph_ok params (finish_graph g)"
proof -
  have "set (dedup_edges es) \<subseteq> set es" for es by (induction es rule: dedup_edges.induct) auto
  then have d: "set (dedup_edges (sort_key edge_order es)) \<subseteq> set es" for es by (metis set_sort)
  assume "graph_ok params g"
  then show ?thesis using d by (fastforce simp: finish_graph_def sort_edges_def Let_def graph_ok_def infos_ok_def list_all_iff)
qed

lemma build_graph_ok:
  assumes p: "params_ok params"
  shows "graph_ok params (build_graph a params)"
proof -
  define g0 where "g0 = (empty_graph a params)\<lparr>gr_maps := map (\<lambda>m. (md_name m, map_info_of params a
      (gr_gates (empty_graph a params)) m)) (sorted_maps a)\<rparr>"
  have 0: "graph_ok params g0"
    using map_info_ok [OF p] by (auto simp: g0_def graph_ok_def infos_ok_def empty_graph_def list_all_iff)
  define g1 where "g1 = add_named_places a (fold (\<lambda>m g. add_connections a m (add_warps a m g)) (sorted_maps a) g0)"
  have w: "graph_ok params (add_warps a m g)" if "graph_ok params g" for m g
    unfolding add_warps_def by (rule fold_ok [OF that]) (rule add_warp_ok [OF p])
  have "graph_ok params (fold (\<lambda>m g. add_connections a m (add_warps a m g)) (sorted_maps a) g0)"
    by (rule fold_ok [OF 0]) (intro add_connections_ok [OF p] w)
  then have 1: "graph_ok params g1" unfolding g1_def by (rule add_named_places_ok [OF p])
  have "graph_ok params (add_script_warps a ev g1\<lparr>gr_intercepted := ms\<rparr>)" for ev ms
    using add_script_warps_ok [OF p 1] by (simp add: graph_ok_def infos_ok_def)
  then have "graph_ok params (case al_events a of None \<Rightarrow> g1
      | Some ev \<Rightarrow> add_script_warps a ev g1\<lparr>gr_intercepted := intercepted_maps ev\<rparr>)"
    using 1 by (simp split: option.split)
  then have "graph_ok params (finish_graph (case al_events a of None \<Rightarrow> g1
      | Some ev \<Rightarrow> add_script_warps a ev g1\<lparr>gr_intercepted := intercepted_maps ev\<rparr>))" by (rule finish_ok)
  then show ?thesis unfolding g1_def g0_def build_graph_def Let_def .
qed

end
