(* ===== verification/Route_Cheapest.thy ===== *)
theory Route_Cheapest
  imports Route_Search Route_Times
begin

text \<open>
  What the search for a route promises: it returns, what it returns are legs the belief allows, no allowed way is
  cheaper where no escape warp is at hand, and the terrains it reuses are the ones it would compute.
\<close>

section \<open>What a requirement lacks\<close>

lemma set_sorted_requirement [simp]: "set (sorted_requirement r) = set r"
  by (simp add: sorted_requirement_def)

lemma sorted_requirement_unique: "set a = set b \<Longrightarrow> sorted_requirement a = sorted_requirement b"
  unfolding sorted_requirement_def
  by (intro sorted_distinct_set_unique) (simp_all add: sorted_remdups_adj distinct_remdups_sorted)

lemma sorted_requirement_Nil [simp]: "sorted_requirement r = [] \<longleftrightarrow> r = []"
proof -
  have "sorted_requirement r = [] \<longleftrightarrow> set (sorted_requirement r) = {}" by (rule set_empty [symmetric])
  then show ?thesis unfolding set_sorted_requirement by simp
qed

text \<open>A predicate that is lacking under a policy.\<close>

definition lacking :: "(predicate \<Rightarrow> truth) \<Rightarrow> unknown_policy \<Rightarrow> predicate \<Rightarrow> bool" where
  "lacking eval policy p \<longleftrightarrow> eval p = Truth_False \<or> eval p = Truth_Unknown \<and>
    (case policy of Pessimistic \<Rightarrow> True | Optimistic penalty \<Rightarrow> \<not> is_finite (penalty p))"

lemma set_unmet [simp]: "set (unmet_of (check eval r) policy) = {p \<in> set r. lacking eval policy p}"
  by (auto simp: unmet_of_def check_failed check_unknown lacking_def split: unknown_policy.split)

lemma unmet_unique:
  "{p \<in> set r. lacking e1 p1 p} = {p \<in> set r. lacking e2 p2 p} \<Longrightarrow>
   unmet_of (check e1 r) p1 = unmet_of (check e2 r) p2"
proof -
  assume eq: "{p \<in> set r. lacking e1 p1 p} = {p \<in> set r. lacking e2 p2 p}"
  have "unmet_of (check e1 r) p1 = sorted_requirement (unmet_of (check e1 r) p1)"
    "unmet_of (check e2 r) p2 = sorted_requirement (unmet_of (check e2 r) p2)"
    unfolding unmet_of_def by (simp_all add: sorted_requirement_unique)
  then show ?thesis using sorted_requirement_unique [of "unmet_of (check e1 r) p1" "unmet_of (check e2 r) p2"] eq by simp
qed

lemma check_all_true: "check_truth (check eval r) = Truth_True \<longleftrightarrow> (\<forall>p \<in> set r. eval p = Truth_True)"
proof -
  have "check_truth (check eval r) = Truth_True \<longleftrightarrow>
      filter (\<lambda>p. eval p = Truth_False) r = [] \<and> filter (\<lambda>p. eval p = Truth_Unknown) r = []"
    by (simp add: check_truth_def check_failed check_unknown)
  also have "\<dots> \<longleftrightarrow> (\<forall>p \<in> set r. eval p \<noteq> Truth_False \<and> eval p \<noteq> Truth_Unknown)"
    by (auto simp: filter_empty_conv)
  finally show ?thesis by (metis truth.exhaust truth.distinct(1,3))
qed

lemma allows_open: "allows_unmet Open_Pass (unmet_of (check eval r) Pessimistic) \<longleftrightarrow> (\<forall>p \<in> set r. eval p = Truth_True)"
proof -
  have "unmet_of (check eval r) Pessimistic = [] \<longleftrightarrow> {p \<in> set r. lacking eval Pessimistic p} = {}"
    using set_unmet [of eval r Pessimistic] by (metis set_empty)
  then show ?thesis by (auto simp: lacking_def) (metis truth.exhaust)
qed

section \<open>Terrains\<close>

lemma allows_unmet_all: "allows_unmet pass u \<longleftrightarrow> (\<forall>p \<in> set u. allows_unmet pass [p])"
proof (cases pass)
  case Open_Pass
  then show ?thesis by (cases u) auto
next
  case (Forbid f)
  then show ?thesis by (auto simp: list_ex_iff)
qed

lemma standing_facts:
  "standing eval policy pass p = 0 \<longleftrightarrow> eval p = Truth_True"
  "standing eval policy pass p \<in> {2, 3} \<longleftrightarrow> lacking eval policy p"
  "lacking eval policy p \<Longrightarrow> standing eval policy pass p = 3 \<longleftrightarrow> allows_unmet pass [p]"
proof -
  have u: "unmet_of (check eval [p]) policy = (if lacking eval policy p then [p] else [])"
    by (cases "eval p"; cases policy) (simp_all add: unmet_of_def check_def lacking_def sorted_requirement_def)
  have t: "lacking eval policy p \<Longrightarrow> eval p \<noteq> Truth_True" by (auto simp: lacking_def)
  show "standing eval policy pass p = 0 \<longleftrightarrow> eval p = Truth_True"
    by (simp add: standing_def Let_def u check_all_true)
  show "standing eval policy pass p \<in> {2, 3} \<longleftrightarrow> lacking eval policy p"
    using t by (auto simp: standing_def Let_def u check_all_true)
  show "lacking eval policy p \<Longrightarrow> standing eval policy pass p = 3 \<longleftrightarrow> allows_unmet pass [p]"
    using t by (auto simp: standing_def Let_def u check_all_true)
qed

lemma standing_holds: "eval p = Truth_True \<Longrightarrow> standing eval policy pass p = 0"
  by (simp add: standing_facts(1))

lemma offer_way_same:
  assumes "\<forall>p \<in> set (wy_requires w). standing e1 p1 s1 p = standing e2 p2 s2 p"
  shows "offer_way free e1 p1 s1 w best = offer_way free e2 p2 s2 w best"
proof -
  let ?r = "wy_requires w"
  have l: "lacking e1 p1 p \<longleftrightarrow> lacking e2 p2 p" if "p \<in> set ?r" for p
    using assms that standing_facts(2) [of e1 p1 s1 p] standing_facts(2) [of e2 p2 s2 p] by metis
  have a: "allows_unmet s1 [p] \<longleftrightarrow> allows_unmet s2 [p]" if "p \<in> set ?r" "lacking e1 p1 p" for p
    using assms that standing_facts(3) [of e1 p1 p s1] standing_facts(3) [of e2 p2 p s2] l [OF that(1)] by metis
  have u: "unmet_of (check e1 ?r) p1 = unmet_of (check e2 ?r) p2" by (rule unmet_unique) (use l in blast)
  have "allows_unmet s1 (unmet_of (check e1 ?r) p1) \<longleftrightarrow> allows_unmet s2 (unmet_of (check e1 ?r) p1)"
    unfolding allows_unmet_all [of s1 "unmet_of (check e1 ?r) p1"] allows_unmet_all [of s2 "unmet_of (check e1 ?r) p1"]
    using a by auto
  moreover have "check_truth (check e1 ?r) = Truth_True \<longleftrightarrow> check_truth (check e2 ?r) = Truth_True"
    unfolding check_all_true using assms standing_facts(1) by metis
  ultimately show ?thesis unfolding offer_way_def Let_def u by presburger
qed

lemma best_way_same:
  assumes "\<forall>p \<in> set (concat (map wy_requires ways)). standing e1 p1 s1 p = standing e2 p2 s2 p"
  shows "best_way free e1 p1 s1 ways = best_way free e2 p2 s2 ways"
proof -
  have "fold (offer_way free e1 p1 s1) ways b = fold (offer_way free e2 p2 s2) ways b" for b
    by (rule fold_cong) (use assms in \<open>auto intro!: ext offer_way_same\<close>)
  then show ?thesis by (simp add: best_way_def)
qed

text \<open>C20: Two searches for which the predicates a map's ways need stand alike see the same terrain, so a terrain kept
  under those standings is the one either search would compute.\<close>

theorem terrain_from_codes:
  assumes "terrain_codes (map_info_of params a gs m) e1 p1 s1 = terrain_codes (map_info_of params a gs m) e2 p2 s2"
  shows "terrain_of (map_info_of params a gs m) e1 p1 s1 = terrain_of (map_info_of params a gs m) e2 p2 s2"
proof -
  define info where "info = map_info_of params a gs m"
  have rel: "set (mi_relevant info) = set (way_requirements (mi_blockers info)) \<union> set (way_requirements (mi_openable info))"
    by (simp add: info_def map_info_of_def split: prod.split)
  have same: "standing e1 p1 s1 p = standing e2 p2 s2 p" if "p \<in> set (mi_relevant info)" for p
    using assms that unfolding terrain_codes_def info_def by simp
  have ways: "best_way free e1 p1 s1 ways = best_way free e2 p2 s2 ways"
    if "(t, ways) \<in> set (mi_blockers info) \<union> set (mi_openable info)" for free t ways
  proof (rule best_way_same)
    have "set (concat (map wy_requires ways)) \<subseteq> set (mi_relevant info)"
      using that unfolding rel way_requirements_def by (simp add: UN_iff) fastforce
    then show "\<forall>p \<in> set (concat (map wy_requires ways)). standing e1 p1 s1 p = standing e2 p2 s2 p"
      using same by blast
  qed
  have "map (\<lambda>(t, ways). (t, best_way True e1 p1 s1 ways)) (mi_blockers info) =
      map (\<lambda>(t, ways). (t, best_way True e2 p2 s2 ways)) (mi_blockers info)"
    "map (\<lambda>(t, ways). (t, best_way False e1 p1 s1 ways)) (mi_openable info) =
      map (\<lambda>(t, ways). (t, best_way False e2 p2 s2 ways)) (mi_openable info)"
    using ways by (auto intro!: map_cong)
  then show ?thesis unfolding terrain_of_def info_def [symmetric] Let_def by (simp only:)
qed

declare split_paired_All [simp del] split_paired_Ex [simp del]

section \<open>Ways over the edges\<close>

text \<open>The legs of a way from the start over edges the pass allows, with what each assumed and lacked, and the time
  they add up to, leg by leg as the doubles of the search.\<close>

inductive route_walk :: "query \<Rightarrow> place_key \<Rightarrow> (leg \<times> predicate list \<times> predicate list) list \<Rightarrow> f64 \<Rightarrow> bool" for q where
  walk_start: "route_walk q (key_of (qy_start q)) [] (Fin 0)"
| walk_leg: "route_walk q u ls c \<Longrightarrow> stand q u = Some (here, m, info) \<Longrightarrow>
    e \<in> set (out_edges q u) \<union> set (escape_edges q) \<Longrightarrow> priced q (ed_requires e) = Some (unmet, assumed, penalty) \<Longrightarrow>
    route_walk q (key_of (ed_to e)) (ls @ [(leg_of here e, assumed, unmet)]) (f_add (f_add c (ed_cost e)) penalty)"

definition query_ok :: "query \<Rightarrow> bool" where
  "query_ok q \<longleftrightarrow> (\<forall>u here m info. stand q u = Some (here, m, info) \<longrightarrow> key_of here = u) \<and>
    (\<forall>u e. e \<in> set (out_edges q u) \<union> set (escape_edges q) \<longrightarrow> nonneg (ed_cost e)) \<and>
    (\<forall>penalty p. qy_policy q = Optimistic penalty \<longrightarrow> is_finite (penalty p) \<longrightarrow> nonneg (penalty p))"

lemma priced_penalty:
  assumes "query_ok q" "priced q r = Some (unmet, assumed, penalty)"
  shows "nonneg penalty"
proof -
  have f: "nonneg (fold (\<lambda>p s. f_add s (price p)) ps s)"
    if "nonneg s" "\<And>p. p \<in> set ps \<Longrightarrow> nonneg (price p)" for price ps s
    using that by (induction ps arbitrary: s) simp_all
  show ?thesis
    using assms by (auto simp: priced_def query_ok_def Let_def split: if_splits unknown_policy.splits intro!: f)
qed

text \<open>The keys a search can meet.\<close>

definition universe :: "query \<Rightarrow> place_key set" where
  "universe q = insert (key_of (qy_start q)) (key_of `
    (set (concat (map snd (gr_by_map (qy_graph q)))) \<union> set (goal_tiles (qy_goal q)) \<union>
     ed_to ` set (concat (map snd (gr_edges (qy_graph q)))) \<union> set (gr_fly_spots (qy_graph q)) \<union>
     ed_to ` set (escape_edges q)))"

lemma finite_universe: "finite (universe q)"
  by (simp add: universe_def)

lemma walk_edge_to: "walk_edge params info terr m from r to = Some e \<Longrightarrow> ed_to e = to"
  by (auto simp: walk_edge_def Let_def split: option.splits if_splits)

lemma out_edges_universe:
  assumes "e \<in> set (out_edges q u) \<union> set (escape_edges q)"
  shows "key_of (ed_to e) \<in> universe q"
proof (cases "e \<in> set (escape_edges q)")
  case False
  with assms obtain here m info where "stand q u = Some (here, m, info)" and e: "e \<in> set (out_edges q u)"
    by (cases "stand q u") (auto simp: out_edges_def)
  then consider "e \<in> set (edges_from (qy_graph q) (key_of here))" | "e \<in> set (flights q)"
    | t params terr src r where "t \<in> set (walk_targets q here u)" "walk_edge params info terr m src r t = Some e"
    by (auto simp: out_edges_def Let_def set_map_filter_iff split: if_splits)
  then show ?thesis
  proof cases
    case 1
    then have "e \<in> set (concat (map snd (gr_edges (qy_graph q))))" unfolding edges_from_def by (rule entry_of_in)
    then show ?thesis unfolding universe_def by blast
  next
    case 2
    then show ?thesis by (auto simp: flights_def universe_def)
  next
    case 3
    then have "ed_to e = t" by (simp add: walk_edge_to)
    moreover have "t \<in> set (concat (map snd (gr_by_map (qy_graph q)))) \<union> set (goal_tiles (qy_goal q))"
      using 3(1) entry_of_in unfolding walk_targets_def places_on_def by fastforce
    ultimately show ?thesis unfolding universe_def by blast
  qed
qed (auto simp: universe_def)

section \<open>The state of the search\<close>

text \<open>The way back to the start goes over places that are done.\<close>

inductive traced :: "(place_key \<rightharpoonup> place_key \<times> 'x) \<Rightarrow> place_key set \<Rightarrow> place_key \<Rightarrow> 'x list \<Rightarrow> bool" for came D where
  traced_nil: "came k = None \<Longrightarrow> traced came D k []"
| traced_step: "came k = Some (prev, x) \<Longrightarrow> prev \<in> D \<Longrightarrow> traced came D prev xs \<Longrightarrow> traced came D k (xs @ [x])"

lemma traced_back: "traced came D k xs \<Longrightarrow> trace_back came k acc = Some (xs @ acc)"
proof (induction arbitrary: acc rule: traced.induct)
  case (traced_nil k)
  then show ?case by (simp add: trace_back.simps)
next
  case (traced_step k prev x xs)
  then show ?case by (simp add: trace_back.simps [of came k])
qed

lemma traced_mono: "traced came D k xs \<Longrightarrow> D \<subseteq> D' \<Longrightarrow> traced came D' k xs"
  by (induction rule: traced.induct) (auto intro: traced.intros)

lemma traced_update: "traced came D k xs \<Longrightarrow> v \<notin> D \<Longrightarrow> k \<noteq> v \<Longrightarrow> traced (came(v := y)) D k xs"
proof (induction rule: traced.induct)
  case (traced_step k prev x xs)
  then have "traced (came(v := y)) D prev xs" by blast
  then show ?case using traced_step by (intro traced.traced_step) auto
qed (auto intro: traced.intros)

text \<open>Every known time is the time of a way that can be traced back; what is not done waits with its time.\<close>

definition state_ok :: "query \<Rightarrow> search_state \<Rightarrow> bool" where
  "state_ok q st \<longleftrightarrow>
    snd ` set (rs_open st) \<subseteq> universe q \<and> rs_dist st (key_of (qy_start q)) = Some (Fin 0) \<and>
    rs_came st (key_of (qy_start q)) = None \<and>
    (\<forall>k d. rs_dist st k = Some d \<longrightarrow> nonneg d \<and> (\<exists>ls. traced (rs_came st) (rs_done st) k ls \<and> route_walk q k ls d)) \<and>
    (\<forall>c k. (c, k) \<in> set (rs_open st) \<longrightarrow> (\<exists>d. rs_dist st k = Some d \<and> d \<le> c)) \<and>
    (\<forall>k d. rs_dist st k = Some d \<longrightarrow> k \<notin> rs_done st \<longrightarrow> (d, k) \<in> set (rs_open st)) \<and>
    rs_done st \<subseteq> dom (rs_dist st) \<and>
    (\<forall>u d c k. u \<in> rs_done st \<longrightarrow> rs_dist st u = Some d \<longrightarrow> (c, k) \<in> set (rs_open st) \<longrightarrow> d \<le> c)"

lemma state_okD:
  assumes "state_ok q st"
  shows "snd ` set (rs_open st) \<subseteq> universe q" "rs_dist st (key_of (qy_start q)) = Some (Fin 0)"
    "rs_came st (key_of (qy_start q)) = None"
    "rs_dist st k = Some d \<Longrightarrow> nonneg d"
    "rs_dist st k = Some d \<Longrightarrow> \<exists>ls. traced (rs_came st) (rs_done st) k ls \<and> route_walk q k ls d"
    "(c, k) \<in> set (rs_open st) \<Longrightarrow> \<exists>d. rs_dist st k = Some d \<and> d \<le> c"
    "rs_dist st k = Some d \<Longrightarrow> k \<notin> rs_done st \<Longrightarrow> (d, k) \<in> set (rs_open st)"
    "rs_done st \<subseteq> dom (rs_dist st)"
    "u \<in> rs_done st \<Longrightarrow> rs_dist st u = Some d \<Longrightarrow> (c, k) \<in> set (rs_open st) \<Longrightarrow> d \<le> c"
  using assms unfolding state_ok_def by blast+

lemma begin_ok: "state_ok q (begin_route q)"
  by (auto simp: state_ok_def begin_route_def universe_def intro: traced_nil walk_start)

text \<open>While a place \<open>u\<close>, done at the time \<open>g\<close>, is expanded.\<close>

definition expanding :: "query \<Rightarrow> place_key \<Rightarrow> f64 \<Rightarrow> search_state \<Rightarrow> bool" where
  "expanding q u g st \<longleftrightarrow> state_ok q st \<and> u \<in> rs_done st \<and> rs_dist st u = Some g \<and>
    (\<forall>v d. v \<in> rs_done st \<longrightarrow> rs_dist st v = Some d \<longrightarrow> d \<le> g)"

text \<open>Times only fall, and the times of what is done stay.\<close>

definition improves :: "search_state \<Rightarrow> search_state \<Rightarrow> bool" where
  "improves st st' \<longleftrightarrow> rs_done st' = rs_done st \<and>
    (\<forall>k d. rs_dist st k = Some d \<longrightarrow> (\<exists>d'. rs_dist st' k = Some d' \<and> d' \<le> d \<and> (k \<in> rs_done st \<longrightarrow> d' = d)))"

lemma improves_refl [simp]: "improves st st"
  by (simp add: improves_def)

lemma improves_trans: "improves a b \<Longrightarrow> improves b c \<Longrightarrow> improves a c"
  unfolding improves_def by (metis order_trans)

lemma relax_edge_ok:
  assumes ok: "query_ok q" and exp: "expanding q u g st" and here: "stand q u = Some (here, m, info)"
    and e: "e \<in> set (out_edges q u) \<union> set (escape_edges q)" and new: "key_of (ed_to e) \<notin> rs_done st"
  shows "expanding q u g (relax_edge q here g e st)" "improves st (relax_edge q here g e st)"
    "priced q (ed_requires e) = Some (unmet, assumed, penalty) \<Longrightarrow>
      \<exists>d. rs_dist (relax_edge q here g e st) (key_of (ed_to e)) = Some d \<and> d \<le> f_add (f_add g (ed_cost e)) penalty"
proof -
  have "expanding q u g (relax_edge q here g e st) \<and> improves st (relax_edge q here g e st) \<and>
    (\<forall>unmet assumed penalty. priced q (ed_requires e) = Some (unmet, assumed, penalty) \<longrightarrow>
      (\<exists>d. rs_dist (relax_edge q here g e st) (key_of (ed_to e)) = Some d \<and> d \<le> f_add (f_add g (ed_cost e)) penalty))"
  proof (cases "priced q (ed_requires e)")
    case None
    then show ?thesis using exp by (simp add: relax_edge_def)
  next
    case (Some x)
    obtain unmet assumed penalty where x: "x = (unmet, assumed, penalty)" by (cases x)
    let ?k = "key_of (ed_to e)"
    define ng where "ng = f_add (f_add g (ed_cost e)) penalty"
    have st: "state_ok q st" and u: "u \<in> rs_done st" "rs_dist st u = Some g"
      and below: "\<And>v d. v \<in> rs_done st \<Longrightarrow> rs_dist st v = Some d \<Longrightarrow> d \<le> g"
      using exp by (auto simp: expanding_def)
    have g: "nonneg g" using state_okD(4) [OF st u(2)] .
    have cost: "nonneg (ed_cost e)" using ok e by (auto simp: query_ok_def)
    have pen: "nonneg penalty" using priced_penalty [OF ok] Some x by blast
    have ng: "nonneg ng" "g \<le> ng"
      using g cost pen f_add_ge [OF g cost] f_add_ge [of "f_add g (ed_cost e)" penalty] by (auto simp: ng_def)
    have hk: "key_of here = u" using ok here by (auto simp: query_ok_def)
    show ?thesis
    proof (cases "better_way st ?k ng (ed_kind e)")
      case False
      then obtain old where old: "rs_dist st ?k = Some old" "\<not> f_lt ng old"
        by (auto simp: better_way_def split: option.splits)
      then have "old \<le> ng"
        using nonneg_not_nan [OF ng(1)] nonneg_not_nan [OF state_okD(4) [OF st old(1)]] by (auto simp: f_lt_def)
      moreover have "relax_edge q here g e st = st" using False by (simp add: relax_edge_def Some x ng_def Let_def)
      ultimately show ?thesis using exp old(1) Some x by (auto simp: ng_def)
    next
      case True
      define st' where "st' = relax_edge q here g e st"
      have dist: "rs_dist st' = (rs_dist st)(?k \<mapsto> ng)"
        and came: "rs_came st' = (rs_came st)(?k \<mapsto> (u, leg_of here e, assumed, unmet))"
        and opn: "rs_open st' = (ng, ?k) # rs_open st" and dn: "rs_done st' = rs_done st"
        using True by (simp_all add: st'_def relax_edge_def Some x ng_def Let_def hk)
      have lower: "ng \<le> old" if "rs_dist st ?k = Some old" for old
        using True that by (auto simp: better_way_def f_lt_def f_eq_def split: option.splits)
      have start: "?k \<noteq> key_of (qy_start q)"
      proof
        assume k: "?k = key_of (qy_start q)"
        have "f_lt ng (Fin 0)" using True state_okD(2,3) [OF st] by (simp add: better_way_def k)
        moreover have "Fin 0 \<le> ng" using ng(1) by (cases rule: nonneg_cases) simp_all
        ultimately show False by (auto simp: f_lt_def)
      qed
      have ku: "u \<noteq> ?k" using u(1) new by blast
      obtain ls where ls: "traced (rs_came st) (rs_done st) u ls" "route_walk q u ls g" using state_okD(5) [OF st u(2)] by blast
      have new_trace: "traced (rs_came st') (rs_done st') ?k (ls @ [(leg_of here e, assumed, unmet)])"
        using traced_update [OF ls(1) new ku] u(1) by (auto simp: came dn intro!: traced_step)
      have new_walk: "route_walk q ?k (ls @ [(leg_of here e, assumed, unmet)]) ng"
        unfolding ng_def by (rule walk_leg [OF ls(2) here e]) (simp add: Some x)
      have okst: "state_ok q st'"
        unfolding state_ok_def
      proof (intro conjI allI impI)
        show "snd ` set (rs_open st') \<subseteq> universe q"
          using state_okD(1) [OF st] out_edges_universe [OF e] by (simp add: opn)
        show "rs_dist st' (key_of (qy_start q)) = Some (Fin 0)" "rs_came st' (key_of (qy_start q)) = None"
          using state_okD(2,3) [OF st] start by (simp_all add: dist came)
        show "nonneg d" if "rs_dist st' k = Some d" for k d
          using that ng(1) state_okD(4) [OF st] by (auto simp: dist split: if_splits)
        show "\<exists>ls. traced (rs_came st') (rs_done st') k ls \<and> route_walk q k ls d" if d: "rs_dist st' k = Some d" for k d
        proof (cases "k = ?k")
          case True
          then show ?thesis using d new_trace new_walk by (auto simp: dist)
        next
          case False
          then have "rs_dist st k = Some d" using d by (simp add: dist)
          from state_okD(5) [OF st this] obtain xs where "traced (rs_came st) (rs_done st) k xs" "route_walk q k xs d" by blast
          then show ?thesis using traced_update [OF _ new False] unfolding came dn by blast
        qed
        show "\<exists>d. rs_dist st' k = Some d \<and> d \<le> c" if c: "(c, k) \<in> set (rs_open st')" for c k
        proof (cases "(c, k) = (ng, ?k)")
          case False
          then obtain d where d: "rs_dist st k = Some d" "d \<le> c" using c state_okD(6) [OF st, of c k] by (auto simp: opn)
          then show ?thesis using lower [of d] by (cases "k = ?k") (auto simp: dist intro: order_trans)
        qed (simp add: dist)
        show "(d, k) \<in> set (rs_open st')" if "rs_dist st' k = Some d" "k \<notin> rs_done st'" for k d
          using that state_okD(7) [OF st, of k d] by (auto simp: dist opn dn split: if_splits)
        show "rs_done st' \<subseteq> dom (rs_dist st')" using state_okD(8) [OF st] by (auto simp: dist dn)
        show "d \<le> c" if "v \<in> rs_done st'" "rs_dist st' v = Some d" "(c, k) \<in> set (rs_open st')" for v d c k
        proof -
          have v: "v \<in> rs_done st" "rs_dist st v = Some d" using that new by (auto simp: dist dn split: if_splits)
          show ?thesis using that(3) order_trans [OF below [OF v] ng(2)] state_okD(9) [OF st v, of c k] by (auto simp: opn)
        qed
      qed
      moreover have "improves st st'" using lower new by (auto simp: improves_def dist dn)
      moreover have "expanding q u g st'"
        unfolding expanding_def using okst u ku below new by (auto simp: dist dn split: if_splits)
      ultimately show ?thesis by (simp add: dist ng_def Some x flip: st'_def)
    qed
  qed
  then show "expanding q u g (relax_edge q here g e st)" "improves st (relax_edge q here g e st)"
    "priced q (ed_requires e) = Some (unmet, assumed, penalty) \<Longrightarrow>
      \<exists>d. rs_dist (relax_edge q here g e st) (key_of (ed_to e)) = Some d \<and> d \<le> f_add (f_add g (ed_cost e)) penalty"
    by blast+
qed

lemma fold_relax_ok:
  assumes ok: "query_ok q" and here: "stand q u = Some (here, m, info)"
  shows "expanding q u g st \<Longrightarrow> set es \<subseteq> set (out_edges q u) \<union> set (escape_edges q) \<Longrightarrow>
    \<forall>e \<in> set es. key_of (ed_to e) \<notin> rs_done st \<Longrightarrow>
    expanding q u g (fold (relax_edge q here g) es st) \<and> improves st (fold (relax_edge q here g) es st) \<and>
    (\<forall>e \<in> set es. \<forall>unmet assumed penalty. priced q (ed_requires e) = Some (unmet, assumed, penalty) \<longrightarrow>
      (\<exists>d. rs_dist (fold (relax_edge q here g) es st) (key_of (ed_to e)) = Some d \<and>
        d \<le> f_add (f_add g (ed_cost e)) penalty))"
proof (induction es arbitrary: st)
  case (Cons e es)
  let ?st = "relax_edge q here g e st"
  have e: "e \<in> set (out_edges q u) \<union> set (escape_edges q)" "key_of (ed_to e) \<notin> rs_done st" using Cons.prems by simp_all
  note step = relax_edge_ok [OF ok Cons.prems(1) here e]
  have dn: "rs_done ?st = rs_done st" using step(2) by (simp add: improves_def)
  have "set es \<subseteq> set (out_edges q u) \<union> set (escape_edges q)" "\<forall>e \<in> set es. key_of (ed_to e) \<notin> rs_done ?st"
    using Cons.prems(2,3) dn by auto
  note ih = Cons.IH [OF step(1) this]
  have "\<exists>d. rs_dist (fold (relax_edge q here g) es ?st) (key_of (ed_to e)) = Some d \<and>
      d \<le> f_add (f_add g (ed_cost e)) penalty" if p: "priced q (ed_requires e) = Some (unmet, assumed, penalty)"
    for unmet assumed penalty
  proof -
    obtain d where "rs_dist ?st (key_of (ed_to e)) = Some d" "d \<le> f_add (f_add g (ed_cost e)) penalty"
      using step(3) [OF p] by blast
    then show ?thesis using ih unfolding improves_def by (metis order_trans)
  qed
  then show ?case using ih improves_trans [OF step(2)] by simp
qed simp

text \<open>Every edge the pass allows out of a place leads to a place known to take no longer.\<close>

definition relaxed :: "query \<Rightarrow> search_state \<Rightarrow> place_key \<Rightarrow> bool" where
  "relaxed q st u \<longleftrightarrow> (\<forall>e unmet assumed penalty g. e \<in> set (out_edges q u) \<longrightarrow>
    priced q (ed_requires e) = Some (unmet, assumed, penalty) \<longrightarrow> rs_dist st u = Some g \<longrightarrow>
      (\<exists>d. rs_dist st (key_of (ed_to e)) = Some d \<and> d \<le> f_add (f_add g (ed_cost e)) penalty))"

lemma relaxed_improves: "relaxed q st u \<Longrightarrow> improves st st' \<Longrightarrow> u \<in> rs_done st \<Longrightarrow> u \<in> dom (rs_dist st) \<Longrightarrow> relaxed q st' u"
proof -
  assume r: "relaxed q st u" and imp: "improves st st'" and u: "u \<in> rs_done st" "u \<in> dom (rs_dist st)"
  show "relaxed q st' u"
    unfolding relaxed_def
  proof (intro allI impI)
    fix e unmet assumed penalty g
    assume e: "e \<in> set (out_edges q u)" "priced q (ed_requires e) = Some (unmet, assumed, penalty)"
      and g: "rs_dist st' u = Some g"
    obtain d where d: "rs_dist st u = Some d" using u(2) by blast
    then have "d = g" using imp u(1) g unfolding improves_def by fastforce
    then obtain d0 where d0: "rs_dist st (key_of (ed_to e)) = Some d0" "d0 \<le> f_add (f_add g (ed_cost e)) penalty"
      using r e d unfolding relaxed_def by blast
    then obtain d1 where "rs_dist st' (key_of (ed_to e)) = Some d1" "d1 \<le> d0" using imp unfolding improves_def by blast
    then show "\<exists>d. rs_dist st' (key_of (ed_to e)) = Some d \<and> d \<le> f_add (f_add g (ed_cost e)) penalty"
      using order_trans [OF _ d0(2)] by blast
  qed
qed

lemma relax_all_ok:
  assumes ok: "query_ok q" and here: "stand q u = Some (here, m, info)" and exp: "expanding q u g st"
    and es: "set es \<subseteq> set (out_edges q u) \<union> set (escape_edges q)"
  shows "expanding q u g (relax_all q here g es st)" "improves st (relax_all q here g es st)"
    "set (out_edges q u) \<subseteq> set es \<Longrightarrow> relaxed q (relax_all q here g es st) u"
proof -
  let ?es = "filter (\<lambda>e. key_of (ed_to e) \<notin> rs_done st) es"
  have es': "set ?es \<subseteq> set (out_edges q u) \<union> set (escape_edges q)" "\<forall>e \<in> set ?es. key_of (ed_to e) \<notin> rs_done st"
    using es by auto
  note f = fold_relax_ok [OF ok here exp es', folded relax_all_def]
  then show "expanding q u g (relax_all q here g es st)" and imp: "improves st (relax_all q here g es st)" by blast+
  show "relaxed q (relax_all q here g es st) u" if all: "set (out_edges q u) \<subseteq> set es"
    unfolding relaxed_def
  proof (intro allI impI)
    fix e unmet assumed penalty g'
    assume e: "e \<in> set (out_edges q u)" and p: "priced q (ed_requires e) = Some (unmet, assumed, penalty)"
      and d: "rs_dist (relax_all q here g es st) u = Some g'"
    have u: "rs_dist st u = Some g" "u \<in> rs_done st" "state_ok q st" using exp by (simp_all add: expanding_def)
    have g': "g' = g" using d imp u unfolding improves_def by fastforce
    show "\<exists>d. rs_dist (relax_all q here g es st) (key_of (ed_to e)) = Some d \<and> d \<le> f_add (f_add g' (ed_cost e)) penalty"
    proof (cases "key_of (ed_to e) \<in> rs_done st")
      case True
      then obtain d where d: "rs_dist st (key_of (ed_to e)) = Some d" using state_okD(8) [OF u(3)] by blast
      then have "d \<le> g" using exp True by (auto simp: expanding_def)
      moreover have n: "nonneg g" "nonneg (ed_cost e)" "nonneg penalty"
        using state_okD(4) [OF u(3) u(1)] ok e priced_penalty [OF ok p] by (auto simp: query_ok_def)
      moreover have "g \<le> f_add (f_add g (ed_cost e)) penalty"
        using f_add_ge [OF n(1,2)] f_add_ge [of "f_add g (ed_cost e)" penalty] n by (auto intro: order_trans)
      moreover have "\<exists>d'. rs_dist (relax_all q here g es st) (key_of (ed_to e)) = Some d' \<and> d' \<le> d"
        using imp d unfolding improves_def by blast
      ultimately show ?thesis unfolding g' by (meson order_trans)
    next
      case False
      then show ?thesis using f e all p unfolding g' by auto
    qed
  qed
qed

lemma expand_ok:
  assumes ok: "query_ok q" and exp: "expanding q u g st"
  shows "state_ok q (expand q g u st)" "improves st (expand q g u st)" "relaxed q (expand q g u st) u"
proof -
  have "expanding q u g (expand q g u st) \<and> improves st (expand q g u st) \<and> relaxed q (expand q g u st) u"
  proof (cases "stand q u")
    case None
    then show ?thesis using exp by (simp add: expand_def relaxed_def out_edges_def)
  next
    case (Some x)
    obtain here m info where x: "x = (here, m, info)" by (cases x)
    let ?a = "relax_all q here g (out_edges q u) st"
    let ?es = "escapes_from q here info u ?a"
    have here: "stand q u = Some (here, m, info)" using Some x by simp
    note a = relax_all_ok [OF ok here exp, of "out_edges q u"]
    have a': "expanding q u g ?a" "improves st ?a" "relaxed q ?a u" using a by simp_all
    have "set ?es \<subseteq> set (out_edges q u) \<union> set (escape_edges q)" by (auto simp: escapes_from_def)
    note b = relax_all_ok [OF ok here a'(1) this]
    have "relaxed q (relax_all q here g ?es ?a) u"
      using relaxed_improves [OF a'(3) b(2)] a'(1) by (auto simp: expanding_def)
    then show ?thesis using b improves_trans [OF a'(2) b(2)] by (simp add: expand_def here Let_def)
  qed
  then show "state_ok q (expand q g u st)" "improves st (expand q g u st)" "relaxed q (expand q g u st) u"
    by (auto simp: expanding_def)
qed

section \<open>The loop\<close>

definition loop_ok :: "query \<Rightarrow> search_state \<Rightarrow> bool" where
  "loop_ok q st \<longleftrightarrow> state_ok q st \<and> (\<forall>u \<in> rs_done st. relaxed q st u \<and> \<not> goal_reached (qy_goal q) u)"

definition least_open :: "search_state \<Rightarrow> f64 \<Rightarrow> place_key \<Rightarrow> bool" where
  "least_open st g k \<longleftrightarrow> (g, k) \<in> set (rs_open st) \<and> (\<forall>c v. (c, v) \<in> set (rs_open st) \<longrightarrow> g \<le> c)"

lemma least_open_Min: "rs_open st \<noteq> [] \<Longrightarrow> least_open st (fst (Min (set (rs_open st)))) (snd (Min (set (rs_open st))))"
proof -
  assume ne: "rs_open st \<noteq> []"
  let ?top = "Min (set (rs_open st))"
  have "?top \<in> set (rs_open st)" using ne by simp
  moreover have "fst ?top \<le> c" if "(c, v) \<in> set (rs_open st)" for c v
  proof -
    have "?top \<le> (c, v)" using that by simp
    then show ?thesis by (cases ?top) (auto simp: less_eq_prod_def)
  qed
  ultimately show ?thesis by (simp add: least_open_def)
qed

lemma least_dist:
  assumes "state_ok q st" "least_open st g k" "k \<notin> rs_done st"
  shows "rs_dist st k = Some g"
proof -
  obtain d where d: "rs_dist st k = Some d" "d \<le> g" using assms(2) state_okD(6) [OF assms(1), of g k] by (auto simp: least_open_def)
  then have "g \<le> d" using state_okD(7) [OF assms(1) d(1) assms(3)] assms(2) by (auto simp: least_open_def)
  then show ?thesis using d by simp
qed

lemma in_remove1: "x \<in> set xs \<Longrightarrow> x \<noteq> y \<Longrightarrow> x \<in> set (remove1 y xs)"
  by simp

lemma skip_ok:
  assumes ok: "loop_ok q st" and k: "k \<in> rs_done st"
  shows "loop_ok q (st\<lparr>rs_open := remove1 (g, k) (rs_open st)\<rparr>)"
proof -
  let ?st = "st\<lparr>rs_open := remove1 (g, k) (rs_open st)\<rparr>"
  have st: "state_ok q st" using ok by (simp add: loop_ok_def)
  have sub: "set (rs_open ?st) \<subseteq> set (rs_open st)" by (simp add: set_remove1_subset)
  have "(d, v) \<in> set (rs_open ?st)" if "rs_dist st v = Some d" "v \<notin> rs_done st" for v d
  proof -
    have "(d, v) \<noteq> (g, k)" using that k by blast
    from in_remove1 [OF state_okD(7) [OF st that] this] show ?thesis by simp
  qed
  note opn = this
  have "state_ok q ?st"
    unfolding state_ok_def
  proof (intro conjI allI impI)
    show "snd ` set (rs_open ?st) \<subseteq> universe q" using state_okD(1) [OF st] sub by blast
    show "rs_dist ?st (key_of (qy_start q)) = Some (Fin 0)" "rs_came ?st (key_of (qy_start q)) = None"
      using state_okD(2,3) [OF st] by simp_all
    show "nonneg d" "\<exists>ls. traced (rs_came ?st) (rs_done ?st) v ls \<and> route_walk q v ls d" if "rs_dist ?st v = Some d" for v d
      using state_okD(4,5) [OF st, of v d] that by simp_all
    show "\<exists>d. rs_dist ?st v = Some d \<and> d \<le> c" if "(c, v) \<in> set (rs_open ?st)" for c v
      using state_okD(6) [OF st, of c v] that sub by auto
    show "(d, v) \<in> set (rs_open ?st)" if "rs_dist ?st v = Some d" "v \<notin> rs_done ?st" for v d
      using opn [of v d] that by simp
    show "rs_done ?st \<subseteq> dom (rs_dist ?st)" using state_okD(8) [OF st] by simp
    show "d \<le> c" if "v \<in> rs_done ?st" "rs_dist ?st v = Some d" "(c, w) \<in> set (rs_open ?st)" for v d c w
      using state_okD(9) [OF st, of v d c w] that sub by auto
  qed
  then show ?thesis using ok by (auto simp: loop_ok_def relaxed_def)
qed

lemma settle_ok:
  assumes ok: "loop_ok q st" and top: "least_open st g k" and k: "k \<notin> rs_done st"
  shows "expanding q k g (st\<lparr>rs_open := remove1 (g, k) (rs_open st), rs_done := insert k (rs_done st)\<rparr>)"
proof -
  let ?st = "st\<lparr>rs_open := remove1 (g, k) (rs_open st), rs_done := insert k (rs_done st)\<rparr>"
  have st: "state_ok q st" using ok by (simp add: loop_ok_def)
  have dist: "rs_dist st k = Some g" by (rule least_dist [OF st top k])
  have sub: "set (rs_open ?st) \<subseteq> set (rs_open st)" by (simp add: set_remove1_subset)
  have below: "d \<le> g" if "v \<in> insert k (rs_done st)" "rs_dist st v = Some d" for v d
    using that dist top state_okD(9) [OF st, of v d g k] by (auto simp: least_open_def)
  have "state_ok q ?st"
    unfolding state_ok_def
  proof (intro conjI allI impI)
    show "snd ` set (rs_open ?st) \<subseteq> universe q" using state_okD(1) [OF st] sub by blast
    show "rs_dist ?st (key_of (qy_start q)) = Some (Fin 0)" "rs_came ?st (key_of (qy_start q)) = None"
      using state_okD(2,3) [OF st] by simp_all
    show "nonneg d" "\<exists>ls. traced (rs_came ?st) (rs_done ?st) v ls \<and> route_walk q v ls d" if "rs_dist ?st v = Some d" for v d
      using state_okD(4,5) [OF st, of v d] that traced_mono [of "rs_came st" "rs_done st" v _ "insert k (rs_done st)"] by auto
    show "\<exists>d. rs_dist ?st v = Some d \<and> d \<le> c" if "(c, v) \<in> set (rs_open ?st)" for c v
      using state_okD(6) [OF st, of c v] that sub by auto
    show "(d, v) \<in> set (rs_open ?st)" if "rs_dist ?st v = Some d" "v \<notin> rs_done ?st" for v d
    proof -
      have "(d, v) \<noteq> (g, k)" "rs_dist st v = Some d" "v \<notin> rs_done st" using that by auto
      from in_remove1 [OF state_okD(7) [OF st this(2,3)] this(1)] show ?thesis by simp
    qed
    show "rs_done ?st \<subseteq> dom (rs_dist ?st)" using state_okD(8) [OF st] dist by auto
    show "d \<le> c" if "v \<in> rs_done ?st" "rs_dist ?st v = Some d" "(c, w) \<in> set (rs_open ?st)" for v d c w
      using below [of v d] that sub top unfolding least_open_def by (auto intro: order_trans)
  qed
  then show ?thesis using dist below by (auto simp: expanding_def)
qed

definition stops :: "query \<Rightarrow> place_key option \<times> search_state \<Rightarrow> bool" where
  "stops q r \<longleftrightarrow> (case r of
     (None, st) \<Rightarrow> loop_ok q st \<and> rs_open st = []
   | (Some k, st) \<Rightarrow> (\<exists>st0 g. loop_ok q st0 \<and> least_open st0 g k \<and> k \<notin> rs_done st0 \<and> goal_reached (qy_goal q) k \<and>
       rs_dist st = rs_dist st0 \<and> rs_came st = rs_came st0))"

lemma route_loop_stops:
  assumes "query_ok q"
  shows "loop_ok q st \<Longrightarrow> \<exists>r. route_loop q st = Some r \<and> stops q r"
proof (induction st rule: wf_induct_rule [OF wf_measures [of "[\<lambda>st. card (universe q - rs_done st), \<lambda>st. length (rs_open st)]"]])
  case (1 st)
  have st: "state_ok q st" using 1(2) by (simp add: loop_ok_def)
  show ?case
  proof (cases "rs_open st = []")
    case True
    then show ?thesis using 1(2) by (simp add: route_loop.simps [of q st] stops_def)
  next
    case False
    define g k where "g = fst (Min (set (rs_open st)))" and "k = snd (Min (set (rs_open st)))"
    have top: "Min (set (rs_open st)) = (g, k)" by (simp add: g_def k_def)
    have least: "least_open st g k" unfolding g_def k_def by (rule least_open_Min [OF False])
    then have mem: "(g, k) \<in> set (rs_open st)" by (simp add: least_open_def)
    show ?thesis
    proof (cases "k \<in> rs_done st")
      case True
      let ?st = "st\<lparr>rs_open := remove1 (g, k) (rs_open st)\<rparr>"
      have "length (rs_open ?st) < length (rs_open st)" using mem length_pos_if_in_set [OF mem] by (simp add: length_remove1)
      then have "(?st, st) \<in> measures [\<lambda>st. card (universe q - rs_done st), \<lambda>st. length (rs_open st)]" by simp
      from 1(1) [OF this skip_ok [OF 1(2) True]] show ?thesis
        using False True by (simp add: route_loop.simps [of q st] top Let_def)
    next
      case new: False
      show ?thesis
      proof (cases "goal_reached (qy_goal q) k")
        case True
        then show ?thesis using False new 1(2) least
          by (auto simp: route_loop.simps [of q st] top Let_def stops_def)
      next
        case goal: False
        let ?st = "st\<lparr>rs_open := remove1 (g, k) (rs_open st), rs_done := insert k (rs_done st)\<rparr>"
        let ?next = "expand q g k ?st"
        note exp = settle_ok [OF 1(2) least new]
        note e = expand_ok [OF assms exp]
        have dn: "rs_done ?next = insert k (rs_done st)" using e(2) by (simp add: improves_def)
        have settled: "relaxed q ?st u" if "u \<in> rs_done st" for u using 1(2) that by (auto simp: loop_ok_def relaxed_def)
        have "relaxed q ?next u" if u: "u \<in> rs_done st" for u
        proof -
          have "u \<in> dom (rs_dist st)" using u state_okD(8) [OF st] by blast
          then show ?thesis using relaxed_improves [OF settled [OF u] e(2)] u by simp
        qed
        then have ok: "loop_ok q ?next" using e(1,3) 1(2) goal by (auto simp: loop_ok_def dn)
        have "k \<in> universe q" using state_okD(1) [OF st] mem by force
        then have "universe q - rs_done ?next \<subset> universe q - rs_done st" using new by (auto simp: dn)
        then have "card (universe q - rs_done ?next) < card (universe q - rs_done st)"
          by (intro psubset_card_mono) (simp_all add: finite_universe)
        then have "(?next, st) \<in> measures [\<lambda>st. card (universe q - rs_done st), \<lambda>st. length (rs_open st)]" by simp
        from 1(1) [OF this ok] show ?thesis
          using False new goal by (simp add: route_loop.simps [of q st] top Let_def)
      qed
    qed
  qed
qed

lemma begin_loop_ok: "loop_ok q (begin_route q)"
  using begin_ok [of q] by (simp add: loop_ok_def begin_route_def)

section \<open>What the search returns\<close>

text \<open>The legs of a route found are those of an allowed way to the goal that takes the time given.\<close>

definition found_by :: "query \<Rightarrow> found \<Rightarrow> (leg \<times> predicate list \<times> predicate list) list \<Rightarrow> bool" where
  "found_by q f ls \<longleftrightarrow> (\<exists>k. goal_reached (qy_goal q) k \<and> route_walk q k ls (fo_cost f)) \<and>
    fo_legs f = coalesce_walks (map fst ls) \<and> set (fo_assumes f) = (\<Union>x \<in> set ls. set (fst (snd x))) \<and>
    set (fo_unmet f) = (\<Union>x \<in> set ls. set (snd (snd x)))"

lemma stops_found:
  assumes "route_loop q (begin_route q) = Some (Some k, st)" "stops q (Some k, st)"
  shows "\<exists>f ls st0. route_search q = Some (Some f) \<and> found_by q f ls \<and> loop_ok q st0 \<and> least_open st0 (fo_cost f) k"
proof -
  obtain st0 g where st0: "loop_ok q st0" "least_open st0 g k" "k \<notin> rs_done st0" "goal_reached (qy_goal q) k"
    "rs_dist st = rs_dist st0" "rs_came st = rs_came st0"
    using assms(2) by (auto simp: stops_def)
  have ok: "state_ok q st0" using st0(1) by (simp add: loop_ok_def)
  have d: "rs_dist st0 k = Some g" by (rule least_dist [OF ok st0(2,3)])
  then obtain ls where ls: "traced (rs_came st0) (rs_done st0) k ls" "route_walk q k ls g" using state_okD(5) [OF ok] by blast
  define f where "f = \<lparr>fo_legs = coalesce_walks (map fst ls), fo_cost = g,
      fo_assumes = sorted_requirement (concat (map (fst \<circ> snd) ls)),
      fo_unmet = sorted_requirement (concat (map (snd \<circ> snd) ls))\<rparr>"
  have "route_search q = Some (Some f)"
    using traced_back [OF ls(1), of "[]"] by (simp add: route_search_def assms(1) st0(5,6) d f_def)
  moreover have "found_by q f ls" using st0(4) ls(2) by (auto simp: found_by_def f_def)
  ultimately show ?thesis using st0(1,2) by (auto simp: f_def)
qed

lemma route_search_returns:
  assumes "query_ok q"
  shows "\<exists>r. route_search q = Some r \<and> (\<forall>f. r = Some f \<longrightarrow> (\<exists>ls. found_by q f ls))"
proof -
  obtain r where r: "route_loop q (begin_route q) = Some r" "stops q r"
    using route_loop_stops [OF assms begin_loop_ok] by blast
  obtain ko st where ks: "r = (ko, st)" by (cases r)
  show ?thesis
  proof (cases ko)
    case None
    then show ?thesis using r(1) by (simp add: route_search_def ks)
  next
    case (Some k)
    then show ?thesis using stops_found [of q k st] r by (auto simp: ks)
  qed
qed

text \<open>Where no escape is at hand, an allowed way leads to a place that is done, or past one that waits.\<close>

lemma no_way_around:
  assumes ok: "query_ok q" and none: "escape_edges q = []" and st: "loop_ok q st"
  shows "route_walk q v ls c \<Longrightarrow> nonneg c \<and>
    (v \<in> rs_done st \<and> (\<exists>d. rs_dist st v = Some d \<and> d \<le> c) \<or> (\<exists>c' k. (c', k) \<in> set (rs_open st) \<and> c' \<le> c))"
proof (induction rule: route_walk.induct)
  case walk_start
  have s: "state_ok q st" using st by (simp add: loop_ok_def)
  show ?case using state_okD(2) [OF s] state_okD(7) [OF s state_okD(2) [OF s]] by auto
next
  case (walk_leg u ls c here m info e unmet assumed penalty)
  let ?ng = "f_add (f_add c (ed_cost e)) penalty"
  have s: "state_ok q st" using st by (simp add: loop_ok_def)
  have n: "nonneg c" "nonneg (ed_cost e)" "nonneg penalty"
    using walk_leg ok priced_penalty [OF ok] by (auto simp: query_ok_def)
  have up: "c \<le> ?ng" using f_add_ge [OF n(1,2)] f_add_ge [of "f_add c (ed_cost e)" penalty] n by (auto intro: order_trans)
  have ng: "nonneg ?ng" using n by simp
  from walk_leg.IH show ?case
  proof (elim conjE disjE exE)
    fix d
    assume u: "u \<in> rs_done st" and d: "rs_dist st u = Some d" "d \<le> c"
    have "e \<in> set (out_edges q u)" using walk_leg.hyps none by simp
    then obtain d' where d': "rs_dist st (key_of (ed_to e)) = Some d'" "d' \<le> f_add (f_add d (ed_cost e)) penalty"
      using st u d(1) walk_leg.hyps(4) unfolding loop_ok_def relaxed_def by blast
    have nd: "nonneg d" using state_okD(4) [OF s d(1)] .
    have "f_add (f_add d (ed_cost e)) penalty \<le> ?ng"
      using nd n d(2) by (intro f_add_mono) simp_all
    then have "d' \<le> ?ng" using d'(2) by (rule order_trans [rotated])
    then show ?thesis using ng d'(1) state_okD(7) [OF s d'(1)] by blast
  next
    fix c' k
    assume "(c', k) \<in> set (rs_open st)" "c' \<le> c"
    then show ?thesis using ng order_trans [OF _ up] by blast
  qed
qed

lemma route_search_exact:
  assumes ok: "query_ok q" and none: "escape_edges q = []"
  shows "\<exists>r. route_search q = Some r \<and>
    (r = None \<longrightarrow> \<not> (\<exists>k ls c. goal_reached (qy_goal q) k \<and> route_walk q k ls c)) \<and>
    (\<forall>f. r = Some f \<longrightarrow> (\<exists>ls. found_by q f ls) \<and>
      (\<forall>k ls c. goal_reached (qy_goal q) k \<longrightarrow> route_walk q k ls c \<longrightarrow> fo_cost f \<le> c))"
proof -
  obtain r where r: "route_loop q (begin_route q) = Some r" "stops q r"
    using route_loop_stops [OF ok begin_loop_ok] by blast
  obtain ko st where ks: "r = (ko, st)" by (cases r)
  show ?thesis
  proof (cases ko)
    case None
    then have st: "loop_ok q st" "rs_open st = []" using r(2) by (simp_all add: ks stops_def)
    have "\<not> goal_reached (qy_goal q) k" if "route_walk q k ls c" for k ls c
      using no_way_around [OF ok none st(1) that] st by (auto simp: loop_ok_def)
    then show ?thesis using None r(1) by (auto simp: route_search_def ks)
  next
    case (Some k)
    then obtain f ls st0 where f: "route_search q = Some (Some f)" "found_by q f ls" "loop_ok q st0" "least_open st0 (fo_cost f) k"
      using stops_found [of q k st] r by (auto simp: ks)
    have "fo_cost f \<le> c" if "goal_reached (qy_goal q) v" "route_walk q v xs c" for v xs c
      using no_way_around [OF ok none f(3) that(2)] that(1) f(3,4)
      unfolding least_open_def loop_ok_def by (meson order_trans)
    then show ?thesis using f(1,2) by blast
  qed
qed

section \<open>What a leg of an open route needs, the belief holds\<close>

lemma joined_requires:
  "joined_walk a b = Some j \<Longrightarrow> set (lg_requires j) = set (lg_requires a) \<union> set (lg_requires b)"
proof -
  have "set (fold (\<lambda>p r. if p \<in> set r then r else r @ [p]) ps rs) = set rs \<union> set ps" for ps rs :: requirement
    by (induction ps arbitrary: rs) auto
  then show "joined_walk a b = Some j \<Longrightarrow> set (lg_requires j) = set (lg_requires a) \<union> set (lg_requires b)"
    by (auto simp: joined_walk_def split: edge_kind.splits if_splits)
qed

lemma coalesce_requires:
  "(\<Union>l \<in> set (coalesce_walks legs). set (lg_requires l)) = (\<Union>l \<in> set legs. set (lg_requires l))"
proof -
  have push: "(\<Union>l \<in> set (push_leg b out). set (lg_requires l)) = (\<Union>l \<in> set out. set (lg_requires l)) \<union> set (lg_requires b)" for b out
  proof (cases "out = []")
    case False
    have "set out = set (butlast out @ [last out])" by (simp only: append_butlast_last_id [OF False])
    then have out: "(\<Union>l \<in> set out. set (lg_requires l)) =
        (\<Union>l \<in> set (butlast out). set (lg_requires l)) \<union> set (lg_requires (last out))" by (simp add: Un_commute)
    show ?thesis
    proof (cases "joined_walk (last out) b")
      case (Some j)
      then show ?thesis using False joined_requires [OF Some] unfolding out by (auto simp: push_leg_def)
    qed (use False in \<open>auto simp: push_leg_def\<close>)
  qed (simp add: push_leg_def)
  have "(\<Union>l \<in> set (fold push_leg legs out). set (lg_requires l)) =
      (\<Union>l \<in> set out. set (lg_requires l)) \<union> (\<Union>l \<in> set legs. set (lg_requires l))" for out
    by (induction legs arbitrary: out) (auto simp: push)
  then show ?thesis by (simp add: coalesce_walks_def)
qed

lemma priced_open:
  "qy_pass q = Open_Pass \<Longrightarrow> qy_policy q = Pessimistic \<Longrightarrow> priced q r = Some x \<Longrightarrow> \<forall>p \<in> set r. qy_eval q p = Truth_True"
  using allows_open [of "qy_eval q" r] by (auto simp: priced_def lacks_def split: if_splits)

lemma walk_holds:
  assumes "qy_pass q = Open_Pass" "qy_policy q = Pessimistic"
  shows "route_walk q k ls c \<Longrightarrow> x \<in> set ls \<Longrightarrow> p \<in> set (lg_requires (fst x)) \<Longrightarrow> qy_eval q p = Truth_True"
  by (induction arbitrary: x rule: route_walk.induct)
    (use priced_open [OF assms] in \<open>auto simp: leg_of_def\<close>)

lemma found_holds:
  assumes "qy_pass q = Open_Pass" "qy_policy q = Pessimistic" "found_by q f ls" "l \<in> set (fo_legs f)" "p \<in> set (lg_requires l)"
  shows "qy_eval q p = Truth_True"
proof -
  obtain k where k: "route_walk q k ls (fo_cost f)" and legs: "fo_legs f = coalesce_walks (map fst ls)"
    using assms(3) by (auto simp: found_by_def)
  have "p \<in> (\<Union>l \<in> set (coalesce_walks (map fst ls)). set (lg_requires l))" using assms(4,5) legs by auto
  then have "p \<in> (\<Union>l \<in> set (map fst ls). set (lg_requires l))" by (simp only: coalesce_requires)
  then show ?thesis using walk_holds [OF assms(1,2) k] by auto
qed

section \<open>Alternatives\<close>

lemma priced_lacks: "priced q r = Some (unmet, assumed, penalty) \<Longrightarrow> set unmet \<subseteq> set (lacks q r) \<and> allows_unmet (qy_pass q) unmet"
  by (cases "qy_pass q") (auto simp: priced_def Let_def split: if_splits)

lemma walk_unmet:
  "route_walk q k ls c \<Longrightarrow> x \<in> set ls \<Longrightarrow> allows_unmet (qy_pass q) (snd (snd x))"
  by (induction arbitrary: x rule: route_walk.induct) (use priced_lacks in \<open>auto\<close>)

lemma found_forbidden:
  assumes "found_by q f ls" "qy_pass q = Forbid forbidden"
  shows "set (fo_unmet f) \<inter> set forbidden = {}"
proof -
  obtain k where "route_walk q k ls (fo_cost f)" using assms(1) by (auto simp: found_by_def)
  from walk_unmet [OF this] show ?thesis using assms by (fastforce simp: found_by_def list_ex_iff)
qed

fun apart :: "predicate set \<Rightarrow> predicate list list \<Rightarrow> bool" where
  "apart seen [] = True"
| "apart seen (u # us) = (set u \<inter> seen = {} \<and> apart (seen \<union> set u) us)"

lemma blocked_routes_ok:
  assumes "\<And>f. query_ok (q\<lparr>qy_pass := Forbid f\<rparr>)"
  shows "\<exists>bs. blocked_routes n q open_cost forbidden = Some bs \<and> length bs \<le> n \<and>
    apart (set forbidden) (map fst bs) \<and> (\<forall>b \<in> set bs. fst b \<noteq> [] \<and> \<not> f_le open_cost (snd b))"
proof (induction n arbitrary: forbidden)
  case (Suc n)
  let ?q = "q\<lparr>qy_pass := Forbid forbidden\<rparr>"
  obtain r where r: "route_search ?q = Some r" "\<And>f. r = Some f \<Longrightarrow> \<exists>ls. found_by ?q f ls"
    using route_search_returns [OF assms] by blast
  show ?case
  proof (cases r)
    case None
    then show ?thesis using r(1) by simp
  next
    case (Some alt)
    obtain ls where "found_by ?q alt ls" using r(2) [OF Some] by blast
    then have free: "set (fo_unmet alt) \<inter> set forbidden = {}" by (rule found_forbidden) simp
    obtain bs where "blocked_routes n q open_cost (forbidden @ fo_unmet alt) = Some bs" "length bs \<le> n"
      "apart (set (forbidden @ fo_unmet alt)) (map fst bs)" "\<forall>b \<in> set bs. fst b \<noteq> [] \<and> \<not> f_le open_cost (snd b)"
      using Suc.IH [of "forbidden @ fo_unmet alt"] by blast
    then show ?thesis using r(1) Some free by simp
  qed
qed simp

section \<open>Searches over a graph as it is built\<close>

lemma offer_way_cases:
  "offer_way free eval policy pass w best = best \<or>
    (\<exists>n c. offer_way free eval policy pass w best = Some (n, c) \<and> (wy_cost c = Fin 0 \<or> wy_cost c = wy_cost w))"
  by (simp add: offer_way_def Let_def)

lemma best_way_cost:
  assumes "list_all (\<lambda>w. nonneg (wy_cost w)) ways" "best_way free eval policy pass ways = Some w"
  shows "nonneg (wy_cost w)"
proof -
  have "\<forall>n w. fold (offer_way free eval policy pass) ways best = Some (n, w) \<longrightarrow> nonneg (wy_cost w)"
    if "\<forall>n w. best = Some (n, w) \<longrightarrow> nonneg (wy_cost w)" for best
    using assms(1) that
  proof (induction ways arbitrary: best)
    case (Cons x xs)
    have "nonneg (wy_cost x)" "list_all (\<lambda>w. nonneg (wy_cost w)) xs" using Cons.prems(1) by simp_all
    then have "\<forall>n w. offer_way free eval policy pass x best = Some (n, w) \<longrightarrow> nonneg (wy_cost w)"
      using Cons.prems(2) offer_way_cases [of free eval policy pass x best] by auto
    then show ?case using Cons.IH [OF \<open>list_all (\<lambda>w. nonneg (wy_cost w)) xs\<close>] by simp
  qed simp
  then show ?thesis using assms(2) by (fastforce simp: best_way_def)
qed

lemma passable_cost:
  assumes "ways_ok (mi_blockers info)" "ways_ok (mi_openable info)"
    "map_of (te_passable (terrain_of info eval policy pass)) t = Some w"
  shows "nonneg (wy_cost w)"
proof -
  have "(t, w) \<in> set (te_passable (terrain_of info eval policy pass))" using assms(3) by (rule map_of_SomeD)
  then obtain ways free where "(t, ways) \<in> set (mi_openable info) \<union> set (mi_blockers info)"
    "best_way free eval policy pass ways = Some w"
    by (auto simp: terrain_of_def Let_def set_map_filter_iff)
  then show ?thesis using assms(1,2) best_way_cost [of ways free eval policy pass w] by (auto simp: ways_ok_def list_all_iff)
qed

lemma info_ok:
  assumes "graph_ok params g"
  shows "ways_ok (mi_blockers (info_of g m)) \<and> ways_ok (mi_openable (info_of g m))"
proof (cases "map_of (gr_maps g) m")
  case (Some i)
  have "infos_ok g" using assms by (simp add: graph_ok_def)
  then show ?thesis using map_of_SomeD [OF Some] Some by (fastforce simp: infos_ok_def info_of_def list_all_iff)
qed (simp add: info_of_def ways_ok_def)

lemma walk_edge_cost:
  assumes p: "params_ok params" and ways: "\<And>t w. map_of (te_passable terr) t = Some w \<Longrightarrow> nonneg (wy_cost w)"
    and e: "walk_edge params info terr m src r to = Some e"
  shows "nonneg (ed_cost e)"
proof -
  have f: "nonneg (fold (\<lambda>w s. f_add s (wy_cost w)) ws s)" if "nonneg s" "\<forall>w \<in> set ws. nonneg (wy_cost w)" for ws s
    using that by (induction ws arbitrary: s) simp_all
  have w: "nonneg (fold (\<lambda>w s. f_add s (wy_cost w)) (ways_crossed terr ts) (Fin 0))" for ts
    by (rule f) (use ways in \<open>auto simp: ways_crossed_def set_map_filter_iff\<close>)
  show ?thesis
    using e w times_tiles [OF p] params_okD(6) [OF p] by (auto simp: walk_edge_def Let_def split: option.splits if_splits)
qed

definition penalties_ok :: "unknown_policy \<Rightarrow> bool" where
  "penalties_ok policy \<longleftrightarrow> (case policy of Pessimistic \<Rightarrow> True
    | Optimistic penalty \<Rightarrow> \<forall>p. is_finite (penalty p) \<longrightarrow> nonneg (penalty p))"

lemma built_query_ok:
  assumes p: "params_ok params" and g: "qy_graph q = build_graph a params" and pol: "penalties_ok (qy_policy q)"
  shows "query_ok q"
proof -
  have ok: "graph_ok params (qy_graph q)" unfolding g by (rule build_graph_ok [OF p])
  have par: "gr_params (qy_graph q) = params" using ok by (simp add: graph_ok_def)
  have keyed: "key_of here = u" if "stand q u = Some (here, m, info)" for u here m info
  proof -
    have "map_of (gr_places (qy_graph q)) u = Some here \<Longrightarrow> key_of here = u"
      using ok by (auto simp: graph_ok_def list_all_iff dest!: map_of_SomeD)
    then show ?thesis using that by (auto simp: stand_def split: option.splits if_splits bind_splits)
  qed
  have esc: "nonneg (ed_cost e)" if "e \<in> set (escape_edges q)" for e
    using that params_okD(9,10) [OF p] by (auto simp: escape_edges_def par split: option.splits if_splits)
  have out: "nonneg (ed_cost e)" if e: "e \<in> set (out_edges q u)" for e u
  proof -
    have edges: "nonneg (ed_cost e)" if "e \<in> set (edges_from (qy_graph q) k)" for k
      using entry_of_in [of e "gr_edges (qy_graph q)" k] that ok
      by (auto simp: edges_from_def graph_ok_def list_all_iff)
    have fly: "nonneg (ed_cost e)" if "e \<in> set (flights q)" using that params_okD(4) [OF p] by (auto simp: flights_def par)
    have walk: "nonneg (ed_cost e)" if "walk_edge params info (query_terrain q n) m src r t = Some e" for info n m src r t
    proof (rule walk_edge_cost [OF p _ that])
      fix s w assume "map_of (te_passable (query_terrain q n)) s = Some w"
      then show "nonneg (wy_cost w)" unfolding query_terrain_def
        using passable_cost info_ok [OF ok] by blast
    qed
    show ?thesis using e
      by (auto simp: out_edges_def par Let_def set_map_filter_iff split: option.splits if_splits intro: edges fly walk)
  qed
  show ?thesis using keyed esc out pol by (auto simp: query_ok_def penalties_ok_def)
qed

text \<open>C5: The search over a graph as it is built always returns: a route whose time no allowed way from the start to
  the goal undercuts, or nothing exactly when there is no such way, where no escape warp is known.\<close>

theorem route_is_cheapest:
  assumes "params_ok params" "qy_graph q = build_graph a params" "penalties_ok (qy_policy q)" "qy_escape q = None"
  shows "\<exists>r. route_search q = Some r \<and>
    (case r of
       None \<Rightarrow> \<not> (\<exists>k ls c. goal_reached (qy_goal q) k \<and> route_walk q k ls c)
     | Some f \<Rightarrow> (\<exists>ls. found_by q f ls) \<and>
         \<not> (\<exists>k ls c. goal_reached (qy_goal q) k \<and> route_walk q k ls c \<and> \<not> fo_cost f \<le> c))"
proof -
  have "escape_edges q = []" using assms(4) by (simp add: escape_edges_def escape_place_def)
  from route_search_exact [OF built_query_ok [OF assms(1-3)] this] show ?thesis by (auto split: option.split)
qed


text \<open>C28: The alternatives a plan lists are at most eight, each lacks something, none of what those before it lack, and
  none is as slow as the open route.\<close>

theorem alternatives_differ:
  assumes "params_ok params" "penalties_ok policy"
  shows "\<exists>r. plan_with (query_of a (build_graph a params) eval escape src goal policy) True = Some r \<and>
    length (rr_blocked r) \<le> 8 \<and> apart {} (map fst (rr_blocked r)) \<and>
    list_all (\<lambda>(unmet, cost). unmet \<noteq> [] \<and> \<not> f_le (rr_cost r) cost) (rr_blocked r)"
proof -
  let ?q = "query_of a (build_graph a params) eval escape src goal policy"
  have ok: "query_ok (?q\<lparr>qy_pass := p\<rparr>)" for p
    by (rule built_query_ok [OF assms(1), of _ a]) (simp_all add: query_of_def assms(2))
  obtain r where r: "route_search (?q\<lparr>qy_pass := Open_Pass\<rparr>) = Some r" using route_search_returns [OF ok] by blast
  obtain bs where "blocked_routes MAX_BLOCKED_SETS ?q (case r of None \<Rightarrow> Inf | Some f \<Rightarrow> fo_cost f) [] = Some bs"
    "length bs \<le> MAX_BLOCKED_SETS" "apart {} (map fst bs)"
    "\<forall>b \<in> set bs. fst b \<noteq> [] \<and> \<not> f_le (case r of None \<Rightarrow> Inf | Some f \<Rightarrow> fo_cost f) (snd b)"
    using blocked_routes_ok [of ?q MAX_BLOCKED_SETS "case r of None \<Rightarrow> Inf | Some f \<Rightarrow> fo_cost f" "[]"] ok by auto
  then show ?thesis using r by (cases r) (auto simp: plan_with_def Let_def MAX_BLOCKED_SETS_def list_all_iff)
qed

section \<open>Examples, with the default times\<close>

lemma default_params_ok: "params_ok default_params"
proof -
  have "rnd (1 / 4) \<le> rnd (268 / 1000)" "rnd (268 / 1000) \<le> rnd 1" by (rule rnd_mono; simp)+
  moreover have "rnd (1 / 4) = 1 / 4" by (rule rnd_exact [of _ 1 "- 2"]) (simp_all add: two_to_def)
  moreover have "rnd 1 = 1" by (rule rnd_exact [of _ 1 0]) (simp_all add: two_to_def)
  ultimately have "0 < rnd (268 / 1000)" "rnd (268 / 1000) \<le> 1" by linarith+
  moreover have "(1 :: rat) < 2 ^ 1024" by simp
  ultimately have "to_f64 (268 / 1000) = Fin (rnd (268 / 1000))" "0 < rnd (268 / 1000)"
    by (simp_all add: to_f64_nonneg not_le order_le_less_trans)
  moreover have "nonneg (to_f64 (268 / 1000))" by simp
  moreover have "to_f64 550 = Fin 550" "to_f64 10 = Fin 10" using to_f64_int [of 550] to_f64_int [of 10] by simp_all
  moreover from this have "nonneg (Fin 10)" using nonneg_to_f64 [of 10] by simp
  ultimately show ?thesis by (simp add: params_ok_def default_params_def)
qed

definition guarded_gym :: atlas where
  "guarded_gym = \<lparr>al_world = gym_world, al_events = None, al_places = None\<rparr>"

definition in_gym :: player_pose where
  "in_gym = \<lparr>pp_map = ''Gym'', pp_x = 0, pp_y = 0\<rparr>"

theorem terrain_from_codes_witness:
  "terrain_of (map_info_of default_params guarded_gym [(''Gym'', [((0, 0), gym_gate)])] gym_map)
      (\<lambda>p. Truth_True) Pessimistic Open_Pass =
    terrain_of (map_info_of default_params guarded_gym [(''Gym'', [((0, 0), gym_gate)])] gym_map)
      (\<lambda>p. if p = Flag ''FLAG_TEA'' True then Truth_True else Truth_False) Pessimistic (Forbid [])"
  by (rule terrain_from_codes)
    (simp add: terrain_codes_def map_info_of_def tile_ways_of_def entry_of_def gym_map_def blockers_def guarded_gym_def
      add_tile_gate_def gym_gate_def way_requirements_def sorted_requirement_def tile_is_def tile_at_def in_bounds_def
      free_ways_def standing_holds)

definition from_gym :: query where
  "from_gym = query_of guarded_gym (build_graph guarded_gym default_params) (eval_state thirsty) None in_gym
    (Goal_Map ''Gym'') Pessimistic"

theorem route_is_cheapest_witness: "\<exists>f. route_search from_gym = Some (Some f) \<and> fo_cost f \<le> Fin 0"
proof -
  have start: "\<exists>k ls. goal_reached (qy_goal from_gym) k \<and> route_walk from_gym k ls (Fin 0)"
    by (intro exI [of _ "key_of (qy_start from_gym)"] exI [of _ "[]"] conjI walk_start)
      (simp add: from_gym_def query_of_def in_gym_def place_of_pose_def tile_place_def key_of_def)
  have pol: "penalties_ok (qy_policy from_gym)" "qy_escape from_gym = None"
      "qy_graph from_gym = build_graph guarded_gym default_params"
    by (simp_all add: from_gym_def query_of_def penalties_ok_def)
  obtain r where r: "route_search from_gym = Some r" and best:
    "case r of None \<Rightarrow> \<not> (\<exists>k ls c. goal_reached (qy_goal from_gym) k \<and> route_walk from_gym k ls c)
     | Some f \<Rightarrow> (\<exists>ls. found_by from_gym f ls) \<and>
         \<not> (\<exists>k ls c. goal_reached (qy_goal from_gym) k \<and> route_walk from_gym k ls c \<and> \<not> fo_cost f \<le> c)"
    using route_is_cheapest [OF default_params_ok pol(3,1,2)] by blast
  show ?thesis
  proof (cases r)
    case None
    then show ?thesis using best start by auto
  next
    case (Some f)
    then have "fo_cost f \<le> Fin 0" using best start by auto
    then show ?thesis using r Some by blast
  qed
qed


theorem alternatives_differ_witness:
  "\<exists>r. plan_with (query_of guarded_gym (build_graph guarded_gym default_params) (eval_state thirsty) None in_gym
      (Goal_Map ''Gym'') (Optimistic (\<lambda>p. Fin 10))) True = Some r \<and>
    length (rr_blocked r) \<le> 8 \<and> apart {} (map fst (rr_blocked r)) \<and>
    list_all (\<lambda>(unmet, cost). unmet \<noteq> [] \<and> \<not> f_le (rr_cost r) cost) (rr_blocked r)"
proof -
  have "to_f64 10 = Fin 10" using to_f64_int [of 10] by simp
  then have "nonneg (Fin 10)" using nonneg_to_f64 [of 10] by simp
  then show ?thesis by (intro alternatives_differ default_params_ok) (simp add: penalties_ok_def)
qed

end
