(* ===== verification/Inference.thy ===== *)
theory Inference
  imports F64 Belief Predicates
begin

text \<open>
  What observed facts say about others (crates/state/src/inference.rs) and how likely the unobserved ones are
  (crates/state/src/priors.rs). A rule fires on observed premises only and writes its conclusion as derived, unless
  the fact is observed; the rules run until a pass changes nothing. The files the rules are read from are left out;
  an error names the rule by its index.
\<close>

section \<open>Conditions\<close>

record belief_test =
  bt_flag :: "string option"
  bt_var :: "string option"
  bt_visited :: "string option"
  bt_is :: "bool option"
  bt_eq :: "nat option"
  bt_ge :: "nat option"

definition no_test :: belief_test where
  "no_test = \<lparr>bt_flag = None, bt_var = None, bt_visited = None, bt_is = None, bt_eq = None, bt_ge = None\<rparr>"

definition flag_test :: "string \<Rightarrow> bool \<Rightarrow> belief_test" where
  "flag_test name v = no_test\<lparr>bt_flag := Some name, bt_is := Some v\<rparr>"

definition visited_test :: "string \<Rightarrow> bool \<Rightarrow> belief_test" where
  "visited_test m v = no_test\<lparr>bt_visited := Some m, bt_is := Some v\<rparr>"

definition var_eq_test :: "string \<Rightarrow> nat \<Rightarrow> belief_test" where
  "var_eq_test name v = no_test\<lparr>bt_var := Some name, bt_eq := Some v\<rparr>"

definition var_ge_test :: "string \<Rightarrow> nat \<Rightarrow> belief_test" where
  "var_ge_test name v = no_test\<lparr>bt_var := Some name, bt_ge := Some v\<rparr>"

definition fact_of :: "belief_test \<Rightarrow> string + fact" where
  "fact_of c =
    (case (bt_flag c, bt_var c, bt_visited c) of
       (Some f, None, None) \<Rightarrow> Inr (Flag_Fact f)
     | (None, Some v, None) \<Rightarrow> Inr (Var_Fact v)
     | (None, None, Some m) \<Rightarrow> Inr (Visited_Fact m)
     | (None, None, None) \<Rightarrow> Inl ''names no flag, var or visited''
     | _ \<Rightarrow> Inl ''names more than one of flag, var and visited'')"

definition validate_test :: "belief_test \<Rightarrow> bool \<Rightarrow> string + unit" where
  "validate_test c conclusion =
    (case fact_of c of
       Inl e \<Rightarrow> Inl e
     | Inr f \<Rightarrow>
         let on = (bt_is c \<noteq> None); eq = (bt_eq c \<noteq> None); ge = (bt_ge c \<noteq> None) in
         (case f of
            Var_Fact v \<Rightarrow>
              if conclusion then
                (if eq \<and> \<not> on \<and> \<not> ge then Inr () else Inl (display_fact f @ '' needs exactly `eq`''))
              else
                (if \<not> on \<and> eq \<noteq> ge then Inr () else Inl (display_fact f @ '' needs exactly one of `eq` and `ge`''))
          | _ \<Rightarrow> if on \<and> \<not> eq \<and> \<not> ge then Inr () else Inl (display_fact f @ '' needs exactly `is`'')))"

text \<open>An observed value, with the frame it was verified at.\<close>

definition observed_value :: "'a knowledge \<Rightarrow> ('a \<times> nat) option" where
  "observed_value k =
    (if kn_source k = Observed
     then map_option (\<lambda>v. (v, case kn_frame k of None \<Rightarrow> 0 | Some f \<Rightarrow> f)) (kn_value k) else None)"

definition var_test :: "belief_test \<Rightarrow> nat \<Rightarrow> bool" where
  "var_test c v = (case bt_eq c of
     Some e \<Rightarrow> v = e
   | None \<Rightarrow> (case bt_ge c of Some g \<Rightarrow> g \<le> v | None \<Rightarrow> False))"

definition observed_in :: "belief_test \<Rightarrow> world_belief \<Rightarrow> nat option" where
  "observed_in c w =
    (case fact_of c of
       Inl e \<Rightarrow> None
     | Inr (Flag_Fact f) \<Rightarrow> Option.bind (Option.bind (map_of (wb_flags w) f) observed_value)
         (\<lambda>(v, frame). if Some v = bt_is c then Some frame else None)
     | Inr (Visited_Fact m) \<Rightarrow> Option.bind (Option.bind (map_of (wb_visited w) m) observed_value)
         (\<lambda>(v, frame). if Some v = bt_is c then Some frame else None)
     | Inr (Var_Fact x) \<Rightarrow> Option.bind (Option.bind (map_of (wb_vars w) x) observed_value)
         (\<lambda>(v, frame). if var_test c v then Some frame else None))"

text \<open>The slot of a fact after a derivation, \<open>None\<close> where it stays as it is.\<close>

definition put_derived :: "'a knowledge \<Rightarrow> 'a \<Rightarrow> nat \<Rightarrow> 'a knowledge option" where
  "put_derived slot v frame =
    (if kn_source slot = Observed \<and> kn_value slot \<noteq> None then None
     else if slot = derived v frame then None
     else Some (derived v frame))"

definition derive_in :: "'v facts \<Rightarrow> string \<Rightarrow> 'v \<Rightarrow> nat \<Rightarrow> 'v facts option" where
  "derive_in facts name v frame =
    map_option (\<lambda>k. AList.update name k facts) (put_derived (or_unknown (map_of facts name)) v frame)"

text \<open>The belief with the conclusion written, \<open>None\<close> where nothing changes.\<close>

definition derive :: "belief_test \<Rightarrow> world_belief \<Rightarrow> nat \<Rightarrow> world_belief option" where
  "derive c w frame =
    (case fact_of c of
       Inl e \<Rightarrow> None
     | Inr (Flag_Fact f) \<Rightarrow> Option.bind (bt_is c)
         (\<lambda>v. map_option (\<lambda>x. w\<lparr>wb_flags := x\<rparr>) (derive_in (wb_flags w) f v frame))
     | Inr (Visited_Fact m) \<Rightarrow> Option.bind (bt_is c)
         (\<lambda>v. map_option (\<lambda>x. w\<lparr>wb_visited := x\<rparr>) (derive_in (wb_visited w) m v frame))
     | Inr (Var_Fact x) \<Rightarrow> Option.bind (bt_eq c)
         (\<lambda>v. map_option (\<lambda>y. w\<lparr>wb_vars := y\<rparr>) (derive_in (wb_vars w) x v frame)))"

section \<open>Rules\<close>

record inference_rule =
  ir_premises :: "belief_test list"
  ir_conclusion :: belief_test

fun first_error :: "(string + unit) list \<Rightarrow> string + unit" where
  "first_error [] = Inr ()"
| "first_error (Inl e # rs) = Inl e"
| "first_error (Inr u # rs) = first_error rs"

definition prefixed :: "string \<Rightarrow> string + unit \<Rightarrow> string + unit" where
  "prefixed p r = (case r of Inl e \<Rightarrow> Inl (p @ e) | Inr u \<Rightarrow> Inr u)"

definition validate_rule :: "inference_rule \<Rightarrow> string + unit" where
  "validate_rule r =
    (if ir_premises r = [] then Inl ''has no premise''
     else first_error (map (\<lambda>p. prefixed ''premise '' (validate_test p False)) (ir_premises r) @
       [prefixed ''conclusion '' (validate_test (ir_conclusion r) True)]))"

fun validate_from :: "('r \<Rightarrow> string + unit) \<Rightarrow> nat \<Rightarrow> 'r list \<Rightarrow> (nat \<times> string) + unit" where
  "validate_from check_rule i [] = Inr ()"
| "validate_from check_rule i (r # rs) =
    (case check_rule r of Inl e \<Rightarrow> Inl (i, e) | Inr u \<Rightarrow> validate_from check_rule (Suc i) rs)"

definition inference_rules :: "inference_rule list \<Rightarrow> (nat \<times> string) + inference_rule list" where
  "inference_rules rules = (case validate_from validate_rule 0 rules of Inl e \<Rightarrow> Inl e | Inr u \<Rightarrow> Inr rules)"

text \<open>The latest frame among the observations of the premises, when all hold.\<close>

fun latest :: "nat \<Rightarrow> nat option list \<Rightarrow> nat option" where
  "latest acc [] = Some acc"
| "latest acc (None # fs) = None"
| "latest acc (Some f # fs) = latest (max acc f) fs"

definition fires_at :: "inference_rule \<Rightarrow> world_belief \<Rightarrow> nat option" where
  "fires_at r w = latest 0 (map (\<lambda>p. observed_in p w) (ir_premises r))"

definition run_rule :: "inference_rule \<Rightarrow> world_belief \<times> nat \<Rightarrow> world_belief \<times> nat" where
  "run_rule r s =
    (case Option.bind (fires_at r (fst s)) (derive (ir_conclusion r) (fst s)) of
       None \<Rightarrow> s
     | Some w \<Rightarrow> (w, snd s + 1))"

partial_function (option) rule_loop :: "inference_rule list \<Rightarrow> world_belief \<times> nat \<Rightarrow> (world_belief \<times> nat) option" where
  "rule_loop rules s =
    (let s' = fold run_rule rules s in if snd s' = snd s then Some s' else rule_loop rules s')"

text \<open>The belief and the number of facts derived or changed; \<open>None\<close> where the loop does not end.\<close>

definition apply_rules :: "inference_rule list \<Rightarrow> world_belief \<Rightarrow> (world_belief \<times> nat) option" where
  "apply_rules rules w = rule_loop rules (w, 0)"

section \<open>Facts with their values\<close>

datatype fact_value = Bool_Value bool | Num_Value nat

definition map_knowledge :: "('a \<Rightarrow> 'b) \<Rightarrow> 'a knowledge \<Rightarrow> 'b knowledge" where
  "map_knowledge f k = \<lparr>kn_value = map_option f (kn_value k), kn_source = kn_source k, kn_frame = kn_frame k\<rparr>"

fun slot :: "world_belief \<Rightarrow> fact \<Rightarrow> fact_value knowledge" where
  "slot w (Flag_Fact n) = map_knowledge Bool_Value (wb_flag w n)"
| "slot w (Visited_Fact n) = map_knowledge Bool_Value (wb_was_visited w n)"
| "slot w (Var_Fact n) = map_knowledge Num_Value (wb_var w n)"

definition seen :: "world_belief \<Rightarrow> fact \<Rightarrow> (fact_value \<times> nat) option" where
  "seen w f = observed_value (slot w f)"

fun passes :: "belief_test \<Rightarrow> fact_value \<Rightarrow> bool" where
  "passes c (Bool_Value b) = (Some b = bt_is c)"
| "passes c (Num_Value n) = var_test c n"

definition concluded :: "belief_test \<Rightarrow> (fact \<times> fact_value) option" where
  "concluded c =
    (case fact_of c of
       Inl e \<Rightarrow> None
     | Inr (Var_Fact x) \<Rightarrow> map_option (\<lambda>v. (Var_Fact x, Num_Value v)) (bt_eq c)
     | Inr f \<Rightarrow> map_option (\<lambda>v. (f, Bool_Value v)) (bt_is c))"

lemma observed_value_simps [simp]:
  "observed_value unknown = None" "observed_value (derived v fr) = None"
  "observed_value (map_knowledge f k) = map_option (\<lambda>(v, fr). (f v, fr)) (observed_value k)"
  by (simp_all add: observed_value_def map_knowledge_def unknown_def derived_def option.map_comp comp_def)

lemma observed_or_unknown: "observed_value (or_unknown k) = Option.bind k observed_value"
  by (cases k) (simp_all add: or_unknown_def)

lemma observed_in_seen:
  "observed_in c w = (case fact_of c of
     Inl e \<Rightarrow> None
   | Inr f \<Rightarrow> Option.bind (seen w f) (\<lambda>(v, fr). if passes c v then Some fr else None))"
  by (auto simp: observed_in_def seen_def wb_flag_def wb_var_def wb_was_visited_def observed_or_unknown
      split: sum.split fact.split Option.bind_split)

lemma map_knowledge_derived:
  "inj f \<Longrightarrow> map_knowledge f k = derived (f v) fr \<longleftrightarrow> k = derived v fr"
  by (auto simp: map_knowledge_def derived_def inj_eq)

lemma inj_values: "inj Bool_Value" "inj Num_Value"
  by (auto intro: injI)

lemma put_derived_cases:
  "put_derived k v fr = (if observed_value k \<noteq> None \<or> k = derived v fr then None else Some (derived v fr))"
  by (auto simp: put_derived_def observed_value_def)

lemma map_derived [simp]: "map_knowledge f (derived v fr) = derived (f v) fr"
  by (simp add: map_knowledge_def derived_def)

lemma slot_written:
  "slot (w\<lparr>wb_flags := AList.update x (derived b fr) (wb_flags w)\<rparr>) = (slot w)(Flag_Fact x := derived (Bool_Value b) fr)"
  "slot (w\<lparr>wb_visited := AList.update x (derived b fr) (wb_visited w)\<rparr>) =
    (slot w)(Visited_Fact x := derived (Bool_Value b) fr)"
  "slot (w\<lparr>wb_vars := AList.update x (derived n fr) (wb_vars w)\<rparr>) = (slot w)(Var_Fact x := derived (Num_Value n) fr)"
proof -
  have "slot (w\<lparr>wb_flags := AList.update x (derived b fr) (wb_flags w)\<rparr>) f =
      ((slot w)(Flag_Fact x := derived (Bool_Value b) fr)) f" for f
    by (cases f) (simp_all add: wb_flag_def wb_var_def wb_was_visited_def update_conv' or_unknown_def)
  then show "slot (w\<lparr>wb_flags := AList.update x (derived b fr) (wb_flags w)\<rparr>) =
      (slot w)(Flag_Fact x := derived (Bool_Value b) fr)" by (rule ext)
  have "slot (w\<lparr>wb_visited := AList.update x (derived b fr) (wb_visited w)\<rparr>) f =
      ((slot w)(Visited_Fact x := derived (Bool_Value b) fr)) f" for f
    by (cases f) (simp_all add: wb_flag_def wb_var_def wb_was_visited_def update_conv' or_unknown_def)
  then show "slot (w\<lparr>wb_visited := AList.update x (derived b fr) (wb_visited w)\<rparr>) =
      (slot w)(Visited_Fact x := derived (Bool_Value b) fr)" by (rule ext)
  have "slot (w\<lparr>wb_vars := AList.update x (derived n fr) (wb_vars w)\<rparr>) f =
      ((slot w)(Var_Fact x := derived (Num_Value n) fr)) f" for f
    by (cases f) (simp_all add: wb_flag_def wb_var_def wb_was_visited_def update_conv' or_unknown_def)
  then show "slot (w\<lparr>wb_vars := AList.update x (derived n fr) (wb_vars w)\<rparr>) =
      (slot w)(Var_Fact x := derived (Num_Value n) fr)" by (rule ext)
qed

lemma derive_in_cases:
  assumes "inj F"
  shows "derive_in facts x v fr =
    (if observed_value (map_knowledge F (or_unknown (map_of facts x))) \<noteq> None \<or>
        map_knowledge F (or_unknown (map_of facts x)) = derived (F v) fr
     then None else Some (AList.update x (derived v fr) facts))"
  by (simp add: derive_in_def put_derived_cases map_knowledge_derived [OF assms])

text \<open>A derivation writes one slot, and only one that is not observed.\<close>

lemma derive_slots:
  assumes "concluded c = Some (f, v)"
  shows "if seen w f \<noteq> None \<or> slot w f = derived v fr then derive c w fr = None
    else \<exists>w'. derive c w fr = Some w' \<and> slot w' = (slot w)(f := derived v fr)"
proof (cases f)
  case (Flag_Fact x)
  then obtain b where "fact_of c = Inr (Flag_Fact x)" "bt_is c = Some b" "v = Bool_Value b"
    using assms by (auto simp: concluded_def split: sum.splits fact.splits)
  then show ?thesis
    by (simp add: Flag_Fact derive_def seen_def wb_flag_def derive_in_cases [OF inj_values(1)] slot_written del: observed_value_simps(3))
next
  case (Visited_Fact x)
  then obtain b where "fact_of c = Inr (Visited_Fact x)" "bt_is c = Some b" "v = Bool_Value b"
    using assms by (auto simp: concluded_def split: sum.splits fact.splits)
  then show ?thesis
    by (simp add: Visited_Fact derive_def seen_def wb_was_visited_def derive_in_cases [OF inj_values(1)] slot_written del: observed_value_simps(3))
next
  case (Var_Fact x)
  then obtain n where "fact_of c = Inr (Var_Fact x)" "bt_eq c = Some n" "v = Num_Value n"
    using assms by (auto simp: concluded_def split: sum.splits fact.splits)
  then show ?thesis
    by (simp add: Var_Fact derive_def seen_def wb_var_def derive_in_cases [OF inj_values(2)] slot_written del: observed_value_simps(3))
qed

lemma derive_nothing: "concluded c = None \<Longrightarrow> derive c w fr = None"
  by (auto simp: concluded_def derive_def split: sum.splits fact.splits)

section \<open>What a pass writes\<close>

text \<open>What a rule writes: only to a fact that is not observed. It depends on the observed facts alone, which no
  derivation changes.\<close>

definition write_of :: "inference_rule \<Rightarrow> world_belief \<Rightarrow> (fact \<times> fact_value \<times> nat) option" where
  "write_of r w = Option.bind (fires_at r w) (\<lambda>fr. Option.bind (concluded (ir_conclusion r))
    (\<lambda>(f, v). if seen w f = None then Some (f, v, fr) else None))"

definition writes :: "inference_rule list \<Rightarrow> world_belief \<Rightarrow> (fact \<times> fact_value \<times> nat) set" where
  "writes rules w = {x. \<exists>r \<in> set rules. write_of r w = Some x}"

lemma write_of_seen:
  assumes "seen w' = seen w"
  shows "write_of r w' = write_of r w"
proof -
  have "observed_in c w' = observed_in c w" for c unfolding observed_in_seen assms by (rule refl)
  then show ?thesis using assms by (simp add: write_of_def fires_at_def)
qed

lemma run_rule_None: "write_of r w = None \<Longrightarrow> run_rule r (w, n) = (w, n)"
proof (cases "fires_at r w")
  case (Some fr)
  assume none: "write_of r w = None"
  show ?thesis
  proof (cases "concluded (ir_conclusion r)")
    case (Some fv)
    obtain f v where fv: "fv = (f, v)" by (cases fv)
    then have "seen w f \<noteq> None" using none Some \<open>fires_at r w = Some fr\<close> by (auto simp: write_of_def split: if_splits)
    then have "derive (ir_conclusion r) w fr = None" using derive_slots [of "ir_conclusion r" f v w fr] Some fv by simp
    then show ?thesis using \<open>fires_at r w = Some fr\<close> by (simp add: run_rule_def)
  qed (use \<open>fires_at r w = Some fr\<close> derive_nothing in \<open>simp add: run_rule_def\<close>)
qed (simp add: run_rule_def)

lemma run_rule_Some:
  assumes "write_of r w = Some (f, v, fr)"
  shows "if slot w f = derived v fr then run_rule r (w, n) = (w, n)
    else \<exists>w'. run_rule r (w, n) = (w', n + 1) \<and> slot w' = (slot w)(f := derived v fr)"
proof -
  have r: "fires_at r w = Some fr" "concluded (ir_conclusion r) = Some (f, v)" "seen w f = None"
    using assms by (auto simp: write_of_def split: Option.bind_splits if_splits)
  from derive_slots [OF r(2), of w fr] show ?thesis using r by (auto simp: run_rule_def)
qed

lemma seen_written: "seen w f = None \<Longrightarrow> slot w' = (slot w)(f := derived v fr) \<Longrightarrow> seen w' = seen w"
  by (auto simp: seen_def)

lemma run_rule_seen: "seen (fst (run_rule r (w, n))) = seen w"
proof (cases "write_of r w")
  case (Some x)
  obtain f v fr where x: "x = (f, v, fr)" by (cases x)
  then have "seen w f = None" using Some by (auto simp: write_of_def split: Option.bind_splits if_splits)
  then show ?thesis using run_rule_Some [OF Some [unfolded x], of n] seen_written by (auto split: if_splits)
qed (simp add: run_rule_None)

definition run_pass :: "inference_rule list \<Rightarrow> world_belief \<times> nat \<Rightarrow> world_belief \<times> nat" where
  "run_pass rules s = fold run_rule rules s"

lemma run_pass_Cons [simp]: "run_pass (r # rs) s = run_pass rs (run_rule r s)" "run_pass [] s = s"
  by (simp_all add: run_pass_def)

lemma pass_seen: "seen (fst (run_pass rules s)) = seen (fst s)"
proof (induction rules arbitrary: s)
  case (Cons r rs)
  then show ?case using run_rule_seen [of r "fst s" "snd s"] by simp
qed simp

lemma pass_writes: "writes rules (fst (run_pass rs s)) = writes rules (fst s)"
  using write_of_seen [OF pass_seen] by (simp add: writes_def)

lemma writes_Cons:
  "writes (r # rs) w = (case write_of r w of None \<Rightarrow> {} | Some x \<Rightarrow> {x}) \<union> writes rs w"
  by (auto simp: writes_def split: option.splits)

text \<open>One rule: its write is in place afterwards, the other slots are as before, and the count tells of a change.\<close>

lemma rule_step:
  "\<exists>w' n'. run_rule r (w, n) = (w', n') \<and> seen w' = seen w \<and> n \<le> n' \<and> (n' = n \<longrightarrow> w' = w) \<and>
    (case write_of r w of
       None \<Rightarrow> w' = w \<and> n' = n
     | Some (f, v, fr) \<Rightarrow> slot w' = (slot w)(f := derived v fr) \<and> (slot w f = derived v fr \<longrightarrow> n' = n))"
proof (cases "write_of r w")
  case None
  then show ?thesis by (simp add: run_rule_None)
next
  case (Some x)
  obtain f v fr where x: "x = (f, v, fr)" by (cases x)
  show ?thesis
  proof (cases "slot w f = derived v fr")
    case True
    then have "(slot w)(f := derived v fr) = slot w" by auto
    then show ?thesis using run_rule_Some [OF Some [unfolded x], of n] True Some x by simp
  next
    case False
    then obtain w' where "run_rule r (w, n) = (w', n + 1)" "slot w' = (slot w)(f := derived v fr)"
      using run_rule_Some [OF Some [unfolded x], of n] by auto
    then show ?thesis using run_rule_seen [of r w n] Some x False by simp
  qed
qed

lemma pass_slot:
  "slot (fst (run_pass rules (w, n))) f = slot w f \<and> (\<forall>v fr. (f, v, fr) \<notin> writes rules w) \<or>
    (\<exists>v fr. (f, v, fr) \<in> writes rules w \<and> slot (fst (run_pass rules (w, n))) f = derived v fr)"
proof (induction rules arbitrary: w n)
  case Nil
  then show ?case by (simp add: writes_def)
next
  case (Cons r rs)
  obtain w' n' where step: "run_rule r (w, n) = (w', n')" "seen w' = seen w"
    "case write_of r w of None \<Rightarrow> w' = w \<and> n' = n
     | Some (f, v, fr) \<Rightarrow> slot w' = (slot w)(f := derived v fr) \<and> (slot w f = derived v fr \<longrightarrow> n' = n)"
    using rule_step [of r w n] by blast
  have same: "writes rs w' = writes rs w" using write_of_seen [OF step(2)] by (simp add: writes_def)
  show ?case
  proof (cases "write_of r w")
    case None
    then show ?thesis using Cons.IH [of w' n'] step(1,3) by (simp add: writes_Cons same)
  next
    case (Some x)
    obtain g v fr where x: "x = (g, v, fr)" by (cases x)
    then have "slot w' = (slot w)(g := derived v fr)" using step(3) Some by simp
    then show ?thesis using Cons.IH [of w' n'] step(1) Some x by (auto simp: writes_Cons same split: if_splits)
  qed
qed

lemma pass_unchanged:
  "n \<le> snd (run_pass rules (w, n)) \<and> (snd (run_pass rules (w, n)) = n \<longrightarrow> fst (run_pass rules (w, n)) = w)"
proof (induction rules arbitrary: w n)
  case (Cons r rs)
  obtain w' n' where step: "run_rule r (w, n) = (w', n')" "n \<le> n'" "n' = n \<longrightarrow> w' = w"
    using rule_step [of r w n] by blast
  show ?case using Cons.IH [of n' w'] step by auto
qed simp

lemma pass_stable:
  assumes "\<forall>f v fr. (f, v, fr) \<in> writes rules w \<longrightarrow> slot w f = derived v fr"
  shows "run_pass rules (w, n) = (w, n)"
  using assms
proof (induction rules)
  case (Cons r rs)
  obtain w' n' where step: "run_rule r (w, n) = (w', n')" "n' = n \<longrightarrow> w' = w"
    "case write_of r w of None \<Rightarrow> w' = w \<and> n' = n
     | Some (f, v, fr) \<Rightarrow> slot w' = (slot w)(f := derived v fr) \<and> (slot w f = derived v fr \<longrightarrow> n' = n)"
    using rule_step [of r w n] by blast
  have "n' = n" using step(3) Cons.prems by (auto simp: writes_Cons split: option.splits prod.splits)
  then show ?case using step Cons by (simp add: writes_Cons)
qed simp

lemma pass_settled:
  assumes "snd (run_pass rules (w, n)) = n"
  shows "\<forall>f v fr. (f, v, fr) \<in> writes rules w \<longrightarrow> slot w f = derived v fr"
  using assms
proof (induction rules)
  case (Cons r rs)
  obtain w' n' where step: "run_rule r (w, n) = (w', n')" "n \<le> n'" "n' = n \<longrightarrow> w' = w"
    "case write_of r w of None \<Rightarrow> w' = w \<and> n' = n
     | Some (f, v, fr) \<Rightarrow> slot w' = (slot w)(f := derived v fr) \<and> (slot w f = derived v fr \<longrightarrow> n' = n)"
    using rule_step [of r w n] by blast
  have "n' = n" using Cons.prems step(1,2) pass_unchanged [of n' rs w'] by simp
  then have w': "w' = w" and rest: "snd (run_pass rs (w, n)) = n" using step(1,3) Cons.prems by simp_all
  have "slot w f = derived v fr" if "write_of r w = Some (f, v, fr)" for f v fr
    using step(4) that w' fun_upd_same [of "slot w" f "derived v fr"] by simp
  then show ?case using Cons.IH [OF rest] by (auto simp: writes_Cons split: option.splits)
qed (simp add: writes_def)

section \<open>When the rules settle\<close>

text \<open>Two rules that fire write different things to one fact that is not observed: other values, or other frames.\<close>

definition conflicting :: "inference_rule list \<Rightarrow> world_belief \<Rightarrow> bool" where
  "conflicting rules w \<longleftrightarrow> (\<exists>f x y. (f, x) \<in> writes rules w \<and> (f, y) \<in> writes rules w \<and> x \<noteq> y)"

lemma loop_unfold:
  "rule_loop rules s = (let s' = run_pass rules s in if snd s' = snd s then Some s' else rule_loop rules s')"
  by (subst rule_loop.simps) (simp add: run_pass_def)

lemma derived_eq [simp]: "derived v f = derived v' f' \<longleftrightarrow> v = v' \<and> f = f'"
  by (simp add: derived_def)

lemma conflict_kept: "conflicting rules (fst (run_pass rules s)) = conflicting rules (fst s)"
  by (simp add: conflicting_def pass_writes)

lemma settled_agrees:
  assumes "snd (run_pass rules s) = snd s"
  shows "\<not> conflicting rules (fst s)"
proof -
  have "\<forall>f v fr. (f, v, fr) \<in> writes rules (fst s) \<longrightarrow> slot (fst s) f = derived v fr"
    using pass_settled [of rules "fst s" "snd s"] assms by simp
  then show ?thesis unfolding conflicting_def by (metis derived_eq prod.collapse)
qed

lemma loop_settles: "rule_loop rules s = Some s' \<Longrightarrow> \<not> conflicting rules (fst s)"
proof (rule rule_loop.raw_induct [where P = "\<lambda>rules s s'. \<not> conflicting rules (fst s)"])
  fix loop rules s s'
  assume IH: "\<And>rules s s'. loop rules s = Some s' \<Longrightarrow> \<not> conflicting rules (fst s)"
    and step: "(let s' = fold run_rule rules s in if snd s' = snd s then Some s' else loop rules s') = Some s'"
  show "\<not> conflicting rules (fst s)"
  proof (cases "snd (run_pass rules s) = snd s")
    case True
    then show ?thesis by (rule settled_agrees)
  next
    case False
    then have "loop rules (run_pass rules s) = Some s'" using step by (simp add: run_pass_def Let_def)
    then show ?thesis using IH conflict_kept by blast
  qed
qed

text \<open>Without a conflict the second pass finds everything in place.\<close>

lemma second_pass:
  assumes "\<not> conflicting rules w"
  shows "run_pass rules (run_pass rules (w, n)) = run_pass rules (w, n)"
proof -
  obtain w' n' where 1: "run_pass rules (w, n) = (w', n')" by (metis prod.exhaust)
  have "writes rules w' = writes rules w" using pass_writes [of rules rules "(w, n)"] 1 by simp
  moreover have "slot w' f = derived v fr" if m: "(f, v, fr) \<in> writes rules w" for f v fr
  proof -
    obtain v2 fr2 where 2: "(f, v2, fr2) \<in> writes rules w" "slot w' f = derived v2 fr2"
      using pass_slot [of rules w n f] 1 m by auto
    then have "(v2, fr2) = (v, fr)" using assms m unfolding conflicting_def by blast
    then show ?thesis using 2(2) by simp
  qed
  ultimately show ?thesis unfolding 1 by (intro pass_stable) simp
qed

lemma loop_result:
  assumes "\<not> conflicting rules w"
  shows "rule_loop rules (w, n) = Some (run_pass rules (w, n))"
proof (cases "snd (run_pass rules (w, n)) = n")
  case True
  then show ?thesis by (subst loop_unfold) simp
next
  case False
  then show ?thesis
    by (subst loop_unfold) (simp add: Let_def loop_unfold [of rules "run_pass rules (w, n)"] second_pass [OF assms])
qed

text \<open>C12: Running the rules to a fixed point returns exactly when no two rules that fire write different things to
  one unobserved fact; what it returns then is what a single pass leaves, however the rules depend on each other.\<close>

theorem inference_returns:
  "apply_rules rules w = (if conflicting rules w then None else Some (run_pass rules (w, 0)))"
proof (cases "conflicting rules w")
  case True
  then have "apply_rules rules w \<noteq> Some r" for r
    using loop_settles [of rules "(w, 0)" r] by (auto simp: apply_rules_def)
  then show ?thesis using True by (cases "apply_rules rules w") auto
qed (simp add: apply_rules_def loop_result)

section \<open>What is derived is so\<close>

fun true_in :: "story \<Rightarrow> fact \<Rightarrow> fact_value" where
  "true_in g (Flag_Fact n) = Bool_Value (sy_flag g n)"
| "true_in g (Visited_Fact n) = Bool_Value (sy_visited g n)"
| "true_in g (Var_Fact n) = Num_Value (nat (sy_var g n))"

text \<open>The game has the values the belief observed or derived.\<close>

definition agrees :: "story \<Rightarrow> world_belief \<Rightarrow> bool" where
  "agrees g w \<longleftrightarrow> (\<forall>f v. kn_value (slot w f) = Some v \<longrightarrow> kn_source (slot w f) \<in> {Observed, Derived} \<longrightarrow> true_in g f = v)"

definition test_true :: "story \<Rightarrow> belief_test \<Rightarrow> bool" where
  "test_true g c = (case fact_of c of Inl e \<Rightarrow> False | Inr f \<Rightarrow> passes c (true_in g f))"

text \<open>In the game the rule is a true statement.\<close>

definition rule_true :: "story \<Rightarrow> inference_rule \<Rightarrow> bool" where
  "rule_true g r \<longleftrightarrow> (list_all (test_true g) (ir_premises r) \<longrightarrow> test_true g (ir_conclusion r))"

lemma latest_all: "latest acc fs = Some fr \<Longrightarrow> None \<notin> set fs"
  by (induction acc fs rule: latest.induct) auto

lemma observed_true:
  assumes "agrees g w" "observed_in c w = Some fr"
  shows "test_true g c"
proof -
  obtain f v where f: "fact_of c = Inr f" "seen w f = Some (v, fr)" "passes c v"
    using assms(2) by (auto simp: observed_in_seen split: sum.splits Option.bind_splits if_splits)
  then have "kn_value (slot w f) = Some v" "kn_source (slot w f) = Observed"
    by (auto simp: seen_def observed_value_def split: if_splits)
  then have "true_in g f = v" using assms(1) by (simp add: agrees_def)
  then show ?thesis using f by (simp add: test_true_def)
qed

lemma concluded_true:
  assumes "concluded c = Some (f, v)" "test_true g c" "validate_test c True = Inr ()"
  shows "true_in g f = v"
  using assms
  by (auto simp: concluded_def test_true_def validate_test_def var_test_def Let_def split: sum.splits fact.splits if_splits)

lemma first_error_ok: "first_error rs = Inr u \<longleftrightarrow> list_all (\<lambda>r. r = Inr ()) rs"
  by (induction rs rule: first_error.induct) auto

lemma validated: "validate_from ck i rules = Inr u \<Longrightarrow> list_all (\<lambda>r. ck r = Inr ()) rules"
  by (induction ck i rules rule: validate_from.induct) (auto split: sum.splits)

lemma writes_true:
  assumes "agrees g w" "list_all (rule_true g) rules" "list_all (\<lambda>r. validate_rule r = Inr ()) rules"
    "(f, v, fr) \<in> writes rules w"
  shows "true_in g f = v"
proof -
  obtain r where r: "r \<in> set rules" "write_of r w = Some (f, v, fr)" using assms(4) by (auto simp: writes_def)
  then have fire: "fires_at r w = Some fr" "concluded (ir_conclusion r) = Some (f, v)"
    by (auto simp: write_of_def split: Option.bind_splits if_splits)
  then have "\<exists>x. observed_in p w = Some x" if "p \<in> set (ir_premises r)" for p
    using latest_all [of 0 "map (\<lambda>p. observed_in p w) (ir_premises r)" fr] that
    by (auto simp: fires_at_def image_iff) (metis option.exhaust)
  then have "list_all (test_true g) (ir_premises r)" using observed_true [OF assms(1)] by (auto simp: list_all_iff)
  then have "test_true g (ir_conclusion r)" using assms(2) r(1) by (auto simp: rule_true_def list_all_iff)
  moreover have "validate_test (ir_conclusion r) True = Inr ()"
    using assms(3) r(1)
    by (cases "validate_test (ir_conclusion r) True")
      (auto simp: list_all_iff validate_rule_def first_error_ok prefixed_def split: if_splits)
  ultimately show ?thesis using concluded_true fire(2) by blast
qed

text \<open>C13: Where the rules are true statements about a game, what they derive from a belief the game agrees with is true
  in it, and nothing observed changes.\<close>

theorem inference_sound:
  assumes "inference_rules rs = Inr rules" "list_all (rule_true g) rules" "agrees g w" "apply_rules rules w = Some (w', n)"
  shows "agrees g w' \<and> seen w' = seen w"
proof
  have w': "run_pass rules (w, 0) = (w', n)" using assms(4) by (simp add: inference_returns split: if_splits)
  show "seen w' = seen w" using pass_seen [of rules "(w, 0)"] w' by simp
  have valid: "list_all (\<lambda>r. validate_rule r = Inr ()) rules"
    using assms(1) validated by (fastforce simp: inference_rules_def split: sum.splits)
  show "agrees g w'" unfolding agrees_def
  proof (intro allI impI)
    fix f v assume v: "kn_value (slot w' f) = Some v" "kn_source (slot w' f) \<in> {Observed, Derived}"
    show "true_in g f = v"
    proof (cases "slot w' f = slot w f")
      case True
      then show ?thesis using v assms(3) unfolding agrees_def by metis
    next
      case False
      then obtain x fr where "(f, x, fr) \<in> writes rules w" "slot w' f = derived x fr"
        using pass_slot [of rules w 0 f] w' by auto
      then show ?thesis using writes_true [OF assms(3,2) valid] v(1) by auto
    qed
  qed
qed

section \<open>Priors\<close>

definition NO_EVIDENCE :: f64 where "NO_EVIDENCE = Fin (1 / 2)"

record prior_rule =
  pr_fact :: fact
  pr_given :: "belief_test list"
  pr_p :: f64

definition premise_well_formed :: "belief_test \<Rightarrow> bool" where
  "premise_well_formed c \<longleftrightarrow>
    (case fact_of c of
       Inl e \<Rightarrow> False
     | Inr (Var_Fact x) \<Rightarrow> bt_eq c \<noteq> None \<or> bt_ge c \<noteq> None
     | Inr _ \<Rightarrow> bt_is c \<noteq> None)"

text \<open>The number is left out of the text of the error.\<close>

definition validate_prior :: "prior_rule \<Rightarrow> string + unit" where
  "validate_prior r =
    (case pr_fact r of
       Var_Fact x \<Rightarrow> Inl (display_fact (pr_fact r) @ '': priors are over flags and visits'')
     | _ \<Rightarrow>
         if \<not> (f_le (Fin 0) (pr_p r) \<and> f_le (pr_p r) (Fin 1)) then Inl ''p is not a probability''
         else first_error (map (\<lambda>c. case fact_of c of
             Inl e \<Rightarrow> Inl (''premise '' @ e)
           | Inr f \<Rightarrow> if premise_well_formed c then Inr ()
               else Inl (''premise '' @ display_fact f @ '' has no test'')) (pr_given r)))"

definition prior_rules :: "prior_rule list \<Rightarrow> (nat \<times> string) + prior_rule list" where
  "prior_rules rules = (case validate_from validate_prior 0 rules of Inl e \<Rightarrow> Inl e | Inr u \<Rightarrow> Inr rules)"

definition prior_matches :: "prior_rule \<Rightarrow> world_belief \<Rightarrow> bool" where
  "prior_matches r w \<longleftrightarrow> list_all (\<lambda>c. observed_in c w \<noteq> None) (pr_given r)"

definition certain :: "bool knowledge \<Rightarrow> f64 option" where
  "certain k =
    (if kn_source k = Observed then map_option (\<lambda>v. if v then Fin 1 else Fin 0) (kn_value k) else None)"

definition offer_prior :: "world_belief \<Rightarrow> fact \<Rightarrow> prior_rule \<Rightarrow> (nat \<times> f64) option \<Rightarrow> (nat \<times> f64) option" where
  "offer_prior w f r best =
    (if pr_fact r = f \<and> prior_matches r w then
       (let n = length (pr_given r) in
        case best of
          None \<Rightarrow> Some (n, pr_p r)
        | Some (m, p) \<Rightarrow> if n > m \<or> n = m \<and> f_lt (pr_p r) p then Some (n, pr_p r) else best)
     else best)"

definition known_chance :: "world_belief \<Rightarrow> fact \<Rightarrow> f64 option" where
  "known_chance w f = (case f of
     Flag_Fact x \<Rightarrow> Option.bind (map_of (wb_flags w) x) certain
   | Visited_Fact m \<Rightarrow> Option.bind (map_of (wb_visited w) m) certain
   | Var_Fact x \<Rightarrow> Some NO_EVIDENCE)"

definition probability :: "prior_rule list \<Rightarrow> world_belief \<Rightarrow> fact \<Rightarrow> f64" where
  "probability rules w f =
    (case known_chance w f of
       Some p \<Rightarrow> p
     | None \<Rightarrow> (case fold (offer_prior w f) rules None of None \<Rightarrow> NO_EVIDENCE | Some (n, p) \<Rightarrow> p))"

text \<open>The rules that apply to a fact, and of those the ones with the most premises.\<close>

definition applying :: "prior_rule list \<Rightarrow> world_belief \<Rightarrow> fact \<Rightarrow> prior_rule set" where
  "applying rules w f = {r \<in> set rules. pr_fact r = f \<and> prior_matches r w}"

definition most_specific :: "prior_rule set \<Rightarrow> prior_rule set" where
  "most_specific rs = {r \<in> rs. \<forall>s \<in> rs. length (pr_given s) \<le> length (pr_given r)}"

lemma f_lt_chance: "f_le (Fin 0) a \<Longrightarrow> f_le a (Fin 1) \<Longrightarrow> f_le (Fin 0) b \<Longrightarrow> f_le b (Fin 1) \<Longrightarrow> f_lt a b \<longleftrightarrow> a < b"
  by (cases a; cases b) (auto simp: f_lt_def f_le_def is_nan_def)

lemma valid_chance: "validate_prior r = Inr u \<Longrightarrow> f_le (Fin 0) (pr_p r) \<and> f_le (pr_p r) (Fin 1)"
  by (cases "pr_fact r") (auto simp: validate_prior_def split: if_splits)

lemma offers_best:
  assumes "list_all (\<lambda>r. f_le (Fin 0) (pr_p r) \<and> f_le (pr_p r) (Fin 1)) rules"
  shows "case fold (offer_prior w f) rules None of
      None \<Rightarrow> applying rules w f = {}
    | Some (n, p) \<Rightarrow> \<exists>r \<in> applying rules w f. n = length (pr_given r) \<and> p = pr_p r \<and>
        (\<forall>s \<in> applying rules w f. length (pr_given s) < n \<or> length (pr_given s) = n \<and> p \<le> pr_p s)"
  using assms
proof (induction rules rule: rev_induct)
  case Nil
  then show ?case by (simp add: applying_def)
next
  case (snoc r rs)
  let ?A = "applying rs w f"
  have A: "applying (rs @ [r]) w f = (if pr_fact r = f \<and> prior_matches r w then insert r ?A else ?A)"
    by (auto simp: applying_def)
  have chance: "f_le (Fin 0) (pr_p s) \<and> f_le (pr_p s) (Fin 1)" if "s = r \<or> s \<in> ?A" for s
    using snoc.prems that by (auto simp: applying_def list_all_iff)
  show ?case
  proof (cases "pr_fact r = f \<and> prior_matches r w")
    case False
    then have "offer_prior w f r b = b" for b unfolding offer_prior_def by (rule if_not_P)
    then show ?thesis using snoc.IH snoc.prems False by (simp only: A fold_append comp_apply fold.simps id_apply if_False list_all_append)
  next
    case True
    have o: "offer_prior w f r b = (case b of
        None \<Rightarrow> Some (length (pr_given r), pr_p r)
      | Some (m, p) \<Rightarrow> if length (pr_given r) > m \<or> length (pr_given r) = m \<and> f_lt (pr_p r) p
          then Some (length (pr_given r), pr_p r) else b)" for b
      unfolding offer_prior_def Let_def using True by (rule if_P)
    show ?thesis
    proof (cases "fold (offer_prior w f) rs None")
      case None
      then have "applying rs w f = {}" using snoc by simp
      then show ?thesis using None True by (simp add: A o)
    next
      case (Some b)
      obtain n p where b: "b = (n, p)" by (cases b)
      obtain s where s: "s \<in> ?A" "n = length (pr_given s)" "p = pr_p s"
        "\<forall>t \<in> ?A. length (pr_given t) < n \<or> length (pr_given t) = n \<and> p \<le> pr_p t"
        using snoc Some b by auto
      have "f_lt (pr_p r) p \<longleftrightarrow> pr_p r < p" using chance [of r] chance [of s] s f_lt_chance by blast
      then show ?thesis using s True Some b by (auto simp: A o intro: less_imp_le less_trans)
    qed
  qed
qed

text \<open>C32: An observed fact is certain; of any other the probability is the lowest of the most specific rules that apply,
  or one half where none does, and always a probability.\<close>

theorem priors_are_cautious:
  assumes "prior_rules rs = Inr rules"
  shows "probability rules w f =
      (case known_chance w f of
         Some p \<Rightarrow> p
       | None \<Rightarrow> if applying rules w f = {} then NO_EVIDENCE else Min (pr_p ` most_specific (applying rules w f))) \<and>
    Fin 0 \<le> probability rules w f \<and> probability rules w f \<le> Fin 1"
proof -
  have "list_all (\<lambda>r. validate_prior r = Inr ()) rules"
    using assms validated by (fastforce simp: prior_rules_def split: sum.splits)
  then have chance: "list_all (\<lambda>r. f_le (Fin 0) (pr_p r) \<and> f_le (pr_p r) (Fin 1)) rules"
    using valid_chance by (auto simp: list_all_iff)
  have known: "Fin 0 \<le> p \<and> p \<le> Fin 1" if "known_chance w f = Some p" for p
    using that by (auto simp: known_chance_def certain_def NO_EVIDENCE_def split: fact.splits Option.bind_splits if_splits)
  show ?thesis
  proof (cases "known_chance w f")
    case None
    show ?thesis
    proof (cases "fold (offer_prior w f) rules None")
      case none: None
      then have "applying rules w f = {}" using offers_best [OF chance, of w f] by simp
      then show ?thesis using None none by (simp add: probability_def NO_EVIDENCE_def)
    next
      case (Some b)
      obtain n p where b: "b = (n, p)" by (cases b)
      let ?A = "applying rules w f"
      obtain r where r: "r \<in> ?A" "n = length (pr_given r)" "p = pr_p r"
        and best: "\<forall>s \<in> ?A. length (pr_given s) < n \<or> length (pr_given s) = n \<and> p \<le> pr_p s"
        using offers_best [OF chance, of w f] Some b by auto
      have "r \<in> most_specific ?A" using r best by (force simp: most_specific_def)
      moreover have "p \<le> pr_p s" if "s \<in> most_specific ?A" for s
        using that r(1,2) best by (force simp: most_specific_def)
      moreover have "finite (most_specific ?A)" by (simp add: most_specific_def applying_def)
      ultimately have "Min (pr_p ` most_specific ?A) = p" using r(3) by (intro Min_eqI) auto
      moreover have "Fin 0 \<le> p \<and> p \<le> Fin 1"
        using chance r by (auto simp: applying_def list_all_iff f_le_def)
      ultimately show ?thesis using None Some b r(1) by (auto simp: probability_def)
    qed
  qed (use known in \<open>simp add: probability_def\<close>)
qed

section \<open>An example\<close>

text \<open>The badge of Brock means that he was beaten.\<close>

definition brock_rule :: inference_rule where
  "brock_rule = \<lparr>ir_premises = [flag_test ''FLAG_BADGE01_GET'' True],
    ir_conclusion = flag_test ''FLAG_DEFEATED_BROCK'' True\<rparr>"

definition badge_seen :: world_belief where
  "badge_seen = default_world_belief\<lparr>wb_flags := [(''FLAG_BADGE01_GET'', observed True 7)]\<rparr>"

definition brock_beaten :: story where
  "brock_beaten = \<lparr>sy_flag = \<lambda>_. True, sy_var = \<lambda>_. 0, sy_visited = \<lambda>_. False, sy_item = \<lambda>_. 0, sy_move = \<lambda>_. False,
    sy_at = ''PewterCity''\<rparr>"

lemma badge_seen_agrees: "agrees brock_beaten badge_seen"
  unfolding agrees_def
proof (intro allI impI)
  fix f v assume "kn_value (slot badge_seen f) = Some v"
  then show "true_in brock_beaten f = v"
    by (cases f) (auto simp: badge_seen_def default_world_belief_def wb_flag_def wb_var_def wb_was_visited_def
      or_unknown_def map_knowledge_def brock_beaten_def split: if_splits)
qed

theorem inference_sound_witness:
  "\<exists>w' n. apply_rules [brock_rule] badge_seen = Some (w', n) \<and> agrees brock_beaten w' \<and> seen w' = seen badge_seen"
proof -
  have rules: "inference_rules [brock_rule] = Inr [brock_rule]" by code_simp
  have true: "list_all (rule_true brock_beaten) [brock_rule]"
    by (simp add: rule_true_def brock_rule_def flag_test_def no_test_def test_true_def fact_of_def brock_beaten_def)
  have "\<not> conflicting [brock_rule] badge_seen" by (auto simp: conflicting_def writes_def)
  then have ran: "apply_rules [brock_rule] badge_seen = Some (run_pass [brock_rule] (badge_seen, 0))"
    by (simp add: inference_returns)
  obtain w' n where "run_pass [brock_rule] (badge_seen, 0) = (w', n)" by (metis prod.exhaust)
  then have "apply_rules [brock_rule] badge_seen = Some (w', n)" using ran by simp
  then show ?thesis using inference_sound [OF rules true badge_seen_agrees] by blast
qed

theorem priors_are_cautious_witness:
  "probability [\<lparr>pr_fact = Visited_Fact ''PewterCity'', pr_given = [flag_test ''FLAG_BADGE01_GET'' True], pr_p = Fin 1\<rparr>]
      badge_seen (Visited_Fact ''PewterCity'') \<le> Fin 1"
proof -
  have "f_le (Fin 0) (Fin 1)" "f_le (Fin 1) (Fin 1)" by (simp_all add: f_le_def)
  then have "prior_rules [\<lparr>pr_fact = Visited_Fact ''PewterCity'', pr_given = [flag_test ''FLAG_BADGE01_GET'' True],
      pr_p = Fin 1\<rparr>] = Inr [\<lparr>pr_fact = Visited_Fact ''PewterCity'', pr_given = [flag_test ''FLAG_BADGE01_GET'' True],
      pr_p = Fin 1\<rparr>]"
    by (simp add: prior_rules_def validate_prior_def premise_well_formed_def fact_of_def flag_test_def no_test_def)
  from priors_are_cautious [OF this] show ?thesis by blast
qed

end
