(* ===== verification/Story_Levels.thy ===== *)
theory Story_Levels
  imports Route_Cheapest
begin

text \<open>
  How far into the story each fact lies (crates/planner/src/levels.rs): from what holds now, every map the routes
  reach with the facts so far is entered, every script path on a reached map whose conditions hold adds its effects,
  until a pass adds nothing. The level of a fact is the pass it first appeared in.
\<close>

section \<open>Facts and achievers\<close>

record achiever =
  ac_map :: "string option"
  ac_pre :: "predicate list"
  ac_effects :: "predicate list"
  ac_script :: "(string \<times> nat) option"
  ac_spots :: "pos list"
  ac_stand_on :: bool

datatype story_atom = Flag_Atom string bool | Item_Atom string | Move_Atom string | Map_Atom string

fun atom_of :: "predicate \<Rightarrow> story_atom option" where
  "atom_of (Flag name on) = Some (Flag_Atom name on)"
| "atom_of (Badge n) = Some (Flag_Atom (badge_flag n) True)"
| "atom_of (Has_Item i n) = Some (Item_Atom i)"
| "atom_of (Party_Has_Move mv) = Some (Move_Atom mv)"
| "atom_of (Visited m) = Some (Map_Atom m)"
| "atom_of (At m) = Some (Map_Atom m)"
| "atom_of (Var name op v) = None"

record story_start =
  ss_flags :: "string \<rightharpoonup> bool"
  ss_initial :: "string set"
  ss_vars :: "string \<rightharpoonup> int"
  ss_items :: "string \<rightharpoonup> nat"
  ss_moves :: "string set"
  ss_maps :: "string set"
  ss_everything :: bool

definition default_start :: story_start where
  "default_start = \<lparr>ss_flags = Map.empty, ss_initial = {}, ss_vars = Map.empty, ss_items = Map.empty, ss_moves = {},
    ss_maps = {}, ss_everything = False\<rparr>"

definition or_else :: "'a option \<Rightarrow> 'a \<Rightarrow> 'a" where
  "or_else x d = (case x of None \<Rightarrow> d | Some v \<Rightarrow> v)"

fun holds_at_start :: "story_start \<Rightarrow> predicate \<Rightarrow> bool" where
  "holds_at_start s (Flag name on) = (or_else (ss_flags s name) (name \<in> ss_initial s) = on)"
| "holds_at_start s (Badge n) = or_else (ss_flags s (badge_flag n)) False"
| "holds_at_start s (Has_Item i n) = (case ss_items s i of None \<Rightarrow> False | Some c \<Rightarrow> n \<le> c)"
| "holds_at_start s (Party_Has_Move mv) = (mv \<in> ss_moves s)"
| "holds_at_start s (Visited m) = (m \<in> ss_maps s)"
| "holds_at_start s (At m) = (m \<in> ss_maps s)"
| "holds_at_start s (Var name op v) = op_holds op (or_else (ss_vars s name) 0) v"

definition start_holds :: "story_start \<Rightarrow> predicate \<Rightarrow> bool" where
  "start_holds s p \<longleftrightarrow> ss_everything s \<or> holds_at_start s p"

section \<open>Levels\<close>

record levels =
  lv_start :: story_start
  lv_atoms :: "story_atom \<rightharpoonup> nat"
  lv_vars :: "string \<Rightarrow> (int \<times> nat) list"
  lv_fired :: "string \<times> nat \<rightharpoonup> nat"
  lv_passes :: nat

definition start_levels :: "story_start \<Rightarrow> levels" where
  "start_levels s = \<lparr>lv_start = s, lv_atoms = Map.empty, lv_vars = \<lambda>_. [], lv_fired = Map.empty, lv_passes = 0\<rparr>"

definition unknown_levels :: levels where
  "unknown_levels = start_levels (default_start\<lparr>ss_everything := True\<rparr>)"

definition fired_at :: "levels \<Rightarrow> string \<Rightarrow> nat \<Rightarrow> nat option" where
  "fired_at lv script path = lv_fired lv (script, path)"

definition levels_known :: "levels \<Rightarrow> bool" where
  "levels_known lv \<longleftrightarrow> \<not> ss_everything (lv_start lv)"

definition later_level :: "levels \<Rightarrow> predicate \<Rightarrow> nat option" where
  "later_level lv p =
    (case p of
       Var name op v \<Rightarrow>
         (let ls = map snd (filter (\<lambda>(x, l). op_holds op x v) (lv_vars lv name)) in
          if ls = [] then None else Some (Min (set ls)))
     | _ \<Rightarrow> Option.bind (atom_of p) (lv_atoms lv))"

definition level_of :: "levels \<Rightarrow> predicate \<Rightarrow> nat option" where
  "level_of lv p = (if start_holds (lv_start lv) p then Some 0 else later_level lv p)"

definition provided :: "levels \<Rightarrow> predicate \<Rightarrow> bool" where
  "provided lv p \<longleftrightarrow> level_of lv p \<noteq> None"

text \<open>The levels with the fact, and whether it is new. A count is any number, once an item can be had.\<close>

definition add_fact :: "predicate \<Rightarrow> nat \<Rightarrow> levels \<Rightarrow> levels \<times> bool" where
  "add_fact p l lv =
    (case p of
       Var name op v \<Rightarrow>
         if op = Eq_Op \<and> v \<notin> set (map fst (lv_vars lv name))
         then (lv\<lparr>lv_vars := (lv_vars lv)(name := lv_vars lv name @ [(v, l)])\<rparr>, True)
         else (lv, False)
     | _ \<Rightarrow> (case atom_of p of
           None \<Rightarrow> (lv, False)
         | Some a \<Rightarrow> if lv_atoms lv a = None then (lv\<lparr>lv_atoms := (lv_atoms lv)(a \<mapsto> l)\<rparr>, True) else (lv, False)))"

definition pass_belief :: "levels \<Rightarrow> predicate \<Rightarrow> truth" where
  "pass_belief lv p = (if provided lv p then Truth_True else Truth_False)"

section \<open>Passes\<close>

definition MAX_PASSES :: nat where "MAX_PASSES = 200"

definition beside :: "pos \<Rightarrow> pos list" where
  "beside s = map (\<lambda>(dx, dy). (fst s + dx, snd s + dy)) [(0, 1), (0, -1), (1, 0), (-1, 0)]"

text \<open>A map has an entry of tiles exactly when it has tiles, since a flood holds its start.\<close>

definition spot_reached :: "achiever \<Rightarrow> (string \<Rightarrow> pos set) \<Rightarrow> bool" where
  "spot_reached a tiles \<longleftrightarrow>
    (case ac_map a of
       None \<Rightarrow> True
     | Some m \<Rightarrow> ac_spots a = [] \<or> tiles m = {} \<or>
         list_ex (\<lambda>s. s \<in> tiles m \<or> ac_stand_on a \<and> list_ex (\<lambda>t. t \<in> tiles m) (beside s)) (ac_spots a))"

definition runnable :: "achiever \<Rightarrow> string set \<Rightarrow> (string \<Rightarrow> pos set) \<Rightarrow> levels \<Rightarrow> bool" where
  "runnable a reached tiles lv \<longleftrightarrow>
    (case ac_map a of None \<Rightarrow> True | Some m \<Rightarrow> m \<in> reached) \<and> spot_reached a tiles \<and> list_all (provided lv) (ac_pre a)"

record pass_state =
  pz_levels :: levels
  pz_done :: "bool list"
  pz_reached :: "string set"

definition pass_query :: "atlas \<Rightarrow> graph \<Rightarrow> player_pose \<Rightarrow> levels \<Rightarrow> query" where
  "pass_query a g pose lv = query_of a g (pass_belief lv) None pose Goal_Nowhere Pessimistic"

text \<open>The maps reached for the first time: which of them are new facts.\<close>

definition enter_maps :: "string set \<Rightarrow> nat \<Rightarrow> levels \<Rightarrow> levels \<times> bool" where
  "enter_maps ms l lv =
    (lv\<lparr>lv_atoms := \<lambda>x. case x of Map_Atom m \<Rightarrow> if m \<in> ms \<and> lv_atoms lv x = None then Some l else lv_atoms lv x
       | _ \<Rightarrow> lv_atoms lv x\<rparr>,
     \<exists>m \<in> ms. lv_atoms lv (Map_Atom m) = None)"

definition fire :: "nat \<Rightarrow> achiever \<Rightarrow> levels \<Rightarrow> levels" where
  "fire l a lv =
    (case ac_script a of
       None \<Rightarrow> lv
     | Some i \<Rightarrow> if lv_fired lv i = None then lv\<lparr>lv_fired := (lv_fired lv)(i \<mapsto> l)\<rparr> else lv)"

definition add_facts :: "predicate list \<Rightarrow> nat \<Rightarrow> levels \<Rightarrow> levels \<times> bool" where
  "add_facts ps l lv = fold (\<lambda>p (lv, changed). case add_fact p l lv of (lv', new) \<Rightarrow> (lv', changed \<or> new)) ps (lv, False)"

definition one_pass :: "atlas \<Rightarrow> graph \<Rightarrow> player_pose \<Rightarrow> achiever list \<Rightarrow> nat \<Rightarrow> pass_state
    \<Rightarrow> (pass_state \<times> bool) option" where
  "one_pass a g pose acs l s =
    (let lv0 = (pz_levels s)\<lparr>lv_passes := l\<rparr> in
     case reachable (pass_query a g pose lv0) of
       None \<Rightarrow> None
     | Some (maps, tiles) \<Rightarrow>
         let (lv1, entered) = enter_maps (maps - pz_reached s) l lv0;
             reached = pz_reached s \<union> maps;
             ready = map2 (\<lambda>d ac. \<not> d \<and> runnable ac reached tiles lv1) (pz_done s) acs;
             now = map snd (filter fst (zip ready acs));
             lv2 = fold (fire l) now lv1;
             (lv3, added) = add_facts (concat (map ac_effects now)) l lv2 in
         Some (\<lparr>pz_levels = lv3, pz_done = map2 (\<or>) (pz_done s) ready, pz_reached = reached\<rparr>, entered \<or> added))"

fun run_passes :: "nat \<Rightarrow> atlas \<Rightarrow> graph \<Rightarrow> player_pose \<Rightarrow> achiever list \<Rightarrow> nat \<Rightarrow> pass_state \<Rightarrow> pass_state option" where
  "run_passes 0 a g pose acs l s = Some s"
| "run_passes (Suc n) a g pose acs l s =
    (case one_pass a g pose acs l s of
       None \<Rightarrow> None
     | Some (s', changed) \<Rightarrow> if changed then run_passes n a g pose acs (Suc l) s' else Some s')"

definition compute_levels :: "atlas \<Rightarrow> graph \<Rightarrow> player_pose \<Rightarrow> achiever list \<Rightarrow> story_start \<Rightarrow> levels option" where
  "compute_levels a g pose acs start =
    map_option pz_levels (run_passes MAX_PASSES a g pose acs 1
      \<lparr>pz_levels = start_levels start, pz_done = replicate (length acs) False, pz_reached = {}\<rparr>)"

section \<open>The passes return\<close>

lemma explore_returns: "query_ok q \<Longrightarrow> \<exists>st. explore q = Some st"
  using route_loop_stops [OF _ begin_loop_ok, of q] by (auto simp: explore_def)

lemma pass_query_ok:
  assumes "params_ok params"
  shows "query_ok ((pass_query a (build_graph a params) pose lv)\<lparr>qy_pass := Open_Pass, qy_goal := Goal_Nowhere\<rparr>)"
  by (rule built_query_ok [OF assms, of _ a]) (simp_all add: pass_query_def query_of_def penalties_ok_def)

lemma reachable_returns:
  assumes "params_ok params"
  shows "\<exists>maps tiles. reachable (pass_query a (build_graph a params) pose lv) = Some (maps, tiles)"
  using explore_returns [OF pass_query_ok [OF assms]] by (auto simp: reachable_def Let_def)

lemma passes_return:
  assumes "params_ok params"
  shows "\<exists>s'. run_passes n a (build_graph a params) pose acs l s = Some s'"
proof (induction n arbitrary: l s)
  case (Suc n)
  have "one_pass a (build_graph a params) pose acs l s \<noteq> None"
    using reachable_returns [OF assms, of a pose "(pz_levels s)\<lparr>lv_passes := l\<rparr>"]
    by (auto simp: one_pass_def Let_def split: prod.splits)
  then show ?case using Suc by (auto split: prod.splits)
qed simp

section \<open>Levels grow\<close>

definition extends :: "nat \<Rightarrow> levels \<Rightarrow> levels \<Rightarrow> bool" where
  "extends l lv lv' \<longleftrightarrow> lv_start lv' = lv_start lv \<and>
    (\<forall>x k. lv_atoms lv x = Some k \<longrightarrow> lv_atoms lv' x = Some k) \<and>
    (\<forall>x k. lv_atoms lv' x = Some k \<longrightarrow> lv_atoms lv x = Some k \<or> k = l) \<and>
    (\<forall>n. \<exists>ys. lv_vars lv' n = lv_vars lv n @ ys \<and> (\<forall>y \<in> set ys. snd y = l))"

text \<open>The levels so far lie above 0 and below a bound.\<close>

definition up_to :: "nat \<Rightarrow> levels \<Rightarrow> bool" where
  "up_to l lv \<longleftrightarrow> (\<forall>x k. lv_atoms lv x = Some k \<longrightarrow> 0 < k \<and> k \<le> l) \<and>
    (\<forall>n v k. (v, k) \<in> set (lv_vars lv n) \<longrightarrow> 0 < k \<and> k \<le> l)"

lemma extends_refl [simp]: "extends l lv lv"
  by (auto simp: extends_def)

lemma extends_trans:
  assumes "extends l lv lv'" "extends l lv' lv''"
  shows "extends l lv lv''"
proof -
  have "\<exists>ys. lv_vars lv'' n = lv_vars lv n @ ys \<and> (\<forall>y \<in> set ys. snd y = l)" for n
  proof -
    obtain ys zs where "lv_vars lv' n = lv_vars lv n @ ys" "\<forall>y \<in> set ys. snd y = l"
      "lv_vars lv'' n = lv_vars lv' n @ zs" "\<forall>y \<in> set zs. snd y = l"
      using assms unfolding extends_def by metis
    then show ?thesis by (intro exI [of _ "ys @ zs"]) auto
  qed
  moreover have "lv_atoms lv x = Some k \<or> k = l" if "lv_atoms lv'' x = Some k" for x k
    using assms that unfolding extends_def by blast
  ultimately show ?thesis using assms unfolding extends_def by auto
qed

lemma up_to_extends:
  assumes "up_to l lv" "extends l lv lv'" "0 < l"
  shows "up_to l lv'"
proof -
  have "0 < k \<and> k \<le> l" if "lv_atoms lv' x = Some k" for x k
    using that assms unfolding up_to_def extends_def by (metis order_refl)
  moreover have "0 < k \<and> k \<le> l" if m: "(v, k) \<in> set (lv_vars lv' n)" for n v k
  proof -
    obtain ys where "lv_vars lv' n = lv_vars lv n @ ys" "\<forall>y \<in> set ys. snd y = l"
      using assms(2) unfolding extends_def by blast
    then show ?thesis using m assms(1,3) by (auto simp: up_to_def)
  qed
  ultimately show ?thesis by (simp add: up_to_def)
qed

lemma level_extends:
  assumes "up_to l lv" "extends l lv lv'" "level_of lv p = Some k"
  shows "level_of lv' p = Some k"
proof (cases "start_holds (lv_start lv) p")
  case True
  then show ?thesis using assms by (simp add: level_of_def extends_def)
next
  case False
  then have later: "later_level lv p = Some k" and start: "\<not> start_holds (lv_start lv') p"
    using assms by (simp_all add: level_of_def extends_def)
  have "later_level lv' p = Some k"
  proof (cases p)
    case (Var name op v)
    let ?ls = "\<lambda>al. map snd (filter (\<lambda>(x, l). op_holds op x v) al)"
    obtain ys where ys: "lv_vars lv' name = lv_vars lv name @ ys" "\<forall>y \<in> set ys. snd y = l"
      using assms(2) unfolding extends_def by blast
    have ls: "?ls (lv_vars lv name) \<noteq> []" "k = Min (set (?ls (lv_vars lv name)))"
      using later Var by (auto simp: later_level_def Let_def split: if_splits)
    then have "k \<in> set (?ls (lv_vars lv name))" by (metis List.finite_set Min_in set_empty)
    moreover have "k \<le> x" if x: "x \<in> set (?ls (lv_vars lv' name))" for x
    proof -
      have "k \<le> l" using \<open>k \<in> set (?ls (lv_vars lv name))\<close> assms(1) by (auto simp: up_to_def)
      moreover have "x \<in> set (?ls (lv_vars lv name)) \<or> x = l" using x ys by auto
      ultimately show ?thesis using ls(2) by (metis List.finite_set Min_le)
    qed
    ultimately have "Min (set (?ls (lv_vars lv' name))) = k" using ys(1) by (intro Min_eqI) auto
    moreover have "?ls (lv_vars lv' name) \<noteq> []" using ls(1) ys(1) by simp
    ultimately show ?thesis using Var by (simp add: later_level_def Let_def)
  qed (use later assms(2) in \<open>auto simp: later_level_def extends_def\<close>)
  then show ?thesis using start by (simp add: level_of_def)
qed

lemma provided_extends: "up_to l lv \<Longrightarrow> extends l lv lv' \<Longrightarrow> provided lv p \<Longrightarrow> provided lv' p"
  using level_extends [of l lv lv' p] by (cases "level_of lv p") (simp_all add: provided_def)

lemma extends_var: "extends l lv (lv\<lparr>lv_vars := (lv_vars lv)(n := lv_vars lv n @ [(v, l)])\<rparr>)"
proof -
  have "\<exists>ys. ((lv_vars lv)(n := lv_vars lv n @ [(v, l)])) m = lv_vars lv m @ ys \<and> (\<forall>y \<in> set ys. snd y = l)" for m
    by (rule exI [of _ "if m = n then [(v, l)] else []"]) simp
  then show ?thesis by (simp add: extends_def)
qed

lemma extends_atom: "lv_atoms lv x = None \<Longrightarrow> extends l lv (lv\<lparr>lv_atoms := (lv_atoms lv)(x \<mapsto> l)\<rparr>)"
  by (auto simp: extends_def)

lemma add_fact_extends: "extends l lv (fst (add_fact p l lv))"
proof (cases p)
  case (Var name op v)
  then show ?thesis using extends_var by (simp add: add_fact_def)
qed (simp_all add: add_fact_def extends_atom)

lemma add_facts_extends: "extends l lv (fst (add_facts ps l lv))"
proof -
  have "extends l lv (fst (fold (\<lambda>p (lv, changed). case add_fact p l lv of (lv', new) \<Rightarrow> (lv', changed \<or> new)) ps (lv', c)))"
    if "extends l lv lv'" for lv' c
    using that
  proof (induction ps arbitrary: lv' c)
    case (Cons p ps)
    obtain lv2 new where 2: "add_fact p l lv' = (lv2, new)" by (metis prod.exhaust)
    then have "extends l lv lv2" using add_fact_extends [of l lv' p] Cons.prems extends_trans by fastforce
    then show ?case using Cons.IH 2 by simp
  qed simp
  then show ?thesis by (simp add: add_facts_def)
qed

section \<open>Every level has its cause\<close>

definition is_place :: "predicate \<Rightarrow> bool" where
  "is_place p \<longleftrightarrow> (\<exists>m. atom_of p = Some (Map_Atom m))"

text \<open>The literals hold before the pass; only that a map is reached may be of the same pass.\<close>

definition in_order :: "levels \<Rightarrow> nat \<Rightarrow> predicate list \<Rightarrow> bool" where
  "in_order lv l ps \<longleftrightarrow>
    list_all (\<lambda>p. case level_of lv p of None \<Rightarrow> False | Some k \<Rightarrow> k < l \<or> k = l \<and> is_place p) ps"

definition caused :: "achiever list \<Rightarrow> levels \<Rightarrow> predicate \<Rightarrow> nat \<Rightarrow> bool" where
  "caused acs lv p l \<longleftrightarrow> (\<exists>ac \<in> set acs. p \<in> set (ac_effects ac) \<and> in_order lv l (ac_pre ac) \<and>
    (case ac_map ac of None \<Rightarrow> True | Some m \<Rightarrow> \<exists>k. lv_atoms lv (Map_Atom m) = Some k \<and> k \<le> l))"

lemma in_order_extends: "up_to l lv \<Longrightarrow> extends l lv lv' \<Longrightarrow> in_order lv k ps \<Longrightarrow> in_order lv' k ps"
  using level_extends [of l lv lv'] by (fastforce simp: in_order_def list_all_iff split: option.splits)

lemma caused_extends:
  assumes "up_to l lv" "extends l lv lv'" "caused acs lv p k"
  shows "caused acs lv' p k"
proof -
  obtain ac where ac: "ac \<in> set acs" "p \<in> set (ac_effects ac)" "in_order lv k (ac_pre ac)"
    "case ac_map ac of None \<Rightarrow> True | Some m \<Rightarrow> \<exists>j. lv_atoms lv (Map_Atom m) = Some j \<and> j \<le> k"
    using assms(3) by (auto simp: caused_def)
  have "in_order lv' k (ac_pre ac)" by (rule in_order_extends [OF assms(1,2) ac(3)])
  moreover have "case ac_map ac of None \<Rightarrow> True | Some m \<Rightarrow> \<exists>j. lv_atoms lv' (Map_Atom m) = Some j \<and> j \<le> k"
    using ac(4) assms(2) by (auto simp: extends_def split: option.splits)
  ultimately show ?thesis using ac(1,2) by (auto simp: caused_def)
qed

text \<open>What holds before the pass \<open>l\<close>: every level is below it and has its cause, and what was done is provided.\<close>

definition recordable :: "predicate \<Rightarrow> bool" where
  "recordable p = (case p of Var name op v \<Rightarrow> op = Eq_Op | _ \<Rightarrow> True)"

definition levels_ok :: "achiever list \<Rightarrow> nat \<Rightarrow> levels \<Rightarrow> bool" where
  "levels_ok acs l lv \<longleftrightarrow> up_to l lv \<and>
    (\<forall>x k. lv_atoms lv x = Some k \<longrightarrow> (\<exists>m. x = Map_Atom m) \<or> (\<exists>q. atom_of q = Some x \<and> caused acs lv q k)) \<and>
    (\<forall>n v k. (v, k) \<in> set (lv_vars lv n) \<longrightarrow> caused acs lv (Var n Eq_Op v) k)"

definition pass_ok :: "achiever list \<Rightarrow> nat \<Rightarrow> pass_state \<Rightarrow> bool" where
  "pass_ok acs l s \<longleftrightarrow> levels_ok acs l (pz_levels s) \<and> length (pz_done s) = length acs \<and>
    (\<forall>m \<in> pz_reached s. lv_atoms (pz_levels s) (Map_Atom m) \<noteq> None) \<and>
    (\<forall>i < length acs. pz_done s ! i \<longrightarrow> (\<forall>p \<in> set (ac_effects (acs ! i)). recordable p \<longrightarrow> provided (pz_levels s) p))"

lemma levels_ok_extends:
  assumes "levels_ok acs l lv" "extends l lv lv'" "0 < l"
    and new_atom: "\<And>x. lv_atoms lv x = None \<Longrightarrow> lv_atoms lv' x = Some l \<Longrightarrow>
      (\<exists>m. x = Map_Atom m) \<or> (\<exists>q. atom_of q = Some x \<and> caused acs lv' q l)"
    and new_var: "\<And>n v. (v, l) \<in> set (lv_vars lv' n) \<Longrightarrow> (v, l) \<in> set (lv_vars lv n) \<or> caused acs lv' (Var n Eq_Op v) l"
  shows "levels_ok acs l lv'"
proof -
  have up: "up_to l lv" using assms(1) by (simp add: levels_ok_def)
  note kept = caused_extends [OF up assms(2)]
  have "(\<exists>m. x = Map_Atom m) \<or> (\<exists>q. atom_of q = Some x \<and> caused acs lv' q k)" if "lv_atoms lv' x = Some k" for x k
  proof (cases "lv_atoms lv x")
    case None
    then have "k = l" using that assms(2) unfolding extends_def by (metis option.distinct(1))
    then show ?thesis using new_atom None that by blast
  next
    case (Some j)
    then have "j = k" using assms(2) that by (auto simp: extends_def)
    then show ?thesis using Some assms(1) kept unfolding levels_ok_def by blast
  qed
  moreover have "caused acs lv' (Var n Eq_Op v) k" if "(v, k) \<in> set (lv_vars lv' n)" for n v k
  proof -
    obtain ys where ys: "lv_vars lv' n = lv_vars lv n @ ys" "\<forall>y \<in> set ys. snd y = l"
      using assms(2) unfolding extends_def by blast
    show ?thesis
    proof (cases "(v, k) \<in> set (lv_vars lv n)")
      case True
      then show ?thesis using assms(1) kept unfolding levels_ok_def by blast
    next
      case False
      then have "k = l" using ys that by auto
      then show ?thesis using new_var that False by blast
    qed
  qed
  ultimately show ?thesis using up_to_extends [OF up assms(2,3)] by (auto simp: levels_ok_def)
qed

text \<open>The paths fired and the count of passes are told by no level.\<close>

definition same_facts :: "levels \<Rightarrow> levels \<Rightarrow> bool" where
  "same_facts lv lv' \<longleftrightarrow> lv_atoms lv = lv_atoms lv' \<and> lv_vars lv = lv_vars lv' \<and> lv_start lv = lv_start lv'"

lemma same_level_of:
  assumes "same_facts lv lv'"
  shows "level_of lv = level_of lv'"
proof -
  have eq: "lv_atoms lv = lv_atoms lv'" "lv_vars lv = lv_vars lv'" "lv_start lv = lv_start lv'"
    using assms by (simp_all add: same_facts_def)
  show ?thesis by (rule ext) (unfold level_of_def later_level_def eq, rule refl)
qed

lemma same_levels_ok:
  assumes "same_facts lv lv'"
  shows "levels_ok acs l lv = levels_ok acs l lv'"
proof -
  have eq: "lv_atoms lv = lv_atoms lv'" "lv_vars lv = lv_vars lv'" using assms by (simp_all add: same_facts_def)
  show ?thesis
    unfolding levels_ok_def up_to_def caused_def in_order_def same_level_of [OF assms] eq by (rule refl)
qed

lemma same_provided: "same_facts lv lv' \<Longrightarrow> provided lv = provided lv'"
  using same_level_of by (simp add: provided_def fun_eq_iff)

lemma same_passes [simp]: "same_facts (lv\<lparr>lv_passes := n\<rparr>) lv"
  by (simp add: same_facts_def)

lemma same_fired: "same_facts (fold (fire l) acs lv) lv"
  by (induction acs arbitrary: lv) (auto simp: fire_def same_facts_def split: option.split)

lemma extends_same: "extends l lv lv' \<Longrightarrow> same_facts lv lv2 \<Longrightarrow> extends l lv2 lv'"
  by (auto simp: extends_def same_facts_def)

lemma enter_extends: "extends l lv (fst (enter_maps ms l lv))"
  by (auto simp: enter_maps_def extends_def split: story_atom.splits if_splits)

lemma add_facts_from:
  "fold (\<lambda>p (lv, changed). case add_fact p l lv of (lv', new) \<Rightarrow> (lv', changed \<or> new)) ps (lv, c) =
    (fst (add_facts ps l lv), c \<or> snd (add_facts ps l lv))"
proof (induction ps arbitrary: lv c)
  case (Cons p ps)
  obtain lv' new where "add_fact p l lv = (lv', new)" by (metis prod.exhaust)
  then show ?case using Cons [of lv' "c \<or> new"] Cons [of lv' new] by (simp add: add_facts_def)
qed (simp add: add_facts_def)

lemma add_facts_Cons:
  "add_facts (p # ps) l lv = (fst (add_facts ps l (fst (add_fact p l lv))),
    snd (add_fact p l lv) \<or> snd (add_facts ps l (fst (add_fact p l lv))))"
  using add_facts_from [of l ps "fst (add_fact p l lv)" "snd (add_fact p l lv)"]
  by (simp add: add_facts_def split: prod.splits)

lemma add_facts_Nil [simp]: "add_facts [] l lv = (lv, False)"
  by (simp add: add_facts_def)

lemma add_fact_new_atom: "lv_atoms (fst (add_fact p l lv)) x = Some k \<Longrightarrow> lv_atoms lv x = None \<Longrightarrow> atom_of p = Some x"
  by (cases p) (auto simp: add_fact_def split: if_splits)

lemma add_fact_new_var:
  "(v, k) \<in> set (lv_vars (fst (add_fact p l lv)) n) \<Longrightarrow> (v, k) \<in> set (lv_vars lv n) \<or> p = Var n Eq_Op v"
  by (cases p) (auto simp: add_fact_def split: if_splits)

lemma add_fact_unchanged: "\<not> snd (add_fact p l lv) \<Longrightarrow> fst (add_fact p l lv) = lv"
  by (cases p) (auto simp: add_fact_def split: if_splits)

lemma add_fact_provides:
  assumes "recordable p"
  shows "provided (fst (add_fact p l lv)) p"
proof (cases p)
  case (Var name op v)
  have eq: "op = Eq_Op" using assms Var by (simp add: recordable_def)
  let ?al = "lv_vars (fst (add_fact p l lv)) name"
  have "v \<in> fst ` set ?al" by (auto simp: add_fact_def Var eq)
  then obtain k where "(v, k) \<in> set ?al" by auto
  then have "filter (\<lambda>(x, l). op_holds op x v) ?al \<noteq> []" by (auto simp: filter_empty_conv eq)
  then show ?thesis by (simp add: provided_def level_of_def later_level_def Var Let_def)
qed (auto simp: add_fact_def provided_def level_of_def later_level_def)

lemma add_facts_new_atom:
  "lv_atoms (fst (add_facts ps l lv)) x = Some k \<Longrightarrow> lv_atoms lv x = None \<Longrightarrow> \<exists>p \<in> set ps. atom_of p = Some x"
proof (induction ps arbitrary: lv)
  case (Cons p ps)
  show ?case
  proof (cases "lv_atoms (fst (add_fact p l lv)) x")
    case None
    then show ?thesis using Cons by (auto simp: add_facts_Cons)
  qed (use add_fact_new_atom Cons.prems in auto)
qed simp

lemma add_facts_new_var:
  "(v, k) \<in> set (lv_vars (fst (add_facts ps l lv)) n) \<Longrightarrow> (v, k) \<in> set (lv_vars lv n) \<or> Var n Eq_Op v \<in> set ps"
proof (induction ps arbitrary: lv)
  case (Cons p ps)
  then have "(v, k) \<in> set (lv_vars (fst (add_fact p l lv)) n) \<or> Var n Eq_Op v \<in> set ps" by (simp add: add_facts_Cons)
  then show ?case using add_fact_new_var [of v k p l lv n] by auto
qed simp

lemma add_facts_unchanged: "\<not> snd (add_facts ps l lv) \<Longrightarrow> fst (add_facts ps l lv) = lv"
proof (induction ps arbitrary: lv)
  case (Cons p ps)
  then have "fst (add_fact p l lv) = lv" by (simp add: add_facts_Cons add_fact_unchanged)
  then show ?case using Cons by (simp add: add_facts_Cons)
qed simp

lemma add_facts_provides:
  "up_to l lv \<Longrightarrow> 0 < l \<Longrightarrow> p \<in> set ps \<Longrightarrow> recordable p \<Longrightarrow> provided (fst (add_facts ps l lv)) p"
proof (induction ps arbitrary: lv)
  case (Cons q ps)
  let ?lv = "fst (add_fact q l lv)"
  have up: "up_to l ?lv" using up_to_extends [OF Cons.prems(1) add_fact_extends Cons.prems(2)] .
  show ?case
  proof (cases "p \<in> set ps")
    case True
    then show ?thesis using Cons.IH [OF up] Cons.prems by (simp add: add_facts_Cons)
  next
    case False
    then have "provided ?lv p" using add_fact_provides Cons.prems by simp
    then show ?thesis using provided_extends [OF up add_facts_extends] by (simp add: add_facts_Cons)
  qed
qed simp

section \<open>One pass\<close>

text \<open>The parts of a pass.\<close>

definition entering :: "pass_state \<Rightarrow> nat \<Rightarrow> string set \<Rightarrow> levels" where
  "entering s l maps = fst (enter_maps (maps - pz_reached s) l ((pz_levels s)\<lparr>lv_passes := l\<rparr>))"

definition ready_of :: "achiever list \<Rightarrow> pass_state \<Rightarrow> nat \<Rightarrow> string set \<Rightarrow> (string \<Rightarrow> pos set) \<Rightarrow> bool list" where
  "ready_of acs s l maps tiles =
    map2 (\<lambda>d ac. \<not> d \<and> runnable ac (pz_reached s \<union> maps) tiles (entering s l maps)) (pz_done s) acs"

definition now_of :: "achiever list \<Rightarrow> bool list \<Rightarrow> achiever list" where
  "now_of acs ready = map snd (filter fst (zip ready acs))"

lemma one_pass_parts:
  assumes "one_pass a g pose acs l s = Some (s', changed)"
  shows "\<exists>maps tiles. reachable (pass_query a g pose ((pz_levels s)\<lparr>lv_passes := l\<rparr>)) = Some (maps, tiles) \<and>
    (let ready = ready_of acs s l maps tiles; now = now_of acs ready; lv2 = fold (fire l) now (entering s l maps) in
     s' = \<lparr>pz_levels = fst (add_facts (concat (map ac_effects now)) l lv2), pz_done = map2 (\<or>) (pz_done s) ready,
       pz_reached = pz_reached s \<union> maps\<rparr> \<and>
     changed = (snd (enter_maps (maps - pz_reached s) l ((pz_levels s)\<lparr>lv_passes := l\<rparr>)) \<or>
       snd (add_facts (concat (map ac_effects now)) l lv2)))"
proof (cases "reachable (pass_query a g pose ((pz_levels s)\<lparr>lv_passes := l\<rparr>))")
  case None
  then show ?thesis using assms by (simp add: one_pass_def Let_def)
next
  case (Some r)
  obtain maps tiles where r: "r = (maps, tiles)" by (cases r)
  show ?thesis
    using assms by (intro exI [of _ maps] exI [of _ tiles])
      (simp add: one_pass_def Let_def Some r split_beta ready_of_def now_of_def entering_def)
qed

lemma now_runs:
  assumes "ac \<in> set (now_of acs (map2 (\<lambda>d ac. \<not> d \<and> P ac) ds acs))"
  shows "ac \<in> set acs \<and> P ac"
proof -
  have "(True, ac) \<in> set (zip (map2 (\<lambda>d ac. \<not> d \<and> P ac) ds acs) acs)" using assms by (auto simp: now_of_def)
  then obtain i where "i < length acs" "acs ! i = ac" "map2 (\<lambda>d ac. \<not> d \<and> P ac) ds acs ! i" "i < length ds"
    by (auto simp: set_zip)
  then show ?thesis by auto
qed

lemma entered_level:
  assumes "up_to (l - 1) lv" "0 < l" "level_of (fst (enter_maps ms l lv)) p = Some k"
  shows "k < l \<or> k = l \<and> is_place p"
proof (cases "start_holds (lv_start lv) p")
  case True
  then show ?thesis using assms(2,3) by (simp add: level_of_def enter_maps_def)
next
  case False
  then have later: "later_level (fst (enter_maps ms l lv)) p = Some k"
    using assms(3) by (simp add: level_of_def enter_maps_def split: if_splits)
  show ?thesis
  proof (cases p)
    case (Var name op v)
    let ?ls = "map snd (filter (\<lambda>(x, l). op_holds op x v) (lv_vars lv name))"
    have "?ls \<noteq> []" "k = Min (set ?ls)"
      using later Var by (auto simp: later_level_def enter_maps_def Let_def split: if_splits)
    then have "k \<in> set ?ls" by (metis List.finite_set Min_in set_empty)
    then have "k \<le> l - 1" using assms(1) by (auto simp: up_to_def)
    then show ?thesis using assms(2) by linarith
  next
    case (Flag name on)
    then show ?thesis using later assms(1,2) by (fastforce simp: later_level_def enter_maps_def up_to_def)
  next
    case (Badge n)
    then show ?thesis using later assms(1,2) by (fastforce simp: later_level_def enter_maps_def up_to_def)
  next
    case (Has_Item i n)
    then show ?thesis using later assms(1,2) by (fastforce simp: later_level_def enter_maps_def up_to_def)
  next
    case (Party_Has_Move mv)
    then show ?thesis using later assms(1,2) by (fastforce simp: later_level_def enter_maps_def up_to_def)
  next
    case (Visited m)
    then show ?thesis using later assms(1,2)
      by (fastforce simp: later_level_def enter_maps_def up_to_def is_place_def split: if_splits)
  next
    case (At m)
    then show ?thesis using later assms(1,2)
      by (fastforce simp: later_level_def enter_maps_def up_to_def is_place_def split: if_splits)
  qed
qed

lemma up_to_mono: "up_to l lv \<Longrightarrow> l \<le> k \<Longrightarrow> up_to k lv"
  unfolding up_to_def by (meson le_trans)

lemma levels_ok_mono: "levels_ok acs l lv \<Longrightarrow> l \<le> k \<Longrightarrow> levels_ok acs k lv"
  using up_to_mono by (auto simp: levels_ok_def)

lemma fired_passes [simp]: "lv_passes (fold (fire l) acs lv) = lv_passes lv"
  by (induction acs arbitrary: lv) (auto simp: fire_def split: option.split)

lemma add_fact_passes [simp]: "lv_passes (fst (add_fact p l lv)) = lv_passes lv"
  by (cases p) (auto simp: add_fact_def)

lemma add_facts_passes [simp]: "lv_passes (fst (add_facts ps l lv)) = lv_passes lv"
  by (induction ps arbitrary: lv) (simp_all add: add_facts_Cons)

lemma entered_passes [simp]: "lv_passes (entering s l maps) = l"
  by (simp add: entering_def enter_maps_def)

lemma ready_now:
  "i < length acs \<Longrightarrow> length ready = length acs \<Longrightarrow> ready ! i \<Longrightarrow> acs ! i \<in> set (now_of acs ready)"
  by (force simp: now_of_def set_zip)

lemma ready_runs:
  "ac \<in> set (now_of acs (ready_of acs s l maps tiles)) \<Longrightarrow>
    ac \<in> set acs \<and> runnable ac (pz_reached s \<union> maps) tiles (entering s l maps)"
  unfolding ready_of_def by (rule now_runs)

text \<open>After the maps are entered.\<close>

lemma entering_ok:
  assumes ok: "pass_ok acs (l - 1) s" "0 < l"
  shows "levels_ok acs l (entering s l maps)"
    "provided (pz_levels s) p \<Longrightarrow> provided (entering s l maps) p"
    "m \<in> pz_reached s \<union> maps \<Longrightarrow> lv_atoms (entering s l maps) (Map_Atom m) \<noteq> None"
    "level_of (entering s l maps) p = Some k \<Longrightarrow> k < l \<or> k = l \<and> is_place p"
proof -
  define lv0 where "lv0 = (pz_levels s)\<lparr>lv_passes := l\<rparr>"
  have same0: "same_facts lv0 (pz_levels s)" by (simp add: lv0_def)
  have ok0': "levels_ok acs (l - 1) lv0" using ok(1) same_levels_ok [OF same0] by (simp add: pass_ok_def)
  then have up0: "up_to (l - 1) lv0" by (simp add: levels_ok_def)
  have ok0: "levels_ok acs l lv0" by (rule levels_ok_mono [OF ok0']) simp
  have ext1: "extends l lv0 (entering s l maps)" unfolding entering_def lv0_def by (rule enter_extends)
  show "levels_ok acs l (entering s l maps)"
  proof (rule levels_ok_extends [OF ok0 ext1 \<open>0 < l\<close>])
    fix x assume "lv_atoms lv0 x = None" "lv_atoms (entering s l maps) x = Some l"
    then show "(\<exists>m. x = Map_Atom m) \<or> (\<exists>q. atom_of q = Some x \<and> caused acs (entering s l maps) q l)"
      by (cases x) (simp_all add: entering_def enter_maps_def lv0_def)
  qed (simp add: entering_def enter_maps_def lv0_def)
  show "provided (pz_levels s) p \<Longrightarrow> provided (entering s l maps) p"
    using same_provided [OF same0] provided_extends [OF up_to_mono [OF up0] ext1] by simp
  show "m \<in> pz_reached s \<union> maps \<Longrightarrow> lv_atoms (entering s l maps) (Map_Atom m) \<noteq> None"
    using ok(1) by (auto simp: pass_ok_def entering_def enter_maps_def)
  show "level_of (entering s l maps) p = Some k \<Longrightarrow> k < l \<or> k = l \<and> is_place p"
    unfolding entering_def using entered_level [OF up0 \<open>0 < l\<close>] by (simp add: lv0_def)
qed

text \<open>An effect of an achiever that runs has its cause in whatever the levels grow to.\<close>

lemma effect_caused:
  assumes ok: "pass_ok acs (l - 1) s" "0 < l" and ext: "extends l (entering s l maps) lv"
    and ac: "ac \<in> set (now_of acs (ready_of acs s l maps tiles))" "q \<in> set (ac_effects ac)"
  shows "caused acs lv q l"
proof -
  let ?lv = "entering s l maps"
  have up: "up_to l ?lv" using entering_ok(1) [OF ok] by (simp add: levels_ok_def)
  have run: "ac \<in> set acs" "runnable ac (pz_reached s \<union> maps) tiles ?lv" using ready_runs [OF ac(1)] by simp_all
  have "case level_of ?lv p of None \<Rightarrow> False | Some k \<Rightarrow> k < l \<or> k = l \<and> is_place p" if "p \<in> set (ac_pre ac)" for p
    using run(2) that entering_ok(4) [OF ok, of maps p]
    by (auto simp: runnable_def list_all_iff provided_def split: option.split)
  then have "in_order ?lv l (ac_pre ac)" by (simp add: in_order_def list_all_iff)
  then have "in_order lv l (ac_pre ac)" by (rule in_order_extends [OF up ext])
  moreover have "\<exists>k. lv_atoms lv (Map_Atom m) = Some k \<and> k \<le> l" if m: "ac_map ac = Some m" for m
  proof -
    obtain k where "lv_atoms ?lv (Map_Atom m) = Some k"
      using run(2) m entering_ok(3) [OF ok, of m maps] by (auto simp: runnable_def)
    then show ?thesis using ext up by (auto simp: extends_def up_to_def)
  qed
  ultimately show ?thesis using run(1) ac(2) by (auto simp: caused_def split: option.split)
qed

lemma pass_step:
  assumes ok: "pass_ok acs (l - 1) s" "0 < l" and pass: "one_pass a g pose acs l s = Some (s', changed)"
  shows "pass_ok acs l s' \<and> lv_passes (pz_levels s') = l"
proof -
  obtain maps tiles where parts: "let ready = ready_of acs s l maps tiles; now = now_of acs ready in
      s' = \<lparr>pz_levels = fst (add_facts (concat (map ac_effects now)) l (fold (fire l) now (entering s l maps))),
        pz_done = map2 (\<or>) (pz_done s) ready, pz_reached = pz_reached s \<union> maps\<rparr>"
    using one_pass_parts [OF pass] by (auto simp: Let_def)
  define ready where "ready = ready_of acs s l maps tiles"
  define now where "now = now_of acs ready"
  define lv1 where "lv1 = entering s l maps"
  define lv2 where "lv2 = fold (fire l) now lv1"
  define ps where "ps = concat (map ac_effects now)"
  define lv3 where "lv3 = fst (add_facts ps l lv2)"
  have s': "pz_levels s' = lv3" "pz_done s' = map2 (\<or>) (pz_done s) ready" "pz_reached s' = pz_reached s \<union> maps"
    using parts by (simp_all add: Let_def lv3_def ps_def lv2_def now_def lv1_def ready_def)
  have ok1: "levels_ok acs l lv1" unfolding lv1_def by (rule entering_ok(1) [OF ok])
  have same2: "same_facts lv2 lv1" unfolding lv2_def by (rule same_fired)
  then have ok2: "levels_ok acs l lv2" using ok1 same_levels_ok by blast
  then have up2: "up_to l lv2" and up1: "up_to l lv1" using ok1 by (simp_all add: levels_ok_def)
  have ext3: "extends l lv2 lv3" unfolding lv3_def by (rule add_facts_extends)
  then have ext13: "extends l lv1 lv3" using same2 by (rule extends_same)
  have cause: "caused acs lv3 q l" if "q \<in> set ps" for q
    using that effect_caused [OF ok ext13 [unfolded lv1_def]] unfolding ps_def now_def ready_def by auto
  have ok3: "levels_ok acs l lv3"
  proof (rule levels_ok_extends [OF ok2 ext3 \<open>0 < l\<close>])
    fix x assume "lv_atoms lv2 x = None" "lv_atoms lv3 x = Some l"
    then obtain q where "q \<in> set ps" "atom_of q = Some x" using add_facts_new_atom unfolding lv3_def by blast
    then show "(\<exists>m. x = Map_Atom m) \<or> (\<exists>q. atom_of q = Some x \<and> caused acs lv3 q l)" using cause by blast
  next
    fix n v assume "(v, l) \<in> set (lv_vars lv3 n)"
    then show "(v, l) \<in> set (lv_vars lv2 n) \<or> caused acs lv3 (Var n Eq_Op v) l"
      using add_facts_new_var cause unfolding lv3_def by blast
  qed
  have len: "length (pz_done s) = length acs" "length ready = length acs"
    using ok(1) by (simp_all add: pass_ok_def ready_def ready_of_def)
  have effects: "provided lv3 p" if i: "i < length acs" and d: "pz_done s' ! i"
    and p: "p \<in> set (ac_effects (acs ! i))" "recordable p" for i p
  proof (cases "pz_done s ! i")
    case True
    then have "provided lv1 p" unfolding lv1_def using ok i p by (intro entering_ok(2)) (auto simp: pass_ok_def)
    then show ?thesis by (rule provided_extends [OF up1 ext13])
  next
    case False
    then have "ready ! i" using d i len by (simp add: s')
    then have "p \<in> set ps" using ready_now [OF i len(2)] p(1) by (auto simp: ps_def now_def)
    then show ?thesis unfolding lv3_def using add_facts_provides [OF up2 \<open>0 < l\<close>] p(2) by blast
  qed
  have "lv_atoms lv3 (Map_Atom m) \<noteq> None" if "m \<in> pz_reached s \<union> maps" for m
    using entering_ok(3) [OF ok that] ext13 by (auto simp: extends_def lv1_def)
  then have "pass_ok acs l s'" using ok3 effects len by (auto simp: pass_ok_def s')
  moreover have "lv_passes lv3 = l" by (simp add: lv3_def lv2_def lv1_def)
  ultimately show ?thesis by (simp add: s')
qed

section \<open>All passes\<close>

lemma passes_ok:
  "pass_ok acs (l - 1) s \<Longrightarrow> 0 < l \<Longrightarrow> run_passes n a g pose acs l s = Some s' \<Longrightarrow> \<exists>k. pass_ok acs k s'"
proof (induction n arbitrary: l s)
  case (Suc n)
  obtain s2 changed where 2: "one_pass a g pose acs l s = Some (s2, changed)"
    using Suc.prems(3) by (cases "one_pass a g pose acs l s") auto
  have ok: "pass_ok acs l s2" using pass_step [OF Suc.prems(1,2) 2] by simp
  show ?case
  proof (cases changed)
    case True
    then show ?thesis using Suc.IH [of "Suc l" s2] ok Suc.prems(3) 2 by simp
  next
    case False
    then show ?thesis using ok Suc.prems(3) 2 by auto
  qed
qed auto

lemma start_ok:
  "pass_ok acs 0 \<lparr>pz_levels = start_levels start, pz_done = replicate (length acs) False, pz_reached = {}\<rparr>"
  by (simp add: pass_ok_def levels_ok_def up_to_def start_levels_def)

text \<open>What gives a literal its level: an effect with the same atom, or a value of the variable it admits.\<close>

definition gives :: "predicate \<Rightarrow> predicate \<Rightarrow> bool" where
  "gives q p \<longleftrightarrow> (case p of
     Var name op v \<Rightarrow> \<exists>x. q = Var name Eq_Op x \<and> op_holds op x v
   | _ \<Rightarrow> atom_of q = atom_of p)"


section \<open>Nothing is left to add\<close>

lemma last_pass:
  "run_passes n a g pose acs l s = Some s' \<Longrightarrow> pass_ok acs (l - 1) s \<Longrightarrow> 0 < l \<Longrightarrow> lv_passes (pz_levels s) = l - 1 \<Longrightarrow>
    n + l = Suc N \<Longrightarrow> lv_passes (pz_levels s') < N \<Longrightarrow>
    \<exists>k s0. pass_ok acs (k - 1) s0 \<and> 0 < k \<and> one_pass a g pose acs k s0 = Some (s', False)"
proof (induction n arbitrary: l s)
  case (Suc n)
  obtain s2 changed where 2: "one_pass a g pose acs l s = Some (s2, changed)"
    using Suc.prems(1) by (cases "one_pass a g pose acs l s") auto
  have ok: "pass_ok acs l s2" "lv_passes (pz_levels s2) = l" using pass_step [OF Suc.prems(2,3) 2] by simp_all
  show ?case
  proof (cases changed)
    case True
    then have "run_passes n a g pose acs (Suc l) s2 = Some s'" using Suc.prems(1) 2 by simp
    then show ?thesis using Suc.IH [of "Suc l" s2] ok Suc.prems(5,6) by simp
  next
    case False
    then show ?thesis using Suc.prems(1-3) 2 by auto
  qed
qed simp

lemma entered_same:
  assumes "\<not> snd (enter_maps ms l lv)"
  shows "same_facts (fst (enter_maps ms l lv)) lv"
proof -
  have "lv_atoms (fst (enter_maps ms l lv)) x = lv_atoms lv x" for x
    using assms by (cases x) (auto simp: enter_maps_def)
  then have "lv_atoms (fst (enter_maps ms l lv)) = lv_atoms lv" by (rule ext)
  then show ?thesis by (simp add: same_facts_def enter_maps_def)
qed

lemma same_trans: "same_facts x y \<Longrightarrow> same_facts y z \<Longrightarrow> same_facts x z"
  by (simp add: same_facts_def)

lemma same_query: "same_facts lv lv' \<Longrightarrow> pass_query a g pose lv = pass_query a g pose lv'"
proof -
  assume "same_facts lv lv'"
  then have "pass_belief lv = pass_belief lv'" using same_provided by (simp add: pass_belief_def fun_eq_iff)
  then show ?thesis by (simp add: pass_query_def)
qed

text \<open>C22: Where the passes end before their bound nothing is left to add: with the levels as the belief, every map the
  routes reach has a level, and whatever can run there has its effects among the facts already.\<close>

theorem levels_closed:
  assumes "compute_levels a g pose acs start = Some lv" "lv_passes lv < MAX_PASSES"
  shows "\<exists>maps tiles. reachable (pass_query a g pose lv) = Some (maps, tiles) \<and>
    \<not> (\<exists>m. m \<in> maps \<and> \<not> provided lv (At m)) \<and>
    \<not> (\<exists>ac p. ac \<in> set acs \<and> runnable ac maps tiles lv \<and> p \<in> set (ac_effects ac) \<and> recordable p \<and> \<not> provided lv p)"
proof -
  obtain s' where run: "run_passes MAX_PASSES a g pose acs 1
      \<lparr>pz_levels = start_levels start, pz_done = replicate (length acs) False, pz_reached = {}\<rparr> = Some s'"
    and lv: "lv = pz_levels s'"
    using assms(1) by (auto simp: compute_levels_def)
  obtain l s where ok: "pass_ok acs (l - 1) s" "0 < l" and pass: "one_pass a g pose acs l s = Some (s', False)"
    using last_pass [OF run, of MAX_PASSES] start_ok [of acs start] assms(2) by (auto simp: lv start_levels_def)
  have ok': "pass_ok acs l s'" using pass_step [OF ok pass] by simp
  define lv0 where "lv0 = (pz_levels s)\<lparr>lv_passes := l\<rparr>"
  obtain maps tiles where reach: "reachable (pass_query a g pose lv0) = Some (maps, tiles)" and parts:
    "let ready = ready_of acs s l maps tiles; now = now_of acs ready; lv2 = fold (fire l) now (entering s l maps) in
      s' = \<lparr>pz_levels = fst (add_facts (concat (map ac_effects now)) l lv2), pz_done = map2 (\<or>) (pz_done s) ready,
        pz_reached = pz_reached s \<union> maps\<rparr> \<and>
      \<not> snd (enter_maps (maps - pz_reached s) l lv0) \<and> \<not> snd (add_facts (concat (map ac_effects now)) l lv2)"
    using one_pass_parts [OF pass] by (auto simp: lv0_def Let_def)
  define ready where "ready = ready_of acs s l maps tiles"
  define lv2 where "lv2 = fold (fire l) (now_of acs ready) (entering s l maps)"
  have lv2: "lv = lv2" using parts add_facts_unchanged by (simp add: lv Let_def lv2_def ready_def)
  have same1: "same_facts lv (entering s l maps)" unfolding lv2 lv2_def by (rule same_fired)
  moreover have "same_facts (entering s l maps) lv0"
    unfolding entering_def lv0_def using parts by (intro entered_same) (simp add: Let_def lv0_def)
  ultimately have "same_facts lv lv0" by (rule same_trans)
  then have 1: "reachable (pass_query a g pose lv) = Some (maps, tiles)" using reach same_query by metis
  have "lv_atoms lv (Map_Atom m) \<noteq> None" if "m \<in> maps" for m
    using ok' that parts by (auto simp: pass_ok_def lv Let_def)
  then have 2: "provided lv (At m)" if "m \<in> maps" for m
    using that by (simp add: provided_def level_of_def later_level_def)
  have 3: "provided lv p" if ac: "ac \<in> set acs" "runnable ac maps tiles lv" and p: "p \<in> set (ac_effects ac)" "recordable p"
    for ac p
  proof -
    obtain i where i: "i < length acs" "ac = acs ! i" using ac(1) by (metis in_set_conv_nth)
    have run: "runnable ac (pz_reached s \<union> maps) tiles (entering s l maps)"
      using ac(2) same_provided [OF same1] by (auto simp: runnable_def split: option.splits)
    have len: "length (pz_done s) = length acs" using ok(1) by (simp add: pass_ok_def)
    have "pz_done s' ! i" using parts i run len by (auto simp: Let_def ready_of_def)
    then show ?thesis using ok' i p by (auto simp: pass_ok_def lv)
  qed
  show ?thesis using 1 2 3 by blast
qed

text \<open>For every graph as it is built levels are returned.\<close>

lemma levels_return:
  assumes "params_ok params"
  shows "\<exists>lv. compute_levels a (build_graph a params) pose acs start = Some lv"
  using passes_return [OF assms] by (fastforce simp: compute_levels_def)

section \<open>An example\<close>

text \<open>A world without maps: only what can be done anywhere is done, here giving the tea.\<close>

definition void_atlas :: atlas where
  "void_atlas = \<lparr>al_world = \<lparr>wo_maps = [], wo_by_id = []\<rparr>, al_events = None, al_places = None\<rparr>"

definition tea_giver :: achiever where
  "tea_giver = \<lparr>ac_map = None, ac_pre = [], ac_effects = [Flag ''FLAG_TEA'' True], ac_script = None, ac_spots = [],
    ac_stand_on = False\<rparr>"

lemma void_named: "map_named (al_world (qy_atlas (pass_query void_atlas g pose lv))) name = None"
  by (simp add: pass_query_def query_of_def void_atlas_def map_named_def)

lemma void_reachable:
  "reachable (pass_query void_atlas g in_gym lv) = Some ({''Gym''}, \<lambda>_. {})"
proof -
  let ?q = "(pass_query void_atlas g in_gym lv)\<lparr>qy_pass := Open_Pass, qy_goal := Goal_Nowhere\<rparr>"
  have q: "map_named (al_world (qy_atlas ?q)) name = None" for name using void_named by simp
  have "stand ?q k = None" for k unfolding stand_def q by (simp split: option.split Option.bind_split)
  then have "expand ?q c k st = st" for c k st by (simp add: expand_def)
  then have "\<exists>st. explore ?q = Some st \<and> rs_done st = {key_of (qy_start ?q)}"
    by (simp add: explore_def begin_route_def route_loop.simps [of ?q] Let_def)
  moreover have "flooded_tiles ?q k = {}" for k unfolding flooded_tiles_def q by (simp add: Let_def)
  moreover have "fst (key_of (qy_start ?q)) = ''Gym''"
    by (simp add: pass_query_def query_of_def in_gym_def place_of_pose_def tile_place_def key_of_def)
  ultimately show ?thesis by (auto simp: reachable_def Let_def settled_keys_def)
qed

lemma tea_levels:
  "\<exists>lv. compute_levels void_atlas g in_gym [tea_giver] default_start = Some lv \<and>
    level_of lv (Flag ''FLAG_TEA'' True) = Some 1 \<and> lv_passes lv = 2"
proof -
  have "\<exists>s'. run_passes (Suc (Suc n)) void_atlas g in_gym [tea_giver] 1
      \<lparr>pz_levels = start_levels default_start, pz_done = replicate (length [tea_giver]) False, pz_reached = {}\<rparr> = Some s' \<and>
    level_of (pz_levels s') (Flag ''FLAG_TEA'' True) = Some 1 \<and> lv_passes (pz_levels s') = 2" for n
    by (simp add: one_pass_def void_reachable Let_def enter_maps_def start_levels_def tea_giver_def
        runnable_def spot_reached_def fire_def add_facts_def add_fact_def level_of_def later_level_def start_holds_def
        default_start_def or_else_def)
  from this [of 198] obtain s' where s': "run_passes (Suc (Suc 198)) void_atlas g in_gym [tea_giver] 1
      \<lparr>pz_levels = start_levels default_start, pz_done = replicate (length [tea_giver]) False, pz_reached = {}\<rparr> = Some s'"
    "level_of (pz_levels s') (Flag ''FLAG_TEA'' True) = Some 1" "lv_passes (pz_levels s') = 2"
    by blast
  have "MAX_PASSES = Suc (Suc 198)" by (simp add: MAX_PASSES_def)
  then have "compute_levels void_atlas g in_gym [tea_giver] default_start = Some (pz_levels s')"
    unfolding compute_levels_def using s'(1) by (simp only: option.map)
  then show ?thesis using s'(2,3) by blast
qed


theorem levels_closed_witness:
  "\<exists>lv maps tiles. compute_levels void_atlas (build_graph void_atlas default_params) in_gym [tea_giver] default_start =
      Some lv \<and> reachable (pass_query void_atlas (build_graph void_atlas default_params) in_gym lv) = Some (maps, tiles) \<and>
    \<not> (\<exists>m. m \<in> maps \<and> \<not> provided lv (At m))"
proof -
  obtain lv where lv: "compute_levels void_atlas (build_graph void_atlas default_params) in_gym [tea_giver] default_start =
      Some lv" "lv_passes lv = 2" using tea_levels by blast
  then have "lv_passes lv < MAX_PASSES" by (simp add: MAX_PASSES_def)
  then show ?thesis using levels_closed [OF lv(1)] lv(1) by blast
qed

end
