(* ===== verification/Spec2Isabelle.thy ===== *)
theory Spec2Isabelle
  imports Hid_Report Input_Queue Rel_Delivery Serial_Device Serial_Client Wifi_Client
    Training Rng Sav Gamedata Mechanics World_Map Walk_Path Boulders Effort Belief_Invariant
    Belief_View Obstacles Escape Battle_Limits State_Change Web_Control Route_Cheapest Inference Story_Levels
begin

text \<open>
  Verification library of VisionPokeBot, a program that plays Pokemon FireRed on a console or an
  emulator: it sees frames, keeps a belief of the game, plans, and presses buttons. The library models
  the parts that decide by pure logic over their own state, down to the wire, and proves what they
  promise. Each theory names the files under src/ it translates; its definitions stand in the order of
  the code and carry the code's names where HOL leaves them free.

  \<^bold>\<open>From a command to the console.\<close> A command (Controller: crates/core/src/controller.rs) says which
  buttons to hold and for how long.
  \<^item> Switch_Layout (core/switch.rs) lays the buttons of a GBA on a pro controller; Hid_Report
    (remote/hid.rs) writes the resulting state as the eight bytes of a USB report and reads it back.
    A GBA command keeps its buttons and times on that layout, and a report names the state it came from.
  \<^item> Command_Queue and Input_Queue (remote/queue.rs) hold the commands a device plays: \<open>push\<close>, \<open>cancel\<close>,
    \<open>tick\<close> with its keepalive, and the list of finished commands. Each accepted command is reported
    once and in order; the neutral command releases at once; \<open>tick\<close> returns.
  \<^item> Frame_Schedule (controller/schedule.rs) is the same duty by frames, for the emulator. Queued
    commands are the frames that will be shown, and what \<open>completed_through\<close> reports is exact.
  \<^item> Crc32c, Packet, Stream_Message, Stream_Decoder, Command_Report, Rel_Link (adapters/pabotbase: crc.rs,
    packet.rs, message.rs, report.rs, link.rs) are the layers of the serial protocol, from the checksum to
    the sliding window. Rel_Delivery puts two link ends on a lossy, duplicating, reordering line as a step
    relation and proves in-order delivery without loss by rule induction.
  \<^item> Virtual_Device (pabotbase/device.rs) is the device side over an abstract sink of commands,
    Serial_Device (virtual-console, emulator-libretro) the sink made of a frame schedule, Serial_Client
    (pabotbase/client.rs) the host side, turn by turn of its reader thread. Panics are the value \<open>None\<close>,
    and neither side has one, whatever bytes arrive. An end-to-end theorem takes a command from the host's
    encoder to the frames of the emulator.
  \<^item> Wifi_Client (adapters/esp32-wifi, remote/protocol.rs) talks to a device over request and answer, with
    the failures of the link given as a script of attempts; a timed input leaves the host at most once.

  \<^bold>\<open>What the game computes.\<close>
  \<^item> Gamedata and Mechanics (gamedata/lib.rs, mechanics.rs): species, learnsets, type chart, evolution by
    level, damage, accuracy and catch arithmetic at the widths of the code.
  \<^item> Training (gamedata/training.rs): the stat formula, effort values, and the solver of individual values,
    equal to trying every individual. Effort (state/training.rs): the effort values counted from the battles
    that were seen, against a ghost game that also fights the others.
  \<^item> Rng (gamedata/rng.rs): the generator, its jump by squaring, and the seed search, equal to trying every
    seed and advance. Sav (gamedata/sav.rs): the trainer identifiers of a save's newest valid sector.

  \<^bold>\<open>Where the player can go.\<close>
  \<^item> World_Map (world/lib.rs, behavior.rs): cells, collision, surf, ledges and spin tiles. Walk_Path
    (world/path.rs): the step relation and the search with its binary heap, proved cheapest against walks
    as labelled runs (locale \<open>weighted_moves\<close>, interpreted as \<open>tiles\<close>).
  \<^item> Exploration (a breadth- or depth-first search with labels, as a locale) and Boulders (world/boulders.rs):
    where a boulder can be pushed, exact within the bound on states.

  \<^bold>\<open>What the bot believes.\<close>
  \<^item> Belief (state/knowledge.rs, belief.rs), Game_State (state.rs, party.rs, inventory.rs, view.rs), Badges
    (badges.rs) and Reducer (events.rs, reducer.rs, reduce_knowledge.rs): every event and what it does to the
    belief. Belief_Invariant: the reducer is total, keeps the shapes the types of the code fix, keeps the
    badge list in agreement with the flags, and gets back from a save what was stored.

  \<^item> State_Change (state/change.rs): the notices of what differs between two states; flags, variables, item
    counts and money are told exactly.
  \<^item> Text_Match, Events and Predicates (world/events.rs, predicate.rs): the scripts of the maps and the
    literals a belief can be asked. Locale \<open>belief_view\<close> is the contract of a belief: an answer other than
    unknown is right in every game the belief allows (its \<open>games\<close>).
  \<^item> Gates and Map_Gates (world/gates.rs): the ways through a gate, reduced from the states in which a script
    leaves the tile open or closed, the gates of a map, and what a belief says of them. Belief_View
    (agent/belief_view.rs) interprets the contract on the belief of the bot and on the inferences of a plan.
  \<^item> Obstacles and Escape (world/obstacles.rs, escape.rs): lines of sight, wandering people, and where Dig leads.
    Battle_Limits (agent/limits.rs): what the pages of a battle forbid our battler.
  \<^item> Inference (state/inference.rs, priors.rs): rules from observed facts to derived ones, run until a pass changes
    nothing, and the probability of what was not observed. The loop returns exactly where no two conclusions collide;
    what is derived is true wherever the rules are.

  \<^bold>\<open>Which way to go.\<close> Places (world/places.rs, the atlas of lib.rs) and the routes between maps (world/route.rs):
  \<^item> F64 is the arithmetic of the code's doubles: rationals rounded to 53 bits, ties to even, the infinities and NaN;
    the two zeros are one. Its lemmas carry the routes: rounding is monotone, a sum of times is no less than either.
  \<^item> Route_Graph builds the places and edges of warps, crossings and gates and the ways past people and doors,
    Route_Scripts the warps scripts make and the whole graph (\<open>build_graph\<close>); Route_Times shows every time in it is
    a proper one. Route_Search is the search: what a requirement lacks under a policy, the terrain of a map, walks
    over floods of Walk_Path, the queue of places, the alternatives. Its two loops are \<open>partial_function (option)\<close>.
  \<^item> Route_Cheapest states an allowed way as an inductive relation (\<open>route_walk\<close>) and shows that the search returns,
    with a way none undercuts where no escape warp is known (with one, the code prices an escape by the first best way
    in, and no such claim holds); that legs of open routes can be taken; that alternatives differ. The caches of the
    code are left out, but the key of the cached terrains determines the terrain. The flood's second branch is never
    taken (\<open>reach_exact\<close>).
  \<^item> Story_Levels (planner/levels.rs): the passes over what the story can do, with the facts so far as the belief of
    the route search. A level comes after the levels of what it needs, and nothing is left to add where the passes
    end before their bound of 200, as they do for every input that adds nothing in one of them.

  \<^bold>\<open>Who holds the controller.\<close> Web_Control (telemetry/control.rs): a browser takes, keeps and loses the
    controller by lease, stops and resumes the bot, or shuts it down. The device and the file of the stopped state
    are an environment of functions that may fail; the runs are sequences of requests and steps of the bot.

  \<^bold>\<open>Conventions.\<close> Widths that matter are words (\<open>u8\<close> to \<open>u64\<close> from Prelude) or written with \<open>mod\<close>; others are
  \<open>nat\<close> or \<open>int\<close>. Maps are HOL maps or association lists (where two maps are compared, in the order of the
  code's \<open>BTreeMap\<close>). Errors and panics are \<open>Inl\<close> and \<open>None\<close>. Time is an argument: nanoseconds, frames or
  ticks. Loops are structural or carry a termination proof; \<open>Walk_Path.search_loop\<close>, \<open>Boulders.push_search\<close>,
  \<open>Route_Search.route_loop\<close>, \<open>trace_back\<close> and \<open>Gamedata.evolved_at\<close> may run on in principle and are \<open>partial_function (option)\<close>, and the properties
  about them prove that they return. Locales state the interfaces (the sink under the device, moves with a
  weight, searches, answers of a belief), and each is interpreted on the definitions of the code.

  \<^bold>\<open>Not modelled.\<close> Vision, video and capture (pixels, devices), the sensing that turns readings into events,
  the telemetry server, replay files, the runtime's threads, the libretro FFI, the firmware and the command line are I/O
  or foreign code. The planner's goals and intents and the agent's procedures are long scripts over the parts above
  and are left for their own development. The estimates of catch odds and of battles are not modelled.
\<close>

end
